(* ===== verification/Prelude.thy ===== *)
theory Prelude
  imports Main "HOL-Library.Word" "HOL-Library.Monad_Syntax"
begin

text \<open>
  Shared vocabulary of the development: the machine integers of \<^verbatim>\<open>include/otsys/types.h\<close>,
  the byte lanes of the \<^verbatim>\<open>ot_uni16\<close> and \<^verbatim>\<open>ot_uni32\<close> unions (little-endian build), byte
  buffers with bounds-checked access, and the interface of a store of half-words that the
  file layer is built on.

  Convention for errors: an operation of the C code that has undefined behaviour at some
  input (an access outside the object a pointer points into, a call through a NULL function
  pointer, a NULL dereference) returns \<open>None\<close> there; every defined outcome, the error codes
  of the code included, is a \<open>Some\<close>.
\<close>

unbundle bit_operations_syntax

type_synonym u8 = "8 word"
type_synonym u16 = "16 word"
type_synonym u32 = "32 word"
type_synonym u64 = "64 word"
type_synonym bytes = "u8 list"

named_theorems lane_simps \<open>byte lanes of 16 and 32 bit integers\<close>
named_theorems buf_simps \<open>bounds-checked buffer access\<close>

section \<open>Byte lanes\<close>

text \<open>\<^verbatim>\<open>ot_uni16\<close>: \<open>lo8\<close> is \<^verbatim>\<open>ubyte[0]\<close>, \<open>hi8\<close> is \<^verbatim>\<open>ubyte[1]\<close>.\<close>

definition lo8 :: "u16 \<Rightarrow> u8" where
  "lo8 w = ucast w"

definition hi8 :: "u16 \<Rightarrow> u8" where
  "hi8 w = ucast (drop_bit 8 w)"

definition join16 :: "u8 \<Rightarrow> u8 \<Rightarrow> u16" where
  "join16 b0 b1 = ucast b0 OR push_bit 8 (ucast b1)"

text \<open>\<^verbatim>\<open>ot_uni32\<close>: \<open>lo16\<close> is \<^verbatim>\<open>ushort[0]\<close>, \<open>hi16\<close> is \<^verbatim>\<open>ushort[1]\<close>.\<close>

definition lo16 :: "u32 \<Rightarrow> u16" where
  "lo16 w = ucast w"

definition hi16 :: "u32 \<Rightarrow> u16" where
  "hi16 w = ucast (drop_bit 16 w)"

definition join32 :: "u16 \<Rightarrow> u16 \<Rightarrow> u32" where
  "join32 w0 w1 = ucast w0 OR push_bit 16 (ucast w1)"

lemma unat_u8_u16 [simp]: "unat (ucast (b :: u8) :: u16) = unat b"
  using unsigned_less [where w = b and ?'a = nat]
  by (simp add: unsigned_ucast_eq take_bit_nat_eq_self_iff)

lemma unat_u16_u32 [simp]: "unat (ucast (b :: u16) :: u32) = unat b"
  using unsigned_less [where w = b and ?'a = nat]
  by (simp add: unsigned_ucast_eq take_bit_nat_eq_self_iff)

lemma lo8_join16 [simp, lane_simps]: "lo8 (join16 a b) = a"
  by (rule bit_word_eqI) (auto simp: lo8_def join16_def bit_simps)

lemma hi8_join16 [simp, lane_simps]: "hi8 (join16 a b) = b"
  by (rule bit_word_eqI) (auto simp: hi8_def join16_def bit_simps dest: bit_imp_le_length)

lemma join16_lanes [simp, lane_simps]: "join16 (lo8 w) (hi8 w) = w"
  by (rule bit_word_eqI) (auto simp: lo8_def hi8_def join16_def bit_simps dest: bit_imp_le_length)

lemma lo16_join32 [simp, lane_simps]: "lo16 (join32 a b) = a"
  by (rule bit_word_eqI) (auto simp: lo16_def join32_def bit_simps)

lemma hi16_join32 [simp, lane_simps]: "hi16 (join32 a b) = b"
  by (rule bit_word_eqI) (auto simp: hi16_def join32_def bit_simps dest: bit_imp_le_length)

lemma join32_lanes [simp, lane_simps]: "join32 (lo16 w) (hi16 w) = w"
  by (rule bit_word_eqI) (auto simp: lo16_def hi16_def join32_def bit_simps dest: bit_imp_le_length)

section \<open>Addresses\<close>

text \<open>\<open>even_addr a\<close> is \<^verbatim>\<open>a & ~1\<close>, the half-word an address lies in.\<close>

definition even_addr :: "u16 \<Rightarrow> u16" where
  "even_addr a = a AND NOT 1"

lemma even_addr_minus: "even_addr a = a - (a AND 1)"
proof -
  have "a = (a AND 1) OR (a AND NOT 1)"
    by (rule bit_word_eqI) (auto simp: bit_simps)
  also have "\<dots> = (a AND 1) + (a AND NOT 1)"
    by (rule disjunctive_add_eq_or [symmetric], rule bit_word_eqI) (auto simp: bit_simps)
  finally show ?thesis by (simp add: even_addr_def algebra_simps)
qed

lemma unat_even_addr: "unat (even_addr a) = unat a - unat a mod 2"
proof -
  have *: "unat (a AND 1) = unat a mod 2"
    by (simp add: and_one_eq unat_mod)
  then have "a AND 1 \<le> a" by (simp add: word_le_nat_alt)
  then show ?thesis using * by (simp add: even_addr_minus unat_sub)
qed

lemma even_addr_even [simp]: "even (unat a) \<Longrightarrow> even_addr a = a"
  using unat_even_addr [of a] by (simp add: word_unat_eq_iff even_iff_mod_2_eq_zero)

lemma even_unat_even_addr [simp]: "even (unat (even_addr a))"
  by (simp add: unat_even_addr)


lemma even_addr_idem [simp]: "even_addr (even_addr a) = even_addr a"
  by simp

lemma unat_u16_less [simp]: "unat (a :: u16) < 65536"
  using unsigned_less [where w = a and ?'a = nat] by simp

lemma unat_of_nat_u16: "n < 65536 \<Longrightarrow> unat (of_nat n :: u16) = n"
  by (simp add: unat_of_nat take_bit_nat_eq_self)

lemma unat_add_u16: "unat a + unat b < 65536 \<Longrightarrow> unat (a + b) = unat a + unat (b :: u16)"
  by (simp add: unat_word_ariths)

lemma unat_even_addr_less: "unat (even_addr a) + 1 < 65536"
proof -
  have "unat (even_addr a) \<noteq> 65535"
    using even_unat_even_addr [of a] by (metis even_add odd_numeral)
  then show ?thesis using unat_u16_less [of "even_addr a"] by linarith
qed

lemma and_1_add_double: "(a + 2 * b) AND 1 = a AND (1 :: u16)"
proof -
  have "2 dvd a + 2 * b \<longleftrightarrow> 2 dvd a" by (simp only: dvd_add_left_iff dvd_triv_left)
  then show ?thesis by (simp add: and_one_eq mod2_eq_if)
qed

lemma even_addr_add_double: "even_addr (a + 2 * b) = even_addr a + 2 * b"
  by (simp add: even_addr_minus and_1_add_double)

section \<open>Bounds-checked byte buffers\<close>

text \<open>
  A C object is a list of bytes; an access outside it is \<open>None\<close>. Half-words are stored low
  byte first.
\<close>

definition rd16 :: "bytes \<Rightarrow> nat \<Rightarrow> u16 option" where
  "rd16 m a = (if a + 1 < length m then Some (join16 (m ! a) (m ! (a + 1))) else None)"

definition wr16 :: "bytes \<Rightarrow> nat \<Rightarrow> u16 \<Rightarrow> bytes option" where
  "wr16 m a w = (if a + 1 < length m then Some (m[a := lo8 w, a + 1 := hi8 w]) else None)"

definition rd_bytes :: "bytes \<Rightarrow> nat \<Rightarrow> nat \<Rightarrow> bytes option" where
  "rd_bytes m a n = (if a + n \<le> length m then Some (take n (drop a m)) else None)"

definition wr_bytes :: "bytes \<Rightarrow> nat \<Rightarrow> bytes \<Rightarrow> bytes option" where
  "wr_bytes m a bs =
     (if a + length bs \<le> length m then Some (take a m @ bs @ drop (a + length bs) m) else None)"

lemma rd16_eq_Some [buf_simps]:
  "rd16 m a = Some w \<longleftrightarrow> a + 1 < length m \<and> w = join16 (m ! a) (m ! (a + 1))"
  by (auto simp: rd16_def)

lemma wr16_eq_Some [buf_simps]:
  "wr16 m a w = Some m' \<longleftrightarrow> a + 1 < length m \<and> m' = m[a := lo8 w, a + 1 := hi8 w]"
  by (auto simp: wr16_def)

lemma rd16_wr16_same: "wr16 m a w = Some m' \<Longrightarrow> rd16 m' a = Some w"
  by (auto simp: buf_simps)

lemma rd16_wr16_other:
  "wr16 m a w = Some m' \<Longrightarrow> b + 1 < a \<or> a + 1 < b \<Longrightarrow> rd16 m' b = rd16 m b"
  by (auto simp: buf_simps rd16_def)

lemma length_wr16: "wr16 m a w = Some m' \<Longrightarrow> length m' = length m"
  by (auto simp: buf_simps)

lemma nth_wr16_other: "wr16 m a w = Some m' \<Longrightarrow> i \<noteq> a \<Longrightarrow> i \<noteq> a + 1 \<Longrightarrow> m' ! i = m ! i"
  by (auto simp: buf_simps)

lemma wr_bytes_eq_Some [buf_simps]:
  "wr_bytes m a bs = Some m' \<longleftrightarrow>
     a + length bs \<le> length m \<and> m' = take a m @ bs @ drop (a + length bs) m"
  by (auto simp: wr_bytes_def)

lemma rd_bytes_eq_Some [buf_simps]:
  "rd_bytes m a n = Some bs \<longleftrightarrow> a + n \<le> length m \<and> bs = take n (drop a m)"
  by (auto simp: rd_bytes_def)

lemma length_rd_bytes: "rd_bytes m a n = Some bs \<Longrightarrow> length bs = n"
  by (auto simp: buf_simps)

lemma length_wr_bytes: "wr_bytes m a bs = Some m' \<Longrightarrow> length m' = length m"
  by (auto simp: buf_simps)

lemma rd_bytes_wr_bytes:
  "wr_bytes m a bs = Some m' \<Longrightarrow> rd_bytes m' a (length bs) = Some bs"
  by (auto simp: buf_simps)

section \<open>Stores of half-words\<close>

text \<open>
  The sequences of half-word accesses that the file layer makes: \<open>wr_seq wr a ds\<close> writes
  \<open>ds\<close> at \<open>a\<close>, \<open>a + 2\<close>, \dots and ORs the return codes, \<open>rd_seq rd a n\<close> reads \<open>n\<close>
  half-words.
\<close>

fun wr_seq :: "(u16 \<Rightarrow> u16 \<Rightarrow> 's \<Rightarrow> (u8 \<times> 's) option) \<Rightarrow> u16 \<Rightarrow> u16 list \<Rightarrow> 's \<Rightarrow> (u8 \<times> 's) option"
  where
  "wr_seq wr a [] s = Some (0, s)"
| "wr_seq wr a (d # ds) s = do {
     (r, s1) \<leftarrow> wr a d s;
     (rs, s2) \<leftarrow> wr_seq wr (a + 2) ds s1;
     Some (r OR rs, s2)
   }"

fun rd_seq :: "(u16 \<Rightarrow> 's \<Rightarrow> u16 option) \<Rightarrow> u16 \<Rightarrow> nat \<Rightarrow> 's \<Rightarrow> u16 list option" where
  "rd_seq rd a 0 s = Some []"
| "rd_seq rd a (Suc n) s = do {
     d \<leftarrow> rd a s;
     ds \<leftarrow> rd_seq rd (a + 2) n s;
     Some (d # ds)
   }"

lemma rd_seq_take:
  "rd_seq rd a n s = Some (take n ws) \<Longrightarrow> n \<le> length ws \<Longrightarrow> k \<le> n \<Longrightarrow> rd_seq rd a k s = Some (take k ws)"
proof (induction n arbitrary: a k ws)
  case 0
  then show ?case by simp
next
  case (Suc n)
  from Suc.prems(2) obtain w ws' where w: "ws = w # ws'" by (cases ws) simp_all
  show ?case
  proof (cases k)
    case 0
    then show ?thesis by simp
  next
    case (Suc j)
    then show ?thesis using Suc.prems Suc.IH [of "a + 2" ws' j] w by (auto simp: bind_eq_Some_conv)
  qed
qed

primrec span16 :: "u16 \<Rightarrow> nat \<Rightarrow> u16 set" where
  "span16 a 0 = {}"
| "span16 a (Suc n) = insert (even_addr a) (span16 (a + 2) n)"

lemma span16_iff: "b \<in> span16 a n \<longleftrightarrow> (\<exists>i < n. b = even_addr (a + 2 * of_nat i))"
proof (induction n arbitrary: a)
  case 0
  then show ?case by simp
next
  case (Suc n)
  show ?case
    by (simp add: Suc Ex_less_Suc2 add.assoc distrib_left)
qed

lemma span16_fresh:
  assumes "n < 32768"
  shows "even_addr a \<notin> span16 (a + 2) n"
proof
  assume "even_addr a \<in> span16 (a + 2) n"
  then obtain i where i: "i < n" and "even_addr a = even_addr (a + 2 * of_nat (Suc i))"
    by (auto simp: span16_iff distrib_left add.assoc)
  then have "2 * of_nat (Suc i) = (0 :: u16)"
    by (simp only: even_addr_add_double) (metis add_cancel_right_right)
  then have "of_nat (2 * Suc i) = (0 :: u16)" by (simp only: of_nat_mult of_nat_numeral)
  then have "65536 dvd 2 * Suc i"
    using word_of_nat_eq_0_iff [of "2 * Suc i", where ?'a = 16] by simp
  then have "65536 \<le> 2 * Suc i" by (rule dvd_imp_le) simp
  moreover have "Suc i < 32768" using i assms by simp
  ultimately show False by simp
qed

text \<open>A buffer as half-words, low byte first; a last odd byte is left out.\<close>

fun halfwords :: "bytes \<Rightarrow> u16 list" where
  "halfwords (b0 # b1 # bs) = join16 b0 b1 # halfwords bs"
| "halfwords _ = []"

fun hw_bytes :: "u16 list \<Rightarrow> bytes" where
  "hw_bytes [] = []"
| "hw_bytes (w # ws) = lo8 w # hi8 w # hw_bytes ws"

lemma length_halfwords [simp]: "length (halfwords bs) = length bs div 2"
  by (induction bs rule: halfwords.induct) auto

lemma hw_bytes_halfwords: "hw_bytes (halfwords bs) = take (2 * (length bs div 2)) bs"
  by (induction bs rule: halfwords.induct) auto

lemma length_hw_bytes [simp]: "length (hw_bytes ws) = 2 * length ws"
  by (induction ws) auto

lemma hw_bytes_take: "hw_bytes (take k ws) = take (2 * k) (hw_bytes ws)"
proof (induction ws arbitrary: k)
  case Nil
  then show ?case by simp
next
  case (Cons w ws)
  then show ?case by (cases k) auto
qed

lemma take_hw_bytes_halfwords:
  assumes "n \<le> 2 * k" and "2 * k \<le> length bs"
  shows "take n (hw_bytes (take k (halfwords bs))) = take n bs"
proof -
  have "min n (min (2 * k) (2 * (length bs div 2))) = n" using assms by auto
  then show ?thesis by (simp only: hw_bytes_take hw_bytes_halfwords take_take)
qed

section \<open>The interface the file layer relies on\<close>

text \<open>
  A store of half-words: the half-words that are \<open>mapped\<close> can be read and written, a write
  returns 0, is seen by the reads of the same half-word and by no other read, and does not
  change what is mapped. The clients are the loops that move blocks of half-words.
\<close>

locale halfword_store =
  fixes rd :: "u16 \<Rightarrow> 's \<Rightarrow> u16 option"
    and wr :: "u16 \<Rightarrow> u16 \<Rightarrow> 's \<Rightarrow> (u8 \<times> 's) option"
    and mapped :: "u16 \<Rightarrow> 's \<Rightarrow> bool"
  assumes mapped_even: "even_addr b = even_addr a \<Longrightarrow> mapped b s = mapped a s"
    and rd_iff_mapped: "(\<exists>v. rd a s = Some v) \<longleftrightarrow> mapped a s"
    and wr_iff_mapped: "(\<exists>r. wr a v s = Some r) \<longleftrightarrow> mapped a s"
    and wr_code: "wr a v s = Some (r, s') \<Longrightarrow> r = 0"
    and rd_wr_same: "wr a v s = Some (r, s') \<Longrightarrow> even_addr b = even_addr a \<Longrightarrow> rd b s' = Some v"
    and rd_wr_other: "wr a v s = Some (r, s') \<Longrightarrow> even_addr b \<noteq> even_addr a \<Longrightarrow> rd b s' = rd b s"
begin

lemmas rd_mappedI = rd_iff_mapped [THEN iffD1, OF exI]

lemmas wr_mappedI = wr_iff_mapped [THEN iffD1, OF exI]

lemma mapped_wr:
  assumes w: "wr a v s = Some (r, s')"
  shows "mapped b s' = mapped b s"
proof (cases "even_addr b = even_addr a")
  case True
  have "mapped a s" using w by (rule wr_mappedI)
  then have "mapped b s" by (simp only: mapped_even [OF True])
  moreover have "mapped b s'"
    using rd_wr_same [OF w True] by (rule rd_mappedI)
  ultimately show ?thesis by simp
next
  case False
  then show ?thesis by (simp only: rd_iff_mapped [symmetric] rd_wr_other [OF w False])
qed

lemma wr_seq_code: "wr_seq wr a ds s = Some (r, s') \<Longrightarrow> r = 0"
proof (induction ds arbitrary: a s r s')
  case Nil
  then show ?case by simp
next
  case (Cons d ds)
  then show ?case by (fastforce simp: bind_eq_Some_conv dest: wr_code)
qed

lemma wr_seq_other:
  "wr_seq wr a ds s = Some (r, s') \<Longrightarrow> even_addr b \<notin> span16 a (length ds) \<Longrightarrow> rd b s' = rd b s"
proof (induction ds arbitrary: a s r s')
  case Nil
  then show ?case by simp
next
  case (Cons d ds)
  from Cons.prems obtain r1 s1 r2 where 1: "wr a d s = Some (r1, s1)"
    and 2: "wr_seq wr (a + 2) ds s1 = Some (r2, s')"
    by (auto simp: bind_eq_Some_conv)
  have "rd b s' = rd b s1" using Cons.IH [OF 2] Cons.prems(2) by simp
  also have "\<dots> = rd b s" using rd_wr_other [OF 1] Cons.prems(2) by simp
  finally show ?case .
qed

lemma rd_seq_wr_seq:
  "wr_seq wr a ds s = Some (r, s') \<Longrightarrow> length ds \<le> 32768 \<Longrightarrow>
   rd_seq rd a (length ds) s' = Some ds"
proof (induction ds arbitrary: a s r s')
  case Nil
  then show ?case by simp
next
  case (Cons d ds)
  from Cons.prems obtain r1 s1 r2 where 1: "wr a d s = Some (r1, s1)"
    and 2: "wr_seq wr (a + 2) ds s1 = Some (r2, s')"
    by (auto simp: bind_eq_Some_conv)
  have "rd a s' = rd a s1"
    using 2 by (rule wr_seq_other) (use Cons.prems(2) in \<open>auto intro!: span16_fresh\<close>)
  also have "\<dots> = Some d" using 1 by (rule rd_wr_same) simp
  finally have "rd a s' = Some d" .
  moreover have "rd_seq rd (a + 2) (length ds) s' = Some ds"
    using Cons.IH [OF 2] Cons.prems(2) by simp
  ultimately show ?case by simp
qed

lemma wr_seq_defined:
  "(\<And>i. i < length ds \<Longrightarrow> mapped (a + 2 * of_nat i) s) \<Longrightarrow> \<exists>s'. wr_seq wr a ds s = Some (0, s')"
proof (induction ds arbitrary: a s)
  case Nil
  then show ?case by simp
next
  case (Cons d ds)
  have "mapped a s" using Cons.prems [of 0] by simp
  then obtain r1 s1 where 1: "wr a d s = Some (r1, s1)"
    using wr_iff_mapped [of a d s] by auto
  have "\<exists>s'. wr_seq wr (a + 2) ds s1 = Some (0, s')"
  proof (rule Cons.IH)
    fix i assume "i < length ds"
    then have "mapped (a + 2 * of_nat (Suc i)) s" by (intro Cons.prems) simp
    then show "mapped (a + 2 + 2 * of_nat i) s1"
      using mapped_wr [OF 1] by (simp add: algebra_simps)
  qed
  then show ?case using 1 wr_code [OF 1] by auto
qed

lemma rd_seq_defined:
  "(\<And>i. i < n \<Longrightarrow> mapped (a + 2 * of_nat i) s) \<Longrightarrow> \<exists>ds. rd_seq rd a n s = Some ds"
proof (induction n arbitrary: a)
  case 0
  then show ?case by simp
next
  case (Suc n)
  have "mapped a s" using Suc.prems [of 0] by simp
  then obtain d where "rd a s = Some d" using rd_iff_mapped [of a s] by auto
  moreover have "\<exists>ds. rd_seq rd (a + 2) n s = Some ds"
  proof (rule Suc.IH)
    fix i assume "i < n"
    then have "mapped (a + 2 * of_nat (Suc i)) s" by (intro Suc.prems) simp
    then show "mapped (a + 2 + 2 * of_nat i) s" by (simp add: algebra_simps)
  qed
  ultimately show ?case by auto
qed

end

end
