(* ===== verification/Ot_Time.thy ===== *)
theory Ot_Time
  imports Prelude
begin

text \<open>
  The system time module: \<^verbatim>\<open>otsys/time.c\<close> with the POSIX driver of
  \<^verbatim>\<open>platform/posix_c/otsys_time.c\<close> (\<^verbatim>\<open>EXTF_time_load_now\<close> is defined in the default build,
  and \<^verbatim>\<open>OT_GPTIM_SHIFT\<close> is 0, so \<^verbatim>\<open>_UPPER_SHIFT\<close> is 22 and \<^verbatim>\<open>_LOWER_SHIFT\<close> is 10).

  \<^verbatim>\<open>clock_gettime\<close> is not code of the repository: its successive answers are the component
  \<open>rtc\<close> of the state, \<open>rtc s i\<close> being the pair of seconds and nanoseconds of the \<open>i\<close>-th
  call, and \<open>rtc_n\<close> counts the calls made.
\<close>

record ot_time =
  upper :: u32
  clocks :: u32

record time_state =
  time_sys :: ot_time
  time_start :: ot_time
  rtc :: "nat \<Rightarrow> nat \<times> nat"
  rtc_n :: nat

abbreviation (input) UPPER_SHIFT :: nat where "UPPER_SHIFT \<equiv> 22"
abbreviation (input) LOWER_SHIFT :: nat where "LOWER_SHIFT \<equiv> 10"

section \<open>The POSIX driver\<close>

text \<open>
  \<^verbatim>\<open>round(tv_nsec / 976562.5)\<close>: the quotient is \<open>2 * ns / 1953125\<close>, which is never halfway
  between two integers, so rounding is the floor of the quotient plus one half.
\<close>

definition ti_of_nsec :: "nat \<Rightarrow> nat" where
  "ti_of_nsec ns = (4 * ns + 1953125) div 3906250"

definition ot_time_of :: "nat \<times> nat \<Rightarrow> ot_time" where
  "ot_time_of tspec =
     (let s = of_nat (fst tspec) :: u32;
          ti = of_nat (ti_of_nsec (snd tspec)) :: u32;
          (s, ti) = (if ti > 1023 then (s + 1, 0) else (s, ti))
      in \<lparr>upper = drop_bit UPPER_SHIFT s, clocks = push_bit LOWER_SHIFT s OR ti\<rparr>)"

definition time_load_now :: "'a time_state_scheme \<Rightarrow> ot_time \<times> 'a time_state_scheme" where
  "time_load_now s = (ot_time_of (rtc s (rtc_n s)), s\<lparr>rtc_n := Suc (rtc_n s)\<rparr>)"

section \<open>Operations\<close>

definition time_init :: "ot_time \<Rightarrow> 'a time_state_scheme \<Rightarrow> 'a time_state_scheme" where
  "time_init init_time s = s\<lparr>time_sys := init_time, time_start := init_time\<rparr>"

definition time_init_utc :: "u32 \<Rightarrow> 'a time_state_scheme \<Rightarrow> 'a time_state_scheme" where
  "time_init_utc utc s =
     (let t = \<lparr>upper = drop_bit UPPER_SHIFT utc, clocks = push_bit LOWER_SHIFT utc\<rparr>
      in s\<lparr>time_sys := t, time_start := t\<rparr>)"

definition time_set :: "ot_time \<Rightarrow> 'a time_state_scheme \<Rightarrow> 'a time_state_scheme" where
  "time_set set_time s =
     (let (delta, s) = time_load_now s;
          s = s\<lparr>time_sys := set_time\<rparr>;
          dupper = (upper (time_sys s) - upper delta)
                     + of_bool (clocks (time_sys s) < clocks delta);
          dclocks = clocks (time_sys s) - clocks delta;
          sclocks = clocks (time_start s) + dclocks;
          supper = upper (time_start s) + (dupper + of_bool (sclocks < dclocks))
      in s\<lparr>time_start := \<lparr>upper = supper, clocks = sclocks\<rparr>\<rparr>)"

definition time_set_utcprecise :: "u32 \<Rightarrow> u32 \<Rightarrow> 'a time_state_scheme \<Rightarrow> 'a time_state_scheme"
  where
  "time_set_utcprecise utc subseconds s =
     time_set \<lparr>upper = drop_bit UPPER_SHIFT utc,
               clocks = push_bit LOWER_SHIFT utc OR subseconds\<rparr> s"

definition time_set_utc :: "u32 \<Rightarrow> 'a time_state_scheme \<Rightarrow> 'a time_state_scheme" where
  "time_set_utc utc s = time_set_utcprecise utc 0 s"

definition time_get :: "'a time_state_scheme \<Rightarrow> ot_time" where
  "time_get s = time_sys s"

definition time_get_utc :: "'a time_state_scheme \<Rightarrow> u32 \<times> 'a time_state_scheme" where
  "time_get_utc s =
     (let (now, s) = time_load_now s
      in (push_bit UPPER_SHIFT (upper now) OR drop_bit LOWER_SHIFT (clocks now), s))"

definition time_uptime_secs :: "'a time_state_scheme \<Rightarrow> u32 \<times> 'a time_state_scheme" where
  "time_uptime_secs s =
     (let (now, s) = time_load_now s;
          startsecs = push_bit UPPER_SHIFT (upper (time_start s))
                        + drop_bit LOWER_SHIFT (clocks (time_start s));
          nowsecs = push_bit UPPER_SHIFT (upper now) + drop_bit LOWER_SHIFT (clocks now)
      in (nowsecs - startsecs, s))"

definition time_uptime :: "'a time_state_scheme \<Rightarrow> u32 \<times> 'a time_state_scheme" where
  "time_uptime s =
     (let (now, s) = time_load_now s in (clocks now - clocks (time_start s), s))"

definition time_add :: "u32 \<Rightarrow> 'a time_state_scheme \<Rightarrow> 'a time_state_scheme" where
  "time_add clks s =
     (let scratch = clks + clocks (time_sys s)
      in s\<lparr>time_sys := \<lparr>upper = upper (time_sys s) + of_bool (scratch < clks),
                        clocks = scratch\<rparr>\<rparr>)"

definition time_add_ti :: "u32 \<Rightarrow> 'a time_state_scheme \<Rightarrow> 'a time_state_scheme" where
  "time_add_ti ticks s =
     (let ticks = push_bit 0 ticks;
          scratch = ticks + clocks (time_sys s)
      in s\<lparr>time_sys := \<lparr>upper = upper (time_sys s) + of_bool (scratch < ticks),
                        clocks = scratch\<rparr>\<rparr>)"

section \<open>The 64-bit clock the two words represent\<close>

definition tval :: "ot_time \<Rightarrow> int" where
  "tval t = uint (upper t) * 2 ^ 32 + uint (clocks t)"

definition utc_secs :: "nat \<times> nat \<Rightarrow> u32" where
  "utc_secs tspec = of_nat (fst tspec) + of_bool (1023 < ti_of_nsec (snd tspec))"

lemma ti_of_nsec_le: "ns < 1000000000 \<Longrightarrow> ti_of_nsec ns \<le> 1024"
  by (simp add: ti_of_nsec_def)

lemma ti_word_less:
  assumes "ns < 1000000000"
  shows "(1023 < (of_nat (ti_of_nsec ns) :: u32)) = (1023 < ti_of_nsec ns)"
proof -
  have "unat (of_nat (ti_of_nsec ns) :: u32) = ti_of_nsec ns"
    using ti_of_nsec_le [OF assms] by (simp add: unat_of_nat take_bit_eq_mod)
  then show ?thesis by (simp add: word_less_nat_alt)
qed

lemma secs_roundtrip:
  fixes s ti :: u32
  assumes "ti \<le> 1023"
  shows "push_bit 22 (drop_bit 22 s) OR drop_bit 10 (push_bit 10 s OR ti) = s"
proof -
  have "take_bit 10 ti = ti"
    using assms
    by (simp add: word_unat_eq_iff unsigned_take_bit_eq word_le_nat_alt take_bit_nat_eq_self_iff)
  then have "\<not> bit ti n" if "10 \<le> n" for n
    using that by (metis bit_take_bit_iff not_le)
  then show ?thesis
    by (intro bit_word_eqI) (auto simp: bit_simps)
qed


lemma uint_add_carry:
  fixes a b :: u32
  shows "uint (a + b) = uint a + uint b - 2 ^ 32 * of_bool (a + b < b)"
  using uint_lt2p [of a] uint_lt2p [of b] uint_ge_0 [of a] uint_ge_0 [of b]
  by (auto simp: uint_plus_if' word_less_def)

lemma uint_sub_borrow:
  fixes a b :: u32
  shows "uint (a - b) = uint a - uint b + 2 ^ 32 * of_bool (a < b)"
  using uint_lt2p [of a] uint_lt2p [of b] uint_ge_0 [of a] uint_ge_0 [of b]
  by (auto simp: uint_sub_if' word_less_def)

lemma uint_upper_mod:
  fixes a :: u32
  assumes "uint a = x mod 2 ^ 32"
  shows "(uint a * 2 ^ 32 + c) mod 2 ^ 64 = (x * 2 ^ 32 + c) mod 2 ^ 64"
proof -
  have "uint a * 2 ^ 32 mod 2 ^ 64 = (x * 2 ^ 32) mod 2 ^ 64"
    using mult_mod_right [of "2 ^ 32" x "2 ^ 32 :: int"] assms by (simp add: mult.commute)
  then show ?thesis by (metis mod_add_left_eq)
qed

lemma tval_carry:
  "tval \<lparr>upper = u + of_bool b, clocks = c\<rparr> mod 2 ^ 64 =
   (tval \<lparr>upper = u, clocks = c\<rparr> + 2 ^ 32 * of_bool b) mod 2 ^ 64"
proof -
  have "uint (u + of_bool b) = (uint u + of_bool b) mod 2 ^ 32"
    by (simp add: uint_word_ariths)
  from uint_upper_mod [OF this, of "uint c"] show ?thesis
    by (simp add: tval_def algebra_simps)
qed

lemma tval_add:
  "tval \<lparr>upper = a + (b + of_bool (c + d < d)), clocks = c + d\<rparr> mod 2 ^ 64 =
   (tval \<lparr>upper = a, clocks = c\<rparr> + tval \<lparr>upper = b, clocks = d\<rparr>) mod 2 ^ 64"
proof -
  have "uint (a + b) = (uint a + uint b) mod 2 ^ 32" by (simp add: uint_word_ariths)
  from uint_upper_mod [OF this, of "uint c + uint d"]
  have "(tval \<lparr>upper = a + b, clocks = c + d\<rparr> + 2 ^ 32 * of_bool (c + d < d)) mod 2 ^ 64 =
        (tval \<lparr>upper = a, clocks = c\<rparr> + tval \<lparr>upper = b, clocks = d\<rparr>) mod 2 ^ 64"
    by (simp add: tval_def uint_add_carry [of c d] algebra_simps)
  then show ?thesis
    using tval_carry [of "a + b" "c + d < d" "c + d"] by (simp add: add.assoc)
qed

lemma tval_sub:
  "(tval \<lparr>upper = a - b, clocks = c - d\<rparr> - 2 ^ 32 * of_bool (c < d)) mod 2 ^ 64 =
   (tval \<lparr>upper = a, clocks = c\<rparr> - tval \<lparr>upper = b, clocks = d\<rparr>) mod 2 ^ 64"
proof -
  have "uint (a - b) = (uint a - uint b) mod 2 ^ 32" by (simp add: uint_word_ariths)
  from uint_upper_mod [OF this, of "uint c - uint d"] show ?thesis
    by (simp add: tval_def uint_sub_borrow [of c d] algebra_simps)
qed



text \<open>
  Advancing the system time by a number of clocks adds that number to the 64-bit value
  of the two words, modulo \<open>2 ^ 64\<close>: the carry out of \<open>clocks\<close> is detected correctly.
\<close>

theorem time_add_tval:
  "tval (time_sys (time_add clks s)) mod 2 ^ 64 = (tval (time_sys s) + uint clks) mod 2 ^ 64"
  using tval_add [of "upper (time_sys s)" 0 "clocks (time_sys s)" clks]
  by (simp add: time_add_def tval_def Let_def add.commute [of clks])

text \<open>
  Setting the time moves the recorded start time by the distance from the old time
  to the new one, modulo \<open>2 ^ 64\<close>, so that the uptime is kept; except that when the low
  words borrow the code adds the borrow instead of subtracting it, and the start time
  comes out \<open>2 * 2 ^ 32\<close> clocks too late.
\<close>

theorem time_set_start:
  "tval (time_start (time_set t s)) mod 2 ^ 64 =
   (tval (time_start s) + (tval t - tval (fst (time_load_now s)))
      + 2 * 2 ^ 32 * of_bool (clocks t < clocks (fst (time_load_now s)))) mod 2 ^ 64"
proof -
  obtain now s1 where l: "time_load_now s = (now, s1)" by fastforce
  then have st: "time_start s1 = time_start s" by (auto simp: time_load_now_def)
  let ?b = "clocks t < clocks now"
  let ?d = "\<lparr>upper = upper t - upper now, clocks = clocks t - clocks now\<rparr>"
  have d: "tval \<lparr>upper = upper t - upper now + of_bool ?b, clocks = clocks t - clocks now\<rparr> mod 2 ^ 64 =
           (tval t - tval now + 2 * 2 ^ 32 * of_bool ?b) mod 2 ^ 64" (is "tval ?d' mod _ = _")
  proof -
    have "tval ?d' mod 2 ^ 64 = (tval ?d + 2 ^ 32 * of_bool ?b) mod 2 ^ 64"
      by (rule tval_carry)
    also have "\<dots> = ((tval ?d - 2 ^ 32 * of_bool ?b) mod 2 ^ 64 + 2 * 2 ^ 32 * of_bool ?b) mod 2 ^ 64"
      unfolding mod_add_left_eq by (rule arg_cong [where f = "\<lambda>x. x mod 2 ^ 64"]) simp
    also have "\<dots> = ((tval t - tval now) mod 2 ^ 64 + 2 * 2 ^ 32 * of_bool ?b) mod 2 ^ 64"
      unfolding tval_sub by (simp add: tval_def)
    finally show ?thesis by (simp add: mod_add_left_eq)
  qed
  have "tval (time_start (time_set t s)) mod 2 ^ 64 = (tval (time_start s) + tval ?d') mod 2 ^ 64"
    using tval_add [of "upper (time_start s)" "upper ?d'" "clocks (time_start s)" "clocks ?d'"]
    by (simp add: time_set_def l st Let_def tval_def)
  also have "\<dots> = (tval (time_start s) + tval ?d' mod 2 ^ 64) mod 2 ^ 64"
    by (simp add: mod_add_right_eq)
  finally show ?thesis unfolding d by (simp add: l mod_add_right_eq add.assoc)
qed

end
