(* ===== verification/Ot_Auth.thy ===== *)
theory Ot_Auth
  imports Ot_Time
begin

text \<open>
  The authentication table of \<^verbatim>\<open>otlib/auth.c\<close>: identities, access checks, key management
  and nonces, in the default build (\<^verbatim>\<open>OT_FEATURE_DLL_SECURITY\<close>, so \<^verbatim>\<open>_SEC_ANY\<close>, with
  \<^verbatim>\<open>AUTH_NUM_ELEMENTS\<close> 3, the static table). \<^verbatim>\<open>auth_init\<close> reads key files and is in
  \<open>Auth_Init\<close>.

  The expansion of a key by OTEAX (\<^verbatim>\<open>EAXdrv_init\<close>) is not code of the repository: it is the
  argument \<open>expand\<close> of the operations that use it, a context being the bytes of an
  \<^verbatim>\<open>eax_ctx\<close>. The answers of \<^verbatim>\<open>rand()\<close> are the component \<open>rand_src\<close> of the state.
\<close>

section \<open>Data\<close>

text \<open>
  An \<^verbatim>\<open>id_tmpl*\<close>: NULL, the address of one of the three built-in identities, or a pointer to
  a template with its length and the bytes at its value pointer.
\<close>

datatype id_ref =
    Id_NULL
  | Auth_root
  | Auth_user
  | Auth_guest
  | Id_tmpl (id_length: u8) (id_value: bytes)

datatype idclass = ID_localguest | ID_localroot | ID_localuser | ID_normal

primrec idclass_code :: "idclass \<Rightarrow> int" where
  "idclass_code ID_localguest = -1"
| "idclass_code ID_localroot = 0"
| "idclass_code ID_localuser = 1"
| "idclass_code ID_normal = 2"

lemma inj_idclass_code: "idclass_code a = idclass_code b \<longleftrightarrow> a = b"
  by (cases a; cases b) simp_all

text \<open>The C code compares values of \<^verbatim>\<open>idclass_t\<close>: the order of their codes.\<close>

instantiation idclass :: linorder
begin

definition less_eq_idclass :: "idclass \<Rightarrow> idclass \<Rightarrow> bool" where
  "less_eq_idclass a b \<longleftrightarrow> idclass_code a \<le> idclass_code b"

definition less_idclass :: "idclass \<Rightarrow> idclass \<Rightarrow> bool" where
  "less_idclass a b \<longleftrightarrow> idclass_code a < idclass_code b"

instance
  by standard (auto simp: less_eq_idclass_def less_idclass_def inj_idclass_code)

end

record authinfo =
  ai_id :: u64
  ai_mflags :: u16
  ai_EOL :: u32

record auth_state = time_state +
  dlls_nonce :: u32
  dlls_size :: u16
  dlls_info :: "authinfo list"
  dlls_ctx :: "bytes list"
  rand_src :: "nat \<Rightarrow> u32"
  rand_n :: nat

datatype keytype = KEYTYPE_none | KEYTYPE_AES128

definition AUTH_NUM_ELEMENTS :: nat where "AUTH_NUM_ELEMENTS = 3"
definition AUTH_MIN_LIFETIME :: u32 where "AUTH_MIN_LIFETIME = 3600"
definition AUTHMOD_guest :: u8 where "AUTHMOD_guest = 0"
definition AUTHMOD_user :: u8 where "AUTHMOD_user = 7"
definition AUTHMOD_root :: u8 where "AUTHMOD_root = 56"

lemmas authmod_defs = AUTHMOD_guest_def AUTHMOD_user_def AUTHMOD_root_def

section \<open>Identities\<close>

text \<open>
  The fall-through \<^verbatim>\<open>switch\<close> on the length: byte \<open>i\<close> of the value goes to bits
  \<open>8 * n\<close>, for \<open>n\<close> from the length less one down to 0.
\<close>

fun id64_bytes :: "nat \<Rightarrow> bytes \<Rightarrow> nat \<Rightarrow> u64 \<Rightarrow> u64 option" where
  "id64_bytes 0 v i acc = Some acc"
| "id64_bytes (Suc n) v i acc =
     (if i < length v then id64_bytes n v (Suc i) (acc OR push_bit (8 * n) (ucast (v ! i)))
      else None)"

text \<open>The second argument is the content of \<^verbatim>\<open>*id64\<close> before the call.\<close>

fun sub_make_id64 :: "id_ref \<Rightarrow> u64 \<Rightarrow> (idclass \<times> u64) option" where
  "sub_make_id64 Id_NULL id64 = Some (ID_localroot, id64)"
| "sub_make_id64 Auth_root id64 = Some (ID_localroot, id64)"
| "sub_make_id64 Auth_user id64 = Some (ID_localuser, id64)"
| "sub_make_id64 Auth_guest id64 = Some (ID_localguest, id64)"
| "sub_make_id64 (Id_tmpl n v) id64 =
     (if unat n \<le> 8
      then map_option (Pair ID_normal) (id64_bytes (unat n) v 0 0)
      else Some (ID_normal, 0))"

section \<open>Searching the table\<close>

text \<open>
  \<^verbatim>\<open>sub_search_user\<close>: a match whose end of life has come is wiped, demoted to guest and
  passed over.
\<close>

definition expire_key :: "nat \<Rightarrow> 'a auth_state_scheme \<Rightarrow> 'a auth_state_scheme" where
  "expire_key i s = s\<lparr>
     dlls_ctx := (dlls_ctx s)[i := replicate (length (dlls_ctx s ! i)) 0],
     dlls_info := (dlls_info s)[i := (dlls_info s ! i)\<lparr>ai_mflags := ucast AUTHMOD_guest\<rparr>]\<rparr>"

definition key_matches :: "u64 \<Rightarrow> u8 \<Rightarrow> authinfo \<Rightarrow> bool" where
  "key_matches id64 reqmod e \<longleftrightarrow> id64 = ai_id e \<and> ucast reqmod \<le> (ai_mflags e AND 0x3F)"

fun search_loop ::
  "nat \<Rightarrow> nat \<Rightarrow> u64 \<Rightarrow> u8 \<Rightarrow> 'a auth_state_scheme \<Rightarrow> (int \<times> 'a auth_state_scheme) option" where
  "search_loop 0 i id64 reqmod s = Some (- 1, s)"
| "search_loop (Suc n) i id64 reqmod s =
     (if i < length (dlls_info s) then
        let e = dlls_info s ! i in
        if key_matches id64 reqmod e then
          if ai_EOL e \<noteq> 0 then
            let (now, s) = time_get_utc s in
            if ai_EOL e \<le> now then search_loop n (Suc i) id64 reqmod (expire_key i s)
            else Some (int i, s)
          else Some (int i, s)
        else search_loop n (Suc i) id64 reqmod s
      else None)"

definition sub_search_user ::
  "u64 \<Rightarrow> u8 \<Rightarrow> 'a auth_state_scheme \<Rightarrow> (int \<times> 'a auth_state_scheme) option" where
  "sub_search_user id64 reqmod s = search_loop (unat (dlls_size s) - 2) 2 id64 reqmod s"

definition auth_search_user ::
  "id_ref \<Rightarrow> u8 \<Rightarrow> 'a auth_state_scheme \<Rightarrow> (int \<times> 'a auth_state_scheme) option" where
  "auth_search_user user_id req_mod s =
     (let req_mod = (if req_mod = 0 then AUTHMOD_root else drop_bit 3 req_mod AND 7) in
      if req_mod = AUTHMOD_guest then Some (idclass_code ID_localguest, s)
      else do {
        (idtype, id_u64) \<leftarrow> sub_make_id64 user_id 0;
        if idtype \<noteq> ID_normal then
          if (req_mod = AUTHMOD_root \<and> idtype \<noteq> ID_localroot)
             \<or> (req_mod = AUTHMOD_user \<and> idtype < ID_localuser)
          then Some (idclass_code ID_localguest, s)
          else Some (idclass_code idtype, s)
        else sub_search_user id_u64 req_mod s
      })"

text \<open>
  \<^verbatim>\<open>auth_get_user\<close>: the identity it copies out, when it copies one, is returned as the
  length and value it stores in the template.
\<close>

definition id64_le_bytes :: "u64 \<Rightarrow> bytes" where
  "id64_le_bytes w = map (\<lambda>i. ucast (drop_bit (8 * i) w)) [0..<8]"

definition auth_get_user ::
  "bool \<Rightarrow> u16 \<Rightarrow> 'a auth_state_scheme \<Rightarrow> (u8 \<times> (u8 \<times> bytes) option) option" where
  "auth_get_user user_id_nonnull key_index s =
     (if \<not> user_id_nonnull then Some (1, None)
      else if key_index \<le> dlls_size s then Some (2, None)
      else if unat key_index < length (dlls_info s) then
        let idv = ai_id (dlls_info s ! unat key_index);
            len = (if idv < 65536 then 2 else 8 :: u8)
        in Some (0, Some (len, take (unat len) (id64_le_bytes idv)))
      else None)"

fun auth_intrinsic_user :: "u16 \<Rightarrow> id_ref" where
  "auth_intrinsic_user index =
     (if index = 0 then Auth_root else if index = 1 then Auth_user else Auth_guest)"

definition sub_ismask :: "id_ref \<Rightarrow> u8 \<Rightarrow> 'a auth_state_scheme \<Rightarrow> (bool \<times> 'a auth_state_scheme) option"
  where
  "sub_ismask user_id authmask s =
     (if user_id = Id_NULL then Some (True, s)
      else do { (r, s) \<leftarrow> auth_search_user user_id authmask s; Some (0 \<le> r, s) })"

definition auth_isroot :: "id_ref \<Rightarrow> 'a auth_state_scheme \<Rightarrow> (bool \<times> 'a auth_state_scheme) option" where
  "auth_isroot user_id s = sub_ismask user_id 0 s"

definition auth_isuser :: "id_ref \<Rightarrow> 'a auth_state_scheme \<Rightarrow> (bool \<times> 'a auth_state_scheme) option" where
  "auth_isuser user_id s = sub_ismask user_id 0b00111000 s"

definition auth_check ::
  "u8 \<Rightarrow> u8 \<Rightarrow> id_ref \<Rightarrow> 'a auth_state_scheme \<Rightarrow> (u8 \<times> 'a auth_state_scheme) option" where
  "auth_check req_mod rw_mod user_id s =
     (let test = req_mod AND rw_mod; guest_test = test AND 7 in
      if guest_test \<noteq> 0 then Some (guest_test, s)
      else do {
        (user_type, s) \<leftarrow> auth_search_user user_id req_mod s;
        if 0 \<le> user_type then
          if user_type < uint (dlls_size s) then
            if nat user_type < length (dlls_info s) then
              if ai_mflags (dlls_info s ! nat user_type) = ucast AUTHMOD_root
              then Some (rw_mod, s) else Some (test, s)
            else None
          else Some (test, s)
        else Some (0, s)
      })"

section \<open>Keys\<close>

text \<open>
  The output parameter \<^verbatim>\<open>ot_uint* key_index\<close> is an option: \<open>None\<close> is NULL, \<open>Some k\<close> a
  pointer to a variable that holds \<open>k\<close>; the operations return its new content.
\<close>

definition sub_add_key ::
  "(bytes \<Rightarrow> bytes) \<Rightarrow> u16 \<Rightarrow> u32 \<Rightarrow> bytes \<Rightarrow> u64 \<Rightarrow> 'a auth_state_scheme \<Rightarrow>
   (u8 \<times> u16 \<times> 'a auth_state_scheme) option" where
  "sub_add_key expand key_index lifetime keydata id64 s =
     (if unat (dlls_size s) < AUTH_NUM_ELEMENTS then
        let k = dlls_size s; s = s\<lparr>dlls_size := dlls_size s + 1\<rparr> in
        if unat k < length (dlls_info s) \<and> unat k < length (dlls_ctx s) then
          let (now, s) = time_get_utc s;
              e = \<lparr>ai_id = id64, ai_mflags = ucast AUTHMOD_user, ai_EOL = now + lifetime\<rparr>
          in Some (0, k, s\<lparr>dlls_info := (dlls_info s)[unat k := e],
                          dlls_ctx := (dlls_ctx s)[unat k := expand keydata]\<rparr>)
        else None
      else Some (255, key_index, s))"

definition auth_find_keyindex ::
  "u16 option \<Rightarrow> id_ref \<Rightarrow> 'a auth_state_scheme \<Rightarrow> (u8 \<times> u16 option \<times> 'a auth_state_scheme) option"
  where
  "auth_find_keyindex key_index user_id s =
     (if key_index = None then Some (1, None, s)
      else do {
        (index, s) \<leftarrow> auth_search_user user_id 0b00111000 s;
        if index < 0 then Some (255, key_index, s) else Some (0, Some (of_int index), s)
      })"

definition auth_refresh_key ::
  "u16 option \<Rightarrow> u32 \<Rightarrow> id_ref \<Rightarrow> 'a auth_state_scheme \<Rightarrow> (u8 \<times> u16 option \<times> 'a auth_state_scheme) option"
  where
  "auth_refresh_key key_index new_lifetime user_id s =
     (if new_lifetime < AUTH_MIN_LIFETIME then Some (3, key_index, s)
      else do {
        (status, key_index, s) \<leftarrow> auth_find_keyindex key_index user_id s;
        if status = 0 then do {
          k \<leftarrow> key_index;
          if unat k < length (dlls_info s) then
            let (now, s) = time_get_utc s;
                e = (dlls_info s ! unat k)\<lparr>ai_EOL := now + new_lifetime\<rparr>
            in Some (status, key_index, s\<lparr>dlls_info := (dlls_info s)[unat k := e]\<rparr>)
          else None
        } else Some (status, key_index, s)
      })"

definition auth_create_key ::
  "(bytes \<Rightarrow> bytes) \<Rightarrow> u16 option \<Rightarrow> keytype \<Rightarrow> u32 \<Rightarrow> bytes option \<Rightarrow> id_ref \<Rightarrow>
   'a auth_state_scheme \<Rightarrow> (u8 \<times> u16 option \<times> 'a auth_state_scheme) option" where
  "auth_create_key expand key_index type lifetime keydata user_id s =
     (case key_index of
        None \<Rightarrow> Some (1, None, s)
      | Some k \<Rightarrow>
          if type \<noteq> KEYTYPE_AES128 then Some (2, Some k, s)
          else if lifetime < AUTH_MIN_LIFETIME then Some (3, Some k, s)
          else (case keydata of
              None \<Rightarrow> Some (4, Some k, s)
            | Some key \<Rightarrow> do {
                (idtype, id64) \<leftarrow> sub_make_id64 user_id 0;
                if idtype \<noteq> ID_normal then Some (5, Some k, s)
                else do {
                  (index, s) \<leftarrow> sub_search_user id64 AUTHMOD_user s;
                  if 0 \<le> index then Some (254, Some k, s)
                  else do {
                    (rc, k, s) \<leftarrow> sub_add_key expand k lifetime key id64 s;
                    Some (rc, Some k, s)
                  }
                }
              }))"

text \<open>The loop that shifts the table down over a deleted element.\<close>

fun shift_down :: "nat \<Rightarrow> nat \<Rightarrow> 'e list \<Rightarrow> 'e list option" where
  "shift_down 0 i xs = Some xs"
| "shift_down (Suc n) i xs =
     (if Suc i < length xs then shift_down n (Suc i) (xs[i := xs ! Suc i]) else None)"

definition auth_delete_key :: "u16 \<Rightarrow> 'a auth_state_scheme \<Rightarrow> (u8 \<times> 'a auth_state_scheme) option"
  where
  "auth_delete_key key_index s =
     (if key_index < 2 \<or> dlls_size s \<le> key_index then Some (1, s)
      else
        let k = unat key_index in
        if k < length (dlls_ctx s) \<and> k < length (dlls_info s) then
          let s = s\<lparr>dlls_ctx := (dlls_ctx s)[k := replicate (length (dlls_ctx s ! k)) 0],
                    dlls_info := (dlls_info s)[k := (dlls_info s ! k)\<lparr>ai_mflags := 0x80\<rparr>],
                    dlls_size := dlls_size s - 1\<rparr>;
              n = unat (dlls_size s) - k
          in do {
            info \<leftarrow> shift_down n k (dlls_info s);
            ctx \<leftarrow> shift_down n k (dlls_ctx s);
            Some (0, s\<lparr>dlls_info := info, dlls_ctx := ctx\<rparr>)
          }
        else None)"

text \<open>The key pointer it returns, if any, is the address of the context with that index.\<close>

definition auth_get_key :: "bool \<Rightarrow> u16 \<Rightarrow> 'a auth_state_scheme \<Rightarrow> (keytype \<times> nat option) option" where
  "auth_get_key keydata_nonnull key_index s =
     (if \<not> keydata_nonnull then Some (KEYTYPE_none, None)
      else if key_index < dlls_size s then
        if unat key_index < length (dlls_info s) then
          if ai_mflags (dlls_info s ! unat key_index) < 0x80
          then Some (KEYTYPE_AES128, Some (unat key_index))
          else Some (KEYTYPE_none, None)
        else None
      else Some (KEYTYPE_none, None))"

section \<open>Wiping and nonces\<close>

definition auth_deinit :: "'a auth_state_scheme \<Rightarrow> 'a auth_state_scheme" where
  "auth_deinit s = s\<lparr>
     dlls_info := replicate (length (dlls_info s)) \<lparr>ai_id = 0, ai_mflags = 0, ai_EOL = 0\<rparr>,
     dlls_ctx := map (\<lambda>c. replicate (length c) 0) (dlls_ctx s)\<rparr>"

definition nonce_bytes :: "u32 \<Rightarrow> bytes" where
  "nonce_bytes w = [lo8 (lo16 w), hi8 (lo16 w), lo8 (hi16 w), hi8 (hi16 w)]"

text \<open>
  \<^verbatim>\<open>auth_putnonce\<close> into the bytes at \<^verbatim>\<open>dst\<close>; \<^verbatim>\<open>pad_bytes\<close> and \<^verbatim>\<open>write_bytes\<close> are 16-bit signed,
  and a negative length becomes a huge one in the call of \<^verbatim>\<open>ot_memcpy\<close>.
\<close>

definition auth_putnonce ::
  "bytes \<Rightarrow> u16 \<Rightarrow> 'a auth_state_scheme \<Rightarrow> (bytes \<times> 'a auth_state_scheme) option" where
  "auth_putnonce dst total_size s =
     (let pad_bytes = sint (total_size - 4);
          off = (if 0 < pad_bytes then nat pad_bytes else 0);
          write_bytes = (if 0 < pad_bytes then 4 else 4 + pad_bytes);
          output_nonce = dlls_nonce s;
          s = s\<lparr>dlls_nonce := dlls_nonce s + 1\<rparr>
      in if write_bytes < 0 then None
         else do {
           dst \<leftarrow> wr_bytes dst off (take (nat write_bytes) (nonce_bytes output_nonce));
           Some (dst, s)
         })"

definition auth_getnonce :: "'a auth_state_scheme \<Rightarrow> u32 \<times> 'a auth_state_scheme" where
  "auth_getnonce s = (let s = s\<lparr>dlls_nonce := dlls_nonce s + 1\<rparr> in (dlls_nonce s, s))"

section \<open>The table invariant\<close>

definition auth_wf :: "'a auth_state_scheme \<Rightarrow> bool" where
  "auth_wf s \<longleftrightarrow> length (dlls_info s) = AUTH_NUM_ELEMENTS \<and> length (dlls_ctx s) = AUTH_NUM_ELEMENTS
     \<and> unat (dlls_size s) \<le> AUTH_NUM_ELEMENTS"

text \<open>A template whose value pointer has at least as many bytes as its length says.\<close>

fun id_ok :: "id_ref \<Rightarrow> bool" where
  "id_ok (Id_tmpl n v) = (unat n \<le> 8 \<longrightarrow> unat n \<le> length v)"
| "id_ok _ = True"

lemma time_get_utc_frame:
  "time_get_utc s = (now, s') \<Longrightarrow> s' = s\<lparr>rtc_n := Suc (rtc_n s)\<rparr>"
  by (simp add: time_get_utc_def time_load_now_def)

lemma snd_time_get_utc [simp]: "snd (time_get_utc s) = s\<lparr>rtc_n := Suc (rtc_n s)\<rparr>"
  by (simp add: time_get_utc_def time_load_now_def)

lemma auth_wf_rtc_n [simp]: "auth_wf (s\<lparr>rtc_n := n\<rparr>) = auth_wf s"
  by (simp add: auth_wf_def)

lemma auth_wf_expire [simp]: "auth_wf (expire_key i s) = auth_wf s"
  by (simp add: auth_wf_def expire_key_def)

lemma expire_key_frame [simp]:
  "dlls_size (expire_key i s) = dlls_size s"
  "length (dlls_info (expire_key i s)) = length (dlls_info s)"
  "dlls_nonce (expire_key i s) = dlls_nonce s"
  by (simp_all add: expire_key_def)

lemma id64_bytes_defined: "i + n \<le> length v \<Longrightarrow> \<exists>w. id64_bytes n v i acc = Some w"
  by (induction n v i acc rule: id64_bytes.induct) auto

lemma sub_make_id64_defined: "id_ok u \<Longrightarrow> \<exists>c w. sub_make_id64 u x = Some (c, w)"
proof (cases u)
  case (Id_tmpl n v)
  assume "id_ok u"
  then show ?thesis
    using id64_bytes_defined [of 0 "unat n" v 0] Id_tmpl by auto
qed simp_all

section \<open>What a search does\<close>

text \<open>The UTC seconds that the \<open>j\<close>-th reading of the clock gives.\<close>

definition utc_at :: "'a time_state_scheme \<Rightarrow> nat \<Rightarrow> u32" where
  "utc_at s j = fst (time_get_utc (s\<lparr>rtc_n := j\<rparr>))"

lemma utc_at_rtc_n [simp]: "utc_at (s\<lparr>rtc_n := n\<rparr>) j = utc_at s j"
  by (simp add: utc_at_def)

lemma utc_at_frame: "rtc s' = rtc s \<Longrightarrow> utc_at s' j = utc_at s j"
  by (simp add: utc_at_def time_get_utc_def time_load_now_def Let_def)

lemma utc_at_fields [simp]:
  "utc_at (s\<lparr>dlls_size := z\<rparr>) j = utc_at s j" "utc_at (s\<lparr>dlls_info := i\<rparr>) j = utc_at s j"
  "utc_at (s\<lparr>dlls_ctx := c\<rparr>) j = utc_at s j" "utc_at (s\<lparr>dlls_nonce := v\<rparr>) j = utc_at s j"
  by (rule utc_at_frame, simp)+

lemma time_get_utc_eq:
  "time_get_utc s = (utc_at s (rtc_n s), s\<lparr>rtc_n := Suc (rtc_n s)\<rparr>)"
  by (simp add: utc_at_def prod_eq_iff)

text \<open>
  A search changes the clock count and the table entries it expires, nothing else; an
  entry keeps its identity.
\<close>

definition search_frame :: "'a auth_state_scheme \<Rightarrow> 'a auth_state_scheme \<Rightarrow> bool" where
  "search_frame s s' \<longleftrightarrow>
     (\<exists>n info ctx. s' = s\<lparr>rtc_n := n, dlls_info := info, dlls_ctx := ctx\<rparr> \<and> rtc_n s \<le> n
        \<and> length info = length (dlls_info s) \<and> length ctx = length (dlls_ctx s))"

lemma search_frame_refl [simp]: "search_frame s s"
  unfolding search_frame_def
  by (intro exI [of _ "rtc_n s"] exI [of _ "dlls_info s"] exI [of _ "dlls_ctx s"]) simp

lemma search_frame_expire:
  "search_frame (expire_key i (s\<lparr>rtc_n := Suc (rtc_n s)\<rparr>)) s' \<Longrightarrow> search_frame s s'"
  unfolding search_frame_def expire_key_def
  by (elim exE) (rule exI, rule exI, rule exI, auto)

lemma search_frame_clock: "search_frame s (s\<lparr>rtc_n := Suc (rtc_n s)\<rparr>)"
  unfolding search_frame_def
  by (intro exI [of _ "Suc (rtc_n s)"] exI [of _ "dlls_info s"] exI [of _ "dlls_ctx s"]) simp

lemma search_frame_simps:
  assumes "search_frame s s'"
  shows "dlls_size s' = dlls_size s" "rtc s' = rtc s" "dlls_nonce s' = dlls_nonce s"
    "length (dlls_info s') = length (dlls_info s)" "length (dlls_ctx s') = length (dlls_ctx s)"
    "rtc_n s \<le> rtc_n s'" "auth_wf s' = auth_wf s" "utc_at s' j = utc_at s j"
    "auth_state.more s' = auth_state.more s"
  using assms by (auto simp: search_frame_def auth_wf_def intro!: utc_at_frame)

definition live_key :: "'a time_state_scheme \<Rightarrow> nat \<Rightarrow> authinfo \<Rightarrow> bool" where
  "live_key s n e \<longleftrightarrow> ai_EOL e = 0 \<or> (\<exists>j. rtc_n s \<le> j \<and> j < n \<and> utc_at s j < ai_EOL e)"

lemma search_loop_correct:
  assumes "search_loop n i id64 req s = Some (k, s')" and "req \<noteq> 0"
  shows "search_frame s s' \<and> (\<forall>j < i. dlls_info s' ! j = dlls_info s ! j) \<and>
    (if k = - 1 then \<forall>j. i \<le> j \<and> j < i + n \<longrightarrow> \<not> key_matches id64 req (dlls_info s' ! j)
     else \<exists>j. k = int j \<and> i \<le> j \<and> j < i + n \<and> dlls_info s' ! j = dlls_info s ! j
        \<and> key_matches id64 req (dlls_info s ! j) \<and> live_key s (rtc_n s') (dlls_info s ! j))"
  using assms
proof (induction n i id64 req s rule: search_loop.induct)
  case (1 i id64 req s)
  then show ?case by auto
next
  case (2 n i id64 req s)
  show ?case
  proof (cases "key_matches id64 req (dlls_info s ! i)")
    case False
    note F = this
    have len: "i < length (dlls_info s)" and r: "search_loop n (Suc i) id64 req s = Some (k, s')"
      using 2(3) F by (auto simp: Let_def split: if_splits)
    have IH: "search_frame s s'" "\<forall>j < Suc i. dlls_info s' ! j = dlls_info s ! j"
      "if k = - 1 then \<forall>j. Suc i \<le> j \<and> j < Suc i + n \<longrightarrow> \<not> key_matches id64 req (dlls_info s' ! j)
     else \<exists>j. k = int j \<and> Suc i \<le> j \<and> j < Suc i + n \<and> dlls_info s' ! j = dlls_info s ! j
        \<and> key_matches id64 req (dlls_info s ! j) \<and> live_key s (rtc_n s') (dlls_info s ! j)"
      using 2(2) [OF len refl F r 2(4)] by blast+
    show ?thesis
    proof (cases "k = - 1")
      case True
      have "\<not> key_matches id64 req (dlls_info s' ! j)" if "i \<le> j" "j < i + Suc n" for j
        using that IH(2,3) F True by (cases "j = i") auto
      then show ?thesis using IH(1,2) True by simp
    next
      case False
      then show ?thesis using IH by (auto simp: Suc_le_eq intro: less_imp_le)
    qed
  next
    case True
    note M = this
    have len: "i < length (dlls_info s)" using 2(3) by (auto split: if_splits)
    show ?thesis
    proof (cases "ai_EOL (dlls_info s ! i) \<noteq> 0 \<and> ai_EOL (dlls_info s ! i) \<le> utc_at s (rtc_n s)")
      case True
      let ?s1 = "expire_key i (s\<lparr>rtc_n := Suc (rtc_n s)\<rparr>)"
      have r: "search_loop n (Suc i) id64 req ?s1 = Some (k, s')"
        using 2(3) len M True by (simp add: Let_def time_get_utc_eq)
      have IH: "search_frame ?s1 s'" "\<forall>j < Suc i. dlls_info s' ! j = dlls_info ?s1 ! j"
      "if k = - 1 then \<forall>j. Suc i \<le> j \<and> j < Suc i + n \<longrightarrow> \<not> key_matches id64 req (dlls_info s' ! j)
     else \<exists>j. k = int j \<and> Suc i \<le> j \<and> j < Suc i + n \<and> dlls_info s' ! j = dlls_info ?s1 ! j
        \<and> key_matches id64 req (dlls_info ?s1 ! j) \<and> live_key ?s1 (rtc_n s') (dlls_info ?s1 ! j)"
        using 2(1) [OF len refl M conjunct1 [OF True] refl time_get_utc_eq [symmetric]
            conjunct2 [OF True] r 2(4)] by blast+
      have nth: "dlls_info ?s1 ! j = dlls_info s ! j" if "j \<noteq> i" for j
        using that by (simp add: expire_key_def)
      have dead: "\<not> key_matches id64 req (dlls_info s' ! i)"
        using IH(2) len \<open>req \<noteq> 0\<close>
        by (simp add: expire_key_def key_matches_def authmod_defs word_le_nat_alt unat_eq_zero)
      have clk: "utc_at ?s1 j = utc_at s j" "rtc_n ?s1 = Suc (rtc_n s)" for j
        by (auto simp: expire_key_def intro: utc_at_frame)
      show ?thesis
      proof (cases "k = - 1")
        case True
        have "\<not> key_matches id64 req (dlls_info s' ! j)" if "i \<le> j" "j < i + Suc n" for j
          using that IH(3) dead True by (cases "j = i") auto
        then show ?thesis
          using search_frame_expire [OF IH(1)] IH(2) nth True by simp
      next
        case False
        then obtain j where j: "k = int j" "Suc i \<le> j" "j < Suc i + n"
          "dlls_info s' ! j = dlls_info s ! j" "key_matches id64 req (dlls_info s ! j)"
          "live_key ?s1 (rtc_n s') (dlls_info s ! j)"
          using IH(3) nth by (auto simp: Suc_le_eq)
        then have "live_key s (rtc_n s') (dlls_info s ! j)"
          by (auto simp: live_key_def clk dest: Suc_leD)
        then show ?thesis
          using search_frame_expire [OF IH(1)] IH(2) nth False j
          by (auto intro!: exI [of _ j])
      qed
    next
      case False
      have r: "k = int i \<and> (s' = s \<and> ai_EOL (dlls_info s ! i) = 0 \<or>
          s' = s\<lparr>rtc_n := Suc (rtc_n s)\<rparr> \<and> utc_at s (rtc_n s) < ai_EOL (dlls_info s ! i))"
        using 2(3) len M False by (auto simp: Let_def time_get_utc_eq not_le split: if_splits)
      then have "live_key s (rtc_n s') (dlls_info s ! i)"
        by (auto simp: live_key_def)
      then show ?thesis
        using r M search_frame_clock [of s] by auto
    qed
  qed
qed


lemma search_loop_defined:
  "i + n \<le> length (dlls_info s) \<Longrightarrow> \<exists>k s'. search_loop n i id64 req s = Some (k, s')"
proof (induction n i id64 req s rule: search_loop.induct)
  case (1 i id64 req s)
  then show ?case by simp
next
  case (2 n i id64 req s)
  then show ?case by (auto simp: Let_def time_get_utc_eq)
qed

lemma sub_search_user_defined:
  "auth_wf s \<Longrightarrow> \<exists>k s'. sub_search_user id64 req s = Some (k, s')"
  unfolding sub_search_user_def by (rule search_loop_defined) (auto simp: auth_wf_def AUTH_NUM_ELEMENTS_def)

lemma sub_search_user_correct:
  assumes "sub_search_user id64 req s = Some (k, s')" and "req \<noteq> 0"
  shows "search_frame s s'"
    and "k = - 1 \<Longrightarrow> 2 \<le> j \<Longrightarrow> j < unat (dlls_size s) \<Longrightarrow> \<not> key_matches id64 req (dlls_info s' ! j)"
    and "k \<noteq> - 1 \<Longrightarrow> \<exists>j. k = int j \<and> 2 \<le> j \<and> j < unat (dlls_size s)
           \<and> dlls_info s' ! j = dlls_info s ! j
           \<and> key_matches id64 req (dlls_info s ! j) \<and> live_key s (rtc_n s') (dlls_info s ! j)"
  using search_loop_correct [OF assms(1) [unfolded sub_search_user_def] assms(2)]
  by (auto simp: less_diff_conv split: if_splits)

text \<open>The privilege a file's mode bits ask for.\<close>

definition req_class :: "u8 \<Rightarrow> u8" where
  "req_class m = (if m = 0 then AUTHMOD_root else drop_bit 3 m AND 7)"

definition table_grants :: "'a auth_state_scheme \<Rightarrow> nat \<Rightarrow> id_ref \<Rightarrow> u8 \<Rightarrow> nat \<Rightarrow> bool" where
  "table_grants s n u req j \<longleftrightarrow> 2 \<le> j \<and> j < unat (dlls_size s)
     \<and> (\<exists>w. sub_make_id64 u 0 = Some (ID_normal, w) \<and> key_matches w req (dlls_info s ! j))
     \<and> live_key s n (dlls_info s ! j)"

definition local_grants :: "id_ref \<Rightarrow> u8 \<Rightarrow> bool" where
  "local_grants u req \<longleftrightarrow> u = Id_NULL \<or> u = Auth_root \<or> u = Auth_user \<and> req \<noteq> AUTHMOD_root"

lemma auth_search_user_correct:
  assumes r: "auth_search_user u m s = Some (k, s')"
  shows "search_frame s s'"
    and "k = - 1 \<or> (req_class m \<noteq> 0 \<and> 0 \<le> k
          \<and> (local_grants u (req_class m) \<and> s' = s \<and> k < 2
             \<or> table_grants s (rtc_n s') u (req_class m) (nat k)
               \<and> dlls_info s' ! nat k = dlls_info s ! nat k))"
proof -
  let ?q = "req_class m"
  have "search_frame s s' \<and> (k = - 1 \<or> (?q \<noteq> 0 \<and> 0 \<le> k
          \<and> (local_grants u ?q \<and> s' = s \<and> k < 2
             \<or> table_grants s (rtc_n s') u ?q (nat k) \<and> dlls_info s' ! nat k = dlls_info s ! nat k)))"
  proof (cases "?q = AUTHMOD_guest")
    case True
    then show ?thesis using r by (simp add: auth_search_user_def req_class_def Let_def)
  next
    case False
    then have q: "?q \<noteq> 0" by (simp add: authmod_defs)
    from r False obtain c w where id: "sub_make_id64 u 0 = Some (c, w)"
      and rest: "(if c \<noteq> ID_normal then
          if (?q = AUTHMOD_root \<and> c \<noteq> ID_localroot) \<or> (?q = AUTHMOD_user \<and> c < ID_localuser)
          then Some (idclass_code ID_localguest, s) else Some (idclass_code c, s)
        else sub_search_user w ?q s) = Some (k, s')"
      by (simp only: auth_search_user_def req_class_def [symmetric] Let_def if_False
          bind_eq_Some_conv) (elim exE conjE, simp only: split_paired_all prod.case)
    show ?thesis
    proof (cases "c = ID_normal")
      case True
      then have ss: "sub_search_user w ?q s = Some (k, s')" using rest by simp
      show ?thesis
        using sub_search_user_correct [OF ss q] q id True
        by (cases "k = - 1") (auto simp: table_grants_def)
    next
      case False
      then show ?thesis
        using rest id q
        by (cases u) (auto simp: local_grants_def split: if_splits)
    qed
  qed
  then show "search_frame s s'" and "k = - 1 \<or> (req_class m \<noteq> 0 \<and> 0 \<le> k
          \<and> (local_grants u (req_class m) \<and> s' = s \<and> k < 2
             \<or> table_grants s (rtc_n s') u (req_class m) (nat k)
               \<and> dlls_info s' ! nat k = dlls_info s ! nat k))" by blast+
qed

lemma auth_search_user_defined:
  "auth_wf s \<Longrightarrow> id_ok u \<Longrightarrow> \<exists>k s'. auth_search_user u m s = Some (k, s')"
  using sub_make_id64_defined [of u 0] sub_search_user_defined [of s]
  by (fastforce simp: auth_search_user_def Let_def)


section \<open>Access checks\<close>

lemma mask_le: "x = (y AND rw :: u8) \<Longrightarrow> x AND NOT rw = 0"
  by (auto intro!: bit_word_eqI simp: bit_simps)

lemma mask3_le: "(((a AND rw) AND 7) AND NOT rw :: u8) = 0"
  by (auto intro!: bit_word_eqI simp: bit_simps)

lemma auth_check_guest:
  "(req AND rw) AND 7 \<noteq> 0 \<Longrightarrow> auth_check req rw u s = Some ((req AND rw) AND 7, s)"
  by (simp only: auth_check_def Let_def if_True not_False_eq_True)

lemma auth_check_search:
  assumes "(req AND rw) AND 7 = 0" and "auth_search_user u req s = Some (k, s1)"
  shows "auth_check req rw u s =
     (if 0 \<le> k then
        if k < uint (dlls_size s1) then
          if nat k < length (dlls_info s1) then
            if ai_mflags (dlls_info s1 ! nat k) = ucast AUTHMOD_root
            then Some (rw, s1) else Some (req AND rw, s1)
          else None
        else Some (req AND rw, s1)
      else Some (0, s1))"
  by (simp only: auth_check_def Let_def assms simp_thms if_False Option.bind.bind_lunit
      prod.case)

lemma auth_check_None:
  assumes "(req AND rw) AND 7 = 0" and "auth_search_user u req s = None"
  shows "auth_check req rw u s = None"
  by (simp only: auth_check_def Let_def assms simp_thms if_False Option.bind.bind_lzero)

lemma auth_check_cases:
  assumes "auth_check req rw u s = Some (m, s')"
  obtains (guest) "m = (req AND rw) AND 7" "m \<noteq> 0" "s' = s"
  | (denied) "m = 0" "search_frame s s'"
  | (granted) k where "auth_search_user u req s = Some (k, s')" "0 \<le> k" "m = rw \<or> m = req AND rw"
proof (cases "(req AND rw) AND 7 = 0")
  case True
  then obtain k s1 where 1: "auth_search_user u req s = Some (k, s1)"
    by (cases "auth_search_user u req s") (use assms auth_check_None [OF True, of u s] in auto)
  show ?thesis
    using assms denied granted auth_search_user_correct(1) [OF 1] 1
    unfolding auth_check_search [OF True 1] by (auto split: if_splits)
next
  case False
  show ?thesis using assms unfolding auth_check_guest [OF False] by (intro guest) (use False in auto)
qed

lemma auth_check_grants:
  assumes "auth_check req rw u s = Some (m, s')" and "m \<noteq> 0"
  shows "m AND NOT rw = 0 \<and>
    (m = (req AND rw) AND 7 \<or>
     req_class req \<noteq> 0 \<and> (local_grants u (req_class req)
        \<or> (\<exists>j. table_grants s (rtc_n s') u (req_class req) j)))"
  using assms(1)
proof (cases rule: auth_check_cases)
  case guest
  then show ?thesis by (simp add: mask3_le)
next
  case denied
  then show ?thesis using assms(2) by simp
next
  case (granted k)
  have "m AND NOT rw = 0" using granted(3) mask_le [of m req] mask_le [of m rw rw] by auto
  then show ?thesis using auth_search_user_correct(2) [OF granted(1)] granted(2) by auto
qed

text \<open>
  C3. Access control is sound: a non-zero answer of \<^verbatim>\<open>auth_check\<close> never has a mode bit outside
  the requested mask, and comes from the guest bits of the file, or from a local identity
  of sufficient class, or from a table entry of index at least 2 that has the user's
  identity, a sufficient privilege, and has not expired by a clock reading of this call.
\<close>

theorem auth_check_sound:
  assumes "auth_check req rw u s = Some (m, s')" and "m \<noteq> 0"
  shows "m AND NOT rw = 0 \<and>
    (m = (req AND rw) AND 7 \<or>
     req_class req \<noteq> 0 \<and> (local_grants u (req_class req)
        \<or> (\<exists>j. table_grants s (rtc_n s') u (req_class req) j)))"
  using assms by (rule auth_check_grants)

text \<open>
  C37. On a table that satisfies its invariant \<^verbatim>\<open>auth_check\<close> answers for every well-formed
  identity, without an access outside the table, and keeps the invariant.
\<close>

theorem auth_check_defined:
  assumes "auth_wf s" and "id_ok u"
  shows "\<exists>m s'. auth_check req rw u s = Some (m, s') \<and> auth_wf s' \<and> dlls_size s' = dlls_size s"
proof -
  obtain k s1 where r: "auth_search_user u req s = Some (k, s1)"
    using auth_search_user_defined [OF assms] by blast
  note f = search_frame_simps [OF auth_search_user_correct(1) [OF r]]
  have idx: "nat k < length (dlls_info s1)" if "k < uint (dlls_size s1)" "0 \<le> k"
  proof -
    have "nat k < nat (uint (dlls_size s1))"
      by (rule iffD2 [OF nat_less_eq_zless [OF that(2)] that(1)])
    then show ?thesis using assms(1) f(1,4) by (simp add: auth_wf_def)
  qed
  show ?thesis
  proof (cases "(req AND rw) AND 7 = 0")
    case True
    show ?thesis
      unfolding auth_check_search [OF True r] using idx f(1,7) assms(1) by auto
  next
    case False
    show ?thesis unfolding auth_check_guest [OF False] using assms(1) by simp
  qed
qed

text \<open>
  Root is refused on a file that gives its guests no access and whose user bits are
  clear while others are set: only a file with no mode bit at all asks for root.
\<close>

theorem auth_check_root_denied:
  assumes "(req AND rw) AND 7 = 0" and "req \<noteq> 0" and "req AND 0x38 = 0"
  shows "auth_check req rw Auth_root s = Some (0, s)"
proof -
  have "drop_bit 3 req AND 7 = drop_bit 3 (req AND 0x38)"
    by (simp only: drop_bit_and) simp
  then have "auth_search_user Auth_root req s = Some (- 1, s)"
    using assms(2,3) by (simp add: auth_search_user_def authmod_defs Let_def)
  from auth_check_search [OF assms(1) this] show ?thesis by simp
qed

section \<open>Key management\<close>

lemma search_loop_skip:
  assumes "\<And>j. i \<le> j \<Longrightarrow> j < i + n \<Longrightarrow> \<not> key_matches id64 req (dlls_info s ! j)"
    and "i + n \<le> length (dlls_info s)"
  shows "search_loop (n + m) i id64 req s = search_loop m (i + n) id64 req s"
  using assms
proof (induction n arbitrary: i)
  case 0
  then show ?case by simp
next
  case (Suc n)
  have "\<not> key_matches id64 req (dlls_info s ! i)" using Suc.prems(1) [of i] by simp
  moreover have "search_loop (n + m) (Suc i) id64 req s = search_loop m (Suc i + n) id64 req s"
    by (rule Suc.IH) (use Suc.prems in auto)
  ultimately show ?case using Suc.prems(2) by (simp add: Let_def)
qed

lemma sub_add_key_ok:
  assumes "auth_wf s"
  shows "sub_add_key expand k lt key w s =
     (if dlls_size s < 3 then
        Some (0, dlls_size s, s\<lparr>rtc_n := Suc (rtc_n s), dlls_size := dlls_size s + 1,
           dlls_info := (dlls_info s)[unat (dlls_size s) :=
              \<lparr>ai_id = w, ai_mflags = 7, ai_EOL = utc_at s (rtc_n s) + lt\<rparr>],
           dlls_ctx := (dlls_ctx s)[unat (dlls_size s) := expand key]\<rparr>)
      else Some (255, k, s))"
  using assms
  by (auto simp: sub_add_key_def Let_def auth_wf_def AUTH_NUM_ELEMENTS_def time_get_utc_eq
      authmod_defs word_less_nat_alt)

lemma key_matches_new [simp]: "key_matches w 7 \<lparr>ai_id = w, ai_mflags = 7, ai_EOL = x\<rparr>"
  by (simp add: key_matches_def)

text \<open>
  C33. A key that \<^verbatim>\<open>auth_create_key\<close> has accepted is found again under its identity, at the
  index it reported, as long as the clock readings of the lookup come before its end of
  life; the older entries of the same identity, which were all expired, do not hide it.
\<close>

theorem auth_create_then_find:
  assumes wf: "auth_wf s" and two: "2 \<le> dlls_size s"
    and cr: "auth_create_key expand (Some x) ty lt (Some key) u s = Some (0, k, s1)"
    and live: "utc_at s1 (rtc_n s1) < utc_at s1 (rtc_n s1 - 1) + lt"
  shows "k = Some (dlls_size s) \<and> (\<exists>s2. auth_find_keyindex (Some y) u s1 = Some (0, k, s2))"
proof -
  from cr obtain w r s0 where id: "sub_make_id64 u 0 = Some (ID_normal, w)"
    and ss: "sub_search_user w AUTHMOD_user s = Some (r, s0)" and r: "\<not> 0 \<le> r"
    and add: "\<exists>k'. sub_add_key expand x lt key w s0 = Some (0, k', s1) \<and> k = Some k'"
    by (auto simp: auth_create_key_def bind_eq_Some_conv split: if_splits)
  have sr: "AUTHMOD_user \<noteq> 0" by (simp add: authmod_defs)
  note f = search_frame_simps [OF sub_search_user_correct(1) [OF ss sr]]
  have wf0: "auth_wf s0" using f wf by simp
  let ?n = "unat (dlls_size s)"
  have r1: "r = - 1" using sub_search_user_correct(3) [OF ss sr] r by fastforce
  have k: "k = Some (dlls_size s)" "dlls_size s < 3"
    and s1: "s1 = s0\<lparr>rtc_n := Suc (rtc_n s0), dlls_size := dlls_size s + 1,
           dlls_info := (dlls_info s0)[?n := \<lparr>ai_id = w, ai_mflags = 7, ai_EOL = utc_at s0 (rtc_n s0) + lt\<rparr>],
           dlls_ctx := (dlls_ctx s0)[?n := expand key]\<rparr>"
    using add f(1) by (auto simp: sub_add_key_ok [OF wf0] split: if_splits)
  have n: "2 \<le> ?n" "?n < length (dlls_info s0)" "unat (dlls_size s + 1) = Suc ?n"
    using two k(2) wf0
    by (auto simp: word_le_nat_alt word_less_nat_alt auth_wf_def AUTH_NUM_ELEMENTS_def
        unat_word_ariths)
  have "search_loop (?n - 2 + 1) 2 w 7 s1 = search_loop 1 (2 + (?n - 2)) w 7 s1"
    by (rule search_loop_skip)
      (use sub_search_user_correct(2) [OF ss sr r1] n s1 in \<open>auto simp: authmod_defs\<close>)
  moreover have "?n - 2 + 1 = unat (dlls_size s1) - 2" "2 + (?n - 2) = ?n"
    using n s1 by simp_all
  ultimately have eq: "sub_search_user w 7 s1 = search_loop 1 ?n w 7 s1"
    by (simp only: sub_search_user_def)
  have "\<not> utc_at s0 (rtc_n s0) + lt \<le> utc_at s0 (Suc (rtc_n s0))"
    using live s1 by (simp add: not_le)
  then have "\<exists>s2. sub_search_user w 7 s1 = Some (int ?n, s2)"
    unfolding eq using n s1 by (simp add: Let_def time_get_utc_eq)
  then show ?thesis
    using id k by (auto simp: auth_find_keyindex_def auth_search_user_def authmod_defs Let_def)
qed


lemma id64_bytes_numeral:
  "id64_bytes (numeral n) v i acc =
     (if i < length v
      then id64_bytes (pred_numeral n) v (Suc i) (acc OR push_bit (8 * pred_numeral n) (ucast (v ! i)))
      else None)"
  by (simp add: numeral_eq_Suc)

text \<open>A table with one AES key: the clock stands still, and the key lives for an hour.\<close>

definition demo_auth :: auth_state where
  "demo_auth = \<lparr>time_sys = \<lparr>upper = 0, clocks = 0\<rparr>, time_start = \<lparr>upper = 0, clocks = 0\<rparr>,
     rtc = (\<lambda>_. (1000, 0)), rtc_n = 0, dlls_nonce = 7, dlls_size = 2,
     dlls_info = [\<lparr>ai_id = 0, ai_mflags = 56, ai_EOL = 0\<rparr>, \<lparr>ai_id = 1, ai_mflags = 7, ai_EOL = 0\<rparr>,
                  \<lparr>ai_id = 0, ai_mflags = 0, ai_EOL = 0\<rparr>],
     dlls_ctx = [[0], [0], [0]], rand_src = (\<lambda>_. 0), rand_n = 0\<rparr>"

definition demo_auth1 :: auth_state where
  "demo_auth1 = demo_auth\<lparr>rtc_n := 1, dlls_size := 3,
     dlls_info := (dlls_info demo_auth)[2 := \<lparr>ai_id = 0xB00B, ai_mflags = 7, ai_EOL = 4600\<rparr>],
     dlls_ctx := [[0], [0], [1, 2]]\<rparr>"

text \<open>The file has mode 0007 for its guests, and the application asks for write permission.\<close>

theorem auth_check_root_denied_witness:
  "auth_check 0x07 0x80 Auth_root demo_auth = Some (0, demo_auth)"
  by (rule auth_check_root_denied) simp_all

lemma demo_auth_wf: "auth_wf demo_auth" "auth_wf demo_auth1"
  by (simp_all add: auth_wf_def demo_auth_def demo_auth1_def AUTH_NUM_ELEMENTS_def)

lemma utc_1000: "rtc s j = (1000, 0) \<Longrightarrow> utc_at s j = 1000"
  by (simp add: utc_at_def time_get_utc_def time_load_now_def ot_time_of_def ti_of_nsec_def Let_def)

theorem auth_create_then_find_witness:
  "\<exists>s1 s2. auth_create_key (\<lambda>k. k) (Some 0) KEYTYPE_AES128 3600 (Some [1, 2])
        (Id_tmpl 2 [0xB0, 0x0B]) demo_auth = Some (0, Some 2, s1)
     \<and> auth_find_keyindex (Some 0) (Id_tmpl 2 [0xB0, 0x0B]) s1 = Some (0, Some 2, s2)"
proof -
  have "map_option (\<lambda>(rc, k, s1). (rc, k, utc_at s1 (rtc_n s1), utc_at s1 (rtc_n s1 - 1)))
      (auth_create_key (\<lambda>k. k) (Some 0) KEYTYPE_AES128 3600 (Some [1, 2])
        (Id_tmpl 2 [0xB0, 0x0B]) demo_auth) = Some (0, Some 2, 1000, 1000)"
    by (simp add: auth_create_key_def AUTH_MIN_LIFETIME_def id64_bytes_numeral sub_search_user_def
        demo_auth_def sub_add_key_def AUTH_NUM_ELEMENTS_def time_get_utc_eq utc_1000 Let_def)
  then obtain s1 where c: "auth_create_key (\<lambda>k. k) (Some 0) KEYTYPE_AES128 3600 (Some [1, 2])
        (Id_tmpl 2 [0xB0, 0x0B]) demo_auth = Some (0, Some 2, s1)"
    and u: "utc_at s1 (rtc_n s1) = 1000" "utc_at s1 (rtc_n s1 - 1) = 1000"
    by (auto simp del: One_nat_def)
  have "2 \<le> dlls_size demo_auth" by (simp add: demo_auth_def)
  from auth_create_then_find [OF demo_auth_wf(1) this c, of 0] u c show ?thesis by simp
qed

theorem auth_check_sound_witness:
  "table_grants demo_auth1 2 (Id_tmpl 2 [0xB0, 0x0B]) (req_class 0x38) 2"
proof -
  have "map_option (\<lambda>(m, s'). (m, rtc_n s'))
      (auth_check 0x38 0x38 (Id_tmpl 2 [0xB0, 0x0B]) demo_auth1) = Some (0x38, 2)"
    by (simp add: auth_check_def auth_search_user_def authmod_defs id64_bytes_numeral sub_search_user_def
        demo_auth_def demo_auth1_def key_matches_def time_get_utc_eq utc_1000 Let_def)
  then obtain s' where c: "auth_check 0x38 0x38 (Id_tmpl 2 [0xB0, 0x0B]) demo_auth1 = Some (0x38, s')"
    and n: "rtc_n s' = 2"
    by auto
  have "table_grants demo_auth1 2 (Id_tmpl 2 [0xB0, 0x0B]) (req_class 0x38) j \<Longrightarrow> j = 2" for j
    by (auto simp: table_grants_def demo_auth1_def)
  then show ?thesis
    using auth_check_sound [OF c] n by (auto simp: local_grants_def)
qed

theorem auth_check_defined_witness:
  "\<exists>m s'. auth_check 0x38 0x38 (Id_tmpl 2 [0xB0, 0x0B]) demo_auth1 = Some (m, s') \<and> auth_wf s'
     \<and> dlls_size s' = 3"
  using auth_check_defined [OF demo_auth_wf(2), where u = "Id_tmpl 2 [0xB0, 0x0B]"
      and req = "0x38" and rw = "0x38"]
  by (simp add: demo_auth1_def)

lemma shift_down_eq:
  "i + n < length xs \<Longrightarrow>
   shift_down n i xs = Some (take i xs @ take n (drop (Suc i) xs) @ drop (i + n) xs)"
proof (induction n i xs rule: shift_down.induct)
  case (1 i xs)
  then show ?case by simp
next
  case (2 n i xs)
  have "shift_down (Suc n) i xs = shift_down n (Suc i) (xs[i := xs ! Suc i])" using 2(2) by simp
  also have "\<dots> = Some (take (Suc i) (xs[i := xs ! Suc i]) @ take n (drop (Suc (Suc i)) xs)
      @ drop (Suc i + n) xs)"
    using 2 by simp
  also have "take (Suc i) (xs[i := xs ! Suc i]) = take i xs @ [xs ! Suc i]"
    using 2(2) by (simp add: take_Suc_conv_app_nth)
  also have "(take i xs @ [xs ! Suc i]) @ take n (drop (Suc (Suc i)) xs) @ drop (Suc i + n) xs =
      take i xs @ take (Suc n) (drop (Suc i) xs) @ drop (i + Suc n) xs"
    using 2(2) Cons_nth_drop_Suc [of "Suc i" xs, symmetric] by simp
  finally show ?case .
qed

lemma shift_down_removes:
  assumes "k \<le> m" and "m < length xs"
  shows "\<exists>ys. shift_down (m - k) k (xs[k := y]) = Some ys \<and> length ys = length xs
    \<and> take m ys = take k xs @ drop (Suc k) (take (Suc m) xs)"
  using assms by (simp add: shift_down_eq drop_take)

lemma auth_delete_key_spec:
  assumes wf: "auth_wf s"
  shows "\<exists>rc s'. auth_delete_key k s = Some (rc, s') \<and> auth_wf s'
    \<and> (if 2 \<le> k \<and> k < dlls_size s then
         rc = 0 \<and> dlls_size s' = dlls_size s - 1
         \<and> take (unat (dlls_size s')) (dlls_info s')
             = take (unat k) (dlls_info s) @ drop (Suc (unat k)) (take (unat (dlls_size s)) (dlls_info s))
         \<and> take (unat (dlls_size s')) (dlls_ctx s')
             = take (unat k) (dlls_ctx s) @ drop (Suc (unat k)) (take (unat (dlls_size s)) (dlls_ctx s))
       else rc = 1 \<and> s' = s)"
proof (cases "2 \<le> k \<and> k < dlls_size s")
  case False
  then have "k < 2 \<or> dlls_size s \<le> k" by auto
  then show ?thesis using wf by (auto simp: auth_delete_key_def)
next
  case True
  let ?k = "unat k" and ?n = "unat (dlls_size s - 1)"
  have nz: "dlls_size s \<noteq> 0" using True by auto
  have sz: "?n = unat (dlls_size s) - 1" "unat (dlls_size s) = Suc ?n"
    "length (dlls_info s) = 3" "length (dlls_ctx s) = 3" "?k \<le> ?n" "?n < 3"
    using True wf unat_minus_one [OF nz]
    by (auto simp: auth_wf_def AUTH_NUM_ELEMENTS_def word_less_nat_alt)
  obtain i where i: "shift_down (?n - ?k) ?k ((dlls_info s)[?k := (dlls_info s ! ?k)\<lparr>ai_mflags := 0x80\<rparr>]) = Some i"
    "length i = 3" "take ?n i = take ?k (dlls_info s) @ drop (Suc ?k) (take (Suc ?n) (dlls_info s))"
    using shift_down_removes [of ?k ?n "dlls_info s"] sz(3-6) by auto
  obtain c where c: "shift_down (?n - ?k) ?k ((dlls_ctx s)[?k := replicate (length (dlls_ctx s ! ?k)) 0]) = Some c"
    "length c = 3" "take ?n c = take ?k (dlls_ctx s) @ drop (Suc ?k) (take (Suc ?n) (dlls_ctx s))"
    using shift_down_removes [of ?k ?n "dlls_ctx s"] sz(3-6) by auto
  let ?t = "s\<lparr>dlls_size := dlls_size s - 1, dlls_info := i, dlls_ctx := c\<rparr>"
  have g: "\<not> (k < 2 \<or> dlls_size s \<le> k)" using True by auto
  have l: "?k < length (dlls_ctx s) \<and> ?k < length (dlls_info s)" using sz(3-6) by simp
  have "auth_delete_key k s = Some (0, ?t)"
    unfolding auth_delete_key_def if_not_P [OF g] Let_def if_P [OF l] by (simp add: i c)
  moreover have "auth_wf ?t" using sz(6) i(2) c(2) by (simp add: auth_wf_def AUTH_NUM_ELEMENTS_def)
  ultimately show ?thesis
    unfolding if_P [OF True] sz(2)
    by (intro exI [of _ 0] exI [of _ ?t] conjI refl) (simp_all add: i(3) c(3))
qed

text \<open>
  Deleting a key at an index from 2 up to the size of the table removes that entry and
  its context from the table, keeps the order of all the others, and keeps the invariant;
  any other index is refused with code 1 and changes nothing.
\<close>

theorem auth_delete_key_removes:
  assumes wf: "auth_wf s"
  shows "\<exists>rc s'. auth_delete_key k s = Some (rc, s') \<and> auth_wf s'
    \<and> (if 2 \<le> k \<and> k < dlls_size s then
         rc = 0 \<and> dlls_size s' = dlls_size s - 1
         \<and> take (unat (dlls_size s')) (dlls_info s')
             = take (unat k) (dlls_info s) @ drop (Suc (unat k)) (take (unat (dlls_size s)) (dlls_info s))
         \<and> take (unat (dlls_size s')) (dlls_ctx s')
             = take (unat k) (dlls_ctx s) @ drop (Suc (unat k)) (take (unat (dlls_size s)) (dlls_ctx s))
       else rc = 1 \<and> s' = s)"
  using wf by (rule auth_delete_key_spec)

theorem auth_delete_key_removes_witness:
  "\<exists>rc s'. auth_delete_key 2 demo_auth1 = Some (rc, s') \<and> auth_wf s' \<and> rc = 0
     \<and> dlls_size s' = 2 \<and> take 2 (dlls_info s') = take 2 (dlls_info demo_auth)"
  using auth_delete_key_removes [OF demo_auth_wf(2), of 2]
  by (auto simp: demo_auth1_def demo_auth_def)


section \<open>Nonces, and the index check of \<^verbatim>\<open>auth_get_user\<close>\<close>

text \<open>
  A nonce that \<^verbatim>\<open>auth_getnonce\<close> has handed out is written once more by the
  \<^verbatim>\<open>auth_putnonce\<close> that follows it: the first increments before it reads the counter, the
  second reads before it increments.
\<close>

theorem auth_nonce_reused:
  assumes "4 \<le> length dst"
  shows "auth_putnonce dst 4 (snd (auth_getnonce s)) =
    Some (nonce_bytes (fst (auth_getnonce s)) @ drop 4 dst, s\<lparr>dlls_nonce := dlls_nonce s + 2\<rparr>)"
  using assms
  by (simp add: auth_putnonce_def auth_getnonce_def Let_def wr_bytes_def nonce_bytes_def
      eval_nat_numeral)

theorem auth_nonce_reused_witness:
  "map_option fst (auth_putnonce [9, 9, 9, 9, 9] 4 (snd (auth_getnonce demo_auth))) = Some [8, 0, 0, 0, 9]
   \<and> fst (auth_getnonce demo_auth) = 8"
  using auth_nonce_reused [of "[9, 9, 9, 9, 9]" demo_auth]
  by (simp add: auth_getnonce_def demo_auth_def nonce_bytes_def lo8_def hi8_def lo16_def hi16_def)

text \<open>
  \<^verbatim>\<open>auth_get_user\<close> reports every index of the table as out of range: its bound is
  the wrong way round, so no identity is ever copied out of the table.
\<close>

theorem auth_get_user_refuses:
  assumes "k < dlls_size s"
  shows "auth_get_user True k s = Some (2, None)"
  using less_imp_le [OF assms] by (simp add: auth_get_user_def)

theorem auth_get_user_refuses_witness: "auth_get_user True 2 demo_auth1 = Some (2, None)"
  by (rule auth_get_user_refuses) (simp add: demo_auth1_def)

section \<open>Identities as numbers\<close>

definition be_value :: "bytes \<Rightarrow> nat" where
  "be_value bs = foldl (\<lambda>a b. a * 256 + unat b) 0 bs"

lemma foldl_be: "foldl (\<lambda>a b. a * 256 + unat (b :: u8)) c bs = c * 256 ^ length bs + be_value bs"
proof (induction bs arbitrary: c)
  case Nil
  then show ?case by (simp add: be_value_def)
next
  case (Cons b bs)
  have "be_value (b # bs) = unat b * 256 ^ length bs + be_value bs"
    using Cons.IH [of "unat b"] by (simp add: be_value_def)
  then show ?case using Cons.IH [of "c * 256 + unat b"] by (simp add: distrib_right)
qed

lemma be_value_Cons: "be_value (b # bs) = unat b * 256 ^ length bs + be_value bs"
  using foldl_be [of "unat b" bs] by (simp add: be_value_def)

lemma be_value_less: "be_value bs < 256 ^ length bs"
proof (induction bs)
  case Nil
  then show ?case by (simp add: be_value_def)
next
  case (Cons b bs)
  have "unat b * 256 ^ length bs + be_value bs < Suc (unat b) * 256 ^ length bs" using Cons by simp
  also have "\<dots> \<le> 256 * 256 ^ length bs"
    using unsigned_less [where w = b and ?'a = nat] by (intro mult_right_mono) auto
  finally show ?case by (simp add: be_value_Cons)
qed

lemma push_or_byte:
  "push_bit 8 (of_nat a) OR ucast (b :: u8) = (of_nat (a * 256 + unat b) :: u64)"
proof -
  have e: "push_bit 8 (of_nat a) OR ucast b = push_bit 8 (of_nat a) + (ucast b :: u64)"
    by (rule disjunctive_add_eq_or [symmetric], rule bit_word_eqI)
      (auto simp: bit_simps dest: bit_imp_le_length)
  have b: "(ucast b :: u64) = of_nat (unat b)" by (simp add: unsigned_of_nat)
  have a: "push_bit 8 (of_nat a :: u64) = of_nat (a * 256)" by (simp add: push_bit_eq_mult)
  show ?thesis unfolding e unfolding a b of_nat_add ..
qed

lemma id64_bytes_value:
  "i + n \<le> length v \<Longrightarrow>
   id64_bytes n v i (push_bit (8 * n) (of_nat a)) =
     Some (of_nat (a * 256 ^ n + be_value (take n (drop i v))))"
proof (induction n arbitrary: i a)
  case 0
  then show ?case by (simp add: be_value_def)
next
  case (Suc n)
  have "push_bit (8 * Suc n) (of_nat a :: u64) OR push_bit (8 * n) (ucast (v ! i)) =
      push_bit (8 * n) (of_nat (a * 256 + unat (v ! i)))"
    by (simp only: push_or_byte [symmetric] push_bit_or push_bit_push_bit) (simp add: add.commute)
  moreover have "be_value (take (Suc n) (drop i v)) =
      unat (v ! i) * 256 ^ n + be_value (take n (drop (Suc i) v))"
    using Suc.prems by (simp add: Cons_nth_drop_Suc [symmetric] be_value_Cons)
  ultimately show ?case
    using Suc.prems Suc.IH [of "Suc i" "a * 256 + unat (v ! i)"] by (simp add: distrib_right)
qed

text \<open>
  A user identity of up to 8 bytes is turned into the number its bytes spell in network
  order; a longer template is identity 0.
\<close>

theorem sub_make_id64_value:
  assumes "id_ok (Id_tmpl n v)"
  shows "sub_make_id64 (Id_tmpl n v) x =
    Some (ID_normal, if unat n \<le> 8 then of_nat (be_value (take (unat n) v)) else 0)"
  using assms id64_bytes_value [of 0 "unat n" v 0] by simp

theorem sub_make_id64_value_witness:
  "sub_make_id64 (Id_tmpl 2 [0xB0, 0x0B]) 5 = Some (ID_normal, 0xB00B)"
  using sub_make_id64_value [of 2 "[0xB0, 0x0B]" 5] by (simp add: be_value_def)

section \<open>The table invariant, over every sequence of operations\<close>

inductive auth_step :: "(bytes \<Rightarrow> bytes) \<Rightarrow> 'a auth_state_scheme \<Rightarrow> 'a auth_state_scheme \<Rightarrow> bool"
  for expand where
  search: "auth_search_user u m s = Some (k, s') \<Longrightarrow> auth_step expand s s'"
| isroot: "auth_isroot u s = Some (b, s') \<Longrightarrow> auth_step expand s s'"
| isuser: "auth_isuser u s = Some (b, s') \<Longrightarrow> auth_step expand s s'"
| check: "auth_check m rw u s = Some (r, s') \<Longrightarrow> auth_step expand s s'"
| find_key: "auth_find_keyindex x u s = Some (rc, k, s') \<Longrightarrow> auth_step expand s s'"
| refresh: "auth_refresh_key x lt u s = Some (rc, k, s') \<Longrightarrow> auth_step expand s s'"
| create: "auth_create_key expand x ty lt key u s = Some (rc, k, s') \<Longrightarrow> auth_step expand s s'"
| delete: "auth_delete_key k s = Some (rc, s') \<Longrightarrow> auth_step expand s s'"
| put_nonce: "auth_putnonce dst n s = Some (dst', s') \<Longrightarrow> auth_step expand s s'"
| get_nonce: "auth_getnonce s = (v, s') \<Longrightarrow> auth_step expand s s'"

definition auth_inv :: "'a auth_state_scheme \<Rightarrow> bool" where
  "auth_inv s \<longleftrightarrow> auth_wf s \<and> 2 \<le> dlls_size s"

lemma auth_inv_frame: "search_frame s s' \<Longrightarrow> auth_inv s' = auth_inv s"
  by (simp add: auth_inv_def search_frame_simps)

lemma auth_search_inv:
  "auth_search_user u m s = Some (k, s') \<Longrightarrow> auth_inv s' = auth_inv s"
  using auth_search_user_correct(1) by (rule auth_inv_frame)

lemma auth_find_inv:
  "auth_find_keyindex x u s = Some (rc, k, s') \<Longrightarrow> auth_inv s' = auth_inv s"
  by (auto simp: auth_find_keyindex_def bind_eq_Some_conv auth_search_inv split: if_splits)

lemma auth_check_inv: "auth_check m rw u s = Some (r, s') \<Longrightarrow> auth_inv s' = auth_inv s"
  by (erule auth_check_cases) (auto simp: auth_inv_frame auth_search_inv)

lemma sub_ismask_inv: "sub_ismask u m s = Some (b, s') \<Longrightarrow> auth_inv s' = auth_inv s"
  by (auto simp: sub_ismask_def bind_eq_Some_conv auth_search_inv split: if_splits)

lemma sub_add_key_inv:
  assumes "sub_add_key expand k lt key w s = Some (rc, k', s')" and "auth_inv s"
  shows "auth_inv s'"
proof -
  have "auth_wf s" using assms(2) by (simp add: auth_inv_def)
  from assms(1) [unfolded sub_add_key_ok [OF this]] assms(2) show ?thesis
    by (auto simp: auth_inv_def auth_wf_def AUTH_NUM_ELEMENTS_def word_le_nat_alt word_less_nat_alt
        unat_word_ariths split: if_splits)
qed

lemma auth_create_inv:
  assumes "auth_create_key expand x ty lt key u s = Some (rc, k, s')" and "auth_inv s"
  shows "auth_inv s'"
proof -
  have *: "auth_inv s1" if "sub_search_user w AUTHMOD_user s = Some (i, s1)" for w i s1
    using sub_search_user_correct(1) [OF that] assms(2) by (simp add: authmod_defs auth_inv_frame)
  from assms show ?thesis
    by (auto simp: auth_create_key_def bind_eq_Some_conv * intro: sub_add_key_inv dest!: *
        split: if_splits option.splits)
qed

lemma auth_delete_inv:
  assumes "auth_delete_key k s = Some (rc, s')" and "auth_inv s"
  shows "auth_inv s'"
proof -
  have *: "2 \<le> dlls_size s - 1" if "2 \<le> k" "k < dlls_size s"
  proof -
    have "dlls_size s \<noteq> 0" using that by auto
    then show ?thesis
      using that unat_minus_one [of "dlls_size s"] by (auto simp: word_le_nat_alt word_less_nat_alt)
  qed
  show ?thesis
    using assms auth_delete_key_spec [of s k] * by (auto simp: auth_inv_def split: if_splits)
qed

lemma auth_refresh_inv:
  assumes "auth_refresh_key x lt u s = Some (rc, k, s')" and "auth_inv s"
  shows "auth_inv s'"
proof (cases "lt < AUTH_MIN_LIFETIME")
  case True
  then show ?thesis using assms by (simp add: auth_refresh_key_def)
next
  case False
  then obtain st y s1 where f: "auth_find_keyindex x u s = Some (st, y, s1)"
    using assms(1) by (auto simp: auth_refresh_key_def bind_eq_Some_conv)
  have "auth_inv s1" using auth_find_inv [OF f] assms(2) by simp
  then show ?thesis
    using assms(1) False f
    by (auto simp: auth_refresh_key_def auth_inv_def auth_wf_def bind_eq_Some_conv Let_def
        time_get_utc_eq split: if_splits)
qed

lemma auth_step_inv: "auth_step expand s s' \<Longrightarrow> auth_inv s \<Longrightarrow> auth_inv s'"
proof (induction rule: auth_step.induct)
  case (create x ty lt key u s rc k s')
  then show ?case by (auto intro: auth_create_inv)
next
  case (delete k s rc s')
  then show ?case by (auto intro: auth_delete_inv)
next
  case (refresh x lt u s rc k s')
  then show ?case by (auto intro: auth_refresh_inv)
next
  case (put_nonce dst n s dst' s')
  then show ?case
    by (auto simp: auth_putnonce_def Let_def auth_inv_def auth_wf_def bind_eq_Some_conv split: if_splits)
next
  case (get_nonce s v s')
  then show ?case by (auto simp: auth_getnonce_def Let_def auth_inv_def auth_wf_def)
qed (auto simp: auth_search_inv auth_find_inv auth_check_inv auth_isroot_def auth_isuser_def sub_ismask_inv)

text \<open>
  C32. Whatever sequence of searches, checks, key operations and nonces is run on an
  initialised table, the table keeps its three slots, its two local keys and a size that
  stays within the slots.
\<close>

theorem auth_reachable_inv:
  assumes "(auth_step expand)\<^sup>*\<^sup>* s s'" and "auth_inv s"
  shows "auth_inv s'"
  using assms by (induction rule: rtranclp_induct) (auto intro: auth_step_inv)

theorem auth_reachable_inv_witness: "auth_inv (snd (auth_getnonce demo_auth))"
proof -
  have "auth_step (\<lambda>k. k) demo_auth (snd (auth_getnonce demo_auth))"
    by (rule auth_step.get_nonce) (rule prod.collapse [symmetric])
  moreover have "auth_inv demo_auth" using demo_auth_wf(1) by (simp add: auth_inv_def demo_auth_def)
  ultimately show ?thesis by (rule auth_reachable_inv [OF r_into_rtranclp])
qed

end
