(* ===== verification/Fs_Config.thy ===== *)
theory Fs_Config
  imports Prelude
begin

text \<open>
  The default filesystem of the build (\<^verbatim>\<open>include/app/null/fs_config.h\<close> and
  \<^verbatim>\<open>include/app/null/fs_defaults.h\<close>, with MULTIFS, so \<^verbatim>\<open>_NOMIRROR\<close> is 1): the layout
  constants, the table of stock ISF files, the headers and the stock data, and the records
  of \<^verbatim>\<open>include/otsys/veelite_core.h\<close> and \<^verbatim>\<open>veelite.h\<close> that are stored in the filesystem.
  The lemmas show that the headers tile the heap and that the stock data fits them.
\<close>

section \<open>Constants\<close>

definition VL_WORD :: nat where "VL_WORD = 2"

definition OVERHEAD_START_VADDR :: nat where "OVERHEAD_START_VADDR = 0"
definition OVERHEAD_TOTAL_BYTES :: nat where "OVERHEAD_TOTAL_BYTES = 0x200"

definition GFB_BLOCK_BYTES :: nat where "GFB_BLOCK_BYTES = 128"
definition GFB_BLOCKS_PER_FILE :: nat where "GFB_BLOCKS_PER_FILE = 1"
definition GFB_NUM_STOCK_FILES :: nat where "GFB_NUM_STOCK_FILES = 2"
definition GFB_NUM_USER_FILES :: nat where "GFB_NUM_USER_FILES = 0"
definition GFB_MOD_standard :: u8 where "GFB_MOD_standard = 0x30"
definition GFB_FILE_BYTES :: nat where "GFB_FILE_BYTES = GFB_BLOCK_BYTES * GFB_BLOCKS_PER_FILE"
definition GFB_START_VADDR :: nat where "GFB_START_VADDR = OVERHEAD_START_VADDR + OVERHEAD_TOTAL_BYTES"
definition GFB_NUM_FILES :: nat where "GFB_NUM_FILES = GFB_NUM_STOCK_FILES + GFB_NUM_USER_FILES"
definition GFB_HEAP_BYTES :: nat where "GFB_HEAP_BYTES = GFB_FILE_BYTES * GFB_NUM_STOCK_FILES"
definition GFB_STOCK_BYTES :: nat where "GFB_STOCK_BYTES = GFB_FILE_BYTES * GFB_NUM_STOCK_FILES"
definition GFB_TOTAL_BYTES :: nat where
  "GFB_TOTAL_BYTES = GFB_FILE_BYTES * (GFB_NUM_STOCK_FILES + GFB_NUM_USER_FILES)"

definition ISS_TOTAL_BYTES :: nat where "ISS_TOTAL_BYTES = 0"
definition ISS_NUM_STOCK_FILES :: nat where "ISS_NUM_STOCK_FILES = 0"
definition ISS_STOCK_BYTES :: nat where "ISS_STOCK_BYTES = 0"
definition ISS_START_VADDR :: nat where "ISS_START_VADDR = GFB_START_VADDR + GFB_TOTAL_BYTES"

definition ISF_TOTAL_BYTES :: nat where "ISF_TOTAL_BYTES = 512"
definition ISF_NUM_M1_FILES :: nat where "ISF_NUM_M1_FILES = 7"
definition ISF_NUM_M2_FILES :: nat where "ISF_NUM_M2_FILES = 16"
definition ISF_START_VADDR :: nat where "ISF_START_VADDR = ISS_START_VADDR + ISS_TOTAL_BYTES"
definition ISF_NUM_STOCK_FILES :: nat where "ISF_NUM_STOCK_FILES = ISF_NUM_M1_FILES + ISF_NUM_M2_FILES"

definition NULL_vaddr :: u16 where "NULL_vaddr = 0xFFFF"

lemmas fs_config_defs = VL_WORD_def OVERHEAD_START_VADDR_def OVERHEAD_TOTAL_BYTES_def
  GFB_BLOCK_BYTES_def GFB_BLOCKS_PER_FILE_def GFB_NUM_STOCK_FILES_def GFB_NUM_USER_FILES_def
  GFB_MOD_standard_def GFB_FILE_BYTES_def GFB_START_VADDR_def GFB_NUM_FILES_def GFB_HEAP_BYTES_def
  GFB_STOCK_BYTES_def GFB_TOTAL_BYTES_def ISS_TOTAL_BYTES_def ISS_NUM_STOCK_FILES_def
  ISS_STOCK_BYTES_def ISS_START_VADDR_def ISF_TOTAL_BYTES_def ISF_NUM_M1_FILES_def
  ISF_NUM_M2_FILES_def ISF_START_VADDR_def ISF_NUM_STOCK_FILES_def NULL_vaddr_def

section \<open>The table of stock ISF files\<close>

datatype isf_file =
    Network_settings | Device_features | Channel_configuration | Real_time_scheduler
  | Hold_scan_sequence | Sleep_scan_sequence | Beacon_transmit_sequence | Isf_list
  | Isfs_list | Gfb_file_list | Location_data_list | Ipv6_addresses
  | Sensor_list | Sensor_alarms | Root_authentication_key | User_authentication_key
  | Routing_code | User_id | Optional_command_list | Memory_size
  | Table_query_size | Table_query_results | Hardware_fault_status | User_data
  | Application_extension

definition isf_files :: "isf_file list" where
  "isf_files = [Network_settings, Device_features, Channel_configuration, Real_time_scheduler,
     Hold_scan_sequence, Sleep_scan_sequence, Beacon_transmit_sequence, Isf_list,
     Isfs_list, Gfb_file_list, Location_data_list, Ipv6_addresses,
     Sensor_list, Sensor_alarms, Root_authentication_key, User_authentication_key,
     Routing_code, User_id, Optional_command_list, Memory_size,
     Table_query_size, Table_query_results, Hardware_fault_status, User_data,
     Application_extension]"

primrec ISF_ID :: "isf_file \<Rightarrow> u8" where
  "ISF_ID Network_settings = 0x00"
| "ISF_ID Device_features = 0x01"
| "ISF_ID Channel_configuration = 0x02"
| "ISF_ID Real_time_scheduler = 0x03"
| "ISF_ID Hold_scan_sequence = 0x04"
| "ISF_ID Sleep_scan_sequence = 0x05"
| "ISF_ID Beacon_transmit_sequence = 0x06"
| "ISF_ID Isf_list = 0x07"
| "ISF_ID Isfs_list = 0x08"
| "ISF_ID Gfb_file_list = 0x09"
| "ISF_ID Location_data_list = 0x0A"
| "ISF_ID Ipv6_addresses = 0x0B"
| "ISF_ID Sensor_list = 0x0C"
| "ISF_ID Sensor_alarms = 0x0D"
| "ISF_ID Root_authentication_key = 0x0E"
| "ISF_ID User_authentication_key = 0x0F"
| "ISF_ID Routing_code = 0x10"
| "ISF_ID User_id = 0x11"
| "ISF_ID Optional_command_list = 0x12"
| "ISF_ID Memory_size = 0x13"
| "ISF_ID Table_query_size = 0x14"
| "ISF_ID Table_query_results = 0x15"
| "ISF_ID Hardware_fault_status = 0x16"
| "ISF_ID User_data = 0xFE"
| "ISF_ID Application_extension = 0xFF"

definition ISF_MOD_file_standard :: u8 where "ISF_MOD_file_standard = 0x34"

primrec ISF_MOD :: "isf_file \<Rightarrow> u8" where
  "ISF_MOD Network_settings = ISF_MOD_file_standard"
| "ISF_MOD Device_features = 0x24"
| "ISF_MOD Channel_configuration = ISF_MOD_file_standard"
| "ISF_MOD Real_time_scheduler = ISF_MOD_file_standard"
| "ISF_MOD Hold_scan_sequence = ISF_MOD_file_standard"
| "ISF_MOD Sleep_scan_sequence = ISF_MOD_file_standard"
| "ISF_MOD Beacon_transmit_sequence = ISF_MOD_file_standard"
| "ISF_MOD Isf_list = 0x24"
| "ISF_MOD Isfs_list = 0x24"
| "ISF_MOD Gfb_file_list = ISF_MOD_file_standard"
| "ISF_MOD Location_data_list = 0x24"
| "ISF_MOD Ipv6_addresses = ISF_MOD_file_standard"
| "ISF_MOD Sensor_list = 0x24"
| "ISF_MOD Sensor_alarms = 0x24"
| "ISF_MOD Root_authentication_key = 0x0"
| "ISF_MOD User_authentication_key = 0x20"
| "ISF_MOD Routing_code = ISF_MOD_file_standard"
| "ISF_MOD User_id = ISF_MOD_file_standard"
| "ISF_MOD Optional_command_list = 0x24"
| "ISF_MOD Memory_size = 0x24"
| "ISF_MOD Table_query_size = 0x24"
| "ISF_MOD Table_query_results = 0x24"
| "ISF_MOD Hardware_fault_status = 0x24"
| "ISF_MOD User_data = 0x24"
| "ISF_MOD Application_extension = 0x24"

primrec ISF_LEN :: "isf_file \<Rightarrow> u8" where
  "ISF_LEN Network_settings = 10"
| "ISF_LEN Device_features = 48"
| "ISF_LEN Channel_configuration = 0"
| "ISF_LEN Real_time_scheduler = 0"
| "ISF_LEN Hold_scan_sequence = 0"
| "ISF_LEN Sleep_scan_sequence = 0"
| "ISF_LEN Beacon_transmit_sequence = 0"
| "ISF_LEN Isf_list = 1"
| "ISF_LEN Isfs_list = 0"
| "ISF_LEN Gfb_file_list = of_nat GFB_NUM_FILES"
| "ISF_LEN Location_data_list = 0"
| "ISF_LEN Ipv6_addresses = 0"
| "ISF_LEN Sensor_list = 0"
| "ISF_LEN Sensor_alarms = 0"
| "ISF_LEN Root_authentication_key = 22"
| "ISF_LEN User_authentication_key = 22"
| "ISF_LEN Routing_code = 0"
| "ISF_LEN User_id = 0"
| "ISF_LEN Optional_command_list = 0"
| "ISF_LEN Memory_size = 0"
| "ISF_LEN Table_query_size = 0"
| "ISF_LEN Table_query_results = 0"
| "ISF_LEN Hardware_fault_status = 0"
| "ISF_LEN User_data = 0"
| "ISF_LEN Application_extension = 0"

primrec ISF_MAX :: "isf_file \<Rightarrow> nat" where
  "ISF_MAX Network_settings = 10"
| "ISF_MAX Device_features = 48"
| "ISF_MAX Channel_configuration = 0"
| "ISF_MAX Real_time_scheduler = 0"
| "ISF_MAX Hold_scan_sequence = 0"
| "ISF_MAX Sleep_scan_sequence = 0"
| "ISF_MAX Beacon_transmit_sequence = 0"
| "ISF_MAX Isf_list = 24"
| "ISF_MAX Isfs_list = 0"
| "ISF_MAX Gfb_file_list = 8"
| "ISF_MAX Location_data_list = 0"
| "ISF_MAX Ipv6_addresses = 48"
| "ISF_MAX Sensor_list = 0"
| "ISF_MAX Sensor_alarms = 0"
| "ISF_MAX Root_authentication_key = 22"
| "ISF_MAX User_authentication_key = 22"
| "ISF_MAX Routing_code = 0"
| "ISF_MAX User_id = 60"
| "ISF_MAX Optional_command_list = 0"
| "ISF_MAX Memory_size = 0"
| "ISF_MAX Table_query_size = 0"
| "ISF_MAX Table_query_results = 0"
| "ISF_MAX Hardware_fault_status = 0"
| "ISF_MAX User_data = 64"
| "ISF_MAX Application_extension = 64"

definition ISF_ALLOC :: "isf_file \<Rightarrow> nat" where
  "ISF_ALLOC f = push_bit 1 (drop_bit 1 (ISF_MAX f + (VL_WORD - 1)))"

text \<open>The chain of \<^verbatim>\<open>ISF_BASE_x\<close> macros: the first base plus the allocations before \<open>f\<close>.\<close>

definition ISF_BASE :: "isf_file \<Rightarrow> nat" where
  "ISF_BASE f = ISF_START_VADDR + sum_list (map ISF_ALLOC (takeWhile (\<lambda>g. g \<noteq> f) isf_files))"

definition ISF_STOCK_BYTES :: nat where
  "ISF_STOCK_BYTES = sum_list (map ISF_ALLOC isf_files)"

definition ISF_HEAP_BYTES :: nat where "ISF_HEAP_BYTES = ISF_STOCK_BYTES - 0"

text \<open>No file is mirrored: \<^verbatim>\<open>ISF_ENMIRROR\<close> is 0 for all, and \<^verbatim>\<open>(0 != 0) - 1\<close> is all ones.\<close>

definition ISF_MIRROR :: "isf_file \<Rightarrow> u16" where
  "ISF_MIRROR f = (of_bool False - 1) OR 0xC000"

section \<open>Records stored in the filesystem\<close>

record vlBLOCKHEADER =
  blk_alloc :: u16
  blk_used :: u16
  blk_files :: u16

record vlFSHEADER =
  fs_ftab_alloc :: u16
  fs_res_act0 :: u16
  fs_res_act2 :: u16
  fs_gfb :: vlBLOCKHEADER
  fs_iss :: vlBLOCKHEADER
  fs_isf :: vlBLOCKHEADER
  fs_res_time0 :: u32
  fs_res_time4 :: u32

record vl_header_t =
  hd_length :: u16
  hd_alloc :: u16
  hd_idmod :: u16
  hd_base :: u16
  hd_mirror :: u16
  hd_actioncode :: u16
  hd_modtime :: u32

text \<open>The initialiser macros: big-endian and little-endian bytes of a value.\<close>

definition SPLIT_SHORT :: "u16 \<Rightarrow> bytes" where "SPLIT_SHORT v = [hi8 v, lo8 v]"
definition SPLIT_SHORT_LE :: "u16 \<Rightarrow> bytes" where "SPLIT_SHORT_LE v = [lo8 v, hi8 v]"
definition SPLIT_LONG :: "u32 \<Rightarrow> bytes" where "SPLIT_LONG v = SPLIT_SHORT (hi16 v) @ SPLIT_SHORT (lo16 v)"
definition SPLIT_LONG_LE :: "u32 \<Rightarrow> bytes" where
  "SPLIT_LONG_LE v = SPLIT_SHORT_LE (lo16 v) @ SPLIT_SHORT_LE (hi16 v)"

lemmas split_defs = SPLIT_SHORT_def SPLIT_SHORT_LE_def SPLIT_LONG_def SPLIT_LONG_LE_def

definition blk_bytes :: "vlBLOCKHEADER \<Rightarrow> bytes" where
  "blk_bytes b = SPLIT_SHORT_LE (blk_alloc b) @ SPLIT_SHORT_LE (blk_used b) @ SPLIT_SHORT_LE (blk_files b)"

definition fsheader_bytes :: "vlFSHEADER \<Rightarrow> bytes" where
  "fsheader_bytes h = SPLIT_SHORT_LE (fs_ftab_alloc h) @ SPLIT_SHORT_LE (fs_res_act0 h)
     @ SPLIT_SHORT_LE (fs_res_act2 h) @ blk_bytes (fs_gfb h) @ blk_bytes (fs_iss h)
     @ blk_bytes (fs_isf h) @ SPLIT_LONG_LE (fs_res_time0 h) @ SPLIT_LONG_LE (fs_res_time4 h)"

definition header_bytes :: "vl_header_t \<Rightarrow> bytes" where
  "header_bytes h = SPLIT_SHORT_LE (hd_length h) @ SPLIT_SHORT_LE (hd_alloc h)
     @ SPLIT_SHORT_LE (hd_idmod h) @ SPLIT_SHORT_LE (hd_base h) @ SPLIT_SHORT_LE (hd_mirror h)
     @ SPLIT_SHORT_LE (hd_actioncode h) @ SPLIT_LONG_LE (hd_modtime h)"

text \<open>Reading the structures back through a pointer into the filesystem.\<close>

definition rd32 :: "bytes \<Rightarrow> nat \<Rightarrow> u32 option" where
  "rd32 m a = do { l \<leftarrow> rd16 m a; h \<leftarrow> rd16 m (a + 2); Some (join32 l h) }"

definition blk_at :: "bytes \<Rightarrow> nat \<Rightarrow> vlBLOCKHEADER option" where
  "blk_at m a = do {
     x \<leftarrow> rd16 m a; y \<leftarrow> rd16 m (a + 2); z \<leftarrow> rd16 m (a + 4);
     Some \<lparr>blk_alloc = x, blk_used = y, blk_files = z\<rparr>
   }"

definition fsheader_at :: "bytes \<Rightarrow> nat \<Rightarrow> vlFSHEADER option" where
  "fsheader_at m a = do {
     fa \<leftarrow> rd16 m a; r0 \<leftarrow> rd16 m (a + 2); r2 \<leftarrow> rd16 m (a + 4);
     g \<leftarrow> blk_at m (a + 6); i \<leftarrow> blk_at m (a + 12); f \<leftarrow> blk_at m (a + 18);
     t0 \<leftarrow> rd32 m (a + 24); t4 \<leftarrow> rd32 m (a + 28);
     Some \<lparr>fs_ftab_alloc = fa, fs_res_act0 = r0, fs_res_act2 = r2, fs_gfb = g, fs_iss = i,
           fs_isf = f, fs_res_time0 = t0, fs_res_time4 = t4\<rparr>
   }"

definition header_at :: "bytes \<Rightarrow> nat \<Rightarrow> vl_header_t option" where
  "header_at m a = do {
     l \<leftarrow> rd16 m a; c \<leftarrow> rd16 m (a + 2); i \<leftarrow> rd16 m (a + 4); b \<leftarrow> rd16 m (a + 6);
     r \<leftarrow> rd16 m (a + 8); n \<leftarrow> rd16 m (a + 10); t \<leftarrow> rd32 m (a + 12);
     Some \<lparr>hd_length = l, hd_alloc = c, hd_idmod = i, hd_base = b, hd_mirror = r,
           hd_actioncode = n, hd_modtime = t\<rparr>
   }"

section \<open>The default headers\<close>

definition default_fsheader :: vlFSHEADER where
  "default_fsheader = \<lparr>fs_ftab_alloc = of_nat OVERHEAD_TOTAL_BYTES, fs_res_act0 = 0, fs_res_act2 = 0,
     fs_gfb = \<lparr>blk_alloc = of_nat GFB_TOTAL_BYTES, blk_used = of_nat GFB_STOCK_BYTES,
               blk_files = of_nat GFB_NUM_STOCK_FILES\<rparr>,
     fs_iss = \<lparr>blk_alloc = of_nat ISS_TOTAL_BYTES, blk_used = of_nat ISS_STOCK_BYTES,
               blk_files = of_nat ISS_NUM_STOCK_FILES\<rparr>,
     fs_isf = \<lparr>blk_alloc = of_nat ISF_TOTAL_BYTES, blk_used = of_nat ISF_STOCK_BYTES,
               blk_files = of_nat ISF_NUM_STOCK_FILES\<rparr>,
     fs_res_time0 = 0, fs_res_time4 = 0\<rparr>"

definition gfb_header :: "nat \<Rightarrow> vl_header_t" where
  "gfb_header i = \<lparr>hd_length = 0, hd_alloc = of_nat GFB_BLOCK_BYTES,
     hd_idmod = join16 (of_nat i) GFB_MOD_standard,
     hd_base = of_nat (GFB_START_VADDR + GFB_BLOCK_BYTES * i), hd_mirror = 0xFFFF,
     hd_actioncode = 0, hd_modtime = 0\<rparr>"

definition isf_header :: "isf_file \<Rightarrow> vl_header_t" where
  "isf_header f = \<lparr>hd_length = join16 (ISF_LEN f) 0, hd_alloc = of_nat (ISF_ALLOC f),
     hd_idmod = join16 (ISF_ID f) (ISF_MOD f), hd_base = of_nat (ISF_BASE f),
     hd_mirror = ISF_MIRROR f, hd_actioncode = 0, hd_modtime = 0\<rparr>"

definition overhead_files :: bytes where
  "overhead_files = fsheader_bytes default_fsheader
     @ concat (map (header_bytes \<circ> gfb_header) [0, 1])
     @ concat (map (header_bytes \<circ> isf_header) isf_files)"

section \<open>The stock data\<close>

definition ERS :: u8 where "ERS = 0xFF"

text \<open>\<^verbatim>\<open>__NO_SECTIONS__\<close> is defined in the build, so the array has one element.\<close>

definition gfb_stock_files :: bytes where "gfb_stock_files = [ERS]"

text \<open>
  \<open>build_id\<close> stands for the nine bytes of the version string that the build settings give:
  \<^verbatim>\<open>BT0\<close>, \<^verbatim>\<open>BC0\<close> to \<^verbatim>\<open>BC7\<close>; \<^verbatim>\<open>BV0\<close> is \<^verbatim>\<open>OT_VERSION_MAJOR + 48\<close>.
\<close>

fun isf_stock :: "bytes \<Rightarrow> isf_file \<Rightarrow> bytes" where
  "isf_stock build_id Network_settings =
     [ERS, ERS, 0x11, 0x11] @ SPLIT_SHORT 0 @ [0x00, 1] @ SPLIT_SHORT 2"
| "isf_stock build_id Device_features =
     replicate 8 ERS @ SPLIT_SHORT 0 @ [255, 1] @ SPLIT_SHORT 0 @ SPLIT_SHORT 0
     @ SPLIT_SHORT (of_nat ISF_TOTAL_BYTES) @ SPLIT_SHORT (of_nat (ISF_TOTAL_BYTES - ISF_HEAP_BYTES))
     @ SPLIT_SHORT 0 @ SPLIT_SHORT 0 @ SPLIT_SHORT (of_nat GFB_TOTAL_BYTES)
     @ SPLIT_SHORT (of_nat (GFB_TOTAL_BYTES - GFB_HEAP_BYTES)) @ SPLIT_SHORT (of_nat GFB_BLOCK_BYTES)
     @ [0, 0] @ [0x4F, 0x54, 0x76, 0 + 48, 0x20, 0x20] @ take 9 build_id @ [0]"
| "isf_stock build_id Isf_list = 0xFF # replicate 23 ERS"
| "isf_stock build_id Gfb_file_list = 0x01 # replicate 7 ERS"
| "isf_stock build_id Ipv6_addresses = replicate 48 ERS"
| "isf_stock build_id Root_authentication_key =
     SPLIT_SHORT 56 @ SPLIT_LONG (48 * 3600)
     @ [0x00, 0x11, 0x22, 0x33, 0x44, 0x55, 0x66, 0x77, 0x88, 0x99, 0xAA, 0xBB, 0xCC, 0xDD, 0xEE, 0xFF]"
| "isf_stock build_id User_authentication_key =
     SPLIT_SHORT 7 @ SPLIT_LONG (48 * 3600)
     @ [0x00, 0x01, 0x02, 0x03, 0x04, 0x05, 0x06, 0x07, 0x08, 0x09, 0x0A, 0x0B, 0x0C, 0x0D, 0x0E, 0x0F]"
| "isf_stock build_id User_id = replicate 60 ERS"
| "isf_stock build_id User_data = replicate 64 ERS"
| "isf_stock build_id Application_extension = replicate 64 ERS"
| "isf_stock build_id _ = []"

definition isf_stock_files :: "bytes \<Rightarrow> bytes" where
  "isf_stock_files build_id = concat (map (isf_stock build_id) isf_files)"

section \<open>The layout is consistent\<close>

lemma length_header_bytes [simp]: "length (header_bytes h) = 16"
  by (simp add: header_bytes_def split_defs)

lemma length_fsheader_bytes [simp]: "length (fsheader_bytes h) = 32"
  by (simp add: fsheader_bytes_def blk_bytes_def split_defs)

lemma isf_files_UNIV: "f \<in> set isf_files"
  by (cases f) (simp_all add: isf_files_def)

lemma distinct_isf_files: "distinct isf_files"
  by (simp add: isf_files_def)

lemma length_isf_files: "length isf_files = 25"
  by (simp add: isf_files_def)

lemma length_isf_stock: "length build_id = 9 \<Longrightarrow> length (isf_stock build_id f) = ISF_ALLOC f"
  by (cases f) (simp_all add: ISF_ALLOC_def VL_WORD_def split_defs)

lemma ISF_ALLOC_eq: "ISF_ALLOC f = ISF_MAX f"
  by (cases f) (simp_all add: ISF_ALLOC_def VL_WORD_def)

lemma ISF_STOCK_BYTES_eq: "ISF_STOCK_BYTES = 370"
  by (simp add: ISF_STOCK_BYTES_def isf_files_def ISF_ALLOC_eq)

lemma length_isf_stock_files: "length build_id = 9 \<Longrightarrow> length (isf_stock_files build_id) = 370"
  by (simp add: isf_stock_files_def length_concat length_isf_stock o_def
      ISF_STOCK_BYTES_eq [unfolded ISF_STOCK_BYTES_def])

lemma length_overhead_files: "length overhead_files = 464"
  by (simp add: overhead_files_def length_concat length_isf_files o_def sum_list_triv)

lemma ISF_MIRROR_eq: "ISF_MIRROR f = NULL_vaddr"
  by (simp add: ISF_MIRROR_def NULL_vaddr_def)


lemma rd16_append [simp]:
  "rd16 (SPLIT_SHORT_LE w @ m) 0 = Some w"
  by (simp add: rd16_def SPLIT_SHORT_LE_def)

lemma rd16_shift: "rd16 (p @ m) (length p + a) = rd16 m a"
  by (simp add: rd16_def nth_append)

lemma rd32_shift: "rd32 (p @ m) (length p + a) = rd32 m a"
  by (simp only: rd32_def rd16_shift add.assoc)

lemma blk_at_shift: "blk_at (p @ m) (length p + a) = blk_at m a"
  by (simp only: blk_at_def rd16_shift add.assoc)

lemma header_at_shift: "header_at (p @ m) (length p + a) = header_at m a"
  by (simp only: header_at_def rd16_shift rd32_shift add.assoc)

lemma header_at_bytes: "header_at (header_bytes h @ m) 0 = Some h"
  by (simp add: header_at_def header_bytes_def split_defs rd16_def rd32_def)

lemma fsheader_at_bytes: "fsheader_at (fsheader_bytes h @ m) 0 = Some h"
  by (simp add: fsheader_at_def fsheader_bytes_def blk_at_def blk_bytes_def split_defs rd16_def rd32_def)

lemma concat_split:
  "i < length xs \<Longrightarrow> (\<And>x. length (b x) = n) \<Longrightarrow>
   concat (map b xs) = concat (map b (take i xs)) @ b (xs ! i) @ concat (map b (drop (Suc i) xs))
   \<and> length (concat (map b (take i xs))) = i * n"
proof (induction xs arbitrary: i)
  case Nil
  then show ?case by simp
next
  case (Cons x xs)
  then show ?case by (cases i) auto
qed

lemma header_at_concat:
  assumes "i < length xs"
  shows "header_at (p @ concat (map (header_bytes \<circ> h) xs) @ q) (length p + 16 * i) = Some (h (xs ! i))"
proof -
  let ?pre = "concat (map (header_bytes \<circ> h) (take i xs))"
  and ?post = "concat (map (header_bytes \<circ> h) (drop (Suc i) xs))"
  have s: "concat (map (header_bytes \<circ> h) xs) = ?pre @ header_bytes (h (xs ! i)) @ ?post"
    "length ?pre = i * 16"
    using concat_split [OF assms, of "header_bytes \<circ> h" 16] by auto
  have "header_at (p @ (?pre @ header_bytes (h (xs ! i)) @ ?post) @ q) (length p + 16 * i)
      = header_at ((?pre @ header_bytes (h (xs ! i)) @ ?post) @ q) (length ?pre + 0)"
    by (simp only: header_at_shift s(2)) (simp add: mult.commute)
  also have "\<dots> = header_at (header_bytes (h (xs ! i)) @ ?post @ q) 0"
    by (simp only: append_assoc header_at_shift)
  finally show ?thesis unfolding s(1) by (simp only: header_at_bytes)
qed

lemma overhead_fsheader: "fsheader_at overhead_files 0 = Some default_fsheader"
  by (simp only: overhead_files_def fsheader_at_bytes)

lemma overhead_gfb_header:
  assumes "i < 2"
  shows "header_at overhead_files (32 + 16 * i) = Some (gfb_header i)"
proof -
  from assms have "i < length [0, 1 :: nat]" "[0, 1] ! i = i" by (auto simp: less_2_cases_iff)
  from header_at_concat [OF this(1), of "fsheader_bytes default_fsheader" gfb_header] this(2)
  show ?thesis unfolding overhead_files_def by (simp only: length_fsheader_bytes)
qed

lemma overhead_isf_header:
  assumes "i < 25"
  shows "header_at overhead_files (64 + 16 * i) = Some (isf_header (isf_files ! i))"
proof -
  let ?p = "fsheader_bytes default_fsheader @ concat (map (header_bytes \<circ> gfb_header) [0, 1])"
  have l: "length ?p = 64" by simp
  show ?thesis
    using header_at_concat [of i isf_files ?p isf_header "[]"] assms
    unfolding overhead_files_def l length_isf_files append_Nil2 append_assoc by simp
qed

text \<open>
  The overhead array holds the filesystem header and, at the positions the search
  routines compute, the header of each generic file and of each indexed file of the table.
\<close>

theorem overhead_files_headers:
  "fsheader_at overhead_files 0 = Some default_fsheader
   \<and> (\<forall>i < 2. header_at overhead_files (32 + 16 * i) = Some (gfb_header i))
   \<and> (\<forall>i < 25. header_at overhead_files (64 + 16 * i) = Some (isf_header (isf_files ! i)))"
  by (simp add: overhead_fsheader overhead_gfb_header overhead_isf_header)

theorem overhead_files_headers_witness:
  "header_at overhead_files 304 = Some (isf_header User_authentication_key)"
proof -
  have "header_at overhead_files (64 + 16 * 15) = Some (isf_header (isf_files ! 15))"
    by (rule overhead_files_headers [THEN conjunct2, THEN conjunct2, rule_format]) simp
  then show ?thesis by (simp add: isf_files_def)
qed

section \<open>Tables of files\<close>

text \<open>
  A table of files whose areas follow each other in the order of the table: the configurations
  compute the base of a file by a chain of macros, each the base of the file before it plus its
  allocation. The stock data is an array with the data of the files in the same order.
\<close>

lemma prefix_sum:
  "g \<in> set (takeWhile (\<lambda>x. x \<noteq> f) xs) \<Longrightarrow>
   sum_list (map a (takeWhile (\<lambda>x. x \<noteq> g) xs)) + a g \<le> sum_list (map a (takeWhile (\<lambda>x. x \<noteq> f) xs))"
  for a :: "'a \<Rightarrow> nat"
  by (induction xs) (auto split: if_splits)

lemma before_or_after:
  "f \<in> set xs \<Longrightarrow> g \<in> set xs \<Longrightarrow> f \<noteq> g \<Longrightarrow>
   f \<in> set (takeWhile (\<lambda>x. x \<noteq> g) xs) \<or> g \<in> set (takeWhile (\<lambda>x. x \<noteq> f) xs)"
  by (induction xs) auto

lemma prefix_sum_total:
  "f \<in> set xs \<Longrightarrow> sum_list (map a (takeWhile (\<lambda>x. x \<noteq> f) xs)) + a f \<le> sum_list (map a xs)"
  for a :: "'a \<Rightarrow> nat"
  by (induction xs) auto

lemma concat_slice:
  "f \<in> set xs \<Longrightarrow> n = sum_list (map (length \<circ> d) (takeWhile (\<lambda>x. x \<noteq> f) xs)) \<Longrightarrow>
   take (length (d f)) (drop n (concat (map d xs))) = d f"
  by (induction xs arbitrary: n) auto

locale file_table =
  fixes files :: "'f list" and alloc :: "'f \<Rightarrow> nat" and start :: nat and base :: "'f \<Rightarrow> nat"
  assumes files_all: "f \<in> set files"
    and alloc_even: "even (alloc f)"
    and start_even: "even start"
    and base_eq: "base f = start + sum_list (map alloc (takeWhile (\<lambda>g. g \<noteq> f) files))"
begin

lemma areas_disjoint: "f = g \<or> base f + alloc f \<le> base g \<or> base g + alloc g \<le> base f"
  using before_or_after [OF files_all files_all, of f g]
    prefix_sum [of g f files alloc] prefix_sum [of f g files alloc]
  by (auto simp: base_eq)

lemma base_even: "even (base f)"
proof -
  have "even (sum_list (map alloc xs))" for xs by (induction xs) (auto simp: alloc_even)
  then show ?thesis by (simp add: base_eq start_even)
qed

lemma area_after: "start \<le> base f"
  by (simp add: base_eq)

lemma area_inside: "base f + alloc f \<le> start + sum_list (map alloc files)"
  using prefix_sum_total [OF files_all, of alloc f] by (simp add: base_eq)

lemma stock_at_base:
  assumes "\<And>f. length (d f) = alloc f"
  shows "take (alloc f) (drop (base f - start) (concat (map d files))) = d f"
  using concat_slice [OF files_all refl, where f = f and d = d] by (simp add: base_eq o_def assms)

end

interpretation null_files: file_table isf_files ISF_ALLOC ISF_START_VADDR ISF_BASE
  by unfold_locales (auto simp: isf_files_UNIV ISF_ALLOC_def push_bit_eq_mult ISF_BASE_def fs_config_defs)

text \<open>
  The data areas of the indexed files do not overlap: two different files have
  disjoint areas, each area starts at an even address, lies inside the block of indexed
  files, and has room for the length its header declares and exactly the size of its stock
  data.
\<close>

theorem isf_areas_disjoint:
  "(\<forall>f g. f = g \<or> ISF_BASE f + ISF_ALLOC f \<le> ISF_BASE g \<or> ISF_BASE g + ISF_ALLOC g \<le> ISF_BASE f)
   \<and> (\<forall>f. even (ISF_BASE f) \<and> ISF_START_VADDR \<le> ISF_BASE f
          \<and> ISF_BASE f + ISF_ALLOC f \<le> ISF_START_VADDR + ISF_TOTAL_BYTES
          \<and> unat (ISF_LEN f) \<le> ISF_ALLOC f
          \<and> length (isf_stock (replicate 9 b) f) = ISF_ALLOC f)"
proof (intro conjI allI)
  fix f
  show "ISF_BASE f + ISF_ALLOC f \<le> ISF_START_VADDR + ISF_TOTAL_BYTES"
    using null_files.area_inside [of f] ISF_STOCK_BYTES_eq [unfolded ISF_STOCK_BYTES_def]
    by (simp add: ISF_TOTAL_BYTES_def)
  show "unat (ISF_LEN f) \<le> ISF_ALLOC f"
    by (cases f) (simp_all add: ISF_ALLOC_eq fs_config_defs)
qed (simp_all add: null_files.areas_disjoint null_files.base_even null_files.area_after length_isf_stock)

end
