(* ===== verification/Vworm.thy ===== *)
theory Vworm
  imports Ot_Auth Fs_Config
begin

text \<open>
  The memory driver of the filesystem, \<^verbatim>\<open>platform/posix_c/otsys_veelite_generic.c\<close> in the
  default build (MULTIFS, so \<^verbatim>\<open>fsram\<close> is a pointer that \<^verbatim>\<open>vworm_init\<close> sets; VLNVWRITE, so
  \<^verbatim>\<open>VWORM_BASE_VADDR\<close> is 0).

  The memory that \<^verbatim>\<open>malloc\<close> hands out is the component \<open>heap\<close>: a pointer is the number of a
  block, and \<open>heap s b\<close> the bytes of the block, or \<open>None\<close> when there is no such block. The
  half-words of the selected block form a store in the sense of \<open>halfword_store\<close>.
\<close>

record core_state = auth_state +
  heap :: "nat \<Rightarrow> bytes option"
  fsram :: "nat option"

definition VWORM_BASE_VADDR :: u16 where "VWORM_BASE_VADDR = 0"
definition VWORM_SIZE :: int where "VWORM_SIZE = 512 * 16"
definition VSRAM_BASE_VADDR :: u16 where "VSRAM_BASE_VADDR = 0xC000"
definition VSRAM_SIZE :: int where "VSRAM_SIZE = 0"

datatype vas_loc = Vas_error | In_vworm | In_veeprom | In_vsram

definition vas_check :: "u16 \<Rightarrow> vas_loc" where
  "vas_check addr =
     (let scratch = uint addr - uint VWORM_BASE_VADDR in
      if 0 \<le> scratch \<and> scratch < VWORM_SIZE then In_vworm
      else
        let scratch = uint addr - uint VSRAM_BASE_VADDR in
        if 0 \<le> scratch \<and> scratch < VSRAM_SIZE then In_vsram else Vas_error)"

definition fsblock :: "'a core_state_scheme \<Rightarrow> bytes option" where
  "fsblock s = do { b \<leftarrow> fsram s; heap s b }"

definition set_fsblock :: "bytes \<Rightarrow> 'a core_state_scheme \<Rightarrow> 'a core_state_scheme" where
  "set_fsblock m s = (case fsram s of None \<Rightarrow> s | Some b \<Rightarrow> s\<lparr>heap := (heap s)(b \<mapsto> m)\<rparr>)"

section \<open>Loading the default filesystem\<close>

text \<open>
  The constant arrays, as the memory that can be read from their first byte on: the linker
  puts other constants after an array, and the copies below run over the end of it.
  \<open>strict_rodata\<close> is the arrays alone.
\<close>

record rodata =
  ro_overhead :: bytes
  ro_gfb :: bytes
  ro_isf :: bytes

definition strict_rodata :: "bytes \<Rightarrow> rodata" where
  "strict_rodata build_id = \<lparr>ro_overhead = overhead_files, ro_gfb = gfb_stock_files,
     ro_isf = isf_stock_files build_id\<rparr>"

definition ot_memcpy_4 :: "bytes \<Rightarrow> nat \<Rightarrow> bytes \<Rightarrow> u16 \<Rightarrow> bytes option" where
  "ot_memcpy_4 dst off src len = do {
     bs \<leftarrow> rd_bytes src 0 (4 * unat len);
     wr_bytes dst off bs
   }"

definition sub_copy_section :: "bytes \<Rightarrow> nat \<Rightarrow> bytes \<Rightarrow> u16 \<Rightarrow> u16 \<Rightarrow> (u16 \<times> bytes) option" where
  "sub_copy_section section off defaults defaults_size input_size =
     (let copylen = (if defaults_size < input_size then defaults_size else input_size);
          copylen = of_nat ((unat copylen + 3) div 4) :: u16
      in do {
        section \<leftarrow> ot_memcpy_4 section off defaults copylen;
        Some (copylen, section)
      })"

definition vworm_format :: u8 where "vworm_format = 0"

definition vworm_fsalloc :: "vlFSHEADER option \<Rightarrow> u32" where
  "vworm_fsalloc fs = (case fs of
       None \<Rightarrow> 0
     | Some fs \<Rightarrow> ucast (fs_ftab_alloc fs) + ucast (blk_alloc (fs_gfb fs))
         + ucast (blk_alloc (fs_iss fs)) + ucast (blk_alloc (fs_isf fs)))"

definition vworm_fsheader_defload :: "vlFSHEADER option \<Rightarrow> vlFSHEADER option option" where
  "vworm_fsheader_defload fs = (case fs of
       None \<Rightarrow> Some None
     | Some _ \<Rightarrow> map_option Some (fsheader_at overhead_files 0))"

text \<open>
  \<^verbatim>\<open>vworm_fsdata_defload\<close>, into the block \<open>fs_base\<close>. The pointer \<^verbatim>\<open>section\<close> is an offset into
  the block; it advances by whole 32-bit words. \<^verbatim>\<open>ISS_TOTAL_BYTES\<close> is 0, so that section is not
  compiled.
\<close>

definition vworm_fsdata_defload ::
  "rodata \<Rightarrow> nat option \<Rightarrow> vlFSHEADER option \<Rightarrow> 'a core_state_scheme \<Rightarrow>
   (u16 \<times> 'a core_state_scheme) option" where
  "vworm_fsdata_defload ro fs_base fs s =
     (case (fs_base, fs) of
        (Some b, Some fs) \<Rightarrow> do {
          m \<leftarrow> heap s b;
          (_, m) \<leftarrow> sub_copy_section m 0 (ro_overhead ro) (of_nat OVERHEAD_TOTAL_BYTES) (fs_ftab_alloc fs);
          let section = 4 * (unat (fs_ftab_alloc fs) div 4);
          (m, section) \<leftarrow>
            (if blk_alloc (fs_gfb fs) \<noteq> 0 then do {
               (_, m) \<leftarrow> sub_copy_section m section (ro_gfb ro) (of_nat GFB_TOTAL_BYTES) (blk_alloc (fs_gfb fs));
               Some (m, section + 4 * (unat (blk_alloc (fs_gfb fs)) div 4))
             } else Some (m, section));
          (m, section) \<leftarrow>
            (if blk_alloc (fs_isf fs) \<noteq> 0 then do {
               (_, m) \<leftarrow> sub_copy_section m section (ro_isf ro) (of_nat ISF_STOCK_BYTES) (blk_alloc (fs_isf fs));
               Some (m, section + 4 * (unat (blk_alloc (fs_isf fs)) div 4))
             } else Some (m, section));
          Some (of_nat section, s\<lparr>heap := (heap s)(b \<mapsto> m)\<rparr>)
        }
      | _ \<Rightarrow> Some (0, s))"

definition vworm_init ::
  "rodata \<Rightarrow> nat option \<Rightarrow> vlFSHEADER option \<Rightarrow> 'a core_state_scheme \<Rightarrow>
   (u8 \<times> 'a core_state_scheme) option" where
  "vworm_init ro fs_base fs s =
     (if fs_base = None then Some (1, s)
      else case fs of
          None \<Rightarrow> Some (0, s\<lparr>fsram := fs_base\<rparr>)
        | Some h \<Rightarrow>
            if fs_ftab_alloc h = 0 then Some (2, s)
            else do {
              (_, s) \<leftarrow> vworm_fsdata_defload ro fs_base fs s;
              Some (0, s\<lparr>fsram := fs_base\<rparr>)
            })"

definition vworm_save :: u8 where "vworm_save = 0"

section \<open>Half-word access\<close>

definition vworm_read :: "u16 \<Rightarrow> 'a core_state_scheme \<Rightarrow> u16 option" where
  "vworm_read addr s = do {
     m \<leftarrow> fsblock s;
     rd16 m (unat (even_addr (addr - VWORM_BASE_VADDR)))
   }"

definition vworm_write :: "u16 \<Rightarrow> u16 \<Rightarrow> 'a core_state_scheme \<Rightarrow> (u8 \<times> 'a core_state_scheme) option" where
  "vworm_write addr data s = do {
     m \<leftarrow> fsblock s;
     m \<leftarrow> wr16 m (unat (even_addr (addr - VWORM_BASE_VADDR))) data;
     Some (0, set_fsblock m s)
   }"

definition vworm_mark :: "u16 \<Rightarrow> u16 \<Rightarrow> 'a core_state_scheme \<Rightarrow> (u8 \<times> 'a core_state_scheme) option" where
  "vworm_mark addr value s = vworm_write addr value s"

text \<open>A physical address is a pointer into a block: its number and an offset.\<close>

definition vworm_mark_physical ::
  "nat option \<times> nat \<Rightarrow> u16 \<Rightarrow> 'a core_state_scheme \<Rightarrow> (u8 \<times> 'a core_state_scheme) option" where
  "vworm_mark_physical addr value s = do {
     b \<leftarrow> fst addr;
     m \<leftarrow> heap s b;
     m \<leftarrow> wr16 m (snd addr) value;
     Some (0, s\<lparr>heap := (heap s)(b \<mapsto> m)\<rparr>)
   }"

definition vworm_get :: "u16 \<Rightarrow> 'a core_state_scheme \<Rightarrow> nat option \<times> nat" where
  "vworm_get addr s = (fsram s, unat (addr - VWORM_BASE_VADDR))"

definition vworm_wipeblock :: "u16 \<Rightarrow> u16 \<Rightarrow> u8" where "vworm_wipeblock addr wipe_span = 0"

definition vsram_read :: "u16 \<Rightarrow> 'a core_state_scheme \<Rightarrow> u16 option" where
  "vsram_read addr s = vworm_read addr s"

definition vsram_mark :: "u16 \<Rightarrow> u16 \<Rightarrow> 'a core_state_scheme \<Rightarrow> (u8 \<times> 'a core_state_scheme) option" where
  "vsram_mark addr value s = vworm_mark addr value s"

definition vsram_mark_physical ::
  "nat option \<times> nat \<Rightarrow> u16 \<Rightarrow> 'a core_state_scheme \<Rightarrow> (u8 \<times> 'a core_state_scheme) option" where
  "vsram_mark_physical addr value s = vworm_mark_physical addr value s"

definition vsram_get :: "u16 \<Rightarrow> 'a core_state_scheme \<Rightarrow> nat option \<times> nat" where
  "vsram_get addr s = vworm_get addr s"

section \<open>The selected block is a store of half-words\<close>

definition vworm_mapped :: "u16 \<Rightarrow> 'a core_state_scheme \<Rightarrow> bool" where
  "vworm_mapped a s \<longleftrightarrow> (case fsblock s of None \<Rightarrow> False | Some m \<Rightarrow> unat (even_addr a) + 1 < length m)"

lemma fsblock_set [simp]: "fsblock s \<noteq> None \<Longrightarrow> fsblock (set_fsblock m s) = Some m"
  by (cases "fsram s") (auto simp: fsblock_def set_fsblock_def)

lemma unat_even_neq:
  assumes "even_addr b \<noteq> even_addr a"
  shows "unat (even_addr b) + 1 < unat (even_addr a) \<or> unat (even_addr a) + 1 < unat (even_addr b)"
proof -
  have "unat (even_addr b) \<noteq> unat (even_addr a)" using assms by (simp add: word_unat_eq_iff)
  then show ?thesis using even_unat_even_addr [of a] even_unat_even_addr [of b] by presburger
qed

lemma vworm_write_eq_Some:
  "vworm_write a v s = Some (r, s') \<longleftrightarrow>
     r = 0 \<and> (\<exists>m m'. fsblock s = Some m \<and> wr16 m (unat (even_addr a)) v = Some m' \<and> s' = set_fsblock m' s)"
  by (auto simp: vworm_write_def VWORM_BASE_VADDR_def bind_eq_Some_conv)

lemma vworm_read_eq: "vworm_read a s = do { m \<leftarrow> fsblock s; rd16 m (unat (even_addr a)) }"
  by (simp add: vworm_read_def VWORM_BASE_VADDR_def)

interpretation vw: halfword_store vworm_read vworm_write vworm_mapped
proof unfold_locales
  fix a b v r and s s' :: "'a core_state_scheme"
  show "even_addr b = even_addr a \<Longrightarrow> vworm_mapped b s = vworm_mapped a s"
    by (simp add: vworm_mapped_def split: option.split)
  show "(\<exists>v. vworm_read a s = Some v) \<longleftrightarrow> vworm_mapped a s"
    by (auto simp: vworm_read_eq vworm_mapped_def rd16_def bind_eq_Some_conv split: option.splits)
  show "(\<exists>r. vworm_write a v s = Some r) \<longleftrightarrow> vworm_mapped a s"
    by (auto simp: vworm_write_eq_Some vworm_mapped_def wr16_def split: option.splits)
  assume w: "vworm_write a v s = Some (r, s')"
  then show "r = 0" by (simp add: vworm_write_eq_Some)
  from w obtain m m' where m: "fsblock s = Some m" "wr16 m (unat (even_addr a)) v = Some m'"
    "fsblock s' = Some m'"
    by (auto simp: vworm_write_eq_Some)
  then show "even_addr b = even_addr a \<Longrightarrow> vworm_read b s' = Some v"
    by (simp add: vworm_read_eq rd16_wr16_same)
  show "even_addr b \<noteq> even_addr a \<Longrightarrow> vworm_read b s' = vworm_read b s"
    using m unat_even_neq [of b a] by (simp add: vworm_read_eq rd16_wr16_other)
qed


section \<open>The image that the defaults load\<close>

lemma sub_copy_section_eq:
  assumes n: "n = 4 * ((min (unat ds) (unat is) + 3) div 4)" and "n \<le> length src"
    and "n \<le> length rest" and off: "off = length pre"
  shows "sub_copy_section (pre @ rest) off src ds is =
    Some (of_nat (n div 4), pre @ take n src @ drop n rest)"
proof -
  have u: "unat (if ds < is then ds else is) = min (unat ds) (unat is)"
    by (simp add: min_def word_less_nat_alt)
  have "(min (unat ds) (unat is) + 3) div 4 < 65536"
  proof -
    have "min (unat ds) (unat is) < 65536" using unat_u16_less [of ds] by (simp only: min_less_iff_disj simp_thms)
    then show ?thesis by linarith
  qed
  then have w: "unat (of_nat ((min (unat ds) (unat is) + 3) div 4) :: u16) = n div 4" "4 * (n div 4) = n"
    unfolding n by (simp_all add: unat_of_nat take_bit_nat_eq_self del: min_less_iff_disj)
  have q: "(min (unat ds) (unat is) + 3) div 4 = n div 4" unfolding n by simp
  have "ot_memcpy_4 (pre @ rest) off src (of_nat (n div 4)) = Some (pre @ take n src @ drop n rest)"
    using assms(2-4) w [unfolded q] by (simp add: ot_memcpy_4_def rd_bytes_def wr_bytes_def)
  then show ?thesis
    by (simp only: sub_copy_section_def Let_def u q Option.bind.bind_lunit)
qed

text \<open>The memory behind each array starts with the array.\<close>

definition rodata_ok :: "bytes \<Rightarrow> rodata \<Rightarrow> bool" where
  "rodata_ok build_id ro \<longleftrightarrow>
     take 464 (ro_overhead ro) = overhead_files \<and> 512 \<le> length (ro_overhead ro)
     \<and> take 1 (ro_gfb ro) = gfb_stock_files \<and> 256 \<le> length (ro_gfb ro)
     \<and> take 370 (ro_isf ro) = isf_stock_files build_id \<and> 372 \<le> length (ro_isf ro)"

definition default_image :: "rodata \<Rightarrow> bytes \<Rightarrow> bytes" where
  "default_image ro m = take 512 (ro_overhead ro) @ take 256 (ro_gfb ro) @ take 372 (ro_isf ro) @ drop 1140 m"

lemma default_sizes:
  "fs_ftab_alloc default_fsheader = 512" "blk_alloc (fs_gfb default_fsheader) = 256"
  "blk_alloc (fs_isf default_fsheader) = 512" "blk_alloc (fs_iss default_fsheader) = 0"
  "blk_files (fs_gfb default_fsheader) = 2" "blk_files (fs_iss default_fsheader) = 0"
  "blk_files (fs_isf default_fsheader) = 23"
  by (simp_all add: default_fsheader_def fs_config_defs)

lemma vworm_fsalloc_default: "vworm_fsalloc (Some default_fsheader) = 1280"
  by (simp add: vworm_fsalloc_def default_sizes)

lemma defload_eq:
  assumes "rodata_ok build_id ro" and "heap s b = Some m" and "length m = 1280"
  shows "vworm_fsdata_defload ro (Some b) (Some default_fsheader) s =
    Some (1280, s\<lparr>heap := (heap s)(b \<mapsto> default_image ro m)\<rparr>)"
proof -
  note ok = assms(1) [unfolded rodata_ok_def]
  define A B C where "A = take 512 (ro_overhead ro)" and "B = take 256 (ro_gfb ro)"
    and "C = take 372 (ro_isf ro)"
  have l: "length A = 512" "length B = 256" using ok by (simp_all add: A_def B_def)
  have r: "512 \<le> length (ro_overhead ro)" "256 \<le> length (ro_gfb ro)" "372 \<le> length (ro_isf ro)"
    using ok by simp_all
  have 1: "sub_copy_section m 0 (ro_overhead ro) 512 512 = Some (128, A @ drop 512 m)"
    using sub_copy_section_eq [of 512 512 512 "ro_overhead ro" m 0 "[]", OF _ r(1)] assms(3)
    by (simp add: A_def)
  have 2: "sub_copy_section (A @ drop 512 m) 512 (ro_gfb ro) 256 256 = Some (64, A @ B @ drop 768 m)"
    using sub_copy_section_eq [of 256 256 256 "ro_gfb ro" "drop 512 m" 512 A, OF _ r(2) _ l(1) [symmetric]] assms(3)
    by (simp add: B_def)
  have 3: "sub_copy_section (A @ B @ drop 768 m) 768 (ro_isf ro) 370 512 = Some (93, A @ B @ C @ drop 1140 m)"
  proof -
    have n: "(372 :: nat) = 4 * ((min (unat (370 :: u16)) (unat (512 :: u16)) + 3) div 4)" by simp
    have "372 \<le> length (drop 768 m)" "768 = length (A @ B)" using assms(3) l by simp_all
    from sub_copy_section_eq [OF n r(3) this] show ?thesis by (simp add: C_def)
  qed
  show ?thesis
    using assms(2) 1 2 3
    by (simp add: vworm_fsdata_defload_def default_sizes ISF_STOCK_BYTES_eq fs_config_defs Let_def
        default_image_def A_def [symmetric] B_def [symmetric] C_def [symmetric])
qed

lemma header_at_prefix:
  assumes "take n m = take n m'" and "a + 16 \<le> n" and "n \<le> length m" and "n \<le> length m'"
  shows "header_at m a = header_at m' a"
proof -
  have "m ! i = m' ! i" if "i < n" for i
    using assms(1) that by (metis nth_take)
  then have "rd16 m i = rd16 m' i" if "i + 1 < n" for i
    using that assms by (simp add: rd16_def)
  then show ?thesis using assms(2) by (simp add: header_at_def rd32_def)
qed

lemma default_image_headers:
  assumes "rodata_ok build_id ro" and "length m = 1280"
  shows "i < 25 \<Longrightarrow> header_at (default_image ro m) (64 + 16 * i) = Some (isf_header (isf_files ! i))"
    and "i < 2 \<Longrightarrow> header_at (default_image ro m) (32 + 16 * i) = Some (gfb_header i)"
proof -
  note ok = assms(1) [unfolded rodata_ok_def]
  have t: "take 464 (default_image ro m) = take 464 overhead_files"
    using ok by (simp add: default_image_def length_overhead_files min_def)
  have l: "464 \<le> length (default_image ro m)" using ok assms(2) by (simp add: default_image_def)
  have *: "header_at (default_image ro m) a = header_at overhead_files a" if "a + 16 \<le> 464" for a
    by (rule header_at_prefix [OF t that l]) (simp add: length_overhead_files)
  show "header_at (default_image ro m) (64 + 16 * i) = Some (isf_header (isf_files ! i))" if "i < 25"
    using * [of "64 + 16 * i"] overhead_isf_header [OF that] that by simp
  show "header_at (default_image ro m) (32 + 16 * i) = Some (gfb_header i)" if "i < 2"
    using * [of "32 + 16 * i"] overhead_gfb_header [OF that] that by simp
qed


lemma isf_stock_slice:
  assumes "length build_id = 9"
  shows "take (ISF_ALLOC f) (drop (ISF_BASE f - ISF_START_VADDR) (isf_stock_files build_id)) = isf_stock build_id f"
  using concat_slice [OF isf_files_UNIV refl, of "isf_stock build_id" f]
  by (simp add: isf_stock_files_def ISF_BASE_def length_isf_stock [OF assms] comp_def)

lemma default_image_stock:
  assumes "rodata_ok build_id ro" and "length build_id = 9"
  shows "take (ISF_ALLOC f) (drop (ISF_BASE f) (default_image ro m)) = isf_stock build_id f"
proof -
  note ok = assms(1) [unfolded rodata_ok_def]
  have b: "ISF_START_VADDR \<le> ISF_BASE f" "ISF_BASE f - ISF_START_VADDR + ISF_ALLOC f \<le> 370"
    using prefix_sum_total [OF isf_files_UNIV, of ISF_ALLOC f]
      ISF_STOCK_BYTES_eq [unfolded ISF_STOCK_BYTES_def]
    by (simp_all add: ISF_BASE_def)
  define A where "A = take 512 (ro_overhead ro) @ take 256 (ro_gfb ro)"
  have A: "length A = ISF_START_VADDR" using ok by (simp add: A_def fs_config_defs)
  have i: "take 372 (ro_isf ro) = isf_stock_files build_id @ take 2 (drop 370 (ro_isf ro))"
    using ok take_add [of 370 2 "ro_isf ro"] by simp
  have "drop (ISF_BASE f) (default_image ro m) = drop (ISF_BASE f - ISF_START_VADDR)
      (isf_stock_files build_id @ take 2 (drop 370 (ro_isf ro)) @ drop 1140 m)"
    using b(1) by (simp add: default_image_def i A [symmetric] A_def)
  also have "take (ISF_ALLOC f) \<dots> =
      take (ISF_ALLOC f) (drop (ISF_BASE f - ISF_START_VADDR) (isf_stock_files build_id))"
    using b(2) length_isf_stock_files [OF assms(2)] by simp
  finally show ?thesis by (simp add: isf_stock_slice [OF assms(2)])
qed

lemma length_default_image:
  "rodata_ok build_id ro \<Longrightarrow> length m = 1280 \<Longrightarrow> length (default_image ro m) = 1280"
  by (simp add: rodata_ok_def default_image_def)

lemma vworm_init_default:
  assumes "rodata_ok build_id ro" and "heap s b = Some m" and "length m = 1280"
  shows "vworm_init ro (Some b) (Some default_fsheader) s =
    Some (0, s\<lparr>heap := (heap s)(b \<mapsto> default_image ro m), fsram := Some b\<rparr>)"
  using defload_eq [OF assms] by (simp add: vworm_init_def default_sizes)

lemma default_image_fsheader:
  assumes "rodata_ok build_id ro" and "length m = 1280"
  shows "fsheader_at (default_image ro m) 0 = Some default_fsheader"
proof -
  note ok = assms(1) [unfolded rodata_ok_def]
  have "default_image ro m = overhead_files @ drop 464 (default_image ro m)"
    using ok append_take_drop_id [of 464 "default_image ro m"]
    by (simp add: default_image_def min_def)
  also have "fsheader_at \<dots> 0 = Some default_fsheader"
    unfolding overhead_files_def append_assoc by (rule fsheader_at_bytes)
  finally show ?thesis .
qed

text \<open>
  C30. Initialising a block of the size that \<^verbatim>\<open>vworm_fsalloc\<close> asks for with the default
  filesystem succeeds, selects the block, and leaves in it the header of every generic and
  every indexed file and, at the base address each header names, the file's stock data.
  The memory behind the constant arrays is assumed to be readable up to the rounded sizes.
\<close>

theorem vworm_init_loads_defaults:
  assumes "rodata_ok build_id ro" and "length build_id = 9"
    and "heap s b = Some m" and "length m = unat (vworm_fsalloc (Some default_fsheader))"
  shows "\<exists>s' img. vworm_init ro (Some b) (Some default_fsheader) s = Some (0, s')
     \<and> fsblock s' = Some img \<and> length img = length m
     \<and> (\<forall>i < 2. header_at img (32 + 16 * i) = Some (gfb_header i))
     \<and> (\<forall>i < 25. header_at img (64 + 16 * i) = Some (isf_header (isf_files ! i)))
     \<and> (\<forall>f. take (ISF_ALLOC f) (drop (ISF_BASE f) img) = isf_stock build_id f)"
proof -
  have l: "length m = 1280" using assms(4) by (simp add: vworm_fsalloc_default)
  show ?thesis
    using assms(1,2) l
    by (simp add: vworm_init_default [OF assms(1,3) l] fsblock_def length_default_image
        default_image_headers default_image_stock)
qed

definition demo_rodata :: rodata where
  "demo_rodata = \<lparr>ro_overhead = overhead_files @ replicate 48 0, ro_gfb = gfb_stock_files @ replicate 255 0,
     ro_isf = isf_stock_files (replicate 9 0x41) @ replicate 2 0\<rparr>"

definition demo_core :: core_state where
  "demo_core = auth_state.extend demo_auth
     \<lparr>heap = (\<lambda>b. if b = 5 then Some (replicate 1280 0) else None), fsram = None\<rparr>"

lemma demo_rodata_ok: "rodata_ok (replicate 9 0x41) demo_rodata"
  by (simp add: rodata_ok_def demo_rodata_def length_overhead_files length_isf_stock_files
      gfb_stock_files_def)

lemma demo_core_heap: "heap demo_core 5 = Some (replicate 1280 0)"
  by (simp add: demo_core_def auth_state.extend_def)

theorem vworm_init_loads_defaults_witness:
  "\<exists>s' img. vworm_init demo_rodata (Some 5) (Some default_fsheader) demo_core = Some (0, s')
     \<and> fsblock s' = Some img \<and> header_at img 304 = Some (isf_header User_authentication_key)"
proof -
  obtain s' img where w: "vworm_init demo_rodata (Some 5) (Some default_fsheader) demo_core = Some (0, s')"
      "fsblock s' = Some img"
      "\<forall>i < 25. header_at img (64 + 16 * i) = Some (isf_header (isf_files ! i))"
    using vworm_init_loads_defaults [OF demo_rodata_ok _ demo_core_heap]
    by (auto simp: vworm_fsalloc_default)
  have "header_at img (64 + 16 * 15) = Some (isf_header (isf_files ! 15))" by (rule w(3) [rule_format]) simp
  then show ?thesis using w(1,2) by (simp add: isf_files_def)
qed

text \<open>
  With only the arrays themselves readable, loading the defaults is undefined: the
  overhead array has 464 bytes and 512 are copied out of it.
\<close>

theorem defload_overread:
  "vworm_fsdata_defload (strict_rodata build_id) (Some b) (Some default_fsheader) s = None"
proof -
  have "sub_copy_section m 0 overhead_files 512 512 = None" for m
    by (simp add: sub_copy_section_def ot_memcpy_4_def rd_bytes_def length_overhead_files Let_def)
  then show ?thesis
    by (cases "heap s b")
      (simp_all add: vworm_fsdata_defload_def strict_rodata_def default_sizes fs_config_defs)
qed

section \<open>Isolation of the filesystems\<close>

text \<open>What a change of the selected block leaves alone.\<close>

definition block_frame :: "'a core_state_scheme \<Rightarrow> 'a core_state_scheme \<Rightarrow> bool" where
  "block_frame s s' \<longleftrightarrow> (\<exists>h. s' = s\<lparr>heap := h\<rparr> \<and> (\<forall>b. fsram s \<noteq> Some b \<longrightarrow> h b = heap s b)
     \<and> (\<forall>b. map_option length (h b) = map_option length (heap s b)))"

lemma block_frame_refl [simp]: "block_frame s s"
  unfolding block_frame_def by (rule exI [of _ "heap s"]) simp

lemma block_frame_trans: "block_frame s s1 \<Longrightarrow> block_frame s1 s2 \<Longrightarrow> block_frame s s2"
  unfolding block_frame_def by auto

lemma vworm_write_block_frame:
  assumes "vworm_write a v s = Some (r, s')"
  shows "block_frame s s'"
proof -
  from assms obtain b m m' where "fsram s = Some b" "heap s b = Some m"
    "wr16 m (unat (even_addr a)) v = Some m'" "s' = s\<lparr>heap := (heap s)(b \<mapsto> m')\<rparr>"
    by (auto simp: vworm_write_eq_Some fsblock_def set_fsblock_def bind_eq_Some_conv)
  then show ?thesis
    using length_wr16 [of m "unat (even_addr a)" v m']
    by (auto simp: block_frame_def intro!: exI [of _ "(heap s)(b \<mapsto> m')"])
qed

lemma wr_seq_block_frame: "wr_seq vworm_write a ds s = Some (r, s') \<Longrightarrow> block_frame s s'"
proof (induction ds arbitrary: a s r s')
  case Nil
  then show ?case by simp
next
  case (Cons d ds)
  then show ?case
    by (auto simp: bind_eq_Some_conv intro: block_frame_trans vworm_write_block_frame)
qed

lemma block_frame_simps:
  assumes "block_frame s s'"
  shows "fsram s' = fsram s" "auth_wf s' = auth_wf s" "rtc_n s' = rtc_n s" "rtc s' = rtc s"
    "core_state.more s' = core_state.more s" "dlls_size s' = dlls_size s" "dlls_info s' = dlls_info s"
    "fsram s \<noteq> Some b \<Longrightarrow> heap s' b = heap s b"
  using assms by (auto simp: block_frame_def auth_wf_def)

end
