(* ===== verification/Veelite.thy ===== *)
theory Veelite
  imports Vworm
begin

text \<open>
  The file layer \<^verbatim>\<open>otlib/veelite.c\<close>, in the default build: MULTIFS (the block functions read
  the filesystem header, \<^verbatim>\<open>sizeof(vl_header_t)\<close> is 16), VLACTIONS with 16 slots, VLFPS 3,
  VLMODTIME, no VLACCTIME, no VLNEW, no DATAFLASH, nothing mirrored.

  A \<^verbatim>\<open>vlFILE*\<close> is the index of its slot in \<open>vlfile\<close>. A file action (\<^verbatim>\<open>ot_procv\<close>) is a number;
  what the application does in it is the argument \<open>act\<close> of the operations that call it.
\<close>

section \<open>State\<close>

datatype mem_fn = Vworm_fn | Vsram_fn

record vlFILE =
  f_header :: u16
  f_start :: u16
  f_alloc :: u16
  f_idmod :: u16
  f_length :: u16
  f_flags :: u16
  f_read :: "mem_fn option"
  f_write :: "mem_fn option"

record vl_state = core_state +
  vlfile :: "vlFILE list"
  vlaction :: "nat option list"
  vlaction_users :: "u8 list"

type_synonym 'a action_fn = "nat \<Rightarrow> nat \<Rightarrow> 'a vl_state_scheme \<Rightarrow> (u8 \<times> 'a vl_state_scheme) option"

definition VLFPS :: nat where "VLFPS = 3"
definition VLACTIONS :: nat where "VLACTIONS = 16"

definition VL_GFB_BLOCKID :: u8 where "VL_GFB_BLOCKID = 1"
definition VL_ISS_BLOCKID :: u8 where "VL_ISS_BLOCKID = 2"
definition VL_ISF_BLOCKID :: u8 where "VL_ISF_BLOCKID = 3"

definition VL_ACCESS_GUEST :: u8 where "VL_ACCESS_GUEST = 0x07"
definition VL_ACCESS_USER :: u8 where "VL_ACCESS_USER = 0x38"
definition VL_ACCESS_SU :: u8 where "VL_ACCESS_SU = 0x3F"
definition VL_ACCESS_R :: u8 where "VL_ACCESS_R = 0x24"
definition VL_ACCESS_W :: u8 where "VL_ACCESS_W = 0x12"
definition VL_ACCESS_RW :: u8 where "VL_ACCESS_RW = VL_ACCESS_R OR VL_ACCESS_W"

definition VL_FLAG_OPENED :: u16 where "VL_FLAG_OPENED = 1"
definition VL_FLAG_MODDED :: u16 where "VL_FLAG_MODDED = 2"
definition VL_FLAG_RESIZED :: u16 where "VL_FLAG_RESIZED = 4"

definition GFB_Header_START :: u16 where "GFB_Header_START = of_nat (OVERHEAD_START_VADDR + 32)"

lemmas vl_consts = VLFPS_def VLACTIONS_def VL_GFB_BLOCKID_def VL_ISS_BLOCKID_def VL_ISF_BLOCKID_def
  VL_FLAG_OPENED_def VL_FLAG_MODDED_def VL_FLAG_RESIZED_def

definition get_file :: "nat \<Rightarrow> 'a vl_state_scheme \<Rightarrow> vlFILE option" where
  "get_file fd s = (if fd < length (vlfile s) then Some (vlfile s ! fd) else None)"

definition put_file :: "nat \<Rightarrow> vlFILE \<Rightarrow> 'a vl_state_scheme \<Rightarrow> 'a vl_state_scheme" where
  "put_file fd f s = s\<lparr>vlfile := (vlfile s)[fd := f]\<rparr>"

text \<open>A call through the \<^verbatim>\<open>read\<close> and \<^verbatim>\<open>write\<close> pointers of an open file.\<close>

definition file_rd :: "mem_fn option \<Rightarrow> u16 \<Rightarrow> 'a vl_state_scheme \<Rightarrow> u16 option" where
  "file_rd fn a s = (case fn of None \<Rightarrow> None | Some Vworm_fn \<Rightarrow> vworm_read a s | Some Vsram_fn \<Rightarrow> vsram_read a s)"

definition file_wr :: "mem_fn option \<Rightarrow> u16 \<Rightarrow> u16 \<Rightarrow> 'a vl_state_scheme \<Rightarrow> (u8 \<times> 'a vl_state_scheme) option"
  where
  "file_wr fn a d s = (case fn of None \<Rightarrow> None | Some Vworm_fn \<Rightarrow> vworm_write a d s | Some Vsram_fn \<Rightarrow> vsram_mark a d s)"

section \<open>Initialisation\<close>

definition zero_file :: vlFILE where
  "zero_file = \<lparr>f_header = 0, f_start = 0, f_alloc = 0, f_idmod = 0, f_length = 0, f_flags = 0,
     f_read = None, f_write = None\<rparr>"

definition ISF_syncmirror :: u8 where "ISF_syncmirror = 0"

definition ISF_loadmirror :: u8 where "ISF_loadmirror = 0"

definition vl_init :: "'a vl_state_scheme \<Rightarrow> u8 \<times> 'a vl_state_scheme" where
  "vl_init s = (0, s\<lparr>vlaction := replicate VLACTIONS None, vlaction_users := replicate VLACTIONS 0,
     vlfile := replicate VLFPS (zero_file\<lparr>f_header := NULL_vaddr\<rparr>)\<rparr>)"

section \<open>Headers\<close>

fun header_loop :: "nat \<Rightarrow> u16 \<Rightarrow> u8 \<Rightarrow> 'a vl_state_scheme \<Rightarrow> u16 option" where
  "header_loop 0 header search_id s = Some NULL_vaddr"
| "header_loop (Suc n) header search_id s = do {
     base \<leftarrow> vworm_read (header + 6) s;
     idmod \<leftarrow> vworm_read (header + 4) s;
     if base \<noteq> 0 \<and> base \<noteq> 0xFFFF \<and> lo8 idmod = search_id then Some header
     else header_loop n (header + 16) search_id s
   }"

text \<open>
  The quick check reads the header array through the pointer \<^verbatim>\<open>vworm_get(header)\<close>;
  \<^verbatim>\<open>num_headers\<close> is a signed 16-bit number.
\<close>

definition sub_header_search :: "u16 \<Rightarrow> u8 \<Rightarrow> u16 \<Rightarrow> 'a vl_state_scheme \<Rightarrow> u16 option" where
  "sub_header_search header search_id num_headers s = do {
     hit \<leftarrow> (if uint search_id < sint num_headers then do {
               m \<leftarrow> fsblock s;
               idmod \<leftarrow> rd16 m (unat header + 16 * unat search_id + 4);
               Some (lo8 idmod = search_id)
             } else Some False);
     if hit then Some (header + ucast search_id * 16)
     else header_loop (nat (sint num_headers)) header search_id s
   }"

definition sub_gfb_search :: "u8 \<Rightarrow> 'a vl_state_scheme \<Rightarrow> u16 option" where
  "sub_gfb_search data_id s = do {
     m \<leftarrow> fsblock s;
     gfb_files \<leftarrow> rd16 m (OVERHEAD_START_VADDR + 10);
     sub_header_search GFB_Header_START data_id gfb_files s
   }"

definition sub_isf_search :: "u8 \<Rightarrow> 'a vl_state_scheme \<Rightarrow> u16 option" where
  "sub_isf_search data_id s = do {
     m \<leftarrow> fsblock s;
     gfb_files \<leftarrow> rd16 m (OVERHEAD_START_VADDR + 10);
     iss_files \<leftarrow> rd16 m (OVERHEAD_START_VADDR + 16);
     isf_files \<leftarrow> rd16 m (OVERHEAD_START_VADDR + 22);
     sub_header_search (GFB_Header_START + (gfb_files + iss_files) * 16) data_id isf_files s
   }"

definition sub_copy_header :: "u16 \<Rightarrow> 'a vl_state_scheme \<Rightarrow> vl_header_t option" where
  "sub_copy_header header s = do {
     w \<leftarrow> rd_seq vworm_read header 8 s;
     Some \<lparr>hd_length = w ! 0, hd_alloc = w ! 1, hd_idmod = w ! 2, hd_base = w ! 3, hd_mirror = w ! 4,
           hd_actioncode = w ! 5, hd_modtime = join32 (w ! 6) (w ! 7)\<rparr>
   }"

definition sub_write_header :: "u16 \<Rightarrow> u16 list \<Rightarrow> u16 \<Rightarrow> 'a vl_state_scheme \<Rightarrow> 'a vl_state_scheme option" where
  "sub_write_header header data len s =
     (let n = (unat len + 1) div 2 in
      if n \<le> length data then map_option snd (wr_seq vworm_write header (take n data) s) else None)"

text \<open>
  \<^verbatim>\<open>vl_getheader_vaddr\<close>: returns the error code and the content of \<^verbatim>\<open>*header\<close>, which is \<open>header0\<close>
  before the call. The access mode of a file is the high byte of \<^verbatim>\<open>idmod\<close>.
\<close>

definition vl_getheader_vaddr ::
  "u16 \<Rightarrow> u8 \<Rightarrow> u8 \<Rightarrow> u8 \<Rightarrow> id_ref \<Rightarrow> 'a vl_state_scheme \<Rightarrow> (u8 \<times> u16 \<times> 'a vl_state_scheme) option" where
  "vl_getheader_vaddr header0 block_id data_id md user_id s =
     (if block_id \<noteq> VL_GFB_BLOCKID \<and> block_id \<noteq> VL_ISF_BLOCKID then Some (255, header0, s)
      else do {
        header \<leftarrow> (if block_id = VL_GFB_BLOCKID then sub_gfb_search data_id s else sub_isf_search data_id s);
        if header = NULL_vaddr then Some (1, header, s)
        else if user_id \<noteq> Id_NULL then do {
          filemod \<leftarrow> vworm_read (header + 4) s;
          (ok, s) \<leftarrow> auth_check (hi8 filemod) md user_id s;
          if ok = 0 then Some (4, header, s) else Some (0, header, s)
        } else Some (0, header, s)
      })"

definition vl_getheader ::
  "u8 \<Rightarrow> u8 \<Rightarrow> u8 \<Rightarrow> id_ref \<Rightarrow> 'a vl_state_scheme \<Rightarrow> (u8 \<times> vl_header_t option \<times> 'a vl_state_scheme) option"
  where
  "vl_getheader block_id data_id md user_id s = do {
     (output, header, s) \<leftarrow> vl_getheader_vaddr NULL_vaddr block_id data_id md user_id s;
     if output = 0 then do { h \<leftarrow> sub_copy_header header s; Some (output, Some h, s) }
     else Some (output, None, s)
   }"

section \<open>File actions\<close>

text \<open>
  The search of \<^verbatim>\<open>vl_add_action\<close>: the slot that holds the action, or else the first free one,
  or \<open>- 1\<close>.
\<close>

fun action_slot :: "nat option list \<Rightarrow> int \<Rightarrow> int \<Rightarrow> nat option \<Rightarrow> int" where
  "action_slot [] i select action = select"
| "action_slot (a # as) i select action =
     (if a = None then action_slot as (i + 1) (if select < 0 then i else select) action
      else if a = action then i
      else action_slot as (i + 1) select action)"

definition vl_add_action ::
  "u8 \<Rightarrow> u8 \<Rightarrow> u8 \<Rightarrow> nat option \<Rightarrow> 'a vl_state_scheme \<Rightarrow> (int \<times> 'a vl_state_scheme) option" where
  "vl_add_action block_id data_id condition action s = do {
     (rc, header, s) \<leftarrow> vl_getheader_vaddr NULL_vaddr block_id data_id VL_ACCESS_SU Id_NULL s;
     if rc = 0 then
       let select = action_slot (vlaction s) 0 (- 1) action in
       if 0 \<le> select then do {
         let k = nat select;
         let s = s\<lparr>vlaction := (vlaction s)[k := action],
                  vlaction_users := (vlaction_users s)[k := vlaction_users s ! k + 1]\<rparr>;
         (_, s) \<leftarrow> vworm_write (header + 10) (join16 condition (of_int select)) s;
         Some (select, s)
       } else Some (select, s)
     else Some (- 1, s)
   }"

definition vl_remove_action :: "u8 \<Rightarrow> u8 \<Rightarrow> 'a vl_state_scheme \<Rightarrow> 'a vl_state_scheme option" where
  "vl_remove_action block_id data_id s = do {
     (rc, header, s) \<leftarrow> vl_getheader_vaddr NULL_vaddr block_id data_id VL_ACCESS_SU Id_NULL s;
     if rc = 0 then do {
       w \<leftarrow> vworm_read (header + 10) s;
       let select = unat (drop_bit 8 w);
       (_, s) \<leftarrow> vworm_write (header + 10) 0 s;
       if select < VLACTIONS \<and> vlaction_users s ! select \<noteq> 0 then
         let u = vlaction_users s ! select - 1;
             s = s\<lparr>vlaction_users := (vlaction_users s)[select := u]\<rparr>
         in Some (if u = 0 then s\<lparr>vlaction := (vlaction s)[select := None]\<rparr> else s)
       else Some s
     } else Some s
   }"

definition sub_action :: "'a action_fn \<Rightarrow> nat \<Rightarrow> 'a vl_state_scheme \<Rightarrow> (u8 \<times> 'a vl_state_scheme) option" where
  "sub_action act fd s = do {
     f \<leftarrow> get_file fd s;
     w \<leftarrow> vworm_read (f_header f + 10) s;
     let select = unat (drop_bit 8 w);
     if select < VLACTIONS then do { a \<leftarrow> vlaction s ! select; act a fd s }
     else Some (0, s)
   }"

section \<open>Files\<close>

definition vl_get_fsalloc :: "vlFSHEADER option \<Rightarrow> u32" where
  "vl_get_fsalloc fshdr = vworm_fsalloc fshdr"

definition vl_get_fp :: "nat \<Rightarrow> nat" where "vl_get_fp fd = fd"

definition vl_get_fd :: "nat \<Rightarrow> int" where
  "vl_get_fd fp = (if fp < VLFPS then int fp else - 1)"

definition vl_new :: "u8 \<Rightarrow> u8 \<Rightarrow> u8 \<Rightarrow> u16 \<Rightarrow> id_ref \<Rightarrow> 'a vl_state_scheme \<Rightarrow> u8 \<times> 'a vl_state_scheme" where
  "vl_new block_id data_id md max_length user_id s = (255, s)"

definition vl_delete :: "u8 \<Rightarrow> u8 \<Rightarrow> id_ref \<Rightarrow> 'a vl_state_scheme \<Rightarrow> u8 \<times> 'a vl_state_scheme" where
  "vl_delete block_id data_id user_id s = (255, s)"

definition sub_new_fp :: "'a vl_state_scheme \<Rightarrow> nat option" where
  "sub_new_fp s = find (\<lambda>fd. f_read (vlfile s ! fd) = None) [0..<length (vlfile s)]"

definition vl_open_file :: "u16 \<Rightarrow> 'a vl_state_scheme \<Rightarrow> (nat option \<times> 'a vl_state_scheme) option" where
  "vl_open_file header s =
     (case sub_new_fp s of
        None \<Rightarrow> Some (None, s)
      | Some fd \<Rightarrow> do {
          alloc \<leftarrow> vworm_read (header + 2) s;
          idmod \<leftarrow> vworm_read (header + 4) s;
          start \<leftarrow> vworm_read (header + 8) s;
          if start \<noteq> NULL_vaddr then do {
            len \<leftarrow> vsram_read start s;
            Some (Some fd, put_file fd \<lparr>f_header = header, f_start = start + 2, f_alloc = alloc,
              f_idmod = idmod, f_length = len, f_flags = VL_FLAG_OPENED,
              f_read = Some Vsram_fn, f_write = Some Vsram_fn\<rparr> s)
          } else do {
            len \<leftarrow> vworm_read (header + 0) s;
            start \<leftarrow> vworm_read (header + 6) s;
            Some (Some fd, put_file fd \<lparr>f_header = header, f_start = start, f_alloc = alloc,
              f_idmod = idmod, f_length = len, f_flags = VL_FLAG_OPENED,
              f_read = Some Vworm_fn, f_write = Some Vworm_fn\<rparr> s)
          }
        })"

definition vl_open :: "u8 \<Rightarrow> u8 \<Rightarrow> u8 \<Rightarrow> id_ref \<Rightarrow> 'a vl_state_scheme \<Rightarrow> (nat option \<times> 'a vl_state_scheme) option"
  where
  "vl_open block_id data_id md user_id s = do {
     (rc, header, s) \<leftarrow> vl_getheader_vaddr NULL_vaddr block_id data_id md user_id s;
     if rc = 0 then vl_open_file header s else Some (None, s)
   }"

text \<open>In these four the pointer may be NULL, which is \<open>None\<close>.\<close>

definition vl_getmodtime :: "nat option \<Rightarrow> 'a vl_state_scheme \<Rightarrow> u32 option" where
  "vl_getmodtime fp s = (case fp of
       None \<Rightarrow> Some 0
     | Some fd \<Rightarrow> do {
         f \<leftarrow> get_file fd s;
         w0 \<leftarrow> vworm_read (f_header f + 12) s;
         w1 \<leftarrow> vworm_read (f_header f + 14) s;
         Some (join32 w0 w1)
       })"

definition vl_getacctime :: "nat option \<Rightarrow> 'a vl_state_scheme \<Rightarrow> u32 option" where
  "vl_getacctime fp s = vl_getmodtime fp s"

definition vl_setmodtime :: "nat option \<Rightarrow> u32 \<Rightarrow> 'a vl_state_scheme \<Rightarrow> (u8 \<times> 'a vl_state_scheme) option" where
  "vl_setmodtime fp newtime s = (case fp of
       None \<Rightarrow> Some (ucast newtime, s)
     | Some fd \<Rightarrow> do {
         f \<leftarrow> get_file fd s;
         (_, s) \<leftarrow> vworm_write (f_header f + 12) (lo16 newtime) s;
         (_, s) \<leftarrow> vworm_write (f_header f + 14) (hi16 newtime) s;
         Some (ucast newtime, s)
       })"

definition vl_setacctime :: "nat option \<Rightarrow> u32 \<Rightarrow> 'a vl_state_scheme \<Rightarrow> (u8 \<times> 'a vl_state_scheme) option" where
  "vl_setacctime fp newtime s = Some (ucast newtime, s)"

definition vl_chmod :: "u8 \<Rightarrow> u8 \<Rightarrow> u8 \<Rightarrow> id_ref \<Rightarrow> 'a vl_state_scheme \<Rightarrow> (u8 \<times> 'a vl_state_scheme) option" where
  "vl_chmod block_id data_id md user_id s = do {
     (output, header, s) \<leftarrow> vl_getheader_vaddr NULL_vaddr block_id data_id VL_ACCESS_RW user_id s;
     if output = 0 then do {
       s \<leftarrow> sub_write_header (header + 4) [join16 data_id md] 2 s;
       Some (output, s)
     } else Some (output, s)
   }"

text \<open>
  \<^verbatim>\<open>vl_close\<close>; the type of \<^verbatim>\<open>action.ubyte[0] &= (ot_u8)fp->flags\<close> keeps the low byte. The slot
  is looked up again after the action, which may have changed it.
\<close>

definition vl_close :: "'a action_fn \<Rightarrow> nat option \<Rightarrow> 'a vl_state_scheme \<Rightarrow> (u8 \<times> 'a vl_state_scheme) option"
  where
  "vl_close act fp s = (case fp of
       None \<Rightarrow> Some (255, s)
     | Some fd \<Rightarrow> do {
         f \<leftarrow> get_file fd s;
         len \<leftarrow> vworm_read (f_header f + 0) s;
         s \<leftarrow> (if len \<noteq> f_length f then sub_write_header (f_header f + 0) [f_length f] 2 s else Some s);
         let (epoch_s, s) = time_get_utc s;
         s \<leftarrow> (if f_flags f AND VL_FLAG_MODDED \<noteq> 0
              then sub_write_header (f_header f + 12) [lo16 epoch_s, hi16 epoch_s] 4 s else Some s);
         action \<leftarrow> vworm_read (f_header f + 10) s;
         (retval, s) \<leftarrow> (if lo8 action AND ucast (f_flags f) \<noteq> 0 then sub_action act fd s else Some (0, s));
         f \<leftarrow> get_file fd s;
         Some (retval, put_file fd (f\<lparr>f_start := 0, f_length := 0, f_flags := 0, f_read := None, f_write := None\<rparr>) s)
       })"

definition vl_touch ::
  "'a action_fn \<Rightarrow> u8 \<Rightarrow> u8 \<Rightarrow> u8 \<Rightarrow> id_ref \<Rightarrow> 'a vl_state_scheme \<Rightarrow> (u8 \<times> 'a vl_state_scheme) option" where
  "vl_touch act block_id data_id flags user_id s = do {
     (fp, s) \<leftarrow> vl_open block_id data_id VL_ACCESS_RW user_id s;
     case fp of
       None \<Rightarrow> Some (255, s)
     | Some fd \<Rightarrow> do {
         f \<leftarrow> get_file fd s;
         let s = put_file fd (f\<lparr>f_flags := f_flags f AND (VL_FLAG_OPENED OR VL_FLAG_MODDED)\<rparr>) s;
         vl_close act (Some fd) s
       }
   }"

section \<open>Data\<close>

definition vl_read :: "nat \<Rightarrow> u16 \<Rightarrow> 'a vl_state_scheme \<Rightarrow> u16 option" where
  "vl_read fd offset s = do { f \<leftarrow> get_file fd s; file_rd (f_read f) (offset + f_start f) s }"

definition vl_write :: "nat \<Rightarrow> u16 \<Rightarrow> u16 \<Rightarrow> 'a vl_state_scheme \<Rightarrow> (u8 \<times> 'a vl_state_scheme) option" where
  "vl_write fd offset data s = do {
     f \<leftarrow> get_file fd s;
     if f_alloc f \<le> offset then Some (255, s)
     else do {
       let f = (if f_length f \<le> offset
                then f\<lparr>f_length := offset + 2, f_flags := f_flags f OR VL_FLAG_RESIZED\<rparr> else f);
       let f = f\<lparr>f_flags := f_flags f OR VL_FLAG_MODDED\<rparr>;
       file_wr (f_write f) (offset + f_start f) data (put_file fd f s)
     }
   }"

definition vl_memptr :: "nat \<Rightarrow> 'a vl_state_scheme \<Rightarrow> (nat option \<times> nat) option" where
  "vl_memptr fd s = do { f \<leftarrow> get_file fd s; Some (vsram_get (f_start f) s) }"

text \<open>
  The loop of \<^verbatim>\<open>vl_load\<close>, which runs \<open>n\<close> times. \<^verbatim>\<open>scratch\<close> is declared in the body of the loop
  and read in the iteration after the one that sets it: the model takes its storage to be
  the same in every iteration, and to be undefined before the first.
\<close>

fun load_loop :: "(u16 \<Rightarrow> u16 option) \<Rightarrow> nat \<Rightarrow> u16 \<Rightarrow> u16 option \<Rightarrow> bytes option" where
  "load_loop rd 0 cursor scratch = Some []"
| "load_loop rd (Suc n) cursor scratch = do {
     scratch \<leftarrow> (if cursor AND 1 = 0 then rd cursor else scratch);
     bs \<leftarrow> load_loop rd n (cursor + 1) (Some scratch);
     Some ((if cursor AND 1 = 0 then lo8 scratch else hi8 scratch) # bs)
   }"

definition vl_load :: "nat \<Rightarrow> u16 \<Rightarrow> 'a vl_state_scheme \<Rightarrow> (u16 \<times> bytes) option" where
  "vl_load fd len s = do {
     f \<leftarrow> get_file fd s;
     let len = (if f_length f < len then f_length f else len);
     let cursor = f_start f;
     let len = cursor + len;
     bs \<leftarrow> load_loop (\<lambda>a. file_rd (f_read f) a s) (unat len - unat cursor) cursor None;
     Some (len - f_start f, bs)
   }"

text \<open>
  The loop of \<^verbatim>\<open>vl_store\<close> and \<^verbatim>\<open>vl_append\<close>: every pass takes two bytes of the data, so it stops
  at the end of the data at the latest, where the C code reads outside it.
\<close>

fun store_loop ::
  "(u16 \<Rightarrow> u16 \<Rightarrow> 's \<Rightarrow> (u8 \<times> 's) option) \<Rightarrow> u16 \<Rightarrow> u16 \<Rightarrow> bytes \<Rightarrow> u8 \<Rightarrow> 's \<Rightarrow> (u8 \<times> 's) option" where
  "store_loop wr cursor limit (b0 # b1 # data) test s =
     (if cursor < limit then do {
        (r, s) \<leftarrow> wr cursor (join16 b0 b1) s;
        store_loop wr (cursor + 2) limit data (test OR r) s
      } else Some (test, s))"
| "store_loop wr cursor limit data test s = (if cursor < limit then None else Some (test, s))"

definition vl_store :: "nat \<Rightarrow> u16 \<Rightarrow> bytes \<Rightarrow> 'a vl_state_scheme \<Rightarrow> (u8 \<times> 'a vl_state_scheme) option" where
  "vl_store fd len data s = do {
     f \<leftarrow> get_file fd s;
     let len = (if f_alloc f < len then f_alloc f else len);
     let f = f\<lparr>f_flags := f_flags f OR
                (if len \<noteq> f_length f then VL_FLAG_RESIZED OR VL_FLAG_MODDED else VL_FLAG_MODDED),
              f_length := len\<rparr>;
     let cursor = f_start f;
     store_loop (file_wr (f_write f)) cursor (cursor + len) data 0 (put_file fd f s)
   }"

definition vl_append :: "nat \<Rightarrow> u16 \<Rightarrow> bytes \<Rightarrow> 'a vl_state_scheme \<Rightarrow> (u8 \<times> 'a vl_state_scheme) option" where
  "vl_append fd len data s = do {
     f \<leftarrow> get_file fd s;
     let len = f_length f + len;
     if len \<le> f_alloc f then do {
       let cursor = f_start f + f_length f;
       let f = f\<lparr>f_length := len, f_flags := f_flags f OR (VL_FLAG_RESIZED OR VL_FLAG_MODDED)\<rparr>;
       store_loop (file_wr (f_write f)) cursor (len + cursor) data 0 (put_file fd f s)
     } else Some (255, s)
   }"

definition vl_execute ::
  "'a action_fn \<Rightarrow> nat \<Rightarrow> u16 \<Rightarrow> bytes \<Rightarrow> 'a vl_state_scheme \<Rightarrow> (u8 \<times> 'a vl_state_scheme) option" where
  "vl_execute act fd input_size input_stream s = do {
     (retval, s) \<leftarrow> vl_store fd input_size input_stream s;
     if retval \<noteq> 0 then sub_action act fd s else Some (retval, s)
   }"

definition vl_checklength :: "nat \<Rightarrow> 'a vl_state_scheme \<Rightarrow> u16 option" where
  "vl_checklength fd s = map_option f_length (get_file fd s)"

definition vl_checkalloc :: "nat \<Rightarrow> 'a vl_state_scheme \<Rightarrow> u16 option" where
  "vl_checkalloc fd s = map_option f_alloc (get_file fd s)"

section \<open>Block functions\<close>

definition GFB_open_su :: "u8 \<Rightarrow> 'a vl_state_scheme \<Rightarrow> (nat option \<times> 'a vl_state_scheme) option" where
  "GFB_open_su data_id s = (if 0 < GFB_HEAP_BYTES then vl_open VL_GFB_BLOCKID data_id VL_ACCESS_SU Id_NULL s else Some (None, s))"

definition ISF_open_su :: "u8 \<Rightarrow> 'a vl_state_scheme \<Rightarrow> (nat option \<times> 'a vl_state_scheme) option" where
  "ISF_open_su data_id s = vl_open VL_ISF_BLOCKID data_id VL_ACCESS_SU Id_NULL s"

definition GFB_open :: "u8 \<Rightarrow> u8 \<Rightarrow> id_ref \<Rightarrow> 'a vl_state_scheme \<Rightarrow> (nat option \<times> 'a vl_state_scheme) option" where
  "GFB_open data_id md user_id s = (if 0 < GFB_HEAP_BYTES then vl_open VL_GFB_BLOCKID data_id md user_id s else Some (None, s))"

definition ISF_open :: "u8 \<Rightarrow> u8 \<Rightarrow> id_ref \<Rightarrow> 'a vl_state_scheme \<Rightarrow> (nat option \<times> 'a vl_state_scheme) option" where
  "ISF_open data_id md user_id s = vl_open VL_ISF_BLOCKID data_id md user_id s"

definition GFB_chmod_su :: "u8 \<Rightarrow> u8 \<Rightarrow> 'a vl_state_scheme \<Rightarrow> (u8 \<times> 'a vl_state_scheme) option" where
  "GFB_chmod_su data_id md s = (if 0 < GFB_HEAP_BYTES then vl_chmod VL_GFB_BLOCKID data_id md Id_NULL s else Some (255, s))"

definition ISF_chmod_su :: "u8 \<Rightarrow> u8 \<Rightarrow> 'a vl_state_scheme \<Rightarrow> (u8 \<times> 'a vl_state_scheme) option" where
  "ISF_chmod_su data_id md s = vl_chmod VL_ISF_BLOCKID data_id md Id_NULL s"

end
