(* ===== verification/Veelite_Data.thy ===== *)
theory Veelite_Data
  imports Veelite
begin

text \<open>
  The data operations of the file layer: what is stored is loaded again, nothing outside the
  area of the file changes, and nothing is written past its allocation. The loops are
  treated once, over any store of half-words; the files of the selected block are an
  instance.
\<close>

section \<open>The loops over a store of half-words\<close>

lemma unat_add2:
  assumes "unat (c :: u16) + 2 < 65536"
  shows "unat (c + 2) = unat c + 2"
  using assms by (simp add: unat_word_ariths)

lemma even_plus_1 [simp]: "(c :: u16) AND 1 = 0 \<Longrightarrow> (c + 1) AND 1 = 1"
  by (simp add: and_one_eq mod2_eq_if split: if_splits)

lemma even_plus_2 [simp]: "((c :: u16) + 2) AND 1 = c AND 1"
  using and_1_add_double [of c 1] by simp

lemma even_and_1: "even (unat (c :: u16)) \<longleftrightarrow> c AND 1 = 0"
proof -
  have "unat (c AND 1) = unat c mod 2" by (simp add: and_one_eq unat_mod)
  then show ?thesis by (metis even_iff_mod_2_eq_zero unat_eq_zero)
qed

context halfword_store
begin

lemma store_loop_wr_seq:
  "2 * k \<le> length data \<Longrightarrow> unat cursor + 2 * k < 65536 \<Longrightarrow> k = (n + 1) div 2 \<Longrightarrow>
   unat limit = unat cursor + n \<Longrightarrow>
   store_loop wr cursor limit data t s =
     do { (r, s') \<leftarrow> wr_seq wr cursor (take k (halfwords data)) s; Some (t OR r, s') }"
proof (induction k arbitrary: cursor data n t s)
  case 0
  then have "\<not> cursor < limit" by (simp add: word_less_nat_alt)
  then show ?case by (cases data rule: halfwords.cases) auto
next
  case (Suc k)
  obtain b0 b1 bs where d: "data = b0 # b1 # bs"
    using Suc.prems(1) by (cases data rule: halfwords.cases) auto
  have lt: "cursor < limit" using Suc.prems(3,4) by (simp add: word_less_nat_alt)
  have u: "unat (cursor + 2) = unat cursor + 2" using Suc.prems(2) by (intro unat_add2) simp
  show ?case
  proof (cases "n = 1")
    case True
    then have k: "k = 0" using Suc.prems(3) by simp
    have "\<not> cursor + 2 < limit" using Suc.prems(4) True u by (simp add: word_less_nat_alt)
    then have "store_loop wr (cursor + 2) limit bs t' s' = Some (t', s')" for t' s'
      by (cases bs rule: halfwords.cases) auto
    then show ?thesis using lt d k by (simp add: case_prod_unfold)
  next
    case False
    then have n: "2 \<le> n" "k = (n - 2 + 1) div 2" using Suc.prems(3) by auto
    have "store_loop wr (cursor + 2) limit bs t' s' =
        do { (r, s'') \<leftarrow> wr_seq wr (cursor + 2) (take k (halfwords bs)) s'; Some (t' OR r, s'') }" for t' s'
    proof (rule Suc.IH [where n = "n - 2"])
      show "2 * k \<le> length bs" using Suc.prems(1) d by simp
      show "unat (cursor + 2) + 2 * k < 65536" using Suc.prems(2) u by simp
      show "k = (n - 2 + 1) div 2" by (rule n(2))
      show "unat limit = unat (cursor + 2) + (n - 2)" using Suc.prems(4) u n(1) by simp
    qed
    then show ?thesis
      using lt d by (cases "wr cursor (join16 b0 b1) s") (auto simp: case_prod_unfold or.assoc)
  qed
qed

lemma load_loop_rd_seq:
  "c AND 1 = 0 \<Longrightarrow> rd_seq rd c ((n + 1) div 2) s = Some ds \<Longrightarrow>
   load_loop (\<lambda>a. rd a s) n c x = Some (take n (hw_bytes ds))"
proof (induction n arbitrary: c x ds rule: nat_less_induct)
  case (1 n)
  consider "n = 0" | "n = 1" | m where "n = Suc (Suc m)" by (metis One_nat_def not0_implies_Suc)
  then show ?case
  proof cases
    case 1
    then show ?thesis by simp
  next
    case 2
    then show ?thesis using "1.prems" by (auto simp: bind_eq_Some_conv)
  next
    case (3 m)
    then obtain d ds' where d: "rd c s = Some d" "rd_seq rd (c + 2) ((m + 1) div 2) s = Some ds'"
      "ds = d # ds'"
      using "1.prems"(2) by (auto simp: bind_eq_Some_conv)
    have "load_loop (\<lambda>a. rd a s) m (c + 2) (Some d) = Some (take m (hw_bytes ds'))"
      using "1.IH" "1.prems"(1) 3 d(2) by simp
    then show ?thesis using 3 d "1.prems"(1) by (simp add: add.assoc)
  qed
qed

lemma load_after_store:
  assumes "store_loop wr cursor limit data 0 s = Some (r, s')"
    and "unat limit = unat cursor + n" and "2 * ((n + 1) div 2) \<le> length data"
    and "unat cursor + 2 * ((n + 1) div 2) < 65536" and "cursor AND 1 = 0" and "k \<le> n"
  shows "load_loop (\<lambda>a. rd a s') k cursor None = Some (take k data)"
proof -
  let ?h = "(n + 1) div 2"
  obtain r' where w: "wr_seq wr cursor (take ?h (halfwords data)) s = Some (r', s')"
    using assms(1) store_loop_wr_seq [OF assms(3,4) refl assms(2), of 0 s]
    by (auto simp: bind_eq_Some_conv)
  have l: "length (take ?h (halfwords data)) = ?h" using assms(3) by simp
  have "rd_seq rd cursor ?h s' = Some (take ?h (halfwords data))"
    using rd_seq_wr_seq [OF w] assms(4) unfolding l by linarith
  moreover have "?h \<le> length (halfwords data)" using assms(3) by simp
  moreover have "(k + 1) div 2 \<le> ?h" using assms(6) by (simp add: div_le_mono)
  ultimately have "rd_seq rd cursor ((k + 1) div 2) s' = Some (take ((k + 1) div 2) (halfwords data))"
    by (rule rd_seq_take)
  from load_loop_rd_seq [OF assms(5) this]
  have "load_loop (\<lambda>a. rd a s') k cursor None =
      Some (take k (hw_bytes (take ((k + 1) div 2) (halfwords data))))" .
  moreover have "2 * ((k + 1) div 2) \<le> length data"
    using assms(3) \<open>(k + 1) div 2 \<le> ?h\<close> by linarith
  ultimately show ?thesis using take_hw_bytes_halfwords [of k "(k + 1) div 2" data] by simp
qed

end


section \<open>Open files\<close>

lemma file_wr_Some [simp]: "file_wr (Some fn) = vworm_write"
  by (intro ext) (cases fn; simp add: file_wr_def vsram_mark_def vworm_mark_def)

lemma file_rd_Some [simp]: "file_rd (Some fn) = vworm_read"
  by (intro ext) (cases fn; simp add: file_rd_def vsram_read_def)

lemma fsblock_put_file [simp]: "fsblock (put_file fd f s) = fsblock s"
  by (simp add: fsblock_def put_file_def)

lemma vworm_read_put_file [simp]: "vworm_read a (put_file fd f s) = vworm_read a s"
  by (simp add: vworm_read_eq)

lemma vworm_mapped_put_file [simp]: "vworm_mapped a (put_file fd f s) = vworm_mapped a s"
  by (simp add: vworm_mapped_def)

lemma put_file_simps [simp]:
  "fsram (put_file fd f s) = fsram s" "heap (put_file fd f s) = heap s"
  "vlfile (put_file fd f s) = (vlfile s)[fd := f]" "rtc_n (put_file fd f s) = rtc_n s"
  "rtc (put_file fd f s) = rtc s" "vlaction (put_file fd f s) = vlaction s"
  "vlaction_users (put_file fd f s) = vlaction_users s"
  by (simp_all add: put_file_def)

lemma get_put_file: "fd < length (vlfile s) \<Longrightarrow> get_file fd (put_file fd f s) = Some f"
  by (simp add: get_file_def put_file_def)

lemma get_put_file_other: "fd' \<noteq> fd \<Longrightarrow> get_file fd' (put_file fd f s) = get_file fd' s"
  by (simp add: get_file_def put_file_def)

lemma get_fileD: "get_file fd s = Some f \<Longrightarrow> fd < length (vlfile s) \<and> vlfile s ! fd = f"
  by (simp add: get_file_def split: if_splits)

lemma vl_frame:
  assumes "block_frame s s'"
  shows "vlfile s' = vlfile s" "vlaction s' = vlaction s" "vlaction_users s' = vlaction_users s"
    "get_file fd s' = get_file fd s"
  using assms by (auto simp: block_frame_def get_file_def)

text \<open>
  An open file whose area lies in the block: even start, and the allocation rounded up to
  half-words is inside. The block is smaller than the 16-bit address space.
\<close>

definition file_ok :: "nat \<Rightarrow> vlFILE \<Rightarrow> bool" where
  "file_ok sz f \<longleftrightarrow> f_read f \<noteq> None \<and> f_write f \<noteq> None \<and> even (unat (f_start f))
     \<and> unat (f_start f) + 2 * ((unat (f_alloc f) + 1) div 2) \<le> sz"

definition fs_size :: "'a core_state_scheme \<Rightarrow> nat" where
  "fs_size s = (case fsblock s of None \<Rightarrow> 0 | Some m \<Rightarrow> length m)"

lemma fs_size_put_file [simp]: "fs_size (put_file fd f s) = fs_size s"
  by (simp add: fs_size_def)

lemma vworm_mapped_iff: "vworm_mapped a s \<longleftrightarrow> unat (even_addr a) + 1 < fs_size s"
  by (auto simp: vworm_mapped_def fs_size_def split: option.split)

lemma unat_off:
  "unat (a :: u16) + i < 65536 \<Longrightarrow> unat (a + of_nat i) = unat a + i"
  by (simp add: unat_word_ariths unat_of_nat take_bit_nat_eq_self)

lemma mapped_in_area:
  assumes "even (unat a)" and "unat a + 2 * k \<le> fs_size s" and "fs_size s < 65536" and "i < k"
  shows "vworm_mapped (a + 2 * of_nat i) s"
proof -
  have "unat (a + of_nat (2 * i)) = unat a + 2 * i" by (rule unat_off) (use assms in auto)
  then have "unat (even_addr (a + 2 * of_nat i)) = unat a + 2 * i"
    using assms(1) by simp
  then show ?thesis using assms by (simp add: vworm_mapped_iff)
qed

lemma span16_area:
  assumes "even (unat a)" and "unat a + 2 * k < 65536"
    and "unat b + 1 < unat a \<or> unat a + 2 * k \<le> unat b" and "even (unat b)"
  shows "b \<notin> span16 a k"
proof
  assume "b \<in> span16 a k"
  then obtain i where i: "i < k" "b = even_addr (a + 2 * of_nat i)" by (auto simp: span16_iff)
  have "unat (a + of_nat (2 * i)) = unat a + 2 * i" by (rule unat_off) (use assms i in auto)
  then have "unat b = unat a + 2 * i" using assms(1) i(2) by simp
  then show False using assms(3) i(1) by auto
qed

text \<open>The half-words of the area of a file.\<close>

definition in_area :: "u16 \<Rightarrow> u16 \<Rightarrow> u16 \<Rightarrow> bool" where
  "in_area start alloc b \<longleftrightarrow> unat start \<le> unat (even_addr b)
     \<and> unat (even_addr b) < unat start + 2 * ((unat alloc + 1) div 2)"

lemma store_loop_area:
  fixes s :: "'a vl_state_scheme"
  assumes "even (unat c)" and "unat c + 2 * ((n + 1) div 2) \<le> fs_size s" and "fs_size s < 65536"
    and "unat limit = unat c + n" and "2 * ((n + 1) div 2) \<le> length data"
  shows "\<exists>s'. store_loop vworm_write c limit data 0 s = Some (0, s') \<and> block_frame s s'
    \<and> (\<forall>k \<le> n. load_loop (\<lambda>a. vworm_read a s') k c None = Some (take k data))
    \<and> (\<forall>b. unat (even_addr b) + 1 < unat c \<or> unat c + 2 * ((n + 1) div 2) \<le> unat (even_addr b)
         \<longrightarrow> vworm_read b s' = vworm_read b s)"
proof -
  let ?k = "(n + 1) div 2" and ?ws = "take ((n + 1) div 2) (halfwords data)"
  have l: "length ?ws = ?k" using assms(5) by simp
  have lt: "unat c + 2 * ?k < 65536" using assms(2,3) by linarith
  have "\<exists>s'. wr_seq vworm_write c ?ws s = Some (0, s')"
    by (rule vw.wr_seq_defined) (use mapped_in_area [OF assms(1,2,3)] l in auto)
  then obtain s' where w: "wr_seq vworm_write c ?ws s = Some (0, s')" by blast
  have st: "store_loop vworm_write c limit data 0 s = Some (0, s')"
    using vw.store_loop_wr_seq [OF assms(5) lt refl assms(4), of 0 s] w by simp
  have "load_loop (\<lambda>a. vworm_read a s') k c None = Some (take k data)" if "k \<le> n" for k
    by (rule vw.load_after_store [OF st assms(4,5) lt _ that]) (use assms(1) even_and_1 in auto)
  moreover have "vworm_read b s' = vworm_read b s"
    if "unat (even_addr b) + 1 < unat c \<or> unat c + 2 * ?k \<le> unat (even_addr b)" for b
    using vw.wr_seq_other [OF w, of b] span16_area [OF assms(1) lt that] unfolding l by simp
  ultimately show ?thesis using st wr_seq_block_frame [OF w] by blast
qed


section \<open>Store and load\<close>

definition stored :: "u16 \<Rightarrow> vlFILE \<Rightarrow> vlFILE" where
  "stored n f = f\<lparr>f_flags := f_flags f OR
     (if n \<noteq> f_length f then VL_FLAG_RESIZED OR VL_FLAG_MODDED else VL_FLAG_MODDED),
     f_length := n\<rparr>"

lemma unat_start_plus:
  assumes "file_ok (fs_size s) f" and "fs_size s < 65536" and "n \<le> f_alloc f"
  shows "unat (f_start f + n) = unat (f_start f) + unat n"
proof -
  have "unat n \<le> unat (f_alloc f)" using assms(3) by (simp add: word_le_nat_alt)
  moreover have "unat (f_alloc f) \<le> 2 * ((unat (f_alloc f) + 1) div 2)" by linarith
  moreover have "unat (f_start f) + 2 * ((unat (f_alloc f) + 1) div 2) < 65536"
    using assms(1,2) by (simp add: file_ok_def)
  ultimately have "unat (f_start f) + unat n < 65536" by linarith
  then show ?thesis by (simp add: unat_word_ariths)
qed

lemma vl_store_spec:
  fixes s :: "'a vl_state_scheme"
  assumes g: "get_file fd s = Some f" and ok: "file_ok (fs_size s) f" and sz: "fs_size s < 65536"
    and n: "n = min len (f_alloc f)" and d: "2 * ((unat n + 1) div 2) \<le> length data"
  shows "\<exists>s'. vl_store fd len data s = Some (0, s') \<and> block_frame (put_file fd (stored n f) s) s'
    \<and> (\<forall>k \<le> unat n. load_loop (\<lambda>a. vworm_read a s') k (f_start f) None = Some (take k data))
    \<and> (\<forall>b. \<not> in_area (f_start f) (f_alloc f) b \<longrightarrow> vworm_read b s' = vworm_read b s)"
proof -
  have le: "n \<le> f_alloc f" using n by simp
  then have le': "unat n \<le> unat (f_alloc f)" by (simp add: word_le_nat_alt)
  let ?s = "put_file fd (stored n f) s"
  obtain fn where fn: "f_write f = Some fn" using ok by (auto simp: file_ok_def)
  have e: "even (unat (f_start f))" using ok by (simp add: file_ok_def)
  have r: "(unat n + 1) div 2 \<le> (unat (f_alloc f) + 1) div 2" using le' by (simp add: div_le_mono)
  then have b: "unat (f_start f) + 2 * ((unat n + 1) div 2) \<le> fs_size ?s"
    using ok by (simp add: file_ok_def)
  have if_n: "(if f_alloc f < len then f_alloc f else len) = n" using n by (auto simp: min_def)
  have eq: "vl_store fd len data s =
      store_loop vworm_write (f_start f) (f_start f + n) data 0 ?s"
    using g by (simp add: vl_store_def if_n fn stored_def Let_def)
  have sz': "fs_size ?s < 65536" using sz by simp
  obtain s' where s': "store_loop vworm_write (f_start f) (f_start f + n) data 0 ?s = Some (0, s')"
      "block_frame ?s s'"
      "\<forall>k \<le> unat n. load_loop (\<lambda>a. vworm_read a s') k (f_start f) None = Some (take k data)"
      "\<forall>b. unat (even_addr b) + 1 < unat (f_start f)
          \<or> unat (f_start f) + 2 * ((unat n + 1) div 2) \<le> unat (even_addr b)
         \<longrightarrow> vworm_read b s' = vworm_read b ?s"
    using store_loop_area [OF e b sz' unat_start_plus [OF ok sz le] d] by blast
  have "vworm_read b s' = vworm_read b s" if "\<not> in_area (f_start f) (f_alloc f) b" for b
  proof -
    have "unat (even_addr b) < unat (f_start f) \<Longrightarrow> unat (even_addr b) + 1 < unat (f_start f)"
      using e even_unat_even_addr [of b] by presburger
    moreover have "unat (even_addr b) < unat (f_start f)
        \<or> unat (f_start f) + 2 * ((unat (f_alloc f) + 1) div 2) \<le> unat (even_addr b)"
      using that by (auto simp: in_area_def)
    ultimately show ?thesis using s'(4) r by auto
  qed
  then show ?thesis
    unfolding eq by (intro exI [of _ s'] conjI allI impI) (use s'(1-3) in auto)
qed

lemma vl_load_eq:
  assumes "get_file fd s = Some f" and "file_ok (fs_size s) f" and "fs_size s < 65536"
    and "f_length f \<le> f_alloc f"
  shows "vl_load fd len s = map_option (Pair (min len (f_length f)))
    (load_loop (\<lambda>a. vworm_read a s) (unat (min len (f_length f))) (f_start f) None)"
proof -
  let ?n = "min len (f_length f)"
  obtain fn where fn: "f_read f = Some fn" using assms(2) by (auto simp: file_ok_def)
  have "?n \<le> f_alloc f" using assms(4) by (auto simp: min_def)
  then have u: "unat (f_start f + ?n) - unat (f_start f) = unat ?n"
    using unat_start_plus [OF assms(2,3)] by simp
  have "(if f_length f < len then f_length f else len) = ?n" by (auto simp: min_def)
  then show ?thesis
    using assms(1) by (simp add: vl_load_def fn Let_def u map_option_case split: option.split)
qed

lemma fs_size_frame:
  assumes "block_frame s s'"
  shows "fs_size s' = fs_size s"
proof -
  from assms obtain h where h: "s' = s\<lparr>heap := h\<rparr>"
    "\<forall>b. map_option length (h b) = map_option length (heap s b)"
    by (auto simp: block_frame_def)
  show ?thesis
  proof (cases "fsram s")
    case None
    then show ?thesis using h(1) by (simp add: fs_size_def fsblock_def)
  next
    case (Some b)
    have "map_option length (h b) = map_option length (heap s b)" using h(2) by simp
    then show ?thesis
      using h(1) Some by (auto simp: fs_size_def fsblock_def split: option.splits)
  qed
qed

text \<open>
  C4. What \<^verbatim>\<open>vl_store\<close> puts into an open file, \<^verbatim>\<open>vl_load\<close> gives back: the data is cut to the
  allocation of the file, that many bytes become its length, and a load of any size returns
  the smaller of the two counts and the stored bytes.
\<close>

theorem vl_store_load:
  fixes s :: "'a vl_state_scheme"
  assumes "get_file fd s = Some f" and "file_ok (fs_size s) f" and "fs_size s < 65536"
    and "2 * ((unat (min len (f_alloc f)) + 1) div 2) \<le> length data"
  shows "\<exists>s'. vl_store fd len data s = Some (0, s')
    \<and> vl_checklength fd s' = Some (min len (f_alloc f))
    \<and> (\<forall>k. vl_load fd k s' = Some (min k (min len (f_alloc f)), take (unat (min k (min len (f_alloc f)))) data))"
proof -
  let ?n = "min len (f_alloc f)"
  obtain s' where s': "vl_store fd len data s = Some (0, s')"
    "block_frame (put_file fd (stored ?n f) s) s'"
    "\<forall>k \<le> unat ?n. load_loop (\<lambda>a. vworm_read a s') k (f_start f) None = Some (take k data)"
    using vl_store_spec [OF assms(1-3) refl assms(4)] by blast
  have g: "get_file fd s' = Some (stored ?n f)"
    using vl_frame(4) [OF s'(2)] get_fileD [OF assms(1)] by (simp add: get_put_file)
  have sz: "fs_size s' = fs_size s" using fs_size_frame [OF s'(2)] by simp
  have ok: "file_ok (fs_size s') (stored ?n f)"
    using assms(2) by (simp add: sz file_ok_def stored_def)
  have "vl_load fd k s' = Some (min k ?n, take (unat (min k ?n)) data)" for k
  proof -
    have "unat (min k ?n) \<le> unat ?n"
      by (simp only: word_le_nat_alt [symmetric]) (rule min.cobounded2)
    moreover have "f_length (stored ?n f) \<le> f_alloc (stored ?n f)" by (simp add: stored_def)
    ultimately show ?thesis
      using vl_load_eq [OF g ok] s'(3) assms(3) by (simp add: sz stored_def)
  qed
  moreover have "vl_checklength fd s' = Some ?n"
    using g by (simp add: vl_checklength_def stored_def)
  ultimately show ?thesis using s'(1) by blast
qed

text \<open>
  C34. A store is confined: it changes no half-word outside the area that the header
  allocates to the file, no other open file, no other filesystem of the group, and it
  leaves the sizes of all blocks as they are.
\<close>

theorem vl_store_confined:
  fixes s :: "'a vl_state_scheme"
  assumes "get_file fd s = Some f" and "file_ok (fs_size s) f" and "fs_size s < 65536"
    and "2 * ((unat (min len (f_alloc f)) + 1) div 2) \<le> length data"
  shows "\<exists>s'. vl_store fd len data s = Some (0, s')
    \<and> (\<forall>b. \<not> in_area (f_start f) (f_alloc f) b \<longrightarrow> vworm_read b s' = vworm_read b s)
    \<and> (\<forall>fd'. fd' \<noteq> fd \<longrightarrow> get_file fd' s' = get_file fd' s)
    \<and> (\<forall>b. fsram s \<noteq> Some b \<longrightarrow> heap s' b = heap s b)
    \<and> fsram s' = fsram s \<and> fs_size s' = fs_size s"
proof -
  let ?n = "min len (f_alloc f)"
  obtain s' where s': "vl_store fd len data s = Some (0, s')"
    "block_frame (put_file fd (stored ?n f) s) s'"
    "\<forall>b. \<not> in_area (f_start f) (f_alloc f) b \<longrightarrow> vworm_read b s' = vworm_read b s"
    using vl_store_spec [OF assms(1-3) refl assms(4)] by blast
  have "get_file fd' s' = get_file fd' s" if "fd' \<noteq> fd" for fd'
    using vl_frame(4) [OF s'(2)] that by (simp add: get_put_file_other)
  moreover have "heap s' b = heap s b" if "fsram s \<noteq> Some b" for b
    using block_frame_simps(8) [OF s'(2)] that by (simp add: put_file_def)
  moreover have "fsram s' = fsram s"
    using block_frame_simps(1) [OF s'(2)] by (simp add: put_file_def)
  moreover have "fs_size s' = fs_size s" using fs_size_frame [OF s'(2)] by simp
  ultimately show ?thesis using s'(1,3) by blast
qed


section \<open>Half-word access\<close>

definition written :: "u16 \<Rightarrow> vlFILE \<Rightarrow> vlFILE" where
  "written off f =
     (let g = (if f_length f \<le> off
               then f\<lparr>f_length := off + 2, f_flags := f_flags f OR VL_FLAG_RESIZED\<rparr> else f)
      in g\<lparr>f_flags := f_flags g OR VL_FLAG_MODDED\<rparr>)"

lemma written_simps [simp]:
  "f_start (written off f) = f_start f" "f_alloc (written off f) = f_alloc f"
  "f_read (written off f) = f_read f" "f_write (written off f) = f_write f"
  "f_header (written off f) = f_header f"
  "f_length (written off f) = (if f_length f \<le> off then off + 2 else f_length f)"
  by (simp_all add: written_def Let_def)

lemma vl_write_eq:
  assumes "get_file fd s = Some f" and "f_write f = Some fn" and "off < f_alloc f"
  shows "vl_write fd off v s = vworm_write (off + f_start f) v (put_file fd (written off f) s)"
proof -
  have "\<not> f_alloc f \<le> off" using assms(3) by simp
  then show ?thesis using assms(1,2) by (simp add: vl_write_def written_def Let_def)
qed

lemma half_word_in_area:
  "even st \<Longrightarrow> off < al \<Longrightarrow> st + 2 * ((al + 1) div 2) \<le> sz \<Longrightarrow>
   (st + off) - (st + off) mod 2 + 1 < (sz :: nat)"
  by presburger

lemma area_mapped:
  assumes "file_ok (fs_size s) f" and "fs_size s < 65536" and "off < f_alloc f"
  shows "vworm_mapped (off + f_start f) s"
proof -
  have "unat (f_start f + off) = unat (f_start f) + unat off"
    by (rule unat_start_plus) (use assms in auto)
  moreover have "unat off < unat (f_alloc f)" using assms(3) by (simp add: word_less_nat_alt)
  ultimately show ?thesis
    using assms(1) half_word_in_area [of "unat (f_start f)" "unat off" "unat (f_alloc f)" "fs_size s"]
    by (simp add: vworm_mapped_iff file_ok_def add.commute [of off] unat_even_addr)
qed

lemma vl_write_read_spec:
  fixes s :: "'a vl_state_scheme"
  assumes "get_file fd s = Some f" and "file_ok (fs_size s) f" and "fs_size s < 65536"
    and lt: "off < f_alloc f"
  shows "\<exists>s'. vl_write fd off v s = Some (0, s') \<and> vl_read fd off s' = Some v
       \<and> vl_checklength fd s' = Some (if f_length f \<le> off then off + 2 else f_length f)
       \<and> (\<forall>b. even_addr b \<noteq> even_addr (off + f_start f) \<longrightarrow> vworm_read b s' = vworm_read b s)"
proof -
  obtain rf wf where fn: "f_write f = Some wf" "f_read f = Some rf" using assms(2) by (auto simp: file_ok_def)
  let ?s = "put_file fd (written off f) s"
  have "vworm_mapped (off + f_start f) ?s" using area_mapped [OF assms(2,3) lt] by simp
  then obtain r s' where w: "vworm_write (off + f_start f) v ?s = Some (r, s')"
    using vw.wr_iff_mapped [of "off + f_start f" v ?s] by auto
  have r: "r = 0" using vw.wr_code [OF w] .
  have g: "get_file fd s' = Some (written off f)"
    using vl_frame(4) [OF vworm_write_block_frame [OF w]] get_fileD [OF assms(1)]
    by (simp add: get_put_file)
  have "vl_read fd off s' = Some v"
    using g fn vw.rd_wr_same [OF w refl] by (simp add: vl_read_def)
  moreover have "vworm_read b s' = vworm_read b s" if "even_addr b \<noteq> even_addr (off + f_start f)" for b
    using vw.rd_wr_other [OF w that] by simp
  ultimately show ?thesis
    using vl_write_eq [OF assms(1) fn(1) lt, of v] w r g by (simp add: vl_checklength_def)
qed

text \<open>
  A half-word written to an open file at an offset below its allocation is read back
  from the same offset; a write at or past the allocation returns 255 and changes nothing.
\<close>

theorem vl_write_read:
  fixes s :: "'a vl_state_scheme"
  assumes "get_file fd s = Some f" and "file_ok (fs_size s) f" and "fs_size s < 65536"
  shows "if off < f_alloc f
    then \<exists>s'. vl_write fd off v s = Some (0, s') \<and> vl_read fd off s' = Some v
       \<and> vl_checklength fd s' = Some (if f_length f \<le> off then off + 2 else f_length f)
       \<and> (\<forall>b. even_addr b \<noteq> even_addr (off + f_start f) \<longrightarrow> vworm_read b s' = vworm_read b s)
    else vl_write fd off v s = Some (255, s)"
proof (cases "off < f_alloc f")
  case False
  then have "f_alloc f \<le> off" by simp
  then show ?thesis using assms(1) False by (simp add: vl_write_def)
next
  case True
  then show ?thesis using vl_write_read_spec [OF assms True, of v] by simp
qed

text \<open>
  A write at the last odd offset of an odd allocation makes the file one byte longer
  than its allocation: the length becomes the offset plus 2 whatever is left of the area.
\<close>

theorem vl_write_overlength:
  fixes s :: "'a vl_state_scheme"
  assumes "get_file fd s = Some f" and "file_ok (fs_size s) f" and "fs_size s < 65536"
    and "f_length f < f_alloc f"
  shows "\<exists>s'. vl_write fd (f_alloc f - 1) v s = Some (0, s')
    \<and> vl_checklength fd s' = Some (f_alloc f + 1)"
proof -
  have nz: "f_alloc f \<noteq> 0" using assms(4) by auto
  then have "0 < unat (f_alloc f)" by (simp add: unat_gt_0)
  then have lt: "f_alloc f - 1 < f_alloc f" using nz by (simp add: word_less_nat_alt unat_minus_one)
  have le: "f_length f \<le> f_alloc f - 1"
    using assms(4) nz by (simp add: word_less_nat_alt word_le_nat_alt unat_minus_one)
  show ?thesis
    using vl_write_read_spec [OF assms(1-3) lt, of v] le by auto
qed


section \<open>Append and execute\<close>

lemma store_loop_short:
  "unat cursor + length data < unat limit \<Longrightarrow> store_loop wr cursor limit data t s = None"
proof (induction data arbitrary: cursor t s rule: halfwords.induct)
  case (1 b0 b1 bs)
  have lt: "cursor < limit" using "1.prems" by (simp add: word_less_nat_alt)
  have "unat cursor + 2 < 65536" using "1.prems" unat_u16_less [of limit] by (simp del: unat_u16_less)
  then have "unat (cursor + 2) + length bs < unat limit" using "1.prems" by (simp add: unat_add2)
  then have "store_loop wr (cursor + 2) limit bs t' s' = None" for t' s' by (rule "1.IH")
  then show ?case using lt by (cases "wr cursor (join16 b0 b1) s") auto
qed (simp_all add: word_less_nat_alt)

text \<open>
  \<^verbatim>\<open>vl_append\<close> to a file that is not empty reads past the end of the caller's data: its end
  address counts the old length twice, so that it copies the old length plus the new bytes.
\<close>

theorem vl_append_overrun:
  fixes s :: "'a vl_state_scheme"
  assumes "get_file fd s = Some f" and "0 < f_length f"
    and "unat (f_length f) + unat len \<le> unat (f_alloc f)"
    and "unat (f_start f) + 2 * unat (f_alloc f) < 65536" and "length data = unat len"
  shows "vl_append fd len data s = None"
proof -
  let ?n = "f_length f + len"
  note small = unat_u16_less [of "f_alloc f"]
  have n: "unat ?n = unat (f_length f) + unat len"
    by (rule unat_add_u16) (use assms(3) small in linarith)
  then have le: "?n \<le> f_alloc f" using assms(3) by (simp add: word_le_nat_alt)
  have c: "unat (f_start f + f_length f) = unat (f_start f) + unat (f_length f)"
    by (rule unat_add_u16) (use assms(3,4) in linarith)
  have l: "unat (?n + (f_start f + f_length f)) = unat ?n + unat (f_start f) + unat (f_length f)"
    using unat_add_u16 [of ?n "f_start f + f_length f"] assms(3,4) n c by linarith
  have "0 < unat (f_length f)" using assms(2) by (simp add: word_less_nat_alt)
  then have "unat (f_start f + f_length f) + length data < unat (?n + (f_start f + f_length f))"
    using l c n assms(5) by simp
  then show ?thesis using assms(1) le by (simp add: vl_append_def Let_def store_loop_short)
qed

text \<open>
  \<^verbatim>\<open>vl_execute\<close> on an open file is only \<^verbatim>\<open>vl_store\<close>: it calls the file action when the store
  has failed, and a store never fails.
\<close>

theorem vl_execute_is_store:
  fixes s :: "'a vl_state_scheme"
  assumes "get_file fd s = Some f" and "file_ok (fs_size s) f" and "fs_size s < 65536"
    and "2 * ((unat (min len (f_alloc f)) + 1) div 2) \<le> length data"
  shows "vl_execute act fd len data s = vl_store fd len data s"
proof -
  obtain s' where "vl_store fd len data s = Some (0, s')"
    using vl_store_spec [OF assms(1-3) refl assms(4)] by blast
  then show ?thesis by (simp add: vl_execute_def)
qed

section \<open>An example\<close>

definition demo_file :: vlFILE where
  "demo_file = \<lparr>f_header = 0, f_start = 32, f_alloc = 7, f_idmod = 0, f_length = 3, f_flags = 1,
     f_read = Some Vworm_fn, f_write = Some Vworm_fn\<rparr>"

definition demo_vl :: vl_state where
  "demo_vl = core_state.extend (demo_core\<lparr>heap := [5 \<mapsto> replicate 64 0], fsram := Some 5\<rparr>)
     \<lparr>vlfile = [demo_file, zero_file, zero_file], vlaction = replicate 16 None,
      vlaction_users = replicate 16 0\<rparr>"

lemma demo_vl_simps:
  "get_file 0 demo_vl = Some demo_file" "fs_size demo_vl = 64" "fsram demo_vl = Some 5"
  "file_ok 64 demo_file"
  by (simp_all add: demo_vl_def core_state.extend_def get_file_def fs_size_def fsblock_def
      file_ok_def demo_file_def)

lemma demo_vl_ok: "file_ok (fs_size demo_vl) demo_file" "fs_size demo_vl < 65536"
  by (simp_all add: demo_vl_simps)

theorem vl_store_load_witness:
  "\<exists>s'. vl_store 0 5 [1, 2, 3, 4, 5, 6] demo_vl = Some (0, s') \<and> vl_load 0 9 s' = Some (5, [1, 2, 3, 4, 5])"
proof -
  have "2 * ((unat (min 5 (f_alloc demo_file)) + 1) div 2) \<le> length ([1, 2, 3, 4, 5, 6] :: bytes)"
    by (simp add: demo_file_def min_def)
  from vl_store_load [OF demo_vl_simps(1) demo_vl_ok this] show ?thesis
    by (auto simp: demo_file_def min_def)
qed

theorem vl_store_confined_witness:
  "\<exists>s'. vl_store 0 5 [1, 2, 3, 4, 5, 6] demo_vl = Some (0, s')
     \<and> vworm_read 40 s' = vworm_read 40 demo_vl \<and> get_file 1 s' = get_file 1 demo_vl \<and> heap s' 6 = heap demo_vl 6"
proof -
  have "2 * ((unat (min 5 (f_alloc demo_file)) + 1) div 2) \<le> length ([1, 2, 3, 4, 5, 6] :: bytes)"
    by (simp add: demo_file_def min_def)
  from vl_store_confined [OF demo_vl_simps(1) demo_vl_ok this] obtain s' where
    s': "vl_store 0 5 [1, 2, 3, 4, 5, 6] demo_vl = Some (0, s')"
    "\<forall>b. \<not> in_area (f_start demo_file) (f_alloc demo_file) b \<longrightarrow> vworm_read b s' = vworm_read b demo_vl"
    "\<forall>fd'. fd' \<noteq> 0 \<longrightarrow> get_file fd' s' = get_file fd' demo_vl"
    "\<forall>b. fsram demo_vl \<noteq> Some b \<longrightarrow> heap s' b = heap demo_vl b" by blast
  have "\<not> in_area (f_start demo_file) (f_alloc demo_file) 40"
    by (simp add: in_area_def demo_file_def)
  then show ?thesis using s' demo_vl_simps(3) by simp
qed

theorem vl_write_read_witness:
  "\<exists>s'. vl_write 0 4 0xBEEF demo_vl = Some (0, s') \<and> vl_read 0 4 s' = Some 0xBEEF \<and> vl_checklength 0 s' = Some 6"
  using vl_write_read [OF demo_vl_simps(1) demo_vl_ok, of 4 "0xBEEF"] by (auto simp: demo_file_def)

theorem vl_write_overlength_witness:
  "\<exists>s'. vl_write 0 6 0xBEEF demo_vl = Some (0, s') \<and> vl_checklength 0 s' = Some 8"
  using vl_write_overlength [OF demo_vl_simps(1) demo_vl_ok, of "0xBEEF"] by (simp add: demo_file_def)

theorem vl_append_overrun_witness: "vl_append 0 2 [1, 2] demo_vl = None"
  by (rule vl_append_overrun [OF demo_vl_simps(1)]) (simp_all add: demo_file_def)

theorem vl_execute_is_store_witness:
  "vl_execute (\<lambda>_ _ s. Some (9, s)) 0 5 [1, 2, 3, 4, 5, 6] demo_vl = vl_store 0 5 [1, 2, 3, 4, 5, 6] demo_vl"
  by (rule vl_execute_is_store [OF demo_vl_simps(1) demo_vl_ok]) (simp add: demo_file_def min_def)

end
