(* ===== verification/Veelite_Files.thy ===== *)
theory Veelite_Files
  imports Veelite_Data
begin

text \<open>
  Opening, searching and closing files: the header searches find what the header array
  holds, a file of the default filesystem opens with its table entry and its stock data,
  closing writes the length and the modification time back and frees the slot, and access
  with an identity is subject to the authentication table.
\<close>

section \<open>Header writes\<close>

lemma vworm_read_rtc [simp]: "vworm_read a (s\<lparr>rtc_n := n\<rparr>) = vworm_read a s"
  by (simp add: vworm_read_eq fsblock_def)

lemma vworm_mapped_rtc [simp]: "vworm_mapped a (s\<lparr>rtc_n := n\<rparr>) = vworm_mapped a s"
  by (simp add: vworm_mapped_def fsblock_def)

lemma fs_size_rtc [simp]: "fs_size (s\<lparr>rtc_n := n\<rparr>) = fs_size s"
  by (simp add: fs_size_def fsblock_def)

lemma vworm_mapped_frame: "block_frame s s' \<Longrightarrow> vworm_mapped a s' = vworm_mapped a s"
  by (simp add: vworm_mapped_iff fs_size_frame)

lemma write_header_1:
  fixes s :: "'a vl_state_scheme"
  assumes "vworm_mapped a s"
  shows "\<exists>s'. sub_write_header a [v] 2 s = Some s' \<and> block_frame s s' \<and> vworm_read a s' = Some v
    \<and> (\<forall>b. even_addr b \<noteq> even_addr a \<longrightarrow> vworm_read b s' = vworm_read b s)"
proof -
  from assms obtain r s' where w: "vworm_write a v s = Some (r, s')"
    using vw.wr_iff_mapped [of a v s] by auto
  then have "sub_write_header a [v] 2 s = Some s'" by (simp add: sub_write_header_def)
  then show ?thesis
    using vworm_write_block_frame [OF w] vw.rd_wr_same [OF w refl] vw.rd_wr_other [OF w] by blast
qed

lemma write_header_2:
  fixes s :: "'a vl_state_scheme"
  assumes "vworm_mapped a s" and "vworm_mapped (a + 2) s"
  shows "\<exists>s'. sub_write_header a [v, w] 4 s = Some s' \<and> block_frame s s'
    \<and> vworm_read a s' = Some v \<and> vworm_read (a + 2) s' = Some w
    \<and> (\<forall>b. even_addr b \<noteq> even_addr a \<and> even_addr b \<noteq> even_addr (a + 2) \<longrightarrow> vworm_read b s' = vworm_read b s)"
proof -
  from assms(1) obtain r s1 where 1: "vworm_write a v s = Some (r, s1)"
    using vw.wr_iff_mapped [of a v s] by auto
  from assms(2) have "vworm_mapped (a + 2) s1" using vw.mapped_wr [OF 1] by simp
  then obtain r2 s2 where 2: "vworm_write (a + 2) w s1 = Some (r2, s2)"
    using vw.wr_iff_mapped [of "a + 2" w s1] by auto
  have "even_addr a \<notin> span16 (a + 2) 1" by (rule span16_fresh) simp
  then have ne: "even_addr a \<noteq> even_addr (a + 2)" by simp
  have "sub_write_header a [v, w] 4 s = Some s2"
    using 1 2 by (simp add: sub_write_header_def Let_def)
  then show ?thesis
    using block_frame_trans [OF vworm_write_block_frame [OF 1] vworm_write_block_frame [OF 2]]
      vw.rd_wr_same [OF 1 refl] vw.rd_wr_same [OF 2 refl] vw.rd_wr_other [OF 1] vw.rd_wr_other [OF 2] ne
    by (intro exI [of _ s2]) simp
qed

text \<open>A header that lies in the block, at an even address.\<close>

definition hdr_ok :: "'a core_state_scheme \<Rightarrow> u16 \<Rightarrow> bool" where
  "hdr_ok s h \<longleftrightarrow> even (unat h) \<and> unat h + 16 \<le> fs_size s \<and> fs_size s < 65536"

lemma unat_hdr_off:
  assumes "hdr_ok s h" and "unat k < 16"
  shows "unat (h + k) = unat h + unat k"
  by (rule unat_add_u16) (use assms in \<open>simp add: hdr_ok_def\<close>)

lemma hdr_mapped: "hdr_ok s h \<Longrightarrow> even (unat k) \<Longrightarrow> unat k < 16 \<Longrightarrow> vworm_mapped (h + k) s"
  using unat_hdr_off [of s h k]
  by (simp add: vworm_mapped_iff hdr_ok_def) presburger

lemma hdr_off_neq:
  assumes "hdr_ok s h" and "even (unat j)" "even (unat k)" "unat j < 16" "unat k < 16"
  shows "even_addr (h + j) = even_addr (h + k) \<longleftrightarrow> j = k"
  using unat_hdr_off [OF assms(1,4)] unat_hdr_off [OF assms(1,5)] assms
  by (simp add: hdr_ok_def)

section \<open>Closing\<close>

definition closed :: "vlFILE \<Rightarrow> vlFILE" where
  "closed f = f\<lparr>f_start := 0, f_length := 0, f_flags := 0, f_read := None, f_write := None\<rparr>"

text \<open>
  \<^verbatim>\<open>vl_close\<close> of an open file whose header lies in the block: it writes the length, and the time if
  the file was modified, which gives \<open>t\<close>; then it runs the action of the header if the condition of
  its code and the flags of the file have a bit in common; then it frees the slot.
\<close>

lemma vl_close_runs:
  fixes s :: "'a vl_state_scheme"
  assumes g: "get_file fd s = Some f" and h: "hdr_ok s (f_header f)" and a: "vworm_read (f_header f + 10) s = Some w"
  shows "\<exists>t. (\<forall>act. vl_close act (Some fd) s = do {
        (r, u) \<leftarrow> (if lo8 w AND ucast (f_flags f) \<noteq> 0 then sub_action act fd t else Some (0, t));
        f' \<leftarrow> get_file fd u;
        Some (r, put_file fd (closed f') u)
      })
    \<and> vworm_read (f_header f) t = Some (f_length f)
    \<and> (f_flags f AND VL_FLAG_MODDED \<noteq> 0 \<longrightarrow>
         vworm_read (f_header f + 12) t = Some (lo16 (utc_at s (rtc_n s)))
         \<and> vworm_read (f_header f + 14) t = Some (hi16 (utc_at s (rtc_n s))))
    \<and> (\<forall>b. even_addr b \<notin> {f_header f, f_header f + 12, f_header f + 14} \<longrightarrow> vworm_read b t = vworm_read b s)
    \<and> vworm_read (f_header f + 10) t = Some w
    \<and> vlfile t = vlfile s \<and> vlaction t = vlaction s
    \<and> fsram t = fsram s \<and> fs_size t = fs_size s \<and> (\<forall>b. fsram s \<noteq> Some b \<longrightarrow> heap t b = heap s b)"
proof -
  let ?h = "f_header f" and ?t = "utc_at s (rtc_n s)"
  have eh: "even_addr ?h = ?h" "even_addr (?h + 10) = ?h + 10" "even_addr (?h + 12) = ?h + 12"
    "even_addr (?h + 14) = ?h + 14"
    using h unat_hdr_off [OF h, of 10] unat_hdr_off [OF h, of 12] unat_hdr_off [OF h, of 14]
    by (simp_all add: hdr_ok_def)
  have m: "vworm_mapped ?h s" "vworm_mapped (?h + 12) s" "vworm_mapped (?h + 14) s"
    using hdr_mapped [OF h, of 0] hdr_mapped [OF h, of 12] hdr_mapped [OF h, of 14] by simp_all
  obtain len where len: "vworm_read ?h s = Some len" using m(1) vw.rd_iff_mapped [of ?h s] by auto
  obtain s1 where s1: "(if len \<noteq> f_length f then sub_write_header ?h [f_length f] 2 s else Some s) = Some s1"
    "block_frame s s1" "vworm_read ?h s1 = Some (f_length f)"
    "\<forall>b. even_addr b \<noteq> ?h \<longrightarrow> vworm_read b s1 = vworm_read b s"
    using write_header_1 [OF m(1), of "f_length f"] len eh(1) by (cases "len = f_length f") auto
  have clk: "time_get_utc s1 = (?t, s1\<lparr>rtc_n := Suc (rtc_n s1)\<rparr>)"
    using block_frame_simps(3,4) [OF s1(2)] utc_at_frame [of s1 s "rtc_n s1"]
    by (simp add: time_get_utc_eq)
  let ?s1 = "s1\<lparr>rtc_n := Suc (rtc_n s1)\<rparr>"
  have m1: "vworm_mapped (?h + 12) ?s1" "vworm_mapped (?h + 12 + 2) ?s1"
    using m(2,3) vworm_mapped_frame [OF s1(2)] by (simp_all add: add.assoc)
  obtain s2 where s2: "(if f_flags f AND VL_FLAG_MODDED \<noteq> 0
        then sub_write_header (?h + 12) [lo16 ?t, hi16 ?t] 4 ?s1 else Some ?s1) = Some s2"
    "block_frame ?s1 s2"
    "f_flags f AND VL_FLAG_MODDED \<noteq> 0 \<longrightarrow> vworm_read (?h + 12) s2 = Some (lo16 ?t)
       \<and> vworm_read (?h + 14) s2 = Some (hi16 ?t)"
    "\<forall>b. even_addr b \<noteq> ?h + 12 \<and> even_addr b \<noteq> ?h + 14 \<longrightarrow> vworm_read b s2 = vworm_read b s1"
    using write_header_2 [OF m1, of "lo16 ?t" "hi16 ?t"] eh
    by (cases "f_flags f AND VL_FLAG_MODDED = 0") (auto simp: add.assoc)
  have ne: "?h \<noteq> ?h + 12" "?h \<noteq> ?h + 14" "?h + 10 \<noteq> ?h" "?h + 10 \<noteq> ?h + 12" "?h + 10 \<noteq> ?h + 14"
    by simp_all
  have act: "vworm_read (?h + 10) s2 = Some w"
    using s2(4) s1(4) eh(2) ne a by simp
  have vf: "vlfile s2 = vlfile s" using vl_frame(1) [OF s2(2)] vl_frame(1) [OF s1(2)] by simp
  have va: "vlaction s2 = vlaction s" using vl_frame(2) [OF s2(2)] vl_frame(2) [OF s1(2)] by simp
  have close: "vl_close act (Some fd) s = do {
      (r, u) \<leftarrow> (if lo8 w AND ucast (f_flags f) \<noteq> 0 then sub_action act fd s2 else Some (0, s2));
      f' \<leftarrow> get_file fd u;
      Some (r, put_file fd (closed f') u)
    }" for act
    by (simp only: vl_close_def option.case Option.bind.bind_lunit g len s1(1) clk s2(1) Let_def
        prod.case act closed_def add_0_right)
  have fr: "fsram s2 = fsram s" "fs_size s2 = fs_size s"
    "fsram s \<noteq> Some b \<Longrightarrow> heap s2 b = heap s b" for b
    using block_frame_simps(1,8) [OF s1(2)] block_frame_simps(1,8) [OF s2(2)]
      fs_size_frame [OF s1(2)] fs_size_frame [OF s2(2)] by auto
  have rh: "vworm_read ?h s2 = Some (f_length f)"
    using s2(4) [rule_format, of ?h] s1(3) eh(1) ne(1,2) by simp
  have oth: "vworm_read b s2 = vworm_read b s" if "even_addr b \<notin> {?h, ?h + 12, ?h + 14}" for b
    using s2(4) s1(4) that by simp
  show ?thesis by (intro exI [of _ s2] conjI allI) (use close s2(3) rh oth act fr vf va in simp_all)
qed

lemma vl_close_spec:
  fixes s :: "'a vl_state_scheme"
  assumes g: "get_file fd s = Some f" and h: "hdr_ok s (f_header f)"
    and a: "vworm_read (f_header f + 10) s = Some w" "lo8 w AND ucast (f_flags f) = 0"
  shows "\<exists>s'. vl_close act (Some fd) s = Some (0, s')
    \<and> vworm_read (f_header f) s' = Some (f_length f)
    \<and> (f_flags f AND VL_FLAG_MODDED \<noteq> 0 \<longrightarrow>
         vworm_read (f_header f + 12) s' = Some (lo16 (utc_at s (rtc_n s)))
         \<and> vworm_read (f_header f + 14) s' = Some (hi16 (utc_at s (rtc_n s))))
    \<and> (\<forall>b. even_addr b \<notin> {f_header f, f_header f + 12, f_header f + 14} \<longrightarrow> vworm_read b s' = vworm_read b s)
    \<and> vlfile s' = (vlfile s)[fd := closed f]
    \<and> fsram s' = fsram s \<and> fs_size s' = fs_size s \<and> (\<forall>b. fsram s \<noteq> Some b \<longrightarrow> heap s' b = heap s b)"
proof -
  obtain t where t: "\<forall>act. vl_close act (Some fd) s = do {
        (r, u) \<leftarrow> (if lo8 w AND ucast (f_flags f) \<noteq> 0 then sub_action act fd t else Some (0, t));
        f' \<leftarrow> get_file fd u;
        Some (r, put_file fd (closed f') u)
      }" "vworm_read (f_header f) t = Some (f_length f)"
    "f_flags f AND VL_FLAG_MODDED \<noteq> 0 \<longrightarrow> vworm_read (f_header f + 12) t = Some (lo16 (utc_at s (rtc_n s)))
         \<and> vworm_read (f_header f + 14) t = Some (hi16 (utc_at s (rtc_n s)))"
    "\<forall>b. even_addr b \<notin> {f_header f, f_header f + 12, f_header f + 14} \<longrightarrow> vworm_read b t = vworm_read b s"
    "vlfile t = vlfile s" "fsram t = fsram s" "fs_size t = fs_size s" "\<forall>b. fsram s \<noteq> Some b \<longrightarrow> heap t b = heap s b"
    using vl_close_runs [OF g h a(1)] by blast
  have "get_file fd t = Some f" using t(5) get_fileD [OF g] by (simp add: get_file_def)
  then have "vl_close act (Some fd) s = Some (0, put_file fd (closed f) t)" using t(1) a(2) by simp
  then show ?thesis by (intro exI [of _ "put_file fd (closed f) t"] conjI) (use t in simp_all)
qed


section \<open>Opening\<close>

lemma find_Some_least:
  "find P xs = Some x \<Longrightarrow> P x \<and> (\<exists>i < length xs. xs ! i = x \<and> (\<forall>j < i. \<not> P (xs ! j)))"
  by (auto simp: find_Some_iff)

lemma sub_new_fp_Some:
  assumes "sub_new_fp s = Some fd"
  shows "fd < length (vlfile s)" "f_read (vlfile s ! fd) = None" "\<forall>j < fd. f_read (vlfile s ! j) \<noteq> None"
  using assms by (auto simp: sub_new_fp_def find_Some_iff)

lemma sub_new_fp_None: "sub_new_fp s = None \<longleftrightarrow> (\<forall>fd < length (vlfile s). f_read (vlfile s ! fd) \<noteq> None)"
  by (auto simp: sub_new_fp_def find_None_iff)

text \<open>The slot that a file opens into, when the header at \<open>h\<close> is not mirrored.\<close>

definition opened :: "u16 \<Rightarrow> u16 \<Rightarrow> u16 \<Rightarrow> u16 \<Rightarrow> u16 \<Rightarrow> vlFILE" where
  "opened h len alloc idmod base = \<lparr>f_header = h, f_start = base, f_alloc = alloc, f_idmod = idmod,
     f_length = len, f_flags = VL_FLAG_OPENED, f_read = Some Vworm_fn, f_write = Some Vworm_fn\<rparr>"

lemma vl_open_file_spec:
  assumes "sub_new_fp s = Some fd" and "vworm_read h s = Some len" and "vworm_read (h + 2) s = Some alloc"
    and "vworm_read (h + 4) s = Some idmod" and "vworm_read (h + 6) s = Some base"
    and "vworm_read (h + 8) s = Some NULL_vaddr"
  shows "vl_open_file h s = Some (Some fd, put_file fd (opened h len alloc idmod base) s)"
  using assms by (simp add: vl_open_file_def opened_def)

lemma load_loop_cong:
  "(\<And>i. i < n \<Longrightarrow> (c + of_nat i) AND 1 = 0 \<Longrightarrow> rd (c + of_nat i) = rd' (c + of_nat i)) \<Longrightarrow>
   load_loop rd n c x = load_loop rd' n c x"
proof (induction n arbitrary: c x)
  case 0
  then show ?case by simp
next
  case (Suc n)
  have h: "c AND 1 = 0 \<Longrightarrow> rd c = rd' c" using Suc.prems [of 0] by simp
  have "load_loop rd n (c + 1) y = load_loop rd' n (c + 1) y" for y
  proof (rule Suc.IH)
    fix i assume i: "i < n" "(c + 1 + of_nat i) AND 1 = 0"
    have "c + 1 + of_nat i = c + of_nat (Suc i)" by simp
    then show "rd (c + 1 + of_nat i) = rd' (c + 1 + of_nat i)"
      using Suc.prems [of "Suc i"] i by (simp only:)
  qed
  then show ?case using h by (simp cong: if_cong)
qed

text \<open>The header lies outside the data area of the file.\<close>

definition hdr_apart :: "vlFILE \<Rightarrow> bool" where
  "hdr_apart f \<longleftrightarrow> unat (f_header f) + 16 \<le> unat (f_start f)
     \<or> unat (f_start f) + 2 * ((unat (f_alloc f) + 1) div 2) \<le> unat (f_header f)"

lemma not_in_area:
  assumes "hdr_ok s (f_header f)" and "hdr_apart f" and "even (unat k)" and "unat k < 16"
  shows "\<not> in_area (f_start f) (f_alloc f) (f_header f + k)"
proof -
  have "unat (f_header f + k) = unat (f_header f) + unat k" by (rule unat_hdr_off [OF assms(1,4)])
  then show ?thesis using assms by (auto simp: in_area_def hdr_ok_def hdr_apart_def)
qed

lemma area_half_word:
  assumes "file_ok sz f" and "sz < 65536" and "i < unat (f_alloc f)" and "(f_start f + of_nat i) AND 1 = 0"
  shows "in_area (f_start f) (f_alloc f) (f_start f + of_nat i)"
    and "even_addr (f_start f + of_nat i) = f_start f + of_nat i"
proof -
  have "unat (f_alloc f) \<le> 2 * ((unat (f_alloc f) + 1) div 2)" by linarith
  then have u: "unat (f_start f + of_nat i) = unat (f_start f) + i"
    by (intro unat_off) (use assms in \<open>simp add: file_ok_def\<close>)
  show e: "even_addr (f_start f + of_nat i) = f_start f + of_nat i"
    using assms(4) by (simp add: even_and_1 [symmetric])
  show "in_area (f_start f) (f_alloc f) (f_start f + of_nat i)"
    unfolding in_area_def e u using assms(3) \<open>unat (f_alloc f) \<le> _\<close> by simp
qed

text \<open>Closing writes three words of the header; the others and the data stay.\<close>

lemma hdr_kept:
  assumes h: "hdr_ok s h" and k: "k \<in> {2, 4, 6, 8}"
  shows "even_addr (h + k) \<notin> {h, h + 12, h + 14}"
proof -
  have "unat k < 16 \<and> even (unat k)" using k by auto
  then show ?thesis
    using hdr_off_neq [OF h, of k 0] hdr_off_neq [OF h, of k 12] hdr_off_neq [OF h, of k 14]
      unat_hdr_off [OF h, of 12] unat_hdr_off [OF h, of 14] h k by (auto simp: hdr_ok_def)
qed

lemma load_past_header:
  assumes ok: "file_ok (fs_size s) f" and h: "hdr_ok s (f_header f)" and ap: "hdr_apart f" and n: "n \<le> unat (f_alloc f)"
    and same: "\<And>b. even_addr b \<notin> {f_header f, f_header f + 12, f_header f + 14} \<Longrightarrow> vworm_read b s2 = vworm_read b s1"
  shows "load_loop (\<lambda>a. vworm_read a s2) n (f_start f) None = load_loop (\<lambda>a. vworm_read a s1) n (f_start f) None"
proof (rule load_loop_cong)
  fix i assume i: "i < n" "(f_start f + of_nat i) AND 1 = 0"
  have "fs_size s < 65536" using h by (simp add: hdr_ok_def)
  note ia = area_half_word [OF ok this order_less_le_trans [OF i(1) n] i(2)]
  have "f_start f + of_nat i \<notin> {f_header f, f_header f + 12, f_header f + 14}"
    using ia(1) not_in_area [OF h ap, of 0] not_in_area [OF h ap, of 12] not_in_area [OF h ap, of 14] by auto
  then show "vworm_read (f_start f + of_nat i) s2 = vworm_read (f_start f + of_nat i) s1" using same ia(2) by simp
qed

text \<open>
  C8. Stored data survives: after \<^verbatim>\<open>vl_store\<close> and \<^verbatim>\<open>vl_close\<close>, opening the same header again
  gives a file with the stored length, and \<^verbatim>\<open>vl_load\<close> returns the stored bytes. The file has
  no action condition set, and its header lies outside its data.
\<close>

theorem vl_store_close_reopen:
  fixes s :: "'a vl_state_scheme"
  assumes g: "get_file fd s = Some f" and ok: "file_ok (fs_size s) f" and h: "hdr_ok s (f_header f)"
    and ap: "hdr_apart f"
    and hd: "vworm_read (f_header f + 2) s = Some (f_alloc f)" "vworm_read (f_header f + 4) s = Some idm"
      "vworm_read (f_header f + 6) s = Some (f_start f)" "vworm_read (f_header f + 8) s = Some NULL_vaddr"
      "vworm_read (f_header f + 10) s = Some 0"
    and d: "2 * ((unat (min len (f_alloc f)) + 1) div 2) \<le> length data"
  shows "\<exists>s1 s2 s3 fd'. vl_store fd len data s = Some (0, s1) \<and> vl_close act (Some fd) s1 = Some (0, s2)
    \<and> vl_open_file (f_header f) s2 = Some (Some fd', s3)
    \<and> (\<forall>k. vl_load fd' k s3 = Some (min k (min len (f_alloc f)), take (unat (min k (min len (f_alloc f)))) data))"
proof -
  let ?n = "min len (f_alloc f)" and ?h = "f_header f"
  have sz: "fs_size s < 65536" using h by (simp add: hdr_ok_def)
  obtain s1 where s1: "vl_store fd len data s = Some (0, s1)"
    "block_frame (put_file fd (stored ?n f) s) s1"
    "\<forall>k \<le> unat ?n. load_loop (\<lambda>a. vworm_read a s1) k (f_start f) None = Some (take k data)"
    "\<forall>b. \<not> in_area (f_start f) (f_alloc f) b \<longrightarrow> vworm_read b s1 = vworm_read b s"
    using vl_store_spec [OF g ok sz refl d] by blast
  let ?f = "stored ?n f"
  have g1: "get_file fd s1 = Some ?f"
    using vl_frame(4) [OF s1(2)] get_fileD [OF g] by (simp add: get_put_file)
  have sz1: "fs_size s1 = fs_size s" using fs_size_frame [OF s1(2)] by simp
  have h1: "hdr_ok s1 ?h" using h by (simp add: hdr_ok_def sz1)
  have r1: "vworm_read (?h + k) s1 = vworm_read (?h + k) s" if "even (unat k)" "unat k < 16" for k
    using s1(4) not_in_area [OF h ap that] by simp
  have fh: "f_header ?f = ?h" "f_length ?f = ?n" by (simp_all add: stored_def)
  have a1: "vworm_read (f_header ?f + 10) s1 = Some 0" "lo8 0 AND ucast (f_flags ?f) = 0"
    using r1 [of 10] hd(5) by (simp_all add: fh lo8_def)
  obtain s2 where s2: "vl_close act (Some fd) s1 = Some (0, s2)" "vworm_read ?h s2 = Some ?n"
    "\<forall>b. even_addr b \<notin> {?h, ?h + 12, ?h + 14} \<longrightarrow> vworm_read b s2 = vworm_read b s1"
    "vlfile s2 = (vlfile s1)[fd := closed ?f]" "fs_size s2 = fs_size s1"
    using vl_close_spec [OF g1 h1 [folded fh(1)] a1, of act] unfolding fh by metis
  have r2: "vworm_read (?h + k) s2 = vworm_read (?h + k) s" if "k \<in> {2, 4, 6, 8}" for k
    using s2(3) hdr_kept [OF h that] r1 [of k] that by auto
  have "fd < length (vlfile s1)" using get_fileD [OF g1] by simp
  then have "sub_new_fp s2 \<noteq> None"
    unfolding sub_new_fp_None s2(4) by (auto intro!: exI [of _ fd] simp: closed_def)
  then obtain fd' where fd': "sub_new_fp s2 = Some fd'" by blast
  let ?g = "opened ?h ?n (f_alloc f) idm (f_start f)"
  have op: "vl_open_file ?h s2 = Some (Some fd', put_file fd' ?g s2)"
    by (rule vl_open_file_spec [OF fd' s2(2)]) (use r2 hd in simp_all)
  let ?s3 = "put_file fd' ?g s2"
  have g3: "get_file fd' ?s3 = Some ?g" using sub_new_fp_Some(1) [OF fd'] by (simp add: get_put_file)
  have ok3: "file_ok (fs_size ?s3) ?g" "fs_size ?s3 < 65536" "f_length ?g \<le> f_alloc ?g"
    using ok sz by (simp_all add: s2(5) sz1 file_ok_def opened_def)
  have "vl_load fd' k ?s3 = Some (min k ?n, take (unat (min k ?n)) data)" for k
  proof -
    let ?m = "min k ?n"
    have m: "unat ?m \<le> unat ?n" by (simp only: word_le_nat_alt [symmetric]) (rule min.cobounded2)
    have "?m \<le> f_alloc f" by (rule min.coboundedI2) (rule min.cobounded2)
    then have "unat ?m \<le> unat (f_alloc f)" by (simp add: word_le_nat_alt)
    then have "load_loop (\<lambda>a. vworm_read a ?s3) (unat ?m) (f_start f) None =
        load_loop (\<lambda>a. vworm_read a s1) (unat ?m) (f_start f) None"
      by (rule load_past_header [OF ok h ap]) (use s2(3) in simp)
    also have "\<dots> = Some (take (unat ?m) data)" using s1(3) m by blast
    finally show ?thesis using vl_load_eq [OF g3 ok3, of k] by (simp add: opened_def)
  qed
  then show ?thesis using s1(1) s2(1) op by blast
qed


section \<open>Searching the headers\<close>

text \<open>A header in use with the given ID at \<open>h\<close>.\<close>

definition hdr_match :: "'a core_state_scheme \<Rightarrow> u16 \<Rightarrow> u8 \<Rightarrow> bool" where
  "hdr_match s h ident \<longleftrightarrow> (\<exists>b w. vworm_read (h + 6) s = Some b \<and> b \<noteq> 0 \<and> b \<noteq> 0xFFFF
     \<and> vworm_read (h + 4) s = Some w \<and> lo8 w = ident)"

definition nth_header :: "u16 \<Rightarrow> nat \<Rightarrow> u16" where
  "nth_header h i = h + 16 * of_nat i"

lemma nth_header_Suc: "nth_header (h + 16) i = nth_header h (Suc i)"
  by (simp add: nth_header_def)

lemma header_loop_cases:
  "header_loop n h ident s = Some r \<Longrightarrow>
   (\<exists>i < n. r = nth_header h i \<and> hdr_match s r ident \<and> (\<forall>j < i. \<not> hdr_match s (nth_header h j) ident))
   \<or> r = NULL_vaddr \<and> (\<forall>j < n. \<not> hdr_match s (nth_header h j) ident)"
proof (induction n arbitrary: h)
  case 0
  then show ?case by simp
next
  case (Suc n)
  from Suc.prems obtain b w where r: "vworm_read (h + 6) s = Some b" "vworm_read (h + 4) s = Some w"
    and rest: "(if b \<noteq> 0 \<and> b \<noteq> 0xFFFF \<and> lo8 w = ident then Some h else header_loop n (h + 16) ident s) = Some r"
    by (auto simp: bind_eq_Some_conv)
  have h0: "nth_header h 0 = h" by (simp add: nth_header_def)
  show ?case
  proof (cases "hdr_match s h ident")
    case True
    then have "r = h" using r rest by (auto simp: hdr_match_def)
    then show ?thesis using True h0 by auto
  next
    case False
    then have l: "header_loop n (h + 16) ident s = Some r"
      using r rest by (auto simp: hdr_match_def split: if_splits)
    show ?thesis
      using Suc.IH [OF l] False h0 unfolding nth_header_Suc
      by (metis (no_types, lifting) Suc_less_eq less_Suc_eq_0_disj)
  qed
qed

lemma rd16_quick:
  assumes "fsblock s = Some m" and "even (unat h)" and "unat h + 16 * i + 4 < 65536"
  shows "rd16 m (unat h + 16 * i + 4) = vworm_read (nth_header h i + 4) s"
proof -
  have "nth_header h i + 4 = h + of_nat (16 * i + 4)" by (simp add: nth_header_def)
  also have "unat \<dots> = unat h + (16 * i + 4)" by (rule unat_off) (use assms(3) in simp)
  finally have u: "unat (nth_header h i + 4) = unat h + 16 * i + 4" by simp
  then have "even (unat (nth_header h i + 4))" using assms(2) by simp
  then show ?thesis using assms(1) u by (simp add: vworm_read_eq)
qed

text \<open>
  The header a search is to find: the one at the position of the ID if it has that ID, or else
  the first one in use that has it.
\<close>

definition id_at :: "'a core_state_scheme \<Rightarrow> u16 \<Rightarrow> u8 \<Rightarrow> bool" where
  "id_at s h ident \<longleftrightarrow> (\<exists>w. vworm_read (h + 4) s = Some w \<and> lo8 w = ident)"

definition search_result :: "'a core_state_scheme \<Rightarrow> u16 \<Rightarrow> u8 \<Rightarrow> nat \<Rightarrow> u16" where
  "search_result s h ident n =
     (if unat ident < n \<and> id_at s (nth_header h (unat ident)) ident then nth_header h (unat ident)
      else case find (\<lambda>j. hdr_match s (nth_header h j) ident) [0..<n] of
        None \<Rightarrow> NULL_vaddr | Some j \<Rightarrow> nth_header h j)"

lemma find_upt_eq:
  "i < n \<Longrightarrow> P i \<Longrightarrow> \<forall>j < i. \<not> P j \<Longrightarrow> find P [0..<n] = Some i"
  by (auto simp: find_Some_iff intro!: exI [of _ i])

lemma header_loop_find:
  assumes "header_loop n h ident s = Some r"
  shows "r = (case find (\<lambda>j. hdr_match s (nth_header h j) ident) [0..<n] of
    None \<Rightarrow> NULL_vaddr | Some j \<Rightarrow> nth_header h j)"
  using header_loop_cases [OF assms]
proof (elim disjE exE conjE)
  fix i assume i: "i < n" "r = nth_header h i" "hdr_match s r ident" "\<forall>j < i. \<not> hdr_match s (nth_header h j) ident"
  then have "find (\<lambda>j. hdr_match s (nth_header h j) ident) [0..<n] = Some i"
    by (intro find_upt_eq) simp_all
  then show ?thesis using i(2) by simp
next
  assume n: "r = NULL_vaddr" "\<forall>j < n. \<not> hdr_match s (nth_header h j) ident"
  then have "find (\<lambda>j. hdr_match s (nth_header h j) ident) [0..<n] = None" by (simp add: find_None_iff)
  then show ?thesis using n(1) by simp
qed

lemma header_loop_defined:
  "(\<And>j. j < n \<Longrightarrow> vworm_mapped (nth_header h j + 4) s \<and> vworm_mapped (nth_header h j + 6) s) \<Longrightarrow>
   \<exists>r. header_loop n h ident s = Some r"
proof (induction n arbitrary: h)
  case 0
  then show ?case by simp
next
  case (Suc n)
  have "vworm_mapped (h + 4) s" "vworm_mapped (h + 6) s"
    using Suc.prems [of 0] by (simp_all add: nth_header_def)
  then obtain w b where "vworm_read (h + 4) s = Some w" "vworm_read (h + 6) s = Some b"
    using vw.rd_iff_mapped [of "h + 4" s] vw.rd_iff_mapped [of "h + 6" s] by auto
  moreover have "\<exists>r. header_loop n (h + 16) ident s = Some r"
    by (rule Suc.IH) (use Suc.prems in \<open>simp add: nth_header_Suc\<close>)
  ultimately show ?case by simp
qed

lemma header_search_spec:
  assumes e: "even (unat h)" and b: "unat h + 16 * nat (sint num) \<le> fs_size s" "fs_size s < 65536"
  shows "sub_header_search h ident num s = Some (search_result s h ident (nat (sint num)))"
proof -
  let ?n = "nat (sint num)"
  have mp: "vworm_mapped (nth_header h j + 4) s \<and> vworm_mapped (nth_header h j + 6) s" if "j < ?n" for j
  proof -
    have n4: "nth_header h j + 4 = h + of_nat (16 * j + 4)" "nth_header h j + 6 = h + of_nat (16 * j + 6)"
      by (simp_all add: nth_header_def)
    have u: "unat (nth_header h j + 4) = unat h + (16 * j + 4)" "unat (nth_header h j + 6) = unat h + (16 * j + 6)"
      unfolding n4 by (rule unat_off, use that b in simp)+
    then have "even (unat (nth_header h j + 4))" "even (unat (nth_header h j + 6))" using e by simp_all
    then show ?thesis using u that b by (simp add: vworm_mapped_iff)
  qed
  obtain r where r: "header_loop ?n h ident s = Some r" using header_loop_defined [of ?n h s ident] mp by blast
  have lt: "uint ident < sint num \<longleftrightarrow> unat ident < ?n" by (simp add: zless_nat_eq_int_zless)
  have at: "h + ucast ident * 16 = nth_header h (unat ident)"
    by (simp add: nth_header_def mult.commute unsigned_of_nat)
  show ?thesis
  proof (cases "unat ident < ?n")
    case True
    then have "fs_size s \<noteq> 0" using b by linarith
    then obtain m where m: "fsblock s = Some m" by (auto simp: fs_size_def split: option.splits)
    have "rd16 m (unat h + 16 * unat ident + 4) = vworm_read (nth_header h (unat ident) + 4) s"
      by (rule rd16_quick [OF m e]) (use True b in simp)
    moreover obtain w where "vworm_read (nth_header h (unat ident) + 4) s = Some w"
      using mp [OF True] vw.rd_iff_mapped [of "nth_header h (unat ident) + 4" s] by auto
    ultimately show ?thesis
      using True m r header_loop_find [OF r]
      by (simp add: sub_header_search_def lt at search_result_def id_at_def)
  next
    case False
    then show ?thesis using r header_loop_find [OF r] by (simp add: sub_header_search_def lt search_result_def)
  qed
qed

text \<open>
  C31. The header search, for a header array inside the block, ends and gives what the
  specification \<open>search_result\<close> says: the header at the position of the ID if it has that ID,
  in use or not, or else the first header with that ID among those in use, whose base is neither
  0 nor 0xFFFF, or NULL when there is none. In particular no header in use with the ID is missed.
\<close>

theorem sub_header_search_correct:
  assumes "even (unat h)" and "unat h + 16 * nat (sint num) \<le> fs_size s" and "fs_size s < 65536"
  shows "sub_header_search h ident num s = Some (search_result s h ident (nat (sint num)))
    \<and> (search_result s h ident (nat (sint num)) = NULL_vaddr \<longrightarrow>
        (\<forall>j < nat (sint num). \<not> hdr_match s (nth_header h j) ident))"
proof (intro conjI impI allI notI)
  show "sub_header_search h ident num s = Some (search_result s h ident (nat (sint num)))"
    by (rule header_search_spec [OF assms])
next
  fix j assume z: "search_result s h ident (nat (sint num)) = NULL_vaddr" and j: "j < nat (sint num)"
    "hdr_match s (nth_header h j) ident"
  have ne: "nth_header h i \<noteq> NULL_vaddr" if "i < nat (sint num)" for i
  proof -
    have "nth_header h i = h + of_nat (16 * i)" by (simp add: nth_header_def)
    also have "unat \<dots> = unat h + 16 * i" by (rule unat_off) (use assms(2,3) that in simp)
    finally have "even (unat (nth_header h i))" using assms(1) by simp
    then show ?thesis by (auto simp: NULL_vaddr_def)
  qed
  have "find (\<lambda>j. hdr_match s (nth_header h j) ident) [0..<nat (sint num)] = None"
    using z ne by (auto simp: search_result_def find_Some_iff split: if_splits option.splits)
  then show False using j by (simp add: find_None_iff)
qed


section \<open>The default filesystem, opened and read\<close>

text \<open>
  A selected block that holds the default filesystem: the headers and stock data that
  \<open>vworm_init\<close> leaves (\<open>vworm_init_loads_defaults\<close>).
\<close>

definition default_ready :: "bytes \<Rightarrow> 'a core_state_scheme \<Rightarrow> bool" where
  "default_ready build_id s \<longleftrightarrow> (\<exists>img. fsblock s = Some img \<and> length img = 1280
     \<and> fsheader_at img 0 = Some default_fsheader
     \<and> (\<forall>i < 2. header_at img (32 + 16 * i) = Some (gfb_header i))
     \<and> (\<forall>i < 25. header_at img (64 + 16 * i) = Some (isf_header (isf_files ! i)))
     \<and> (\<forall>f. take (ISF_ALLOC f) (drop (ISF_BASE f) img) = isf_stock build_id f))"

lemma vworm_init_ready:
  assumes "rodata_ok build_id ro" and "length build_id = 9" and "heap s b = Some m" and "length m = 1280"
  shows "\<exists>s'. vworm_init ro (Some b) (Some default_fsheader) s = Some (0, s') \<and> default_ready build_id s'
    \<and> fsram s' = Some b"
  using vworm_init_default [OF assms(1,3,4)] assms
  by (auto simp: default_ready_def fsblock_def length_default_image default_image_headers
      default_image_stock default_image_fsheader)

lemma header_at_reads:
  assumes "header_at m a = Some h"
  shows "rd16 m a = Some (hd_length h)" "rd16 m (a + 2) = Some (hd_alloc h)"
    "rd16 m (a + 4) = Some (hd_idmod h)" "rd16 m (a + 6) = Some (hd_base h)"
    "rd16 m (a + 8) = Some (hd_mirror h)" "rd16 m (a + 10) = Some (hd_actioncode h)"
  using assms by (auto simp: header_at_def bind_eq_Some_conv)

lemma vworm_read_lit:
  assumes "fsblock s = Some m" and "even n" and "n < 65536"
  shows "vworm_read (of_nat n) s = rd16 m n"
proof -
  have "unat (of_nat n :: u16) = n" using assms(3) by (simp add: unat_of_nat take_bit_nat_eq_self)
  then show ?thesis using assms(1,2) by (simp add: vworm_read_eq)
qed

lemma default_block_fields:
  assumes "fsheader_at img 0 = Some default_fsheader"
  shows "rd16 img 10 = Some 2" "rd16 img 16 = Some 0" "rd16 img 22 = Some 23"
  using assms
  by (auto simp: fsheader_at_def blk_at_def bind_eq_Some_conv default_fsheader_def fs_config_defs)

lemma rd_seq_image:
  "fsblock s = Some m \<Longrightarrow> even a \<Longrightarrow> a + 2 * k \<le> length m \<Longrightarrow> length m < 65536 \<Longrightarrow>
   rd_seq vworm_read (of_nat a) k s = Some (halfwords (take (2 * k) (drop a m)))"
proof (induction k arbitrary: a)
  case 0
  then show ?case by simp
next
  case (Suc k)
  have "vworm_read (of_nat a) s = Some (join16 (m ! a) (m ! (a + 1)))"
    using vworm_read_lit [OF Suc.prems(1,2)] Suc.prems(3,4) by (simp add: rd16_def)
  moreover have "rd_seq vworm_read (of_nat a + 2) k s = Some (halfwords (take (2 * k) (drop (a + 2) m)))"
    using Suc.IH [of "a + 2"] Suc.prems by (simp add: add.commute)
  moreover have "take (2 * Suc k) (drop a m) = m ! a # m ! (a + 1) # take (2 * k) (drop (a + 2) m)"
  proof -
    have "drop a m = m ! a # m ! (a + 1) # drop (a + 2) m"
      using Suc.prems(3) Cons_nth_drop_Suc [of a m] Cons_nth_drop_Suc [of "Suc a" m] by simp
    then show ?thesis by simp
  qed
  ultimately show ?case by simp
qed

lemma load_image:
  assumes "fsblock s = Some m" and "even a" and "a + 2 * ((n + 1) div 2) \<le> length m" and "length m < 65536"
  shows "load_loop (\<lambda>a. vworm_read a s) n (of_nat a) None = Some (take n (drop a m))"
proof -
  let ?k = "(n + 1) div 2" and ?d = "take (2 * ((n + 1) div 2)) (drop a m)"
  have "unat (of_nat a :: u16) = a" using assms(3,4) by (simp add: unat_of_nat take_bit_nat_eq_self)
  then have e: "(of_nat a :: u16) AND 1 = 0" using assms(2) even_and_1 [of "of_nat a"] by simp
  have "load_loop (\<lambda>a. vworm_read a s) n (of_nat a) None = Some (take n (hw_bytes (halfwords ?d)))"
    by (rule vw.load_loop_rd_seq [OF e rd_seq_image [OF assms]])
  also have "hw_bytes (halfwords ?d) = ?d"
    using assms(3) by (simp add: hw_bytes_halfwords)
  also have "take n ?d = take n (drop a m)" by (simp add: min_def)
  finally show ?thesis .
qed

lemma ISF_ID_index: "i < 23 \<Longrightarrow> ISF_ID (isf_files ! i) = of_nat i"
proof -
  have "\<forall>i \<in> set [0..<23]. ISF_ID (isf_files ! i) = of_nat i"
    by (simp add: isf_files_def upt_conv_Cons)
  then show "i < 23 \<Longrightarrow> ISF_ID (isf_files ! i) = of_nat i" by simp
qed

lemma isf_search_default:
  assumes "default_ready build_id s" and "i < 23"
  shows "sub_isf_search (ISF_ID (isf_files ! i)) s = Some (of_nat (64 + 16 * i))"
proof -
  from assms(1) obtain img where img: "fsblock s = Some img" "fsheader_at img 0 = Some default_fsheader"
    "\<forall>i < 25. header_at img (64 + 16 * i) = Some (isf_header (isf_files ! i))"
    by (auto simp: default_ready_def)
  note f = default_block_fields [OF img(2)]
  have u: "unat (of_nat i :: u8) = i" using assms(2) by (simp add: unat_of_nat take_bit_nat_eq_self)
  then have lt: "uint (of_nat i :: u8) < sint (23 :: u16)" using assms(2) by (simp add: uint_nat)
  have "rd16 img (64 + 16 * i + 4) = Some (hd_idmod (isf_header (isf_files ! i)))"
    by (rule header_at_reads(3)) (use img(3) assms(2) in simp)
  then have r: "rd16 img (64 + 16 * i + 4) = Some (join16 (of_nat i) (ISF_MOD (isf_files ! i)))"
    by (simp add: isf_header_def ISF_ID_index [OF assms(2)])
  have "unat (of_nat i :: u16) = i" using assms(2) by (simp add: unat_of_nat take_bit_nat_eq_self)
  then have c: "ucast (of_nat i :: u8) = (of_nat i :: u16)" by (simp only: word_unat_eq_iff unat_u8_u16 u)
  show ?thesis
    using lt r img(1) f u
    by (simp add: sub_isf_search_def sub_header_search_def ISF_ID_index [OF assms(2)] GFB_Header_START_def
        OVERHEAD_START_VADDR_def c mult.commute)
qed


lemma isf_base_bounds:
  "even (ISF_BASE f)" "768 \<le> ISF_BASE f" "ISF_BASE f + ISF_ALLOC f \<le> 1280" "even (ISF_ALLOC f)"
  "unat (ISF_LEN f) \<le> ISF_ALLOC f"
proof -
  have "even (sum_list (map ISF_ALLOC xs))" for xs
    by (induction xs) (auto simp: ISF_ALLOC_def push_bit_eq_mult)
  then show "even (ISF_BASE f)" by (simp add: ISF_BASE_def fs_config_defs)
  show "768 \<le> ISF_BASE f" by (simp add: ISF_BASE_def fs_config_defs)
  show "ISF_BASE f + ISF_ALLOC f \<le> 1280"
    using prefix_sum_total [OF isf_files_UNIV, of ISF_ALLOC f]
      ISF_STOCK_BYTES_eq [unfolded ISF_STOCK_BYTES_def]
    by (simp add: ISF_BASE_def fs_config_defs)
  show "even (ISF_ALLOC f)" by (simp add: ISF_ALLOC_def push_bit_eq_mult)
  show "unat (ISF_LEN f) \<le> ISF_ALLOC f" by (cases f) (simp_all add: ISF_ALLOC_eq fs_config_defs)
qed

text \<open>The slot an indexed file of the default filesystem opens into.\<close>

definition isf_opened :: "nat \<Rightarrow> vlFILE" where
  "isf_opened i = (let f = isf_files ! i in
     opened (of_nat (64 + 16 * i)) (ucast (ISF_LEN f)) (of_nat (ISF_ALLOC f))
       (join16 (ISF_ID f) (ISF_MOD f)) (of_nat (ISF_BASE f)))"

lemma isf_header_words:
  assumes "default_ready build_id s" and "i < 25"
  shows "vworm_read (of_nat (64 + 16 * i)) s = Some (ucast (ISF_LEN (isf_files ! i)))"
    and "vworm_read (of_nat (64 + 16 * i) + 2) s = Some (of_nat (ISF_ALLOC (isf_files ! i)))"
    and "vworm_read (of_nat (64 + 16 * i) + 4) s = Some (join16 (ISF_ID (isf_files ! i)) (ISF_MOD (isf_files ! i)))"
    and "vworm_read (of_nat (64 + 16 * i) + 6) s = Some (of_nat (ISF_BASE (isf_files ! i)))"
    and "vworm_read (of_nat (64 + 16 * i) + 8) s = Some NULL_vaddr"
    and "vworm_read (of_nat (64 + 16 * i) + 10) s = Some 0"
    and "(of_nat (64 + 16 * i) :: u16) \<noteq> NULL_vaddr"
    and "hdr_ok s (of_nat (64 + 16 * i))"
proof -
  let ?f = "isf_files ! i" and ?h = "64 + 16 * i"
  from assms(1) obtain img where img: "fsblock s = Some img" "length img = 1280"
    "\<forall>i < 25. header_at img (64 + 16 * i) = Some (isf_header (isf_files ! i))"
    by (auto simp: default_ready_def)
  have "header_at img ?h = Some (isf_header ?f)" using img(3) assms(2) by simp
  note r = header_at_reads [OF this]
  have rd: "vworm_read (of_nat (?h + k)) s = rd16 img (?h + k)" if "even k" "k < 16" for k
    by (rule vworm_read_lit [OF img(1)]) (use that assms(2) in auto)
  have e: "(of_nat ?h + 2 :: u16) = of_nat (?h + 2)" "(of_nat ?h + 4 :: u16) = of_nat (?h + 4)"
    "(of_nat ?h + 6 :: u16) = of_nat (?h + 6)" "(of_nat ?h + 8 :: u16) = of_nat (?h + 8)"
    "(of_nat ?h + 10 :: u16) = of_nat (?h + 10)"
    by simp_all
  have len: "join16 (ISF_LEN ?f) 0 = ucast (ISF_LEN ?f)" by (simp add: join16_def)
  show "vworm_read (of_nat ?h) s = Some (ucast (ISF_LEN ?f))"
    "vworm_read (of_nat ?h + 2) s = Some (of_nat (ISF_ALLOC ?f))"
    "vworm_read (of_nat ?h + 4) s = Some (join16 (ISF_ID ?f) (ISF_MOD ?f))"
    "vworm_read (of_nat ?h + 6) s = Some (of_nat (ISF_BASE ?f))"
    "vworm_read (of_nat ?h + 8) s = Some NULL_vaddr"
    "vworm_read (of_nat ?h + 10) s = Some 0"
    unfolding e using rd [of 0] rd [of 2] rd [of 4] rd [of 6] rd [of 8] rd [of 10] r
    by (simp_all add: isf_header_def len ISF_MIRROR_eq del: of_nat_add of_nat_mult)
  have u: "unat (of_nat ?h :: u16) = ?h" by (rule unat_of_nat_u16) (use assms(2) in simp)
  show "(of_nat ?h :: u16) \<noteq> NULL_vaddr"
    using u assms(2) by (auto simp: NULL_vaddr_def simp del: of_nat_add of_nat_mult)
  show "hdr_ok s (of_nat ?h)"
    unfolding hdr_ok_def u using assms(2) img(1,2) by (simp add: fs_size_def)
qed

lemma isf_file_default:
  assumes "default_ready build_id s" and "i < 23" and "sub_new_fp s = Some fd"
  shows "vl_open_file (of_nat (64 + 16 * i)) s = Some (Some fd, put_file fd (isf_opened i) s)"
proof -
  have i: "i < 25" using assms(2) by simp
  show ?thesis
    unfolding isf_opened_def Let_def
    by (rule vl_open_file_spec [OF assms(3) isf_header_words(1-5) [OF assms(1) i]])
qed

lemma isf_open_default:
  assumes "default_ready build_id s" and "i < 23" and "sub_new_fp s = Some fd"
  shows "ISF_open_su (ISF_ID (isf_files ! i)) s = Some (Some fd, put_file fd (isf_opened i) s)"
proof -
  have "i < 25" using assms(2) by simp
  from isf_header_words(7) [OF assms(1) this] isf_file_default [OF assms] isf_search_default [OF assms(1,2)]
  show ?thesis by (simp add: ISF_open_su_def vl_open_def vl_getheader_vaddr_def vl_consts)
qed

lemma isf_open_fields:
  assumes "default_ready build_id s" and "i < 23" and "sub_new_fp s = Some fd"
  shows "get_file fd (put_file fd (isf_opened i) s) = Some (isf_opened i)" "fs_size s = 1280"
    and "file_ok (fs_size s) (isf_opened i)" "f_length (isf_opened i) \<le> f_alloc (isf_opened i)"
proof -
  let ?f = "isf_files ! i"
  note b = isf_base_bounds [of ?f]
  show "get_file fd (put_file fd (isf_opened i) s) = Some (isf_opened i)"
    using sub_new_fp_Some(1) [OF assms(3)] by (simp add: get_put_file)
  show sz: "fs_size s = 1280" using assms(1) by (auto simp: default_ready_def fs_size_def)
  have u: "unat (of_nat (ISF_BASE ?f) :: u16) = ISF_BASE ?f" "unat (of_nat (ISF_ALLOC ?f) :: u16) = ISF_ALLOC ?f"
    using b by (simp_all add: unat_of_nat take_bit_nat_eq_self)
  show "file_ok (fs_size s) (isf_opened i)" "f_length (isf_opened i) \<le> f_alloc (isf_opened i)"
    using b u by (simp_all add: sz file_ok_def isf_opened_def opened_def Let_def word_le_nat_alt)
qed

lemma isf_load_default:
  assumes "default_ready build_id s" and "i < 23" and "sub_new_fp s = Some fd"
  shows "vl_load fd k (put_file fd (isf_opened i) s) = Some (min k (ucast (ISF_LEN (isf_files ! i))),
     take (unat (min k (ucast (ISF_LEN (isf_files ! i))))) (isf_stock build_id (isf_files ! i)))"
proof -
  let ?f = "isf_files ! i" and ?s = "put_file fd (isf_opened i) s"
  let ?n = "min k (ucast (ISF_LEN ?f) :: u16)"
  note b = isf_base_bounds [of ?f]
  note o = isf_open_fields [OF assms]
  from assms(1) obtain img where img: "fsblock s = Some img" "length img = 1280"
    "take (ISF_ALLOC ?f) (drop (ISF_BASE ?f) img) = isf_stock build_id ?f"
    by (auto simp: default_ready_def)
  have "?n \<le> ucast (ISF_LEN ?f)" by (rule min.cobounded2)
  then have n: "unat ?n \<le> ISF_ALLOC ?f" using b(5) by (simp add: word_le_nat_alt)
  have "2 * ((unat ?n + 1) div 2) \<le> ISF_ALLOC ?f" using n b(4) by presburger
  then have "load_loop (\<lambda>a. vworm_read a ?s) (unat ?n) (of_nat (ISF_BASE ?f)) None
      = Some (take (unat ?n) (drop (ISF_BASE ?f) img))"
    by (intro load_image) (use img(1,2) b(1,3) in auto)
  also have "take (unat ?n) (drop (ISF_BASE ?f) img) = take (unat ?n) (isf_stock build_id ?f)"
    using img(3) n by (metis min.absorb1 take_take)
  finally show ?thesis
    using vl_load_eq [OF o(1) _ _ o(4), of k] o(2,3) by (simp add: isf_opened_def opened_def Let_def)
qed

text \<open>
  On a block with the default filesystem and a free slot, each of the first 23 indexed
  files opens, with the length and allocation of the table, and loading it returns its
  stock data up to that length.
\<close>

theorem default_isf_opens:
  assumes "default_ready build_id s" and "length build_id = 9" and "i < 23" and "sub_new_fp s = Some fd"
  shows "\<exists>s'. ISF_open_su (ISF_ID (isf_files ! i)) s = Some (Some fd, s')
    \<and> vl_checkalloc fd s' = Some (of_nat (ISF_ALLOC (isf_files ! i)))
    \<and> (\<forall>k. vl_load fd k s' = Some (min k (ucast (ISF_LEN (isf_files ! i))),
             take (unat (min k (ucast (ISF_LEN (isf_files ! i))))) (isf_stock build_id (isf_files ! i))))"
proof -
  let ?s = "put_file fd (isf_opened i) s"
  have "vl_checkalloc fd ?s = Some (of_nat (ISF_ALLOC (isf_files ! i)))"
    using isf_open_fields(1) [OF assms(1,3,4)]
    by (simp add: vl_checkalloc_def isf_opened_def opened_def Let_def)
  then show ?thesis using isf_open_default [OF assms(1,3,4)] isf_load_default [OF assms(1,3,4)] by blast
qed


text \<open>The default filesystem in a group of one, after \<^verbatim>\<open>vl_init\<close>.\<close>

definition demo_fs :: vl_state where
  "demo_fs = snd (vl_init (demo_vl\<lparr>heap := [5 \<mapsto> default_image demo_rodata (replicate 1280 0)]\<rparr>))"

lemma demo_fs_ready: "default_ready (replicate 9 0x41) demo_fs"
proof -
  have "fsblock demo_fs = Some (default_image demo_rodata (replicate 1280 0))"
    by (simp add: demo_fs_def fsblock_def vl_init_def demo_vl_simps)
  then show ?thesis
    using demo_rodata_ok
    by (simp add: default_ready_def length_default_image default_image_headers
        default_image_stock default_image_fsheader)
qed

lemma demo_fs_free: "sub_new_fp demo_fs = Some 0"
  by (simp add: demo_fs_def vl_init_def sub_new_fp_def VLFPS_def zero_file_def upt_conv_Cons)

theorem default_isf_opens_witness:
  "\<exists>s'. ISF_open_su 0x0E demo_fs = Some (Some 0, s') \<and> vl_checkalloc 0 s' = Some 22
    \<and> vl_load 0 8 s' = Some (8, [0, 56, 0, 2, 0xA3, 0, 0, 0x11])"
  using default_isf_opens [OF demo_fs_ready _ _ demo_fs_free, of 14]
  by (auto simp: isf_files_def min_def ISF_ALLOC_eq split_defs lo8_def hi8_def lo16_def hi16_def)

lemma isf_search_missing:
  assumes "default_ready build_id s" and "23 \<le> unat ident"
  shows "sub_isf_search ident s = Some NULL_vaddr"
proof -
  from assms(1) obtain img where img: "fsblock s = Some img" "length img = 1280"
    "fsheader_at img 0 = Some default_fsheader"
    by (auto simp: default_ready_def)
  note fb = default_block_fields [OF img(3)]
  have hd: "nth_header 64 j = of_nat (64 + 16 * j)" for j
    by (simp add: nth_header_def)
  have rd4: "vworm_read (nth_header 64 j + 4) s = Some (join16 (of_nat j) (ISF_MOD (isf_files ! j)))"
    and rd6: "vworm_read (nth_header 64 j + 6) s = Some (of_nat (ISF_BASE (isf_files ! j)))" if "j < 23" for j
  proof -
    have j: "j < 25" using that by simp
    show "vworm_read (nth_header 64 j + 4) s = Some (join16 (of_nat j) (ISF_MOD (isf_files ! j)))"
      unfolding hd isf_header_words(3) [OF assms(1) j] ISF_ID_index [OF that] ..
    show "vworm_read (nth_header 64 j + 6) s = Some (of_nat (ISF_BASE (isf_files ! j)))"
      unfolding hd by (rule isf_header_words(4) [OF assms(1) j])
  qed
  have mp: "vworm_mapped (nth_header 64 j + 4) s \<and> vworm_mapped (nth_header 64 j + 6) s" if "j < 23" for j
    using rd4 [OF that] rd6 [OF that] vw.rd_iff_mapped by blast
  obtain r where r: "header_loop 23 64 ident s = Some r"
    using header_loop_defined [of 23 64 s ident] mp by blast
  have "\<not> hdr_match s (nth_header 64 j) ident" if "j < 23" for j
  proof -
    have "unat (of_nat j :: u8) = j" using that by (simp add: unat_of_nat take_bit_nat_eq_self)
    then have "(of_nat j :: u8) \<noteq> ident" using that assms(2) by (metis not_le)
    then show ?thesis using rd4 [OF that] by (simp add: hdr_match_def)
  qed
  then have "r = NULL_vaddr" using header_loop_cases [OF r] by auto
  moreover have "\<not> uint ident < sint (23 :: u16)"
  proof -
    have "uint ident = int (unat ident)" by (rule uint_nat)
    moreover have "sint (23 :: u16) = 23" by simp
    ultimately show ?thesis using assms(2) by linarith
  qed
  ultimately show ?thesis
    using r fb img(1)
    by (simp add: sub_isf_search_def sub_header_search_def GFB_Header_START_def OVERHEAD_START_VADDR_def)
qed

text \<open>
  The last two indexed files of the table, user data and application extension, cannot
  be opened in the default filesystem: the header counts 23 files where the table has 25.
\<close>

theorem default_isf_missing:
  assumes "default_ready build_id s" and "f = User_data \<or> f = Application_extension"
  shows "ISF_open_su (ISF_ID f) s = Some (None, s)"
proof -
  have "23 \<le> unat (ISF_ID f)" using assms(2) by auto
  from isf_search_missing [OF assms(1) this] show ?thesis
    by (simp add: ISF_open_su_def vl_open_def vl_getheader_vaddr_def vl_consts)
qed

theorem default_isf_missing_witness: "ISF_open_su 0xFF demo_fs = Some (None, demo_fs)"
  using default_isf_missing [OF demo_fs_ready, of Application_extension] by simp


section \<open>Access with an identity\<close>

lemma vl_getheader_vaddr_cases:
  assumes "vl_getheader_vaddr h0 blk ident md u s = Some (rc, h, s')" and "rc = 0"
  shows "(if blk = VL_GFB_BLOCKID then sub_gfb_search ident s else sub_isf_search ident s) = Some h
    \<and> h \<noteq> NULL_vaddr
    \<and> (u = Id_NULL \<and> s' = s \<or> u \<noteq> Id_NULL \<and> (\<exists>w m. vworm_read (h + 4) s = Some w
          \<and> auth_check (hi8 w) md u s = Some (m, s') \<and> m \<noteq> 0))"
  using assms
  by (auto simp: vl_getheader_vaddr_def bind_eq_Some_conv split: if_splits)

definition access_granted :: "'a auth_state_scheme \<Rightarrow> u8 \<Rightarrow> u8 \<Rightarrow> id_ref \<Rightarrow> bool" where
  "access_granted s filemod md u \<longleftrightarrow>
     (filemod AND md) AND 7 \<noteq> 0
     \<or> req_class filemod \<noteq> 0 \<and> (local_grants u (req_class filemod)
         \<or> (\<exists>j n. table_grants s n u (req_class filemod) j))"

lemma auth_check_access:
  "auth_check filemod md u s = Some (m, s') \<Longrightarrow> m \<noteq> 0 \<Longrightarrow> access_granted s filemod md u"
  using auth_check_grants [of filemod md u s m s'] by (auto simp: access_granted_def)

lemma vl_open_file_inv:
  assumes "vl_open_file h s = Some (Some fd, s')"
  shows "sub_new_fp s = Some fd \<and> (\<exists>f. s' = put_file fd f s \<and> f_header f = h \<and> f_flags f = VL_FLAG_OPENED
    \<and> vworm_read (h + 4) s = Some (f_idmod f) \<and> f_read f \<noteq> None)"
proof -
  have fp: "sub_new_fp s = Some fd"
    using assms by (auto simp: vl_open_file_def bind_eq_Some_conv split: option.splits if_splits)
  then obtain alloc idmod start where r: "vworm_read (h + 2) s = Some alloc"
    "vworm_read (h + 4) s = Some idmod" "vworm_read (h + 8) s = Some start"
    using assms by (auto simp: vl_open_file_def bind_eq_Some_conv)
  show ?thesis
  proof (cases "start = NULL_vaddr")
    case True
    with r fp assms obtain len base where
      "s' = put_file fd (opened h len alloc idmod base) s"
      by (auto simp: vl_open_file_def opened_def bind_eq_Some_conv)
    then show ?thesis using fp r by (auto intro!: exI [of _ "opened h len alloc idmod base"] simp: opened_def)
  next
    case False
    with r fp assms obtain len where
      "s' = put_file fd \<lparr>f_header = h, f_start = start + 2, f_alloc = alloc, f_idmod = idmod,
         f_length = len, f_flags = VL_FLAG_OPENED, f_read = Some Vsram_fn, f_write = Some Vsram_fn\<rparr> s"
      by (auto simp: vl_open_file_def bind_eq_Some_conv)
    then show ?thesis
      using fp r by (intro conjI exI [of _ "\<lparr>f_header = h, f_start = start + 2, f_alloc = alloc,
         f_idmod = idmod, f_length = len, f_flags = VL_FLAG_OPENED, f_read = Some Vsram_fn,
         f_write = Some Vsram_fn\<rparr>"]) simp_all
  qed
qed

text \<open>
  C9. A file opened with an identity has been authorised: the mode byte of its header gives
  the requested access to guests, or the identity is local with sufficient class, or a live
  key of the table carries it with sufficient privilege; the slot that is returned was free.
\<close>

theorem vl_open_authorised:
  assumes "vl_open blk ident md u s = Some (Some fd, s')" and "u \<noteq> Id_NULL"
  shows "\<exists>h w. h \<noteq> NULL_vaddr \<and> vworm_read (h + 4) s = Some w \<and> access_granted s (hi8 w) md u
    \<and> (\<exists>f. get_file fd s' = Some f \<and> f_header f = h \<and> f_idmod f = w \<and> f_flags f = VL_FLAG_OPENED)
    \<and> sub_new_fp s = Some fd"
proof -
  from assms(1) obtain h s1 where 1: "vl_getheader_vaddr NULL_vaddr blk ident md u s = Some (0, h, s1)"
    and 2: "vl_open_file h s1 = Some (Some fd, s')"
    by (auto simp: vl_open_def bind_eq_Some_conv split: if_splits)
  from vl_getheader_vaddr_cases [OF 1 refl] assms(2) obtain w m where h: "h \<noteq> NULL_vaddr"
    "vworm_read (h + 4) s = Some w" "auth_check (hi8 w) md u s = Some (m, s1)" "m \<noteq> 0" by auto
  have fr: "search_frame s s1"
    using h(3) by (cases rule: auth_check_cases) (auto dest: auth_search_user_correct(1))
  then have same: "vworm_read a s1 = vworm_read a s" "vlfile s1 = vlfile s" for a
    by (auto simp: search_frame_def vworm_read_eq fsblock_def)
  from vl_open_file_inv [OF 2] have fp: "sub_new_fp s1 = Some fd" by blast
  from vl_open_file_inv [OF 2] obtain f where f: "s' = put_file fd f s1" "f_header f = h"
    "vworm_read (h + 4) s1 = Some (f_idmod f)" "f_flags f = VL_FLAG_OPENED" by blast
  then have "get_file fd s' = Some f"
    using sub_new_fp_Some(1) [OF fp] by (simp add: get_put_file)
  moreover have "sub_new_fp s = Some fd" using fp by (simp add: sub_new_fp_def same(2))
  ultimately show ?thesis
    using h f same(1) auth_check_access [OF h(3,4)] by auto
qed

text \<open>
  There are three slots: opening takes the lowest free one, and when all are in use
  nothing is opened and nothing changes.
\<close>

theorem vl_open_file_slots:
  assumes "vl_open_file h s = Some (r, s')"
  shows "case r of
      None \<Rightarrow> s' = s \<and> (\<forall>fd < length (vlfile s). f_read (vlfile s ! fd) \<noteq> None)
    | Some fd \<Rightarrow> fd < length (vlfile s) \<and> f_read (vlfile s ! fd) = None
        \<and> (\<forall>j < fd. f_read (vlfile s ! j) \<noteq> None) \<and> f_read (vlfile s' ! fd) \<noteq> None
        \<and> (\<forall>j. j \<noteq> fd \<longrightarrow> vlfile s' ! j = vlfile s ! j) \<and> heap s' = heap s"
proof (cases r)
  case None
  then have "sub_new_fp s = None" "s' = s"
    using assms by (auto simp: vl_open_file_def bind_eq_Some_conv split: option.splits if_splits)
  then show ?thesis using None sub_new_fp_None [of s] by simp
next
  case (Some fd)
  have fp: "sub_new_fp s = Some fd" using vl_open_file_inv assms Some by blast
  obtain f where "s' = put_file fd f s" "f_read f \<noteq> None"
    using vl_open_file_inv assms Some by blast
  then show ?thesis using Some sub_new_fp_Some [OF fp] by simp
qed

text \<open>The file of the user key, ID 0x0F, whose header is at 304.\<close>

abbreviation demo_open :: vl_state where
  "demo_open \<equiv> put_file 0 (isf_opened 15) demo_fs"

lemma demo_open_file: "vl_open_file 304 demo_fs = Some (Some 0, demo_open)"
proof -
  have "ISF_open_su (ISF_ID (isf_files ! 15)) demo_fs = Some (Some 0, demo_open)"
    by (rule isf_open_default [OF demo_fs_ready _ demo_fs_free]) simp
  moreover have "sub_isf_search (ISF_ID (isf_files ! 15)) demo_fs = Some 304"
    using isf_search_default [OF demo_fs_ready, of 15] by simp
  ultimately show ?thesis
    by (simp add: ISF_open_su_def vl_open_def vl_getheader_vaddr_def vl_consts NULL_vaddr_def)
qed

lemma demo_open_reads:
  "vworm_read 306 demo_fs = Some 22" "vworm_read 308 demo_fs = Some 0x200F"
  "vworm_read 310 demo_fs = Some 928" "vworm_read 312 demo_fs = Some NULL_vaddr"
  "vworm_read 314 demo_fs = Some 0" "fs_size demo_fs = 1280"
proof -
  obtain img where img: "fsblock demo_fs = Some img" "length img = 1280"
    "\<forall>i < 25. header_at img (64 + 16 * i) = Some (isf_header (isf_files ! i))"
    using demo_fs_ready by (auto simp: default_ready_def)
  have "header_at img (64 + 16 * 15) = Some (isf_header (isf_files ! 15))"
    by (rule img(3) [rule_format]) simp
  note r = header_at_reads [OF this]
  show "vworm_read 306 demo_fs = Some 22" "vworm_read 308 demo_fs = Some 0x200F"
    "vworm_read 310 demo_fs = Some 928" "vworm_read 312 demo_fs = Some NULL_vaddr"
    "vworm_read 314 demo_fs = Some 0"
    using r vworm_read_lit [OF img(1), of 306] vworm_read_lit [OF img(1), of 308]
      vworm_read_lit [OF img(1), of 310] vworm_read_lit [OF img(1), of 312] vworm_read_lit [OF img(1), of 314]
    by (simp_all add: isf_header_def isf_files_def ISF_ALLOC_eq ISF_MIRROR_eq join16_def ISF_BASE_def
        fs_config_defs NULL_vaddr_def)
  show "fs_size demo_fs = 1280" using img(1,2) by (simp add: fs_size_def)
qed

lemma demo_open_slot:
  "get_file 0 demo_open = Some (isf_opened 15)"
  "f_header (isf_opened 15) = 304" "f_length (isf_opened 15) = 22" "f_alloc (isf_opened 15) = 22"
  "f_start (isf_opened 15) = 928" "f_read (isf_opened 15) = Some Vworm_fn" "f_write (isf_opened 15) = Some Vworm_fn"
  "f_idmod (isf_opened 15) = 0x200F"
  using sub_new_fp_Some(1) [OF demo_fs_free]
  by (simp_all add: get_put_file isf_opened_def opened_def isf_files_def Let_def ISF_ALLOC_eq ISF_BASE_def
      fs_config_defs join16_def)

lemma demo_open_ok: "hdr_ok demo_open (f_header (isf_opened 15))" "file_ok (fs_size demo_open) (isf_opened 15)"
  "hdr_apart (isf_opened 15)"
  by (simp_all add: hdr_ok_def file_ok_def hdr_apart_def demo_open_slot demo_open_reads)

theorem vl_open_file_slots_witness:
  "\<exists>s'. vl_open_file 304 demo_fs = Some (Some 0, s') \<and> f_read (vlfile s' ! 0) \<noteq> None"
  using vl_open_file_slots [OF demo_open_file] demo_open_file
  by (intro exI [of _ demo_open]) (simp add: demo_open_slot)

theorem vl_store_close_reopen_witness:
  "\<exists>s1 s2 s3 fd'. vl_store 0 3 [1, 2, 3, 4] demo_open = Some (0, s1)
    \<and> vl_close (\<lambda>_ _ s. Some (0, s)) (Some 0) s1 = Some (0, s2)
    \<and> vl_open_file 304 s2 = Some (Some fd', s3) \<and> vl_load fd' 22 s3 = Some (3, [1, 2, 3])"
proof -
  have "2 * ((unat (min 3 (f_alloc (isf_opened 15))) + 1) div 2) \<le> length ([1, 2, 3, 4] :: bytes)"
    by (simp add: demo_open_slot min_def)
  from vl_store_close_reopen [OF demo_open_slot(1) demo_open_ok(2,1,3) _ _ _ _ _ this,
      where idm = "0x200F" and act = "\<lambda>_ _ s. Some (0, s)"]
  obtain s1 s2 s3 fd' where s: "vl_store 0 3 [1, 2, 3, 4] demo_open = Some (0, s1)"
    "vl_close (\<lambda>_ _ s. Some (0, s)) (Some 0) s1 = Some (0, s2)"
    "vl_open_file 304 s2 = Some (Some fd', s3)"
    and l: "\<forall>k. vl_load fd' k s3 = Some (min k (min 3 22), take (unat (min k (min 3 22))) [1, 2, 3, 4])"
    by (auto simp: demo_open_slot demo_open_reads)
  have "vl_load fd' 22 s3 = Some (3, [1, 2, 3])"
    using l [rule_format, of 22] by (simp add: min_def)
  with s show ?thesis by blast
qed

theorem sub_header_search_correct_witness:
  "sub_header_search 64 0x0F 23 demo_fs = Some 304 \<and> sub_header_search 64 0x30 23 demo_fs = Some NULL_vaddr"
proof -
  have sz: "fs_size demo_fs = 1280" using demo_fs_ready by (auto simp: default_ready_def fs_size_def)
  have fs: "sub_header_search 64 i 23 demo_fs = Some (search_result demo_fs 64 i 23)" for i
    using sub_header_search_correct [of 64 23 demo_fs i] by (simp add: sz)
  obtain img where img: "fsblock demo_fs = Some img" "fsheader_at img 0 = Some default_fsheader"
    using demo_fs_ready by (auto simp: default_ready_def)
  have isf: "sub_isf_search i demo_fs = sub_header_search 64 i 23 demo_fs" for i
    using default_block_fields [OF img(2)] img(1)
    by (simp add: sub_isf_search_def GFB_Header_START_def OVERHEAD_START_VADDR_def)
  have "search_result demo_fs 64 0x0F 23 = 304" "search_result demo_fs 64 0x30 23 = NULL_vaddr"
    using isf_search_default [OF demo_fs_ready, of 15] isf_search_missing [OF demo_fs_ready, of "0x30"]
    by (simp_all add: isf fs isf_files_def)
  then show ?thesis by (simp add: fs)
qed

lemma demo_fs_auth: "dlls_size demo_fs = 2" "dlls_info demo_fs = dlls_info demo_auth"
  by (simp_all add: demo_fs_def vl_init_def demo_vl_def core_state.extend_def demo_core_def
      auth_state.extend_def demo_auth_def)

theorem vl_open_authorised_witness:
  "\<exists>s'. vl_open VL_ISF_BLOCKID 0x0F VL_ACCESS_R Auth_user demo_fs = Some (Some 0, s')
     \<and> access_granted demo_fs 0x20 VL_ACCESS_R Auth_user"
proof -
  have s: "sub_isf_search 0x0F demo_fs = Some 304"
    using isf_search_default [OF demo_fs_ready, of 15] by (simp add: isf_files_def)
  have h: "hi8 0x200F = 0x20" by (simp add: hi8_def)
  have "auth_check 0x20 VL_ACCESS_R Auth_user demo_fs = Some (0x20, demo_fs)"
    by (simp add: auth_check_def auth_search_user_def VL_ACCESS_R_def authmod_defs Let_def demo_fs_auth
        demo_auth_def)
  then have o: "vl_open VL_ISF_BLOCKID 0x0F VL_ACCESS_R Auth_user demo_fs = Some (Some 0, demo_open)"
    using s h demo_open_reads(2) demo_open_file
    by (simp add: vl_open_def vl_getheader_vaddr_def vl_consts NULL_vaddr_def)
  have "Auth_user \<noteq> Id_NULL" by simp
  from vl_open_authorised [OF o this] obtain f where f: "get_file 0 demo_open = Some f"
    "access_granted demo_fs (hi8 (f_idmod f)) VL_ACCESS_R Auth_user"
    by blast
  then have "f = isf_opened 15" using demo_open_slot(1) by simp
  then show ?thesis using f(2) o demo_open_slot(8) h by auto
qed

section \<open>Closing twice, and the slots of actions\<close>

text \<open>
  Closing a file a second time writes the length 0 into its header: the close kills the
  length of the slot but keeps its header address.
\<close>

theorem vl_close_twice:
  fixes s :: "'a vl_state_scheme"
  assumes "get_file fd s = Some f" and "hdr_ok s (f_header f)"
    and "vworm_read (f_header f + 10) s = Some 0"
  shows "\<exists>s1 s2. vl_close act (Some fd) s = Some (0, s1) \<and> vl_close act (Some fd) s1 = Some (0, s2)
    \<and> vworm_read (f_header f) s1 = Some (f_length f) \<and> vworm_read (f_header f) s2 = Some 0"
proof -
  let ?h = "f_header f"
  have z: "lo8 0 AND x = 0" for x by (simp add: lo8_def)
  obtain s1 where s1: "vl_close act (Some fd) s = Some (0, s1)" "vworm_read ?h s1 = Some (f_length f)"
    "\<forall>b. even_addr b \<notin> {?h, ?h + 12, ?h + 14} \<longrightarrow> vworm_read b s1 = vworm_read b s"
    "vlfile s1 = (vlfile s)[fd := closed f]" "fs_size s1 = fs_size s"
    using vl_close_spec [OF assms z, of act] by metis
  have g1: "get_file fd s1 = Some (closed f)"
    using get_fileD [OF assms(1)] by (simp add: get_file_def s1(4))
  have h1: "hdr_ok s1 (f_header (closed f))" using assms(2) by (simp add: hdr_ok_def s1(5) closed_def)
  have u: "unat (?h + 10) = unat ?h + 10" using unat_hdr_off [OF assms(2), of 10] by simp
  have "even_addr (?h + 10) \<notin> {?h, ?h + 12, ?h + 14}"
    using assms(2) u by (simp add: hdr_ok_def)
  then have "vworm_read (f_header (closed f) + 10) s1 = Some 0"
    using s1(3) assms(3) by (simp add: closed_def)
  from vl_close_spec [OF g1 h1 this z, of act] obtain s2 where
    "vl_close act (Some fd) s1 = Some (0, s2)" "vworm_read ?h s2 = Some 0"
    by (auto simp: closed_def)
  then show ?thesis using s1(1,2) by blast
qed

theorem vl_close_twice_witness:
  "\<exists>s1 s2. vl_close (\<lambda>_ _ s. Some (0, s)) (Some 0) demo_open = Some (0, s1)
    \<and> vl_close (\<lambda>_ _ s. Some (0, s)) (Some 0) s1 = Some (0, s2)
    \<and> vworm_read 304 s1 = Some 22 \<and> vworm_read 304 s2 = Some 0"
  using vl_close_twice [OF demo_open_slot(1) demo_open_ok(1), of "\<lambda>_ _ s. Some (0, s)"]
  by (simp add: demo_open_slot demo_open_reads)

section \<open>Files that are only read\<close>

lemma put_file_put_file [simp]: "put_file fd f (put_file fd g s) = put_file fd f s"
  by (simp add: put_file_def)

lemma vl_close_clean:
  assumes "get_file fd s = Some f" and "f_flags f = VL_FLAG_OPENED"
    and "vworm_read (f_header f) s = Some (f_length f)" and "vworm_read (f_header f + 10) s = Some 0"
  shows "vl_close act (Some fd) s = Some (0, put_file fd (closed f) (s\<lparr>rtc_n := Suc (rtc_n s)\<rparr>))"
  using assms
  by (simp add: vl_close_def time_get_utc_eq vl_consts lo8_def closed_def get_file_def put_file_def split: if_splits)

lemma sub_new_fp_again:
  assumes "sub_new_fp s = Some fd" and "f_read f = None"
  shows "sub_new_fp (put_file fd f s) = Some fd"
proof -
  note fp = sub_new_fp_Some [OF assms(1)]
  show ?thesis unfolding sub_new_fp_def
    using fp assms(2) by (auto simp: find_Some_iff put_file_def nth_list_update intro!: exI [of _ fd])
qed

lemma default_ready_fsblock: "fsblock s' = fsblock s \<Longrightarrow> default_ready build_id s' = default_ready build_id s"
  by (simp add: default_ready_def)

text \<open>A file of the default filesystem: its half-words, and what closing it unchanged leaves.\<close>

lemma vl_read_default:
  assumes "default_ready build_id s" and "i < 23" and "sub_new_fp s = Some fd"
    and "even k" and "k + 2 \<le> ISF_ALLOC (isf_files ! i)"
  shows "vl_read fd (of_nat k) (put_file fd (isf_opened i) s)
    = Some (join16 (isf_stock build_id (isf_files ! i) ! k) (isf_stock build_id (isf_files ! i) ! (k + 1)))"
proof -
  let ?f = "isf_files ! i"
  note b = isf_base_bounds [of ?f]
  from assms(1) obtain img where img: "fsblock s = Some img" "length img = 1280"
    "take (ISF_ALLOC ?f) (drop (ISF_BASE ?f) img) = isf_stock build_id ?f"
    by (auto simp: default_ready_def)
  have nth: "isf_stock build_id ?f ! j = img ! (ISF_BASE ?f + j)" if "j < ISF_ALLOC ?f" for j
    using that b(3) img(2) unfolding img(3) [symmetric] by simp
  have "even (k + ISF_BASE ?f)" "k + ISF_BASE ?f + 2 \<le> 1280" using assms(4,5) b(1,3) by simp_all
  then have "vworm_read (of_nat (k + ISF_BASE ?f)) s = Some (join16 (img ! (k + ISF_BASE ?f)) (img ! (k + ISF_BASE ?f + 1)))"
    using vworm_read_lit [OF img(1), of "k + ISF_BASE ?f"] img(2) by (simp add: rd16_def)
  then show ?thesis
    using isf_open_fields(1) [OF assms(1-3)] nth [of k] nth [of "k + 1"] assms(5)
    by (simp add: vl_read_def isf_opened_def opened_def Let_def add.commute)
qed

lemma isf_close_default:
  assumes "default_ready build_id s" and "i < 23" and "sub_new_fp s = Some fd"
  shows "vl_close act (Some fd) (put_file fd (isf_opened i) s)
    = Some (0, put_file fd (closed (isf_opened i)) (s\<lparr>rtc_n := Suc (rtc_n s)\<rparr>))"
proof -
  let ?s = "put_file fd (isf_opened i) s"
  have i: "i < 25" using assms(2) by simp
  have "vl_close act (Some fd) ?s = Some (0, put_file fd (closed (isf_opened i)) (?s\<lparr>rtc_n := Suc (rtc_n ?s)\<rparr>))"
    by (rule vl_close_clean [OF isf_open_fields(1) [OF assms]])
      (use isf_header_words(1,6) [OF assms(1) i] in \<open>simp_all add: isf_opened_def opened_def Let_def\<close>)
  then show ?thesis by (simp add: put_file_def)
qed

definition isf_closed :: "nat \<Rightarrow> nat \<Rightarrow> 'a vl_state_scheme \<Rightarrow> 'a vl_state_scheme" where
  "isf_closed fd i s = put_file fd (closed (isf_opened i)) (s\<lparr>rtc_n := Suc (rtc_n s)\<rparr>)"

lemma isf_closed_ready:
  assumes "default_ready build_id s" and "sub_new_fp s = Some fd"
  shows "default_ready build_id (isf_closed fd i s)" and "sub_new_fp (isf_closed fd i s) = Some fd"
proof -
  show "default_ready build_id (isf_closed fd i s)"
    using assms(1) by (simp add: default_ready_def isf_closed_def fsblock_def put_file_def)
  show "sub_new_fp (isf_closed fd i s) = Some fd"
    unfolding isf_closed_def by (rule sub_new_fp_again) (use assms(2) in \<open>simp_all add: sub_new_fp_def closed_def\<close>)
qed

end
