(* ===== verification/Auth_Init.thy ===== *)
theory Auth_Init
  imports Veelite_Files
begin

text \<open>
  \<^verbatim>\<open>auth_init\<close> of \<^verbatim>\<open>otlib/auth.c\<close>, which loads the root and user keys from their files, and
  the random numbers of \<^verbatim>\<open>platform/posix_c/otlib_rand.c\<close> it seeds the nonce with.
\<close>

section \<open>Random numbers\<close>

text \<open>\<^verbatim>\<open>rand()\<close> gives the next answer of the source.\<close>

definition next_rand :: "'a auth_state_scheme \<Rightarrow> u32 \<times> 'a auth_state_scheme" where
  "next_rand s = (rand_src s (rand_n s), s\<lparr>rand_n := Suc (rand_n s)\<rparr>)"

definition rand_prn32 :: "'a auth_state_scheme \<Rightarrow> u32 \<times> 'a auth_state_scheme" where
  "rand_prn32 s = next_rand s"

definition rand_prn8 :: "'a auth_state_scheme \<Rightarrow> u8 \<times> 'a auth_state_scheme" where
  "rand_prn8 s = (let (r, s) = next_rand s in (ucast (r AND 255), s))"

text \<open>The cast in \<^verbatim>\<open>rand_prn16\<close> is to 8 bits.\<close>

definition rand_prn16 :: "'a auth_state_scheme \<Rightarrow> u16 \<times> 'a auth_state_scheme" where
  "rand_prn16 s = (let (r, s) = next_rand s in (ucast (ucast (r AND 65535) :: u8), s))"

text \<open>\<^verbatim>\<open>rand_stream\<close> into the bytes at \<^verbatim>\<open>rand_out\<close>: \<open>n\<close> passes from the offset \<open>i\<close> on.\<close>

fun rand_stream_loop ::
  "nat \<Rightarrow> nat \<Rightarrow> bytes \<Rightarrow> 'a auth_state_scheme \<Rightarrow> (bytes \<times> 'a auth_state_scheme) option" where
  "rand_stream_loop 0 i out s = Some (out, s)"
| "rand_stream_loop (Suc n) i out s =
     (if i < length out then
        let (r, s) = rand_prn8 s in rand_stream_loop n (Suc i) (out[i := r]) s
      else None)"

definition rand_stream :: "bytes \<Rightarrow> int \<Rightarrow> 'a auth_state_scheme \<Rightarrow> (bytes \<times> 'a auth_state_scheme) option"
  where
  "rand_stream out bytes_out s = rand_stream_loop (nat bytes_out) 0 out s"

section \<open>Loading the keys\<close>

text \<open>
  One pass of the loop. \<open>kfile\<close> is the content of the local \<^verbatim>\<open>keyfile_t\<close>: two bytes of \<^verbatim>\<open>ctl\<close>,
  four of \<^verbatim>\<open>EOL\<close>, sixteen of key. It is not initialised, and a file shorter than 22 bytes leaves
  the rest of it as it was, so its first content is an argument.
\<close>

definition auth_init_step ::
  "(bytes \<Rightarrow> bytes) \<Rightarrow> 'a action_fn \<Rightarrow> nat \<Rightarrow> bytes \<Rightarrow> 'a vl_state_scheme \<Rightarrow>
   (bytes \<times> 'a vl_state_scheme) option" where
  "auth_init_step expand act i kfile s = do {
     (fp, s) \<leftarrow> ISF_open_su (of_nat i + ISF_ID Root_authentication_key) s;
     case fp of
       None \<Rightarrow> Some (kfile, s)
     | Some fd \<Rightarrow> do {
         (_, bs) \<leftarrow> vl_load fd (2 + 4 + 16) s;
         kfile \<leftarrow> wr_bytes kfile 0 bs;
         eol \<leftarrow> rd32 kfile 2;
         key \<leftarrow> rd_bytes kfile 6 16;
         if i < length (dlls_info s) \<and> i < length (dlls_ctx s) then do {
           let s = s\<lparr>dlls_info := (dlls_info s)[i := \<lparr>ai_id = of_nat i,
                       ai_mflags = ucast (if i = 0 then AUTHMOD_root else AUTHMOD_user), ai_EOL = eol\<rparr>],
                     dlls_ctx := (dlls_ctx s)[i := expand key]\<rparr>;
           (_, s) \<leftarrow> vl_close act (Some fd) s;
           Some (kfile, s)
         } else None
       }
   }"

definition auth_init ::
  "(bytes \<Rightarrow> bytes) \<Rightarrow> 'a action_fn \<Rightarrow> bytes \<Rightarrow> 'a vl_state_scheme \<Rightarrow> 'a vl_state_scheme option" where
  "auth_init expand act kfile s = do {
     let s = (if dlls_size s < 2 then
                let s = s\<lparr>dlls_size := 2\<rparr>; (r, s) = rand_prn32 s in s\<lparr>dlls_nonce := r\<rparr>
              else s);
     (kfile, s) \<leftarrow> auth_init_step expand act 0 kfile s;
     (kfile, s) \<leftarrow> auth_init_step expand act 1 kfile s;
     Some s
   }"

section \<open>The keys of the default filesystem\<close>

text \<open>The 22 bytes of a stock key file, as \<^verbatim>\<open>auth_init\<close> takes them apart.\<close>

lemma key_file_fields:
  assumes "i < 2" and "length kfile = 22"
  shows "length (isf_stock b (isf_files ! (14 + i))) = 22"
    and "wr_bytes kfile 0 (isf_stock b (isf_files ! (14 + i))) = Some (isf_stock b (isf_files ! (14 + i)))"
    and "rd32 (isf_stock b (isf_files ! (14 + i))) 2 = Some 0x00A30200"
    and "rd_bytes (isf_stock b (isf_files ! (14 + i))) 6 16 = Some (drop 6 (isf_stock b (isf_files ! (14 + i))))"
proof -
  have i: "i = 0 \<or> i = 1" using assms(1) by auto
  then show l: "length (isf_stock b (isf_files ! (14 + i))) = 22"
    by (auto simp: isf_files_def split_defs)
  then show "wr_bytes kfile 0 (isf_stock b (isf_files ! (14 + i))) = Some (isf_stock b (isf_files ! (14 + i)))"
    using assms(2) by (simp add: wr_bytes_def)
  show "rd32 (isf_stock b (isf_files ! (14 + i))) 2 = Some 0x00A30200"
    using i by (auto simp: isf_files_def split_defs rd32_def rd16_def join16_def join32_def lo8_def hi8_def
        lo16_def hi16_def)
  show "rd_bytes (isf_stock b (isf_files ! (14 + i))) 6 16 = Some (drop 6 (isf_stock b (isf_files ! (14 + i))))"
    using l by (simp add: rd_bytes_def)
qed

definition key_entry :: "nat \<Rightarrow> authinfo" where
  "key_entry i = \<lparr>ai_id = of_nat i, ai_mflags = ucast (if i = 0 then AUTHMOD_root else AUTHMOD_user),
     ai_EOL = 0x00A30200\<rparr>"

definition stock_key :: "bytes \<Rightarrow> nat \<Rightarrow> bytes" where
  "stock_key build_id i = drop 6 (isf_stock build_id (isf_files ! (14 + i)))"

text \<open>One pass of the loop on the default filesystem.\<close>

definition key_loaded :: "(bytes \<Rightarrow> bytes) \<Rightarrow> bytes \<Rightarrow> nat \<Rightarrow> nat \<Rightarrow> 'a vl_state_scheme \<Rightarrow> 'a vl_state_scheme" where
  "key_loaded expand build_id fd i s = put_file fd (closed (isf_opened (14 + i)))
     (s\<lparr>dlls_info := (dlls_info s)[i := key_entry i],
        dlls_ctx := (dlls_ctx s)[i := expand (stock_key build_id i)], rtc_n := Suc (rtc_n s)\<rparr>)"

lemma vworm_read_auth [simp]:
  "vworm_read a (s\<lparr>dlls_info := x\<rparr>) = vworm_read a s" "vworm_read a (s\<lparr>dlls_ctx := y\<rparr>) = vworm_read a s"
  "vworm_read a (s\<lparr>dlls_size := z\<rparr>) = vworm_read a s" "vworm_read a (s\<lparr>dlls_nonce := w\<rparr>) = vworm_read a s"
  "vworm_read a (s\<lparr>rand_n := n\<rparr>) = vworm_read a s"
  by (simp_all add: vworm_read_def fsblock_def)

lemma auth_init_step_default:
  assumes "default_ready build_id s" and "sub_new_fp s = Some fd" and "i < 2" and "length kfile = 22"
    and "auth_wf s"
  shows "\<exists>kf. auth_init_step expand act i kfile s = Some (kf, key_loaded expand build_id fd i s) \<and> length kf = 22"
proof -
  let ?f = "isf_opened (14 + i)" and ?st = "isf_stock build_id (isf_files ! (14 + i))"
  let ?s1 = "put_file fd ?f s"
  let ?s2 = "?s1\<lparr>dlls_info := (dlls_info s)[i := key_entry i],
     dlls_ctx := (dlls_ctx s)[i := expand (stock_key build_id i)]\<rparr>"
  have i23: "14 + i < 23" and i25: "14 + i < 25" using assms(3) by simp_all
  have idm: "of_nat i + ISF_ID Root_authentication_key = ISF_ID (isf_files ! (14 + i))"
    "ISF_LEN (isf_files ! (14 + i)) = 22"
    using assms(3) by (auto simp: isf_files_def less_2_cases_iff)
  have o: "ISF_open_su (of_nat i + ISF_ID Root_authentication_key) s = Some (Some fd, ?s1)"
    unfolding idm(1) by (rule isf_open_default [OF assms(1) i23 assms(2)])
  note kf = key_file_fields [OF assms(3,4), of build_id]
  have ld: "vl_load fd 22 ?s1 = Some (22, ?st)"
    using isf_load_default [OF assms(1) i23 assms(2), of 22] idm(2) kf(1) by simp
  have g: "get_file fd ?s2 = Some ?f"
    using isf_open_fields(1) [OF assms(1) i23 assms(2)]
    by (simp add: get_file_def put_file_def split: if_splits)
  have "vl_close act (Some fd) ?s2 = Some (0, put_file fd (closed ?f) (?s2\<lparr>rtc_n := Suc (rtc_n ?s2)\<rparr>))"
    by (rule vl_close_clean [OF g])
      (use isf_header_words(1,6) [OF assms(1) i25] in \<open>simp_all add: isf_opened_def opened_def Let_def\<close>)
  then have cl: "vl_close act (Some fd) ?s2 = Some (0, key_loaded expand build_id fd i s)"
    by (simp add: key_loaded_def put_file_def)
  have "i < length (dlls_info s)" "i < length (dlls_ctx s)"
    using assms(3,5) by (simp_all add: auth_wf_def AUTH_NUM_ELEMENTS_def)
  then have "auth_init_step expand act i kfile s = Some (?st, key_loaded expand build_id fd i s)"
    using o ld kf(2-4) cl by (simp add: auth_init_step_def key_entry_def stock_key_def put_file_def Let_def)
  then show ?thesis using kf(1) by blast
qed

lemma key_loaded_ready:
  assumes "default_ready build_id s" and "sub_new_fp s = Some fd" and "auth_wf s"
  shows "default_ready build_id (key_loaded expand build_id fd i s)"
    and "sub_new_fp (key_loaded expand build_id fd i s) = Some fd"
    and "auth_wf (key_loaded expand build_id fd i s)"
proof -
  show "default_ready build_id (key_loaded expand build_id fd i s)"
    using assms(1) by (simp add: default_ready_def key_loaded_def fsblock_def put_file_def)
  show "sub_new_fp (key_loaded expand build_id fd i s) = Some fd"
    unfolding key_loaded_def by (rule sub_new_fp_again) (use assms(2) in \<open>simp_all add: sub_new_fp_def closed_def\<close>)
  show "auth_wf (key_loaded expand build_id fd i s)"
    using assms(3) by (simp add: auth_wf_def key_loaded_def put_file_def)
qed

text \<open>The table after the first call of \<^verbatim>\<open>auth_init\<close>, which seeds the nonce.\<close>

definition auth_started :: "'a auth_state_scheme \<Rightarrow> 'a auth_state_scheme" where
  "auth_started s = (if dlls_size s < 2
     then s\<lparr>dlls_size := 2, rand_n := Suc (rand_n s), dlls_nonce := rand_src s (rand_n s)\<rparr> else s)"

lemma auth_started_ready:
  assumes "auth_wf s"
  shows "auth_wf (auth_started s)"
  using assms by (simp add: auth_started_def auth_wf_def AUTH_NUM_ELEMENTS_def)

lemma auth_init_default_spec:
  fixes s :: "'a vl_state_scheme"
  assumes "default_ready build_id s" and "sub_new_fp s = Some fd" and "length kfile = 22" and "auth_wf s"
  shows "auth_init expand act kfile s
    = Some (key_loaded expand build_id fd 1 (key_loaded expand build_id fd 0 (auth_started s)))"
proof -
  let ?s0 = "auth_started s"
  have s0: "default_ready build_id ?s0" "sub_new_fp ?s0 = Some fd" "auth_wf ?s0"
    using assms(1,2) auth_started_ready [OF assms(4)]
    by (auto simp: auth_started_def default_ready_def fsblock_def sub_new_fp_def)
  have z: "(0::nat) < 2" "(1::nat) < 2" by simp_all
  obtain k1 where k1: "auth_init_step expand act 0 kfile ?s0 = Some (k1, key_loaded expand build_id fd 0 ?s0)"
    "length k1 = 22"
    using auth_init_step_default [OF s0(1,2) z(1) assms(3) s0(3)] by blast
  obtain k2 where k2: "auth_init_step expand act 1 k1 (key_loaded expand build_id fd 0 ?s0)
      = Some (k2, key_loaded expand build_id fd 1 (key_loaded expand build_id fd 0 ?s0))"
    using auth_init_step_default [OF key_loaded_ready(1,2) [OF s0] z(2) k1(2) key_loaded_ready(3) [OF s0]] by blast
  have "(if dlls_size s < 2 then let s = s\<lparr>dlls_size := 2\<rparr>; (r, s) = rand_prn32 s in s\<lparr>dlls_nonce := r\<rparr> else s) = ?s0"
    by (simp add: auth_started_def rand_prn32_def next_rand_def)
  then show ?thesis using k1(1) k2 by (simp add: auth_init_def)
qed

text \<open>
  C29. On the default filesystem \<^verbatim>\<open>auth_init\<close> loads the two local keys: entry 0 is root with the
  stock root key, entry 1 the user with the stock user key, the keys of other users are kept,
  the filesystem is not changed and the file slot is free again. The end of life is stored in
  network order in the file and is read as a little-endian number.
\<close>

theorem auth_init_loads_keys:
  fixes s :: "'a vl_state_scheme"
  assumes "default_ready build_id s" and "sub_new_fp s = Some fd" and "length kfile = 22" and "auth_wf s"
  shows "\<exists>s'. auth_init expand act kfile s = Some s'
    \<and> dlls_info s' = \<lparr>ai_id = 0, ai_mflags = 0x38, ai_EOL = 0x00A30200\<rparr>
        # \<lparr>ai_id = 1, ai_mflags = 0x07, ai_EOL = 0x00A30200\<rparr> # drop 2 (dlls_info s)
    \<and> dlls_ctx s' = expand (map (\<lambda>i. 0x11 * of_nat i) [0..<16]) # expand (map of_nat [0..<16]) # drop 2 (dlls_ctx s)
    \<and> dlls_size s' = max 2 (dlls_size s) \<and> auth_wf s' \<and> fsblock s' = fsblock s \<and> sub_new_fp s' = Some fd"
proof -
  let ?s' = "key_loaded expand build_id fd 1 (key_loaded expand build_id fd 0 (auth_started s))"
  have k: "stock_key build_id 0 = map (\<lambda>i. 0x11 * of_nat i) [0..<16]" "stock_key build_id 1 = map of_nat [0..<16]"
    by (simp_all add: stock_key_def isf_files_def split_defs upt_conv_Cons)
  have two: "xs[0 := a, Suc 0 := b] = a # b # drop 2 xs" if "length xs = 3" for xs :: "'x list" and a b
    using that by (cases xs; cases "tl xs") (auto simp: numeral_2_eq_2)
  have s0: "default_ready build_id (auth_started s)" "sub_new_fp (auth_started s) = Some fd" "auth_wf (auth_started s)"
    using assms(1,2) auth_started_ready [OF assms(4)]
    by (auto simp: auth_started_def default_ready_def fsblock_def sub_new_fp_def)
  note r1 = key_loaded_ready [OF s0, of expand 0]
  have l: "length (dlls_info s) = 3" "length (dlls_ctx s) = 3"
    using assms(4) by (simp_all add: auth_wf_def AUTH_NUM_ELEMENTS_def)
  have "dlls_info ?s' = key_entry 0 # key_entry 1 # drop 2 (dlls_info s)"
    "dlls_ctx ?s' = expand (stock_key build_id 0) # expand (stock_key build_id 1) # drop 2 (dlls_ctx s)"
    "dlls_size ?s' = max 2 (dlls_size s)" "fsblock ?s' = fsblock s"
    by (simp_all add: key_loaded_def put_file_def auth_started_def fsblock_def two [OF l(1)] two [OF l(2)])
  then show ?thesis
    using auth_init_default_spec [OF assms] key_loaded_ready(2,3) [OF r1, of expand 1] k
    by (simp add: key_entry_def authmod_defs)
qed

theorem auth_init_loads_keys_witness:
  "\<exists>s'. auth_init (take 2) (\<lambda>_ _ s. None) (replicate 22 0) demo_fs = Some s'
     \<and> dlls_ctx s' = [[0x00, 0x11], [0, 1], [0]] \<and> dlls_size s' = 2"
proof -
  have wf: "auth_wf demo_fs" "dlls_ctx demo_fs = [[0], [0], [0]]" "dlls_size demo_fs = 2"
    by (simp_all add: auth_wf_def demo_fs_def vl_init_def demo_vl_def core_state.extend_def demo_core_def
        auth_state.extend_def demo_auth_def AUTH_NUM_ELEMENTS_def)
  from auth_init_loads_keys [OF demo_fs_ready demo_fs_free _ wf(1), of "replicate 22 0" "take 2" "\<lambda>_ _ s. None"]
  show ?thesis by (auto simp: wf(2,3) upt_conv_Cons)
qed

end
