(* ===== verification/Multifs.thy ===== *)
theory Multifs
  imports Auth_Init
begin

text \<open>
  The group of filesystems, \<^verbatim>\<open>otlib/veelite_multifs.c\<close>: a table from 8-byte identities to the
  base pointers of the blocks, kept in a Judy array.

  The Judy library is not code of the repository. Its functions are the fields of the record
  \<open>judy\<close>, an argument of the operations; \<open>judy_laws\<close> is what its documentation promises and the
  code relies on. A table handle is a number, a cell pointer too; the value 0 of a cell is the
  NULL pointer, and the block \<open>b\<close> is stored as the number \<open>b\<close>, so that block 0 is never used.
\<close>

section \<open>The Judy interface\<close>

record 'j judy =
  judy_open :: "nat \<Rightarrow> nat \<Rightarrow> 'j option"
  judy_cell :: "bytes \<Rightarrow> u8 \<Rightarrow> 'j \<Rightarrow> 'j \<times> nat option"
  judy_slot :: "bytes \<Rightarrow> u8 \<Rightarrow> 'j \<Rightarrow> 'j \<times> nat option"
  judy_del :: "'j \<Rightarrow> 'j"
  judy_strt :: "bytes \<Rightarrow> u8 \<Rightarrow> 'j \<Rightarrow> 'j \<times> nat option"
  judy_nxt :: "'j \<Rightarrow> 'j \<times> nat option"
  judy_key :: "nat \<Rightarrow> 'j \<Rightarrow> bytes"
  cell_val :: "'j \<Rightarrow> nat \<Rightarrow> nat"
  cell_put :: "nat \<Rightarrow> nat \<Rightarrow> 'j \<Rightarrow> 'j"

text \<open>A key word of the library, \<^verbatim>\<open>JUDY_key_size\<close>, has 8 bytes on a 64-bit machine.\<close>

definition JUDYKEYS_PER_UID :: nat where "JUDYKEYS_PER_UID = (8 + 8 - 1) div 8"

record 'j mf_state = vl_state +
  mf_tabs :: "nat \<Rightarrow> 'j option"
  mf_next :: nat
  fstab :: "nat option"

definition ptr_val :: "nat option \<Rightarrow> nat" where
  "ptr_val p = (case p of None \<Rightarrow> 0 | Some b \<Rightarrow> b)"

definition val_ptr :: "nat \<Rightarrow> nat option" where
  "val_ptr v = (if v = 0 then None else Some v)"

section \<open>Operations\<close>

text \<open>\<open>with_new\<close> says whether \<^verbatim>\<open>new_handle\<close> is not NULL; then the handle is returned.\<close>

definition vl_multifs_init ::
  "'j judy \<Rightarrow> bool \<Rightarrow> ('j, 'a) mf_state_scheme \<Rightarrow> u8 \<times> nat option \<times> ('j, 'a) mf_state_scheme" where
  "vl_multifs_init J with_new s =
     (let (obj, s) = (case judy_open J (4 * JUDYKEYS_PER_UID) JUDYKEYS_PER_UID of
            None \<Rightarrow> (None, s)
          | Some j \<Rightarrow> (Some (mf_next s), s\<lparr>mf_tabs := (mf_tabs s)(mf_next s \<mapsto> j), mf_next := Suc (mf_next s)\<rparr>))
      in if with_new then (0, obj, s) else (0, None, s\<lparr>fstab := obj\<rparr>))"

text \<open>The table of a handle, the module's own when the handle is NULL.\<close>

definition table_of :: "nat option \<Rightarrow> ('j, 'a) mf_state_scheme \<Rightarrow> (nat \<times> 'j) option" where
  "table_of handle s = do {
     obj \<leftarrow> (case handle of Some h \<Rightarrow> Some h | None \<Rightarrow> fstab s);
     j \<leftarrow> mf_tabs s obj;
     Some (obj, j)
   }"

definition set_table :: "nat \<Rightarrow> 'j \<Rightarrow> ('j, 'a) mf_state_scheme \<Rightarrow> ('j, 'a) mf_state_scheme" where
  "set_table obj j s = s\<lparr>mf_tabs := (mf_tabs s)(obj \<mapsto> j)\<rparr>"

definition vl_multifs_deinit ::
  "nat option \<Rightarrow> ('j, 'a) mf_state_scheme \<Rightarrow> (u8 \<times> ('j, 'a) mf_state_scheme) option" where
  "vl_multifs_deinit handle s = do {
     (obj, _) \<leftarrow> table_of handle s;
     Some (0, s\<lparr>mf_tabs := (mf_tabs s)(obj := None)\<rparr>)
   }"

text \<open>The identity is the length and the bytes of an \<^verbatim>\<open>id_tmpl\<close>.\<close>

definition vl_multifs_add ::
  "'j judy \<Rightarrow> nat option \<Rightarrow> nat option \<Rightarrow> u8 \<times> bytes \<Rightarrow> ('j, 'a) mf_state_scheme \<Rightarrow>
   (u8 \<times> ('j, 'a) mf_state_scheme) option" where
  "vl_multifs_add J handle newfsbase fsid s = do {
     (obj, j) \<leftarrow> table_of handle s;
     let (j, new_value) = judy_cell J (snd fsid) (fst fsid) j;
     case new_value of
       None \<Rightarrow> Some (0x15, set_table obj j s)
     | Some c \<Rightarrow>
         if cell_val J j c \<noteq> 0 then Some (0x12, set_table obj j s)
         else Some (0, set_table obj (cell_put J c (ptr_val newfsbase) j) s)
   }"

definition vl_multifs_del ::
  "'j judy \<Rightarrow> nat option \<Rightarrow> u8 \<times> bytes \<Rightarrow> ('j, 'a) mf_state_scheme \<Rightarrow> (u8 \<times> ('j, 'a) mf_state_scheme) option"
  where
  "vl_multifs_del J handle fsid s = do {
     (obj, j) \<leftarrow> table_of handle s;
     let (j, val) = judy_slot J (snd fsid) (fst fsid) j;
     if val \<noteq> None then Some (0, set_table obj (judy_del J j) s)
     else Some (0x11, set_table obj j s)
   }"

text \<open>
  Selecting a filesystem. \<open>getfs\<close> says whether \<^verbatim>\<open>getfsbase\<close> is not NULL; the second result is
  what is stored there, when something is.
\<close>

definition select_fs ::
  "rodata \<Rightarrow> nat option \<Rightarrow> ('j, 'a) mf_state_scheme \<Rightarrow> ('j, 'a) mf_state_scheme option" where
  "select_fs ro base s = do {
     (_, s) \<leftarrow> vworm_init ro base None s;
     Some (snd (vl_init s))
   }"

definition vl_multifs_switch ::
  "'j judy \<Rightarrow> rodata \<Rightarrow> nat option \<Rightarrow> bool \<Rightarrow> u8 \<times> bytes \<Rightarrow> ('j, 'a) mf_state_scheme \<Rightarrow>
   (u8 \<times> nat option option \<times> ('j, 'a) mf_state_scheme) option" where
  "vl_multifs_switch J ro handle getfs fsid s = do {
     (obj, j) \<leftarrow> table_of handle s;
     let (j, val) = judy_slot J (snd fsid) (fst fsid) j;
     let s = set_table obj j s;
     case val of
       None \<Rightarrow> Some (0x11, None, s)
     | Some c \<Rightarrow>
         if getfs then do {
           let base = val_ptr (cell_val J j c);
           s \<leftarrow> select_fs ro base s;
           Some (0, Some base, s)
         } else Some (255, None, s)
   }"

text \<open>\<^verbatim>\<open>*(uint64_t*)value != 0\<close>, for a buffer of at least 8 bytes.\<close>

definition uid_nonzero :: "bytes \<Rightarrow> bool option" where
  "uid_nonzero v = (if 8 \<le> length v then Some (\<exists>b \<in> set (take 8 v). b \<noteq> 0) else None)"

definition vl_multifs_activeid ::
  "'j judy \<Rightarrow> nat option \<Rightarrow> ('j, 'a) mf_state_scheme \<Rightarrow> (u8 \<times> bytes) option" where
  "vl_multifs_activeid J handle s = do {
     obj \<leftarrow> handle;
     j \<leftarrow> mf_tabs s obj;
     let v = judy_key J JUDYKEYS_PER_UID j;
     nz \<leftarrow> uid_nonzero v;
     Some (if nz then 0 else 255, v)
   }"

text \<open>
  The identity template of the caller is returned with its new length and bytes;
  \<^verbatim>\<open>getfsbase\<close> and \<^verbatim>\<open>fsid\<close> are not NULL in the callers.
\<close>

definition sub_pullfs ::
  "'j judy \<Rightarrow> rodata \<Rightarrow> 'j \<Rightarrow> nat option \<Rightarrow> u8 \<times> bytes \<Rightarrow> ('j, 'a) mf_state_scheme \<Rightarrow>
   (u8 \<times> nat option option \<times> (u8 \<times> bytes) \<times> ('j, 'a) mf_state_scheme) option" where
  "sub_pullfs J ro j val fsid s = (case val of
       None \<Rightarrow> Some (0x11, None, fsid, s)
     | Some c \<Rightarrow> do {
         let v = judy_key J JUDYKEYS_PER_UID j;
         nz \<leftarrow> uid_nonzero v;
         if nz then do {
           let base = val_ptr (cell_val J j c);
           s \<leftarrow> select_fs ro base s;
           Some (0, Some base, (8, v), s)
         } else Some (255, None, (fst fsid, v), s)
       })"

definition vl_multifs_start ::
  "'j judy \<Rightarrow> rodata \<Rightarrow> nat option \<Rightarrow> u8 \<times> bytes \<Rightarrow> ('j, 'a) mf_state_scheme \<Rightarrow>
   (u8 \<times> nat option option \<times> (u8 \<times> bytes) \<times> ('j, 'a) mf_state_scheme) option" where
  "vl_multifs_start J ro handle fsid s = do {
     (obj, j) \<leftarrow> table_of handle s;
     let (j, val) = judy_strt J (replicate 8 0) 0 j;
     sub_pullfs J ro j val fsid (set_table obj j s)
   }"

definition vl_multifs_next ::
  "'j judy \<Rightarrow> rodata \<Rightarrow> nat option \<Rightarrow> u8 \<times> bytes \<Rightarrow> ('j, 'a) mf_state_scheme \<Rightarrow>
   (u8 \<times> nat option option \<times> (u8 \<times> bytes) \<times> ('j, 'a) mf_state_scheme) option" where
  "vl_multifs_next J ro handle fsid s = do {
     (obj, j) \<leftarrow> table_of handle s;
     let (j, val) = judy_nxt J j;
     sub_pullfs J ro j val fsid (set_table obj j s)
   }"

section \<open>What the Judy array promises\<close>

text \<open>
  \<open>jl j\<close> is the table as a list of keys and values in key order, \<open>jc j\<close> the position of the
  cursor in it. Keys have 8 bytes.
\<close>

definition judy_laws :: "'j judy \<Rightarrow> ('j \<Rightarrow> (bytes \<times> nat) list) \<Rightarrow> ('j \<Rightarrow> nat) \<Rightarrow> bool" where
  "judy_laws J jl jc \<longleftrightarrow>
     (\<forall>a b j. judy_open J a b = Some j \<longrightarrow> jl j = [])
     \<and> (\<forall>k j j'. length k = 8 \<and> judy_cell J k 8 j = (j', None) \<longrightarrow> jl j' = jl j)
     \<and> (\<forall>k j j' c. length k = 8 \<and> distinct (map fst (jl j)) \<and> judy_cell J k 8 j = (j', Some c) \<longrightarrow>
          distinct (map fst (jl j')) \<and> cell_val J j' c = (case map_of (jl j) k of None \<Rightarrow> 0 | Some v \<Rightarrow> v)
          \<and> map_of (jl j') = (map_of (jl j))(k \<mapsto> cell_val J j' c)
          \<and> (\<forall>v. distinct (map fst (jl (cell_put J c v j'))) \<and> map_of (jl (cell_put J c v j')) = (map_of (jl j))(k \<mapsto> v)))
     \<and> (\<forall>k j j' r. length k = 8 \<and> judy_slot J k 8 j = (j', r) \<longrightarrow>
          jl j' = jl j \<and> (r = None \<longleftrightarrow> map_of (jl j) k = None)
          \<and> (\<forall>c. r = Some c \<longrightarrow> map_of (jl j) k = Some (cell_val J j' c)
              \<and> jc j' < length (jl j') \<and> fst (jl j' ! jc j') = k))
     \<and> (\<forall>j. jc j < length (jl j) \<and> distinct (map fst (jl j)) \<longrightarrow>
          distinct (map fst (jl (judy_del J j)))
          \<and> map_of (jl (judy_del J j)) = (map_of (jl j))(fst (jl j ! jc j) := None))
     \<and> (\<forall>k j j' r. judy_strt J k 0 j = (j', r) \<longrightarrow> jl j' = jl j
          \<and> (case r of None \<Rightarrow> jl j = [] | Some c \<Rightarrow> jl j \<noteq> [] \<and> jc j' = 0 \<and> cell_val J j' c = snd (jl j ! 0)))
     \<and> (\<forall>j j' r. jc j < length (jl j) \<and> judy_nxt J j = (j', r) \<longrightarrow> jl j' = jl j
          \<and> (case r of None \<Rightarrow> Suc (jc j) = length (jl j)
             | Some c \<Rightarrow> Suc (jc j) < length (jl j) \<and> jc j' = Suc (jc j) \<and> cell_val J j' c = snd (jl j ! jc j')))
     \<and> (\<forall>j n. jc j < length (jl j) \<longrightarrow> judy_key J n j = fst (jl j ! jc j))"

text \<open>A table that keeps these promises: a list of pairs with a cursor, new keys at the end.\<close>

fun key_index :: "bytes \<Rightarrow> (bytes \<times> nat) list \<Rightarrow> nat option" where
  "key_index k [] = None"
| "key_index k (x # xs) = (if fst x = k then Some 0 else map_option Suc (key_index k xs))"

definition list_judy :: "((bytes \<times> nat) list \<times> nat) judy" where
  "list_judy = \<lparr>judy_open = (\<lambda>_ _. Some ([], 0)),
     judy_cell = (\<lambda>k _ (l, c). case key_index k l of
         Some i \<Rightarrow> ((l, i), Some i) | None \<Rightarrow> ((l @ [(k, 0)], length l), Some (length l))),
     judy_slot = (\<lambda>k _ (l, c). case key_index k l of Some i \<Rightarrow> ((l, i), Some i) | None \<Rightarrow> ((l, c), None)),
     judy_del = (\<lambda>(l, c). (take c l @ drop (Suc c) l, c - 1)),
     judy_strt = (\<lambda>_ _ (l, c). ((l, 0), if l = [] then None else Some 0)),
     judy_nxt = (\<lambda>(l, c). if Suc c < length l then ((l, Suc c), Some (Suc c)) else ((l, c), None)),
     judy_key = (\<lambda>_ (l, c). fst (l ! c)),
     cell_val = (\<lambda>(l, c) i. snd (l ! i)),
     cell_put = (\<lambda>i v (l, c). (l[i := (fst (l ! i), v)], c))\<rparr>"

lemma key_index_map_of:
  "(case key_index k l of None \<Rightarrow> map_of l k = None
    | Some i \<Rightarrow> i < length l \<and> fst (l ! i) = k \<and> map_of l k = Some (snd (l ! i)))"
  by (induction l) (auto split: option.splits)

lemma map_of_upd_key:
  "distinct (map fst l) \<Longrightarrow> i < length l \<Longrightarrow> map_of (l[i := (fst (l ! i), v)]) = (map_of l)(fst (l ! i) \<mapsto> v)"
proof (induction l arbitrary: i)
  case Nil
  then show ?case by simp
next
  case (Cons x l)
  show ?case
  proof (cases i)
    case 0
    then show ?thesis by (cases x) (auto simp: fun_eq_iff)
  next
    case (Suc n)
    then have "fst (l ! n) \<in> fst ` set l" using Cons.prems by simp
    moreover have "fst x \<notin> fst ` set l" using Cons.prems(1) by simp
    ultimately have "fst (l ! n) \<noteq> fst x" by metis
    then show ?thesis using Suc Cons by (cases x) (auto simp: fun_eq_iff)
  qed
qed

lemma map_of_remove_key:
  "distinct (map fst l) \<Longrightarrow> i < length l \<Longrightarrow>
   map_of (take i l @ drop (Suc i) l) = (map_of l)(fst (l ! i) := None)"
proof (induction l arbitrary: i)
  case Nil
  then show ?case by simp
next
  case (Cons x l)
  show ?case
  proof (cases i)
    case 0
    then show ?thesis using Cons.prems by (auto simp: fun_eq_iff map_of_eq_None_iff)
  next
    case (Suc n)
    then have "fst (l ! n) \<in> fst ` set l" using Cons.prems by simp
    moreover have "fst x \<notin> fst ` set l" using Cons.prems(1) by simp
    ultimately have "fst (l ! n) \<noteq> fst x" by metis
    then show ?thesis using Suc Cons by (cases x) (auto simp: fun_eq_iff)
  qed
qed

lemma map_fst_upd_key: "i < length l \<Longrightarrow> map fst (l[i := (fst (l ! i), v)]) = map fst l"
  by (simp add: list_eq_iff_nth_eq nth_list_update)

lemma distinct_remove:
  assumes "distinct xs" and "i < length xs"
  shows "distinct (take i xs @ drop (Suc i) xs)"
proof -
  have "distinct (take i xs @ xs ! i # drop (Suc i) xs)"
    using assms by (simp flip: id_take_nth_drop)
  then show ?thesis by simp
qed

lemma key_index_None: "key_index k l = None \<Longrightarrow> k \<notin> fst ` set l \<and> map_of l k = None"
  using key_index_map_of [where k = k and l = l] by (auto simp: map_of_eq_None_iff)

lemma key_index_Some: "key_index k l = Some i \<Longrightarrow> i < length l \<and> fst (l ! i) = k \<and> map_of l k = Some (snd (l ! i))"
  using key_index_map_of [where k = k and l = l] by simp

lemma list_judy_cell:
  assumes "distinct (map fst (fst j))" and "judy_cell list_judy k n j = (j', Some c)"
  shows "distinct (map fst (fst j'))" "c < length (fst j')" "fst (fst j' ! c) = k"
    and "snd (fst j' ! c) = (case map_of (fst j) k of None \<Rightarrow> 0 | Some v \<Rightarrow> v)"
    and "(map_of (fst j'))(k \<mapsto> v) = (map_of (fst j))(k \<mapsto> v)"
proof -
  obtain l p where j: "j = (l, p)" by (cases j)
  have *: "distinct (map fst (fst j')) \<and> c < length (fst j') \<and> fst (fst j' ! c) = k
    \<and> snd (fst j' ! c) = (case map_of (fst j) k of None \<Rightarrow> 0 | Some v \<Rightarrow> v)
    \<and> (map_of (fst j'))(k \<mapsto> v) = (map_of (fst j))(k \<mapsto> v)"
  proof (cases "key_index k l")
    case None
    then have "j' = (l @ [(k, 0)], length l)" "c = length l" using assms(2) by (auto simp: list_judy_def j)
    then show ?thesis using key_index_None [OF None] assms(1) by (auto simp: j map_add_def fun_eq_iff split: option.splits)
  next
    case (Some i)
    then have "j' = (l, i)" "c = i" using assms(2) by (auto simp: list_judy_def j)
    moreover have "snd (l ! i) = (case map_of l k of None \<Rightarrow> 0 | Some v \<Rightarrow> v)" "i < length l" "fst (l ! i) = k"
      using key_index_Some [OF Some] by simp_all
    ultimately show ?thesis using assms(1) by (simp add: j)
  qed
  then show "distinct (map fst (fst j'))" "c < length (fst j')" "fst (fst j' ! c) = k"
    "snd (fst j' ! c) = (case map_of (fst j) k of None \<Rightarrow> 0 | Some v \<Rightarrow> v)"
    "(map_of (fst j'))(k \<mapsto> v) = (map_of (fst j))(k \<mapsto> v)" by simp_all
qed

lemma list_judy_laws: "judy_laws list_judy fst snd"
proof -
  have put: "fst (cell_put list_judy c v j) = (fst j)[c := (fst (fst j ! c), v)]"
    "cell_val list_judy j c = snd (fst j ! c)" for c v j
    by (auto simp: list_judy_def split: prod.split)
  have cell: "distinct (map fst (fst j')) \<and> cell_val list_judy j' c = (case map_of (fst j) k of None \<Rightarrow> 0 | Some v \<Rightarrow> v)
      \<and> map_of (fst j') = (map_of (fst j))(k \<mapsto> cell_val list_judy j' c)
      \<and> (\<forall>v. distinct (map fst (fst (cell_put list_judy c v j')))
           \<and> map_of (fst (cell_put list_judy c v j')) = (map_of (fst j))(k \<mapsto> v))"
    if "distinct (map fst (fst j))" "judy_cell list_judy k 8 j = (j', Some c)" for k j j' c
  proof -
    note l = list_judy_cell [OF that]
    have "map_of (fst j') k = Some (snd (fst j' ! c))"
      using l(1,2,3) by (metis map_of_is_SomeI nth_mem prod.collapse)
    then have "map_of (fst j') = (map_of (fst j'))(k \<mapsto> snd (fst j' ! c))" by (simp add: fun_upd_idem)
    then show ?thesis
      using l by (auto simp: put map_fst_upd_key map_of_upd_key)
  qed
  have nocell: "judy_cell list_judy k 8 j \<noteq> (j', None)" for k j j'
    by (auto simp: list_judy_def split: option.splits prod.splits)
  have slot: "fst j' = fst j \<and> (r = None \<longleftrightarrow> map_of (fst j) k = None)
      \<and> (\<forall>c. r = Some c \<longrightarrow> map_of (fst j) k = Some (cell_val list_judy j' c)
          \<and> snd j' < length (fst j') \<and> fst (fst j' ! snd j') = k)"
    if "judy_slot list_judy k 8 j = (j', r)" for k j j' r
  proof (cases "key_index k (fst j)")
    case None
    then show ?thesis using that key_index_None [OF None] by (cases j) (auto simp: list_judy_def)
  next
    case (Some i)
    then have "j' = (fst j, i)" "r = Some i" using that by (cases j; auto simp: list_judy_def)+
    then show ?thesis using key_index_Some [OF Some] by (simp add: put)
  qed
  have del: "distinct (map fst (fst (judy_del list_judy j)))
      \<and> map_of (fst (judy_del list_judy j)) = (map_of (fst j))(fst (fst j ! snd j) := None)"
    if "snd j < length (fst j)" "distinct (map fst (fst j))" for j
  proof (cases j)
    case (Pair l c)
    then have "distinct (take c (map fst l) @ drop (Suc c) (map fst l))"
      using that by (intro distinct_remove) auto
    then show ?thesis using that map_of_remove_key [of l c] Pair
      by (simp add: list_judy_def take_map drop_map flip: map_append)
  qed
  show ?thesis unfolding judy_laws_def
    by (intro conjI allI impI; (use cell nocell slot del in \<open>blast\<close>)?)
      (auto simp: list_judy_def split: if_splits)
qed

section \<open>The group is a map from identities to filesystems\<close>

definition fs_view :: "('j \<Rightarrow> (bytes \<times> nat) list) \<Rightarrow> nat option \<Rightarrow> ('j, 'a) mf_state_scheme \<Rightarrow> bytes \<Rightarrow> nat option" where
  "fs_view jl handle s = (case table_of handle s of None \<Rightarrow> Map.empty | Some (obj, j) \<Rightarrow> map_of (jl j))"

definition group_ok :: "('j \<Rightarrow> (bytes \<times> nat) list) \<Rightarrow> nat option \<Rightarrow> ('j, 'a) mf_state_scheme \<Rightarrow> bool" where
  "group_ok jl handle s \<longleftrightarrow> (case table_of handle s of None \<Rightarrow> False | Some (obj, j) \<Rightarrow> distinct (map fst (jl j)))"

lemma table_of_set [simp]:
  "table_of handle s = Some (obj, j) \<Longrightarrow> table_of handle (set_table obj j' s) = Some (obj, j')"
  by (auto simp: table_of_def set_table_def bind_eq_Some_conv split: option.splits)

lemma set_table_sel [simp]:
  "heap (set_table obj j s) = heap s" "fsram (set_table obj j s) = fsram s" "vlfile (set_table obj j s) = vlfile s"
  "dlls_info (set_table obj j s) = dlls_info s" "dlls_ctx (set_table obj j s) = dlls_ctx s"
  by (simp_all add: set_table_def)

lemma select_fs_eq:
  "select_fs ro (Some b) s = Some (snd (vl_init (s\<lparr>fsram := Some b\<rparr>)))"
  by (simp add: select_fs_def vworm_init_def)

lemma judy_slotD:
  assumes "judy_laws J jl jc" and "length k = 8" and "judy_slot J k 8 j = (j', r)"
  shows "jl j' = jl j" and "r = None \<longleftrightarrow> map_of (jl j) k = None"
    and "r = Some c \<Longrightarrow> map_of (jl j) k = Some (cell_val J j' c) \<and> jc j' < length (jl j') \<and> fst (jl j' ! jc j') = k"
  using assms unfolding judy_laws_def by blast+

lemma judy_cellD:
  assumes "judy_laws J jl jc" and "length k = 8" and "distinct (map fst (jl j))" and "judy_cell J k 8 j = (j', Some c)"
  shows "distinct (map fst (jl j'))" and "cell_val J j' c = (case map_of (jl j) k of None \<Rightarrow> 0 | Some v \<Rightarrow> v)"
    and "map_of (jl j') = (map_of (jl j))(k \<mapsto> cell_val J j' c)"
    and "distinct (map fst (jl (cell_put J c v j')))" and "map_of (jl (cell_put J c v j')) = (map_of (jl j))(k \<mapsto> v)"
  by (use assms(1) [unfolded judy_laws_def, THEN conjunct2, THEN conjunct2, THEN conjunct1, rule_format,
      OF conjI [OF assms(2) conjI [OF assms(3,4)]]] in blast)+

lemma vl_multifs_add_spec:
  assumes "judy_laws J jl jc" and "group_ok jl handle s" and "length k = 8" and "table_of handle s = Some (obj, j)"
  shows "\<exists>s'. vl_multifs_add J handle base (8, k) s =
      Some (if snd (judy_cell J k 8 j) = None then 0x15
            else if \<exists>b. b \<noteq> 0 \<and> fs_view jl handle s k = Some b then 0x12 else 0, s')
    \<and> fs_view jl handle s' =
        (if snd (judy_cell J k 8 j) = None \<or> (\<exists>b. b \<noteq> 0 \<and> fs_view jl handle s k = Some b) then fs_view jl handle s
         else (fs_view jl handle s)(k \<mapsto> ptr_val base))
    \<and> group_ok jl handle s' \<and> heap s' = heap s \<and> fsram s' = fsram s"
proof -
  note t = assms(4)
  have dj: "distinct (map fst (jl j))" using assms(2) t by (simp add: group_ok_def)
  have v: "fs_view jl handle s k = map_of (jl j) k" using t by (simp add: fs_view_def)
  obtain j' r where c: "judy_cell J k 8 j = (j', r)" by (cases "judy_cell J k 8 j")
  show ?thesis
  proof (cases r)
    case None
    then have c': "length k = 8 \<and> judy_cell J k 8 j = (j', None)" using assms(3) c by simp
    have "jl j' = jl j"
      by (rule assms(1) [unfolded judy_laws_def, THEN conjunct2, THEN conjunct1, rule_format, OF c'])
    then show ?thesis using t c None dj by (simp add: vl_multifs_add_def group_ok_def fs_view_def)
  next
    case (Some cell)
    note l = judy_cellD [OF assms(1,3) dj, of j' cell]
    have l': "distinct (map fst (jl j'))" "cell_val J j' cell = (case map_of (jl j) k of None \<Rightarrow> 0 | Some v \<Rightarrow> v)"
      "map_of (jl j') = (map_of (jl j))(k \<mapsto> cell_val J j' cell)"
      "\<And>v. distinct (map fst (jl (cell_put J cell v j')))"
      "\<And>v. map_of (jl (cell_put J cell v j')) = (map_of (jl j))(k \<mapsto> v)"
      using l c Some by simp_all
    have tk: "(\<exists>b. b \<noteq> 0 \<and> fs_view jl handle s k = Some b) \<longleftrightarrow> cell_val J j' cell \<noteq> 0"
      using l'(2) by (auto simp: v split: option.splits)
    have "map_of (jl j') = map_of (jl j)" if "cell_val J j' cell \<noteq> 0"
    proof -
      have "map_of (jl j) k = Some (cell_val J j' cell)" using that l'(2) by (auto split: option.splits)
      then show ?thesis using l'(3) by (metis fun_upd_triv)
    qed
    then show ?thesis using t c Some l'(1,4,5)
      unfolding tk by (auto simp: vl_multifs_add_def group_ok_def fs_view_def)
  qed
qed

text \<open>
  C18. Adding a filesystem refines the update of a map. The code is 0x15 exactly when the Judy
  array has no memory for a cell, else 0x12 exactly when the identity is taken (by a base that is
  not NULL), else 0. With code 0 the identity has the new base and no other identity changes, with
  the other codes the map is as before. No filesystem is touched.
\<close>

theorem vl_multifs_add_refines:
  assumes "judy_laws J jl jc" and "group_ok jl handle s" and "length k = 8" and "table_of handle s = Some (obj, j)"
  shows "\<exists>s'. vl_multifs_add J handle base (8, k) s =
      Some (if snd (judy_cell J k 8 j) = None then 0x15
            else if \<exists>b. b \<noteq> 0 \<and> fs_view jl handle s k = Some b then 0x12 else 0, s')
    \<and> fs_view jl handle s' =
        (if snd (judy_cell J k 8 j) = None \<or> (\<exists>b. b \<noteq> 0 \<and> fs_view jl handle s k = Some b) then fs_view jl handle s
         else (fs_view jl handle s)(k \<mapsto> ptr_val base))
    \<and> group_ok jl handle s' \<and> heap s' = heap s \<and> fsram s' = fsram s"
  by (rule vl_multifs_add_spec [OF assms])

text \<open>
  C19. Deleting a filesystem refines the removal from the map: code 0 means that the identity
  was in the group and is no longer, code 0x11 that it was not there; no other identity is
  affected.
\<close>

theorem vl_multifs_del_refines:
  assumes "judy_laws J jl jc" and "group_ok jl handle s" and "length k = 8"
  shows "\<exists>rc s'. vl_multifs_del J handle (8, k) s = Some (rc, s') \<and> group_ok jl handle s' \<and> heap s' = heap s
    \<and> (if fs_view jl handle s k = None then rc = 0x11 \<and> fs_view jl handle s' = fs_view jl handle s
       else rc = 0 \<and> fs_view jl handle s' = (fs_view jl handle s)(k := None))"
proof -
  obtain obj j where t: "table_of handle s = Some (obj, j)" "distinct (map fst (jl j))"
    using assms(2) by (auto simp: group_ok_def split: option.splits)
  obtain j' r where c: "judy_slot J k 8 j = (j', r)" by (cases "judy_slot J k 8 j")
  note l = judy_slotD [OF assms(1,3) c]
  show ?thesis
  proof (cases r)
    case None
    then show ?thesis using t c l(1,2) by (simp add: vl_multifs_del_def group_ok_def fs_view_def)
  next
    case (Some cell)
    then have p: "jc j' < length (jl j')" "fst (jl j' ! jc j') = k" using l(3) by auto
    have "distinct (map fst (jl (judy_del J j'))) \<and> map_of (jl (judy_del J j')) = (map_of (jl j'))(k := None)"
      using assms(1) p t(2) l(1) unfolding judy_laws_def by metis
    then show ?thesis using t c l(1,2) Some by (simp add: vl_multifs_del_def group_ok_def fs_view_def)
  qed
qed

lemma vl_multifs_switch_spec:
  assumes "judy_laws J jl jc" and "group_ok jl handle s" and "length k = 8"
  shows "case fs_view jl handle s k of
      None \<Rightarrow> \<exists>s'. vl_multifs_switch J ro handle True (8, k) s = Some (0x11, None, s') \<and> fsram s' = fsram s
        \<and> vlfile s' = vlfile s \<and> heap s' = heap s
    | Some b \<Rightarrow> b \<noteq> 0 \<longrightarrow> (\<exists>obj j s1. s1 = set_table obj j s \<and> group_ok jl handle s1
        \<and> table_of handle s1 = Some (obj, j)
        \<and> fs_view jl handle s1 = fs_view jl handle s
        \<and> vl_multifs_switch J ro handle True (8, k) s = Some (0, Some (Some b), snd (vl_init (s1\<lparr>fsram := Some b\<rparr>))))"
proof -
  obtain obj j where t: "table_of handle s = Some (obj, j)"
    using assms(2) by (auto simp: group_ok_def split: option.splits)
  obtain j' r where c: "judy_slot J k 8 j = (j', r)" by (cases "judy_slot J k 8 j")
  note l = judy_slotD [OF assms(1,3) c]
  show ?thesis
  proof (cases r)
    case None
    then show ?thesis using t c l(2) by (simp add: vl_multifs_switch_def fs_view_def)
  next
    case (Some cell)
    then have v: "map_of (jl j) k = Some (cell_val J j' cell)" using l(3) by blast
    have "vl_multifs_switch J ro handle True (8, k) s
        = Some (0, Some (Some (cell_val J j' cell)), snd (vl_init ((set_table obj j' s)\<lparr>fsram := Some (cell_val J j' cell)\<rparr>)))"
      if "cell_val J j' cell \<noteq> 0"
      using t c Some that by (simp add: vl_multifs_switch_def val_ptr_def select_fs_eq Let_def)
    moreover have "fs_view jl handle (set_table obj j' s) = fs_view jl handle s"
      using t l(1) by (simp add: fs_view_def)
    moreover have "group_ok jl handle (set_table obj j' s)"
      using assms(2) t l(1) by (simp add: group_ok_def)
    ultimately show ?thesis using v t table_of_set [OF t]
      by (auto simp: fs_view_def [of jl handle s] simp del: table_of_set)
  qed
qed

section \<open>A group with one filesystem\<close>

definition demo_uid :: bytes where "demo_uid = [1, 2, 3, 4, 5, 6, 7, 8]"

definition demo_mf :: "((bytes \<times> nat) list \<times> nat) mf_state" where
  "demo_mf = vl_state.extend demo_fs (mf_state.fields [3 \<mapsto> ([], 0)] 4 None)"

definition demo_mf1 :: "((bytes \<times> nat) list \<times> nat) mf_state" where
  "demo_mf1 = set_table 3 ([(demo_uid, 5)], 0) demo_mf"

lemma demo_mf_table: "table_of (Some 3) demo_mf = Some (3, [], 0)"
  "table_of (Some 3) demo_mf1 = Some (3, [(demo_uid, 5)], 0)"
  by (simp_all add: demo_mf_def demo_mf1_def table_of_def set_table_def vl_state.defs mf_state.defs)

lemma demo_mf_ok: "group_ok fst (Some 3) demo_mf" "fs_view fst (Some 3) demo_mf = Map.empty"
  "group_ok fst (Some 3) demo_mf1" "fs_view fst (Some 3) demo_mf1 = [demo_uid \<mapsto> 5]" "length demo_uid = 8"
  by (simp_all add: group_ok_def fs_view_def demo_mf_table demo_uid_def fun_eq_iff)

lemma demo_mf_add: "vl_multifs_add list_judy (Some 3) (Some 5) (8, demo_uid) demo_mf = Some (0, demo_mf1)"
  by (simp add: vl_multifs_add_def demo_mf_table list_judy_def ptr_val_def demo_mf1_def set_table_def)

theorem vl_multifs_add_refines_witness:
  "vl_multifs_add list_judy (Some 3) (Some 5) (8, demo_uid) demo_mf = Some (0, demo_mf1)
   \<and> fs_view fst (Some 3) demo_mf1 = [demo_uid \<mapsto> 5]
   \<and> (\<exists>s'. vl_multifs_add list_judy (Some 3) (Some 6) (8, demo_uid) demo_mf1 = Some (0x12, s'))"
proof -
  have cell: "snd (judy_cell list_judy demo_uid 8 j) \<noteq> None" for j by (cases j) (simp add: list_judy_def split: option.splits)
  obtain j where j: "table_of (Some 3) demo_mf = Some (3, j)" by (simp add: demo_mf_table)
  obtain j1 where j1: "table_of (Some 3) demo_mf1 = Some (3, j1)" by (simp add: demo_mf_table)
  show ?thesis
    using vl_multifs_add_refines [OF list_judy_laws demo_mf_ok(1,5) j, of "Some 5"]
      vl_multifs_add_refines [OF list_judy_laws demo_mf_ok(3,5) j1, of "Some 6"] cell
    by (auto simp: demo_mf_add demo_mf_ok(2,4) ptr_val_def)
qed

theorem vl_multifs_del_refines_witness:
  "\<exists>s'. vl_multifs_del list_judy (Some 3) (8, demo_uid) demo_mf1 = Some (0, s') \<and> fs_view fst (Some 3) s' demo_uid = None"
  using vl_multifs_del_refines [OF list_judy_laws demo_mf_ok(3,5)] by (auto simp: demo_mf_ok(4))

end
