(* ===== verification/Otfs.thy ===== *)
theory Otfs
  imports Multifs
begin

text \<open>
  The interface of the library, \<^verbatim>\<open>main/otfs.c\<close>, in the MULTIFS build. The results are C
  \<^verbatim>\<open>int\<close>s; a handle is \<open>None\<close> for NULL. What \<^verbatim>\<open>malloc\<close> answers is an argument: the number of a
  new block and its content, or nothing.
\<close>

record otfs_t =
  uid :: bytes
  base :: "nat option"
  alloc :: nat

definition sub_loadfs ::
  "otfs_t option \<Rightarrow> nat option \<Rightarrow> bytes \<Rightarrow> u8 \<Rightarrow> ('j, 'a) mf_state_scheme \<Rightarrow> otfs_t option option" where
  "sub_loadfs dstfs loadbase uvalue ulength s = (case dstfs of
       None \<Rightarrow> Some None
     | Some fs \<Rightarrow> do {
         b \<leftarrow> loadbase;
         m \<leftarrow> heap s b;
         hdr \<leftarrow> fsheader_at m 0;
         src \<leftarrow> rd_bytes uvalue 0 (unat ulength);
         u \<leftarrow> wr_bytes (uid fs) 0 src;
         Some (Some (fs\<lparr>base := loadbase, alloc := unat (vl_get_fsalloc (Some hdr)), uid := u\<rparr>))
       })"

definition otfs_init ::
  "'j judy \<Rightarrow> bool \<Rightarrow> ('j, 'a) mf_state_scheme \<Rightarrow> int \<times> nat option \<times> ('j, 'a) mf_state_scheme" where
  "otfs_init J with_handle s =
     (if \<not> with_handle then (- 1, None, s)
      else let (rc, h, s) = vl_multifs_init J True s in (uint rc, h, s))"

text \<open>
  The local header is overwritten by \<^verbatim>\<open>vworm_fsheader_defload\<close>, whatever it held. The result of
  \<^verbatim>\<open>vworm_fsdata_defload\<close> is unsigned.
\<close>

definition otfs_load_defaults ::
  "rodata \<Rightarrow> (u32 \<Rightarrow> (nat \<times> bytes) option) \<Rightarrow> otfs_t option \<Rightarrow> nat \<Rightarrow> ('j, 'a) mf_state_scheme \<Rightarrow>
   (int \<times> otfs_t option \<times> ('j, 'a) mf_state_scheme) option" where
  "otfs_load_defaults ro malloc fs maxalloc s = (case fs of
       None \<Rightarrow> Some (- 1, None, s)
     | Some fs \<Rightarrow> do {
         header \<leftarrow> vworm_fsheader_defload (Some default_fsheader);
         let fs = fs\<lparr>alloc := unat (vworm_fsalloc header)\<rparr>;
         if maxalloc \<le> alloc fs then Some (- 2, Some fs, s)
         else case malloc (of_nat (alloc fs)) of
             None \<Rightarrow> Some (- 3, Some (fs\<lparr>base := None\<rparr>), s)
           | Some (b, m) \<Rightarrow> do {
               let fs = fs\<lparr>base := Some b\<rparr>;
               (n, s) \<leftarrow> vworm_fsdata_defload ro (base fs) header (s\<lparr>heap := (heap s)(b \<mapsto> m)\<rparr>);
               Some (uint n, Some fs, s)
             }
       })"

definition otfs_new ::
  "'j judy \<Rightarrow> rodata \<Rightarrow> (bytes \<Rightarrow> bytes) \<Rightarrow> ('j, 'a) mf_state_ext action_fn \<Rightarrow> bytes \<Rightarrow> nat option \<Rightarrow> otfs_t option \<Rightarrow>
   ('j, 'a) mf_state_scheme \<Rightarrow> (int \<times> ('j, 'a) mf_state_scheme) option" where
  "otfs_new J ro expand act kfile handle fs s =
     (if handle = None then Some (- 1, s)
      else do {
        fs \<leftarrow> fs;
        (rc, s) \<leftarrow> vl_multifs_add J handle (base fs) (8, uid fs) s;
        if rc \<noteq> 0 then Some (- uint rc, s)
        else do {
          (_, s) \<leftarrow> vworm_init ro (base fs) None s;
          let (_, s) = vl_init s;
          s \<leftarrow> auth_init expand act kfile s;
          Some (0, s)
        }
      })"

text \<open>The function \<open>free_fn\<close> of the application, when it is given, may change anything.\<close>

definition otfs_del ::
  "'j judy \<Rightarrow> nat option \<Rightarrow> otfs_t option \<Rightarrow>
   (nat \<Rightarrow> ('j, 'a) mf_state_scheme \<Rightarrow> ('j, 'a) mf_state_scheme option) option \<Rightarrow>
   ('j, 'a) mf_state_scheme \<Rightarrow> (int \<times> ('j, 'a) mf_state_scheme) option" where
  "otfs_del J handle fs free_fn s =
     (case (handle, fs) of
        (Some h, Some fs) \<Rightarrow> do {
          (rc, s) \<leftarrow> vl_multifs_del J handle (8, uid fs) s;
          s \<leftarrow> (case (free_fn, base fs) of
                 (Some free, Some b) \<Rightarrow> if rc = 0 then free b s else Some s
               | _ \<Rightarrow> Some s);
          Some (uint rc, s)
        }
      | _ \<Rightarrow> Some (- 1, s))"

definition otfs_setfs ::
  "'j judy \<Rightarrow> rodata \<Rightarrow> nat option \<Rightarrow> otfs_t option \<Rightarrow> bytes \<Rightarrow> ('j, 'a) mf_state_scheme \<Rightarrow>
   (int \<times> otfs_t option \<times> ('j, 'a) mf_state_scheme) option" where
  "otfs_setfs J ro handle fs eui64_bytes s =
     (if handle = None then Some (- 1, fs, s)
      else do {
        (rc, fsbase, s) \<leftarrow> vl_multifs_switch J ro handle True (8, eui64_bytes) s;
        if rc = 0 then do {
          loadbase \<leftarrow> fsbase;
          fs \<leftarrow> sub_loadfs fs loadbase eui64_bytes 8 s;
          Some (0, fs, s)
        } else Some (uint rc, fs, s)
      })"

definition otfs_activeuid ::
  "'j judy \<Rightarrow> nat option \<Rightarrow> ('j, 'a) mf_state_scheme \<Rightarrow> (int \<times> bytes option) option" where
  "otfs_activeuid J handle s =
     (if handle = None then Some (- 1, None)
      else do { (rc, v) \<leftarrow> vl_multifs_activeid J handle s; Some (uint rc, Some v) })"

text \<open>The two iterator functions, on the result of the table; the identity buffer is returned.\<close>

definition iterator_result ::
  "(u8 \<times> nat option option \<times> (u8 \<times> bytes) \<times> ('j, 'a) mf_state_scheme) option \<Rightarrow> otfs_t option \<Rightarrow>
   (int \<times> otfs_t option \<times> bytes \<times> ('j, 'a) mf_state_scheme) option" where
  "iterator_result res fs = do {
     (rc, fsbase, user_id, s) \<leftarrow> res;
     if rc = 0 \<and> fst user_id = 8 then do {
       loadbase \<leftarrow> fsbase;
       fs \<leftarrow> sub_loadfs fs loadbase (snd user_id) 8 s;
       Some (0, fs, snd user_id, s)
     } else Some (1, fs, snd user_id, s)
   }"

definition otfs_iterator_start ::
  "'j judy \<Rightarrow> rodata \<Rightarrow> nat option \<Rightarrow> otfs_t option \<Rightarrow> bytes \<Rightarrow> ('j, 'a) mf_state_scheme \<Rightarrow>
   (int \<times> otfs_t option \<times> bytes \<times> ('j, 'a) mf_state_scheme) option" where
  "otfs_iterator_start J ro handle fs eui64_bytes s =
     (if handle = None then Some (- 1, fs, eui64_bytes, s)
      else iterator_result (vl_multifs_start J ro handle (0, eui64_bytes) s) fs)"

definition otfs_iterator_next ::
  "'j judy \<Rightarrow> rodata \<Rightarrow> nat option \<Rightarrow> otfs_t option \<Rightarrow> bytes \<Rightarrow> ('j, 'a) mf_state_scheme \<Rightarrow>
   (int \<times> otfs_t option \<times> bytes \<times> ('j, 'a) mf_state_scheme) option" where
  "otfs_iterator_next J ro handle fs eui64_bytes s =
     (if handle = None then Some (- 1, fs, eui64_bytes, s)
      else iterator_result (vl_multifs_next J ro handle (0, eui64_bytes) s) fs)"

text \<open>The loop of \<^verbatim>\<open>otfs_deinit\<close>, which runs until the iterator is at its end.\<close>

partial_function (option) deinit_loop ::
  "'j judy \<Rightarrow> rodata \<Rightarrow> nat option \<Rightarrow> (nat option \<Rightarrow> ('j, 'a) mf_state_scheme \<Rightarrow> ('j, 'a) mf_state_scheme option) \<Rightarrow>
   int \<Rightarrow> otfs_t option \<Rightarrow> bytes \<Rightarrow> ('j, 'a) mf_state_scheme \<Rightarrow> ('j, 'a) mf_state_scheme option" where
  "deinit_loop J ro handle free rc fs u s =
     (if rc = 0 then do {
        f \<leftarrow> fs;
        s \<leftarrow> free (base f) s;
        (rc, fs, u, s) \<leftarrow> otfs_iterator_next J ro handle fs u s;
        deinit_loop J ro handle free rc fs u s
      } else Some s)"

text \<open>The local \<^verbatim>\<open>otfs_t\<close> is not initialised: its first content is an argument.\<close>

definition otfs_deinit ::
  "'j judy \<Rightarrow> rodata \<Rightarrow> otfs_t \<Rightarrow> nat option \<Rightarrow>
   (nat option \<Rightarrow> ('j, 'a) mf_state_scheme \<Rightarrow> ('j, 'a) mf_state_scheme option) option \<Rightarrow>
   ('j, 'a) mf_state_scheme \<Rightarrow> (int \<times> ('j, 'a) mf_state_scheme) option" where
  "otfs_deinit J ro fs0 handle free_fn s =
     (if handle = None then Some (- 1, s)
      else do {
        s \<leftarrow> (case free_fn of
               None \<Rightarrow> Some s
             | Some free \<Rightarrow> do {
                 (rc, fs, u, s) \<leftarrow> otfs_iterator_start J ro handle (Some fs0) (replicate 8 0) s;
                 deinit_loop J ro handle free rc fs u s
               });
        (rc, s) \<leftarrow> vl_multifs_deinit handle s;
        Some (uint rc, s)
      })"

section \<open>Selecting and iterating\<close>

text \<open>A block that starts with a filesystem header.\<close>

definition has_fs :: "(nat \<Rightarrow> bytes option) \<Rightarrow> nat \<Rightarrow> bool" where
  "has_fs h b \<longleftrightarrow> b \<noteq> 0 \<and> (case h b of None \<Rightarrow> False | Some m \<Rightarrow> fsheader_at m 0 \<noteq> None)"

definition loaded :: "otfs_t \<Rightarrow> nat \<Rightarrow> bytes \<Rightarrow> (nat \<Rightarrow> bytes option) \<Rightarrow> otfs_t" where
  "loaded fs b u h = \<lparr>uid = u, base = Some b, alloc = unat (vl_get_fsalloc (fsheader_at (the (h b)) 0))\<rparr>"

lemma sub_loadfs_ok:
  assumes "has_fs (heap s) b" and "length u = 8" and "length (uid fs) = 8"
  shows "sub_loadfs (Some fs) (Some b) u 8 s = Some (Some (loaded fs b u (heap s)))"
proof -
  obtain m hdr where "heap s b = Some m" "fsheader_at m 0 = Some hdr"
    using assms(1) by (auto simp: has_fs_def split: option.splits)
  then show ?thesis
    using assms(2,3) by (simp add: sub_loadfs_def rd_bytes_def wr_bytes_def loaded_def)
qed

lemma vl_init_sel [simp]:
  "heap (snd (vl_init s)) = heap s" "fsram (snd (vl_init s)) = fsram s"
  "dlls_info (snd (vl_init s)) = dlls_info s" "dlls_ctx (snd (vl_init s)) = dlls_ctx s"
  "dlls_size (snd (vl_init s)) = dlls_size s" "dlls_nonce (snd (vl_init s)) = dlls_nonce s"
  "fsblock (snd (vl_init s)) = fsblock s" "sub_new_fp (snd (vl_init s)) = Some 0"
  "auth_wf (snd (vl_init s)) = auth_wf s"
  by (simp_all add: vl_init_def fsblock_def sub_new_fp_def VLFPS_def zero_file_def upt_conv_Cons auth_wf_def)

lemma vl_init_table [simp]:
  "table_of handle (snd (vl_init s)) = table_of handle s" "mf_tabs (snd (vl_init s)) = mf_tabs s"
  "table_of handle (s\<lparr>fsram := x\<rparr>) = table_of handle s" "table_of handle (s\<lparr>heap := y\<rparr>) = table_of handle s"
  for s :: "('j, 'a) mf_state_scheme"
  by (simp_all add: vl_init_def table_of_def cong: option.case_cong)

lemma otfs_setfs_spec:
  assumes "judy_laws J jl jc" and "group_ok jl (Some g) s" and "length k = 8"
    and "fs_view jl (Some g) s k = Some b" and "has_fs (heap s) b" and "length (uid fs) = 8"
  shows "\<exists>s'. otfs_setfs J ro (Some g) (Some fs) k s = Some (0, Some (loaded fs b k (heap s)), s')
    \<and> fsram s' = Some b \<and> sub_new_fp s' = Some 0 \<and> heap s' = heap s
    \<and> group_ok jl (Some g) s' \<and> fs_view jl (Some g) s' = fs_view jl (Some g) s
    \<and> dlls_info s' = dlls_info s \<and> dlls_ctx s' = dlls_ctx s"
proof -
  have "b \<noteq> 0" using assms(5) by (simp add: has_fs_def)
  then obtain obj j s1 where s1: "s1 = set_table obj j s" "group_ok jl (Some g) s1" "table_of (Some g) s1 = Some (obj, j)"
    "fs_view jl (Some g) s1 = fs_view jl (Some g) s"
    "vl_multifs_switch J ro (Some g) True (8, k) s = Some (0, Some (Some b), snd (vl_init (s1\<lparr>fsram := Some b\<rparr>)))"
    using vl_multifs_switch_spec [OF assms(1-3), of ro] assms(4) by auto
  let ?s' = "snd (vl_init (s1\<lparr>fsram := Some b\<rparr>))"
  have "heap ?s' = heap s" using s1(1) by simp
  moreover from this have "sub_loadfs (Some fs) (Some b) k 8 ?s' = Some (Some (loaded fs b k (heap s)))"
    using sub_loadfs_ok [of ?s' b k fs] assms(3,5,6) by simp
  moreover have "fs_view jl (Some g) ?s' = fs_view jl (Some g) s"
    using s1(4) by (simp add: fs_view_def)
  moreover have "group_ok jl (Some g) ?s'"
    using s1(2) by (simp add: group_ok_def)
  ultimately show ?thesis
    by (intro exI [of _ ?s'] conjI) (simp_all add: otfs_setfs_def s1(5) s1(1))
qed

text \<open>
  C21. Selecting a filesystem of the group by its identity succeeds, makes its block the
  current one, closes all files and reports its base and size; no filesystem and no other
  member of the group changes. The keys of the table are not reloaded: root and user keep
  the keys of the filesystem that was created last.
\<close>

theorem otfs_setfs_selects:
  assumes "judy_laws J jl jc" and "group_ok jl (Some g) s" and "length k = 8"
    and "fs_view jl (Some g) s k = Some b" and "has_fs (heap s) b" and "length (uid fs) = 8"
  shows "\<exists>s'. otfs_setfs J ro (Some g) (Some fs) k s = Some (0, Some (loaded fs b k (heap s)), s')
    \<and> fsram s' = Some b \<and> sub_new_fp s' = Some 0 \<and> heap s' = heap s
    \<and> group_ok jl (Some g) s' \<and> fs_view jl (Some g) s' = fs_view jl (Some g) s
    \<and> dlls_info s' = dlls_info s \<and> dlls_ctx s' = dlls_ctx s"
  by (rule otfs_setfs_spec [OF assms])

text \<open>A table whose members are filesystems in memory, with identities other than 0.\<close>

definition members_ok :: "(bytes \<times> nat) list \<Rightarrow> (nat \<Rightarrow> bytes option) \<Rightarrow> bool" where
  "members_ok l h \<longleftrightarrow> distinct (map snd l)
     \<and> (\<forall>(k, b) \<in> set l. length k = 8 \<and> (\<exists>x \<in> set k. x \<noteq> 0) \<and> has_fs h b)"

definition at_member ::
  "('j \<Rightarrow> (bytes \<times> nat) list) \<Rightarrow> ('j \<Rightarrow> nat) \<Rightarrow> nat option \<Rightarrow> (bytes \<times> nat) list \<Rightarrow> nat \<Rightarrow> ('j, 'a) mf_state_scheme \<Rightarrow> bool"
  where
  "at_member jl jc handle l i s \<longleftrightarrow> (\<exists>obj j. table_of handle s = Some (obj, j) \<and> jl j = l \<and> jc j = i)"

lemma pull_member:
  assumes "judy_laws J jl jc" and "jl j = l" and "i < length l" and "jc j = i" and "cell_val J j c = snd (l ! i)"
    and "length (fst (l ! i)) = 8 \<and> (\<exists>x \<in> set (fst (l ! i)). x \<noteq> 0) \<and> has_fs (heap s) (snd (l ! i))"
    and "table_of handle s = Some (obj, j)" and "length (uid fs) = 8"
  shows "\<exists>s'. iterator_result (sub_pullfs J ro j (Some c) (0, u) s) (Some fs)
      = Some (0, Some (loaded fs (snd (l ! i)) (fst (l ! i)) (heap s)), fst (l ! i), s')
    \<and> heap s' = heap s \<and> fsram s' = Some (snd (l ! i)) \<and> at_member jl jc handle l i s'"
proof -
  have "judy_key J n j = fst (l ! i)" for n using assms(1-4) unfolding judy_laws_def by metis
  moreover have "uid_nonzero (fst (l ! i)) = Some True" using assms(6) by (simp add: uid_nonzero_def)
  moreover have "val_ptr (cell_val J j c) = Some (snd (l ! i))" using assms(5,6) by (simp add: val_ptr_def has_fs_def)
  ultimately have "sub_pullfs J ro j (Some c) (0, u) s
      = Some (0, Some (Some (snd (l ! i))), (8, fst (l ! i)), snd (vl_init (s\<lparr>fsram := Some (snd (l ! i))\<rparr>)))"
    by (simp add: sub_pullfs_def select_fs_eq Let_def)
  moreover have "sub_loadfs (Some fs) (Some (snd (l ! i))) (fst (l ! i)) 8 (snd (vl_init (s\<lparr>fsram := Some (snd (l ! i))\<rparr>)))
      = Some (Some (loaded fs (snd (l ! i)) (fst (l ! i)) (heap s)))"
    using sub_loadfs_ok [of "snd (vl_init (s\<lparr>fsram := Some (snd (l ! i))\<rparr>))" "snd (l ! i)" "fst (l ! i)" fs] assms(6,8)
    by simp
  ultimately show ?thesis using assms(2,4,7)
    by (intro exI [of _ "snd (vl_init (s\<lparr>fsram := Some (snd (l ! i))\<rparr>))"])
      (simp add: iterator_result_def at_member_def)
qed

lemma iterator_start_member:
  assumes "judy_laws J jl jc" and "table_of (Some g) s = Some (obj, j)" and "jl j = l" and "l \<noteq> []"
    and "members_ok l (heap s)" and "length (uid fs) = 8"
  shows "\<exists>s'. otfs_iterator_start J ro (Some g) (Some fs) u s
      = Some (0, Some (loaded fs (snd (l ! 0)) (fst (l ! 0)) (heap s)), fst (l ! 0), s')
    \<and> heap s' = heap s \<and> fsram s' = Some (snd (l ! 0)) \<and> at_member jl jc (Some g) l 0 s'"
proof -
  obtain j' r where st: "judy_strt J (replicate 8 0) 0 j = (j', r)" by (cases "judy_strt J (replicate 8 0) 0 j")
  have "jl j' = jl j \<and> (case r of None \<Rightarrow> jl j = [] | Some c \<Rightarrow> jl j \<noteq> [] \<and> jc j' = 0 \<and> cell_val J j' c = snd (jl j ! 0))"
    using assms(1) st unfolding judy_laws_def by blast
  then obtain c where c: "r = Some c" "jl j' = l" "jc j' = 0" "cell_val J j' c = snd (l ! 0)"
    using assms(3,4) by (auto split: option.splits)
  have "l ! 0 \<in> set l" using assms(4) by simp
  then have m: "length (fst (l ! 0)) = 8 \<and> (\<exists>x \<in> set (fst (l ! 0)). x \<noteq> 0) \<and> has_fs (heap (set_table obj j' s)) (snd (l ! 0))"
    using assms(5) by (auto simp: members_ok_def case_prod_beta)
  from pull_member [OF assms(1) c(2) _ c(3,4) m table_of_set [OF assms(2)] assms(6)] assms(4)
  show ?thesis by (simp add: otfs_iterator_start_def vl_multifs_start_def assms(2) st c(1))
qed

lemma iterator_next_member:
  assumes "judy_laws J jl jc" and "at_member jl jc (Some g) l i s" and "i < length l"
    and "\<forall>(k, b) \<in> set (drop (Suc i) l). length k = 8 \<and> (\<exists>x \<in> set k. x \<noteq> 0) \<and> has_fs (heap s) b" and "length (uid fs) = 8"
  shows "\<exists>s'. heap s' = heap s \<and>
     (if Suc i = length l then otfs_iterator_next J ro (Some g) (Some fs) u s = Some (1, Some fs, u, s')
        \<and> (\<exists>obj j. table_of (Some g) s' = Some (obj, j) \<and> jl j = l)
      else otfs_iterator_next J ro (Some g) (Some fs) u s
          = Some (0, Some (loaded fs (snd (l ! Suc i)) (fst (l ! Suc i)) (heap s)), fst (l ! Suc i), s')
        \<and> fsram s' = Some (snd (l ! Suc i)) \<and> at_member jl jc (Some g) l (Suc i) s')"
proof -
  obtain obj j where t: "table_of (Some g) s = Some (obj, j)" "jl j = l" "jc j = i"
    using assms(2) by (auto simp: at_member_def)
  obtain j' r where st: "judy_nxt J j = (j', r)" by (cases "judy_nxt J j")
  have "jc j < length (jl j)" using t assms(3) by simp
  then have n: "jl j' = l \<and> (case r of None \<Rightarrow> Suc i = length l
      | Some c \<Rightarrow> Suc i < length l \<and> jc j' = Suc i \<and> cell_val J j' c = snd (l ! jc j'))"
    using assms(1) st t(2,3) unfolding judy_laws_def by blast
  show ?thesis
  proof (cases r)
    case None
    then show ?thesis using n t st
      by (intro exI [of _ "set_table obj j' s"])
        (simp add: otfs_iterator_next_def vl_multifs_next_def sub_pullfs_def iterator_result_def)
  next
    case (Some c)
    with n have c: "jl j' = l" "Suc i < length l" "jc j' = Suc i" "cell_val J j' c = snd (l ! Suc i)" by auto
    have "l ! Suc i \<in> set (drop (Suc i) l)" using c(2) by (metis Cons_nth_drop_Suc list.set_intros(1))
    then have m: "length (fst (l ! Suc i)) = 8 \<and> (\<exists>x \<in> set (fst (l ! Suc i)). x \<noteq> 0)
        \<and> has_fs (heap (set_table obj j' s)) (snd (l ! Suc i))"
      using assms(4) by (auto simp: case_prod_beta)
    from pull_member [OF assms(1) c(1-4) m table_of_set [OF t(1)] assms(5), of ro u]
    obtain s' where s': "iterator_result (sub_pullfs J ro j' (Some c) (0, u) (set_table obj j' s)) (Some fs)
        = Some (0, Some (loaded fs (snd (l ! Suc i)) (fst (l ! Suc i)) (heap s)), fst (l ! Suc i), s')"
      "heap s' = heap s" "fsram s' = Some (snd (l ! Suc i))" "at_member jl jc (Some g) l (Suc i) s'"
      by auto
    then have "otfs_iterator_next J ro (Some g) (Some fs) u s
        = Some (0, Some (loaded fs (snd (l ! Suc i)) (fst (l ! Suc i)) (heap s)), fst (l ! Suc i), s')"
      by (simp add: otfs_iterator_next_def vl_multifs_next_def t(1) st Some)
    then show ?thesis using c(2) s'(2-4) by auto
  qed
qed

section \<open>Closing the group\<close>

text \<open>The \<^verbatim>\<open>free\<close> of the C library as \<^verbatim>\<open>free_fn\<close>: freeing a block twice is undefined.\<close>

definition free_block :: "nat option \<Rightarrow> 'a core_state_scheme \<Rightarrow> 'a core_state_scheme option" where
  "free_block p s = (case p of
       None \<Rightarrow> Some s
     | Some b \<Rightarrow> if heap s b = None then None else Some (s\<lparr>heap := (heap s)(b := None)\<rparr>))"

lemma deinit_loop_frees:
  assumes "judy_laws J jl jc" and "distinct (map snd l)"
  shows "i < length l \<Longrightarrow> at_member jl jc (Some g) l i s \<Longrightarrow>
    \<forall>(k, b) \<in> set (drop i l). length k = 8 \<and> (\<exists>x \<in> set k. x \<noteq> 0) \<and> has_fs (heap s) b \<Longrightarrow>
    base f = Some (snd (l ! i)) \<Longrightarrow> length (uid f) = 8 \<Longrightarrow>
    \<exists>s'. deinit_loop J ro (Some g) free_block 0 (Some f) u s = Some s'
      \<and> heap s' = (\<lambda>b. if b \<in> snd ` set (drop i l) then None else heap s b)
      \<and> (\<exists>obj j. table_of (Some g) s' = Some (obj, j) \<and> jl j = l)"
proof (induction "length l - i" arbitrary: i f u s)
  case 0
  then show ?case by simp
next
  case (Suc n)
  let ?b = "snd (l ! i)" and ?s = "s\<lparr>heap := (heap s)(snd (l ! i) := None)\<rparr>"
  have d: "drop i l = l ! i # drop (Suc i) l" using Suc.prems(1) by (simp add: Cons_nth_drop_Suc)
  then have "has_fs (heap s) ?b" using Suc.prems(3) by (simp add: case_prod_beta)
  then have fr: "free_block (base f) s = Some ?s"
    using Suc.prems(4) by (auto simp: free_block_def has_fs_def split: option.splits)
  have "distinct (map snd (drop i l))" using assms(2) by (metis distinct_drop drop_map)
  then have nb: "?b \<notin> snd ` set (drop (Suc i) l)" unfolding d by simp
  have m: "\<forall>(k, b) \<in> set (drop (Suc i) l). length k = 8 \<and> (\<exists>x \<in> set k. x \<noteq> 0) \<and> has_fs (heap ?s) b"
  proof (clarify, goal_cases)
    case (1 k b)
    then have "b \<in> snd ` set (drop (Suc i) l)" by (metis rev_image_eqI snd_conv)
    then have "b \<noteq> ?b" using nb by metis
    moreover have "length k = 8 \<and> (\<exists>x \<in> set k. x \<noteq> 0) \<and> has_fs (heap s) b"
      using bspec [OF Suc.prems(3), of "(k, b)"] 1 unfolding d by simp
    ultimately show ?case by (simp add: has_fs_def)
  qed
  have at: "at_member jl jc (Some g) l i ?s" using Suc.prems(2) by (simp add: at_member_def)
  obtain s1 where s1: "heap s1 = heap ?s"
    "if Suc i = length l then otfs_iterator_next J ro (Some g) (Some f) u ?s = Some (1, Some f, u, s1)
        \<and> (\<exists>obj j. table_of (Some g) s1 = Some (obj, j) \<and> jl j = l)
      else otfs_iterator_next J ro (Some g) (Some f) u ?s
          = Some (0, Some (loaded f (snd (l ! Suc i)) (fst (l ! Suc i)) (heap ?s)), fst (l ! Suc i), s1)
        \<and> fsram s1 = Some (snd (l ! Suc i)) \<and> at_member jl jc (Some g) l (Suc i) s1"
    using iterator_next_member [OF assms(1) at Suc.prems(1) m Suc.prems(5), of ro u] by blast
  have hp: "heap ?s = (heap s)(?b := None)" by simp
  show ?case
  proof (cases "Suc i = length l")
    case True
    then have "drop (Suc i) l = []" by simp
    then have "deinit_loop J ro (Some g) free_block 0 (Some f) u s = Some s1"
      using s1(2) True fr by (simp add: deinit_loop.simps [of J ro "Some g" free_block 0] deinit_loop.simps [of J ro "Some g" free_block 1])
    then show ?thesis using s1 True \<open>drop (Suc i) l = []\<close> by (auto simp: d fun_eq_iff)
  next
    case False
    let ?f = "loaded f (snd (l ! Suc i)) (fst (l ! Suc i)) (heap ?s)"
    have nx: "otfs_iterator_next J ro (Some g) (Some f) u ?s = Some (0, Some ?f, fst (l ! Suc i), s1)"
      "at_member jl jc (Some g) l (Suc i) s1"
      using s1(2) False by auto
    have lt: "Suc i < length l" using False Suc.prems(1) by simp
    then have "l ! Suc i \<in> set (drop (Suc i) l)" by (metis Cons_nth_drop_Suc list.set_intros(1))
    then have u8: "base ?f = Some (snd (l ! Suc i))" "length (uid ?f) = 8"
      using m by (auto simp: loaded_def case_prod_beta)
    have "n = length l - Suc i" using Suc.hyps(2) by simp
    from Suc.hyps(1) [OF this lt nx(2) _ u8, of "fst (l ! Suc i)"] m s1(1)
    obtain s2 where s2: "deinit_loop J ro (Some g) free_block 0 (Some ?f) (fst (l ! Suc i)) s1 = Some s2"
      "heap s2 = (\<lambda>b. if b \<in> snd ` set (drop (Suc i) l) then None else heap s1 b)"
      "\<exists>obj j. table_of (Some g) s2 = Some (obj, j) \<and> jl j = l"
      by auto
    have "deinit_loop J ro (Some g) free_block 0 (Some f) u s = Some s2"
      using fr nx(1) s2(1) by (subst deinit_loop.simps) simp
    then show ?thesis using s2(2,3) s1(1) by (auto simp: d fun_eq_iff)
  qed
qed

text \<open>
  C17. Closing a group with \<^verbatim>\<open>free\<close> returns after it has visited every filesystem once: each
  block of a member is freed exactly once, every other block is kept, the table is closed.
\<close>

theorem otfs_deinit_frees_all:
  assumes "judy_laws J jl jc" and "table_of (Some g) s = Some (obj, j)" and "jl j \<noteq> []"
    and "members_ok (jl j) (heap s)" and "length (uid fs0) = 8"
  shows "\<exists>s'. otfs_deinit J ro fs0 (Some g) (Some free_block) s = Some (0, s')
    \<and> heap s' = (\<lambda>b. if b \<in> snd ` set (jl j) then None else heap s b) \<and> mf_tabs s' g = None"
proof -
  let ?l = "jl j" and ?f = "loaded fs0 (snd (jl j ! 0)) (fst (jl j ! 0)) (heap s)"
  obtain s1 where s1: "otfs_iterator_start J ro (Some g) (Some fs0) (replicate 8 0) s = Some (0, Some ?f, fst (?l ! 0), s1)"
    "heap s1 = heap s" "at_member jl jc (Some g) ?l 0 s1"
    using iterator_start_member [OF assms(1,2) refl assms(3-5)] by blast
  have "?l ! 0 \<in> set ?l" using assms(3) by simp
  then have "length (fst (?l ! 0)) = 8" using assms(4) by (auto simp: members_ok_def case_prod_beta)
  moreover have "distinct (map snd ?l)"
    "\<forall>(k, b) \<in> set (drop 0 ?l). length k = 8 \<and> (\<exists>x \<in> set k. x \<noteq> 0) \<and> has_fs (heap s1) b"
    using assms(4) s1(2) by (auto simp: members_ok_def)
  ultimately obtain s2 where s2: "deinit_loop J ro (Some g) free_block 0 (Some ?f) (fst (?l ! 0)) s1 = Some s2"
    "heap s2 = (\<lambda>b. if b \<in> snd ` set (drop 0 ?l) then None else heap s1 b)"
    "\<exists>obj j. table_of (Some g) s2 = Some (obj, j)"
    using deinit_loop_frees [OF assms(1) _ _ s1(3), of ?f ro "fst (?l ! 0)"] assms(3) by (auto simp: loaded_def)
  then obtain obj2 j2 where t: "table_of (Some g) s2 = Some (obj2, j2)" by blast
  then have "obj2 = g" by (auto simp: table_of_def bind_eq_Some_conv)
  then show ?thesis
    using s1(1) s2(1) s2(2) [unfolded s1(2)] t by (simp add: otfs_deinit_def vl_multifs_deinit_def)
qed

section \<open>Creating a filesystem\<close>

lemma key_loaded_sel [simp]:
  "heap (key_loaded expand build_id fd i s) = heap s" "fsram (key_loaded expand build_id fd i s) = fsram s"
  "heap (auth_started s) = heap s" "fsram (auth_started s) = fsram s"
  "fsblock (auth_started s) = fsblock s" "sub_new_fp (auth_started s) = sub_new_fp s"
  by (simp_all add: key_loaded_def put_file_def auth_started_def fsblock_def sub_new_fp_def)

lemma key_loaded_table [simp]:
  "table_of handle (key_loaded expand build_id fd i s) = table_of handle s"
  "table_of handle (auth_started s) = table_of handle s"
  for s :: "('j, 'a) mf_state_scheme"
  by (simp_all add: key_loaded_def put_file_def auth_started_def table_of_def cong: option.case_cong)

lemma key_loaded_info:
  assumes "auth_wf s"
  shows "take 2 (dlls_info (key_loaded expand build_id fd 1 (key_loaded expand build_id fd 0 s))) = [key_entry 0, key_entry 1]"
proof -
  have "length (dlls_info s) = 3" using assms by (simp add: auth_wf_def AUTH_NUM_ELEMENTS_def)
  then obtain a b c where "dlls_info s = [a, b, c]"
    by (auto simp: length_Suc_conv numeral_3_eq_3)
  then show ?thesis by (simp add: key_loaded_def put_file_def)
qed

lemma vl_multifs_add_frame:
  assumes "vl_multifs_add J handle b fsid s = Some (rc, s')" and "\<And>j. snd (judy_cell J (snd fsid) (fst fsid) j) \<noteq> None"
  shows "rc \<noteq> 0x15 \<and> (\<exists>t. s' = s\<lparr>mf_tabs := t\<rparr>)"
proof -
  obtain obj j where t: "table_of handle s = Some (obj, j)"
    using assms(1) by (auto simp: vl_multifs_add_def bind_eq_Some_conv)
  obtain j' c where c: "judy_cell J (snd fsid) (fst fsid) j = (j', Some c)"
    using assms(2) [of j] by (cases "judy_cell J (snd fsid) (fst fsid) j") auto
  show ?thesis using assms(1) t c by (auto simp: vl_multifs_add_def set_table_def split: if_splits)
qed

text \<open>
  C5. Creating a filesystem: \<^verbatim>\<open>otfs_load_defaults\<close> allocates a block of 1280 bytes and fills it,
  and \<^verbatim>\<open>otfs_new\<close>, given a new identity, adds it to the group, selects it, and loads the root
  and user keys from it. Afterwards the current block is the default filesystem, all file
  slots are free, and every other block is as before.
\<close>

theorem otfs_create_filesystem:
  assumes "judy_laws J jl jc" and "group_ok jl (Some g) s" and "length k = 8" and "fs_view jl (Some g) s k = None"
    and "\<And>j. snd (judy_cell J k 8 j) \<noteq> None"
    and "rodata_ok build_id ro" and "malloc 1280 = Some (b, m)" and "length m = 1280" and "b \<noteq> 0"
    and "1280 < maxalloc" and "auth_wf s" and "length kfile = 22" and "length build_id = 9"
  shows "\<exists>fs1 s1 s2. otfs_load_defaults ro malloc (Some fs) maxalloc s = Some (1280, Some fs1, s1)
    \<and> base fs1 = Some b \<and> alloc fs1 = 1280
    \<and> otfs_new J ro expand act kfile (Some g) (Some (fs1\<lparr>uid := k\<rparr>)) s1 = Some (0, s2)
    \<and> fs_view jl (Some g) s2 = (fs_view jl (Some g) s)(k \<mapsto> b)
    \<and> fsram s2 = Some b \<and> default_ready build_id s2 \<and> sub_new_fp s2 = Some 0
    \<and> take 2 (dlls_info s2) = [key_entry 0, key_entry 1]
    \<and> (\<forall>b'. b' \<noteq> b \<longrightarrow> heap s2 b' = heap s b')"
proof -
  let ?img = "default_image ro m" and ?fs1 = "fs\<lparr>alloc := 1280, base := Some b\<rparr>"
  let ?s1 = "s\<lparr>heap := (heap s)(b \<mapsto> ?img)\<rparr>"
  have hdr: "vworm_fsheader_defload (Some default_fsheader) = Some (Some default_fsheader)"
    unfolding vworm_fsheader_defload_def overhead_files_def by (simp add: fsheader_at_bytes)
  have "otfs_load_defaults ro malloc (Some fs) maxalloc s = Some (1280, Some ?fs1, ?s1)"
    using defload_eq [OF assms(6), of "s\<lparr>heap := (heap s)(b \<mapsto> m)\<rparr>" b] assms(7,8,10)
    by (simp add: otfs_load_defaults_def hdr vworm_fsalloc_default)
  moreover have g1: "group_ok jl (Some g) ?s1" "fs_view jl (Some g) ?s1 = fs_view jl (Some g) s"
    using assms(2) by (simp_all add: group_ok_def fs_view_def)
  obtain obj j where t1: "table_of (Some g) ?s1 = Some (obj, j)"
    using g1(1) by (auto simp: group_ok_def split: option.splits)
  obtain s2 where add: "vl_multifs_add J (Some g) (Some b) (8, k) ?s1 = Some (0, s2)"
    and cs: "fs_view jl (Some g) s2 = (fs_view jl (Some g) s)(k \<mapsto> b)"
    using vl_multifs_add_spec [OF assms(1) g1(1) assms(3) t1, of "Some b"] assms(4,5) g1(2)
    by (auto simp: ptr_val_def)
  obtain tb where s2: "s2 = ?s1\<lparr>mf_tabs := tb\<rparr>"
    using vl_multifs_add_frame [OF add] assms(5) by auto
  let ?s3 = "snd (vl_init (s2\<lparr>fsram := Some b\<rparr>))"
  let ?s4 = "key_loaded expand build_id 0 1 (key_loaded expand build_id 0 0 (auth_started ?s3))"
  have rdy: "default_ready build_id ?s3"
    using length_default_image [OF assms(6,8)] default_image_headers [OF assms(6,8)]
      default_image_stock [OF assms(6,13)] default_image_fsheader [OF assms(6,8)]
    by (simp add: default_ready_def s2 fsblock_def)
  have wf: "auth_wf ?s3" using assms(11) by (simp add: s2 auth_wf_def)
  note init = auth_init_default_spec [OF rdy vl_init_sel(8) assms(12) wf, of expand act]
  have st: "default_ready build_id (auth_started ?s3)" "sub_new_fp (auth_started ?s3) = Some 0" "auth_wf (auth_started ?s3)"
    using rdy auth_started_ready [OF wf] by (simp_all add: default_ready_def)
  note k0 = key_loaded_ready [OF st, of expand 0]
  note k1 = key_loaded_ready [OF k0, of expand 1]
  have "otfs_new J ro expand act kfile (Some g) (Some (?fs1\<lparr>uid := k\<rparr>)) ?s1 = Some (0, ?s4)"
    using add cs init
    by (simp add: otfs_new_def vworm_init_def prod.case_eq_if)
  moreover have "fs_view jl (Some g) ?s4 = (fs_view jl (Some g) s)(k \<mapsto> b)"
    using cs by (simp add: fs_view_def)
  ultimately show ?thesis
    using k1(1,2) key_loaded_info [OF st(3), of expand build_id 0]
    by (intro exI [of _ ?fs1] exI [of _ ?s1] exI [of _ ?s4] conjI) (simp_all add: s2)
qed

section \<open>The filesystems of a group are isolated\<close>

lemma file_wr_block_frame: "file_wr fn a d s = Some (r, s') \<Longrightarrow> block_frame s s'"
  by (auto simp: file_wr_def vsram_mark_def vworm_mark_def intro: vworm_write_block_frame
      split: option.splits mem_fn.splits)

lemma store_loop_block_frame: "store_loop (file_wr fn) c l data t s = Some (r, s') \<Longrightarrow> block_frame s s'"
proof (induction "file_wr fn :: u16 \<Rightarrow> u16 \<Rightarrow> 'a vl_state_scheme \<Rightarrow> (u8 \<times> 'a vl_state_scheme) option" c l data t s
    rule: store_loop.induct)
  case (1 cursor limit b0 b1 data test s)
  then show ?case
    by (auto simp: bind_eq_Some_conv split: if_splits intro: block_frame_trans dest: file_wr_block_frame)
qed (auto split: if_splits)

lemma table_of_frame:
  fixes s :: "('j, 'a) mf_state_scheme"
  shows "block_frame s s' \<Longrightarrow> table_of h s' = table_of h s"
  by (auto simp: block_frame_def)

lemma table_of_put_file [simp]: "table_of h (put_file fd f s) = table_of h s"
  for s :: "('j, 'a) mf_state_scheme"
  by (simp add: put_file_def table_of_def cong: option.case_cong)

lemma vl_store_frame:
  assumes "vl_store fd len data s = Some (r, s')"
  shows "\<exists>f. block_frame (put_file fd f s) s'"
  using assms by (auto simp: vl_store_def bind_eq_Some_conv Let_def dest: store_loop_block_frame)

text \<open>
  C7. The filesystems of a group are isolated: whatever is stored in a file of one of them,
  selecting another one afterwards gives its block exactly as it was before, with all file
  slots free.
\<close>

theorem otfs_isolation:
  fixes s :: "('j, 'a) mf_state_scheme"
  assumes "judy_laws J jl jc" and "group_ok jl (Some g) s" and "length ka = 8" and "length kb = 8"
    and "fs_view jl (Some g) s ka = Some a" and "fs_view jl (Some g) s kb = Some b" and "a \<noteq> b"
    and "has_fs (heap s) a" and "has_fs (heap s) b" and "length (uid fs) = 8"
    and "otfs_setfs J ro (Some g) (Some fs) kb s = Some (0, fs1, s1)"
    and "ISF_open_su ident s1 = Some (Some fd, s2)" and "vl_store fd len data s2 = Some (r, s3)"
  shows "\<exists>fs4 s4. otfs_setfs J ro (Some g) (Some fs) ka s3 = Some (0, fs4, s4)
    \<and> fsram s4 = Some a \<and> fsblock s4 = heap s a \<and> sub_new_fp s4 = Some 0"
proof -
  have s1: "fsram s1 = Some b" "heap s1 = heap s" "fs_view jl (Some g) s1 = fs_view jl (Some g) s"
    "group_ok jl (Some g) s1"
    using otfs_setfs_spec [OF assms(1,2,4,6,9,10), of ro] assms(11) by auto
  obtain f where "s2 = put_file fd f s1"
    using assms(12) by (auto simp: ISF_open_su_def vl_open_def bind_eq_Some_conv
        vl_getheader_vaddr_def split: if_splits dest!: vl_open_file_inv)
  moreover obtain f' where "block_frame (put_file fd f' s2) s3" using vl_store_frame [OF assms(13)] by blast
  ultimately have fr: "block_frame (put_file fd f' s1) s3" by simp
  have h: "heap s3 a = heap s a"
    using block_frame_simps(8) [OF fr, of a] s1(1,2) assms(7) by simp
  have "group_ok jl (Some g) s3" "fs_view jl (Some g) s3 ka = Some a"
    using s1(3,4) assms(5) table_of_frame [OF fr] by (simp_all add: group_ok_def fs_view_def)
  moreover have "has_fs (heap s3) a" using assms(8) h by (simp add: has_fs_def)
  ultimately obtain s4 where "otfs_setfs J ro (Some g) (Some fs) ka s3 = Some (0, Some (loaded fs a ka (heap s3)), s4)"
    "fsram s4 = Some a" "sub_new_fp s4 = Some 0" "heap s4 = heap s3"
    using otfs_setfs_spec [OF assms(1) _ assms(3) _ _ assms(10)] by blast
  then show ?thesis using h by (auto simp: fsblock_def)
qed

section \<open>A group of two filesystems\<close>

definition demo_uid2 :: bytes where "demo_uid2 = [0, 0, 0, 0, 0, 0, 0, 2]"

definition demo_fs0 :: otfs_t where "demo_fs0 = \<lparr>uid = replicate 8 0, base = None, alloc = 0\<rparr>"

definition demo_block :: bytes where "demo_block = default_image demo_rodata (replicate 1280 0)"

definition demo_two :: "((bytes \<times> nat) list \<times> nat) mf_state" where
  "demo_two = set_table 3 ([(demo_uid, 5), (demo_uid2, 6)], 0) (demo_mf\<lparr>heap := [5 \<mapsto> demo_block, 6 \<mapsto> demo_block]\<rparr>)"

lemma demo_two_table: "table_of (Some 3) demo_two = Some (3, [(demo_uid, 5), (demo_uid2, 6)], 0)"
  by (simp add: demo_two_def table_of_def set_table_def)

lemma demo_two_ok:
  "group_ok fst (Some 3) demo_two" "fs_view fst (Some 3) demo_two demo_uid = Some 5"
  "fs_view fst (Some 3) demo_two demo_uid2 = Some 6" "length demo_uid2 = 8" "length demo_uid = 8"
  "heap demo_two = [5 \<mapsto> demo_block, 6 \<mapsto> demo_block]" "length (uid demo_fs0) = 8"
proof -
  show "heap demo_two = [5 \<mapsto> demo_block, 6 \<mapsto> demo_block]" by (simp add: demo_two_def set_table_def)
qed (simp_all add: group_ok_def fs_view_def demo_two_table demo_uid_def demo_uid2_def demo_fs0_def)

lemma demo_two_fs: "has_fs (heap demo_two) 5" "has_fs (heap demo_two) 6"
  using default_image_fsheader [OF demo_rodata_ok, of "replicate 1280 0"]
  by (simp_all add: has_fs_def demo_two_ok(6) demo_block_def)

lemma demo_two_members: "members_ok (fst ([(demo_uid, 5), (demo_uid2, 6)], 0)) (heap demo_two)"
  using demo_two_fs by (simp add: members_ok_def demo_uid_def demo_uid2_def)

theorem otfs_setfs_selects_witness:
  "\<exists>s' fs'. otfs_setfs list_judy demo_rodata (Some 3) (Some demo_fs0) demo_uid2 demo_two = Some (0, Some fs', s')
     \<and> fsram s' = Some 6 \<and> base fs' = Some 6"
  using otfs_setfs_selects [OF list_judy_laws demo_two_ok(1,4,3) demo_two_fs(2) demo_two_ok(7), of demo_rodata]
  by (auto simp: loaded_def)

theorem otfs_deinit_frees_all_witness:
  "\<exists>s'. otfs_deinit list_judy demo_rodata demo_fs0 (Some 3) (Some free_block) demo_two = Some (0, s')
     \<and> heap s' = Map.empty"
  using otfs_deinit_frees_all [OF list_judy_laws demo_two_table _ demo_two_members demo_two_ok(7), of demo_rodata]
  by (auto simp: demo_two_ok(6) fun_eq_iff)

theorem otfs_isolation_witness:
  "\<exists>fs1 s1 s2 s3 s4 fs4. otfs_setfs list_judy demo_rodata (Some 3) (Some demo_fs0) demo_uid2 demo_two = Some (0, fs1, s1)
     \<and> ISF_open_su 0x0E s1 = Some (Some 0, s2) \<and> vl_store 0 2 [7, 8] s2 = Some (0, s3)
     \<and> otfs_setfs list_judy demo_rodata (Some 3) (Some demo_fs0) demo_uid s3 = Some (0, fs4, s4)
     \<and> fsblock s4 = Some demo_block"
proof -
  obtain fs1 s1 where s1: "otfs_setfs list_judy demo_rodata (Some 3) (Some demo_fs0) demo_uid2 demo_two = Some (0, fs1, s1)"
    "fsram s1 = Some 6" "heap s1 = heap demo_two" "sub_new_fp s1 = Some 0"
    using otfs_setfs_spec [OF list_judy_laws demo_two_ok(1,4,3) demo_two_fs(2) demo_two_ok(7), of demo_rodata] by blast
  have rdy: "default_ready (replicate 9 0x41) s1"
    using demo_rodata_ok s1(2,3)
    by (simp add: default_ready_def fsblock_def demo_two_ok(6) demo_block_def length_default_image
        default_image_headers default_image_stock default_image_fsheader)
  let ?s2 = "put_file 0 (isf_opened 14) s1"
  have o: "ISF_open_su 0x0E s1 = Some (Some 0, ?s2)"
    using isf_open_default [OF rdy _ s1(4), of 14] by (simp add: isf_files_def)
  note f = isf_open_fields [OF rdy _ s1(4), of 14]
  have "f_alloc (isf_opened 14) = 22" by (simp add: isf_opened_def opened_def isf_files_def ISF_ALLOC_eq Let_def)
  then obtain s3 where s3: "vl_store 0 2 [7, 8] ?s2 = Some (0, s3)"
    using vl_store_spec [OF f(1), of 2 2 "[7, 8]"] f(2,3) by auto
  from otfs_isolation [OF list_judy_laws demo_two_ok(1,5,4,2,3) _ demo_two_fs demo_two_ok(7) s1(1) o s3]
  show ?thesis using s1(1) o s3 by (fastforce simp: demo_two_ok(6))
qed

theorem otfs_create_filesystem_witness:
  "\<exists>fs1 s1 s2. otfs_load_defaults demo_rodata (\<lambda>_. Some (6, replicate 1280 0)) (Some demo_fs0) 2000 demo_mf1 = Some (1280, Some fs1, s1)
     \<and> otfs_new list_judy demo_rodata (take 2) (\<lambda>_ _ s. None) (replicate 22 0) (Some 3) (Some (fs1\<lparr>uid := demo_uid2\<rparr>)) s1 = Some (0, s2)
     \<and> fs_view fst (Some 3) s2 = [demo_uid \<mapsto> 5, demo_uid2 \<mapsto> 6]"
proof -
  have cell: "snd (judy_cell list_judy demo_uid2 8 j) \<noteq> None" for j
    by (auto simp: list_judy_def split: prod.split option.split)
  have "auth_wf demo_mf1"
    by (simp add: auth_wf_def demo_mf1_def set_table_def demo_mf_def vl_state.defs demo_fs_def vl_init_def demo_vl_def
        core_state.extend_def demo_core_def auth_state.extend_def demo_auth_def AUTH_NUM_ELEMENTS_def)
  moreover have "fs_view fst (Some 3) demo_mf1 demo_uid2 = None"
    by (simp add: demo_mf_ok demo_uid_def demo_uid2_def)
  ultimately have "\<exists>fs1 s1 s2. otfs_load_defaults demo_rodata (\<lambda>_. Some (6, replicate 1280 0)) (Some demo_fs0) 2000 demo_mf1 = Some (1280, Some fs1, s1)
     \<and> otfs_new list_judy demo_rodata (take 2) (\<lambda>_ _ s. None) (replicate 22 0) (Some 3) (Some (fs1\<lparr>uid := demo_uid2\<rparr>)) s1 = Some (0, s2)
     \<and> fs_view fst (Some 3) s2 = (fs_view fst (Some 3) demo_mf1)(demo_uid2 \<mapsto> 6)"
    using otfs_create_filesystem [OF list_judy_laws demo_mf_ok(3) demo_two_ok(4) _ cell demo_rodata_ok, where b = 6
        and m = "replicate 1280 0" and malloc = "\<lambda>_. Some (6, replicate 1280 0)" and maxalloc = 2000
        and kfile = "replicate 22 0" and expand = "take 2" and act = "\<lambda>_ _ s. None" and fs = demo_fs0]
    by auto
  then show ?thesis by (simp add: demo_mf_ok(4))
qed

end
