(* ===== verification/Cmem.thy ===== *)
theory Cmem
  imports Prelude
begin

text \<open>
  Memory that several components point into: numbered blocks of bytes, a pointer being a
  block and an offset, and the block copies of \<^verbatim>\<open>platform/posix_c/otlib_memcpy.c\<close>. An access
  outside a block, or a copy between overlapping areas, is undefined and gives \<open>None\<close>.
\<close>

type_synonym mem = "nat \<Rightarrow> bytes option"
type_synonym ptr = "nat \<times> int"

definition ptr_add :: "ptr \<Rightarrow> int \<Rightarrow> ptr" where
  "ptr_add p n = (fst p, snd p + n)"

text \<open>The difference of two pointers is defined inside one block.\<close>

definition ptr_diff :: "ptr \<Rightarrow> ptr \<Rightarrow> int option" where
  "ptr_diff p q = (if fst p = fst q then Some (snd p - snd q) else None)"

text \<open>Conversion to \<^verbatim>\<open>ot_int\<close>, a signed 16-bit number, and to \<^verbatim>\<open>ot_uint\<close>.\<close>

definition to_ot_int :: "int \<Rightarrow> int" where
  "to_ot_int n = sint (word_of_int n :: u16)"

definition to_ot_uint :: "int \<Rightarrow> u16" where
  "to_ot_uint n = word_of_int n"

lemma to_ot_int_small [simp]: "- 32768 \<le> n \<Longrightarrow> n < 32768 \<Longrightarrow> to_ot_int n = n"
  by (simp add: to_ot_int_def sint_sbintrunc' signed_take_bit_int_eq_self)

lemma unat_to_ot_uint: "0 \<le> n \<Longrightarrow> n < 65536 \<Longrightarrow> unat (to_ot_uint n) = nat n"
  by (simp add: to_ot_uint_def unat_eq_nat_uint uint_word_of_int)

definition mem_rd :: "ptr \<Rightarrow> nat \<Rightarrow> mem \<Rightarrow> bytes option" where
  "mem_rd p n h = do { m \<leftarrow> h (fst p); if 0 \<le> snd p then rd_bytes m (nat (snd p)) n else None }"

definition mem_wr :: "ptr \<Rightarrow> bytes \<Rightarrow> mem \<Rightarrow> mem option" where
  "mem_wr p bs h = do {
     m \<leftarrow> h (fst p);
     if 0 \<le> snd p then do { m \<leftarrow> wr_bytes m (nat (snd p)) bs; Some (h(fst p \<mapsto> m)) } else None
   }"

definition ld8 :: "ptr \<Rightarrow> mem \<Rightarrow> u8 option" where
  "ld8 p h = do { bs \<leftarrow> mem_rd p 1 h; Some (hd bs) }"

definition st8 :: "ptr \<Rightarrow> u8 \<Rightarrow> mem \<Rightarrow> mem option" where
  "st8 p b h = mem_wr p [b] h"

definition apart :: "ptr \<Rightarrow> ptr \<Rightarrow> nat \<Rightarrow> bool" where
  "apart p q n \<longleftrightarrow> fst p \<noteq> fst q \<or> snd p + int n \<le> snd q \<or> snd q + int n \<le> snd p"

definition ot_memcpy :: "ptr \<Rightarrow> ptr \<Rightarrow> u16 \<Rightarrow> mem \<Rightarrow> mem option" where
  "ot_memcpy dst src len h =
     (if len = 0 then Some h
      else if apart dst src (unat len) then do { bs \<leftarrow> mem_rd src (unat len) h; mem_wr dst bs h }
      else None)"

definition ot_memcpy_2 :: "ptr \<Rightarrow> ptr \<Rightarrow> u16 \<Rightarrow> mem \<Rightarrow> mem option" where
  "ot_memcpy_2 dst src len h =
     (if len = 0 then Some h
      else if apart dst src (2 * unat len) then do { bs \<leftarrow> mem_rd src (2 * unat len) h; mem_wr dst bs h }
      else None)"

definition ot_memset :: "ptr \<Rightarrow> u8 \<Rightarrow> u16 \<Rightarrow> mem \<Rightarrow> mem option" where
  "ot_memset dst v len h = (if len = 0 then Some h else mem_wr dst (replicate (unat len) v) h)"

text \<open>The length is an \<^verbatim>\<open>ot_uint\<close>, so doubling it loses its top bit.\<close>

definition ot_memset_2 :: "ptr \<Rightarrow> u16 \<Rightarrow> u16 \<Rightarrow> mem \<Rightarrow> mem option" where
  "ot_memset_2 dst v len h = ot_memset dst (ucast v) (push_bit 1 len) h"

definition ot_memset_4 :: "ptr \<Rightarrow> u32 \<Rightarrow> u16 \<Rightarrow> mem \<Rightarrow> mem option" where
  "ot_memset_4 dst v len h = ot_memset dst (ucast v) (push_bit 2 len) h"

section \<open>Laws\<close>

lemma ptr_add_0 [simp]: "ptr_add p 0 = p"
  by (simp add: ptr_add_def)

lemma ptr_add_add [simp]: "ptr_add (ptr_add p a) b = ptr_add p (a + b)"
  by (simp add: ptr_add_def)

lemma ptr_add_sel [simp]: "fst (ptr_add p a) = fst p" "snd (ptr_add p a) = snd p + a"
  by (simp_all add: ptr_add_def)

lemma ptr_diff_add [simp]: "ptr_diff (ptr_add p a) (ptr_add p b) = Some (a - b)"
  "ptr_diff (ptr_add p a) p = Some a"
  by (simp_all add: ptr_diff_def)

text \<open>The \<open>n\<close> bytes at a pointer lie in a block.\<close>

definition accessible :: "ptr \<Rightarrow> nat \<Rightarrow> mem \<Rightarrow> bool" where
  "accessible p n h \<longleftrightarrow> (\<exists>m. h (fst p) = Some m \<and> 0 \<le> snd p \<and> nat (snd p) + n \<le> length m)"

lemma mem_rd_Some: "(\<exists>bs. mem_rd p n h = Some bs) \<longleftrightarrow> accessible p n h"
  by (auto simp: mem_rd_def accessible_def bind_eq_Some_conv buf_simps)

lemma mem_rd_length: "mem_rd p n h = Some bs \<Longrightarrow> length bs = n"
  by (auto simp: mem_rd_def bind_eq_Some_conv buf_simps split: if_splits)

lemma mem_wr_Some: "(\<exists>h'. mem_wr p bs h = Some h') \<longleftrightarrow> accessible p (length bs) h"
  by (auto simp: mem_wr_def accessible_def bind_eq_Some_conv buf_simps)

lemma mem_rd_wr: "mem_wr p bs h = Some h' \<Longrightarrow> mem_rd p (length bs) h' = Some bs"
  by (auto simp: mem_wr_def mem_rd_def bind_eq_Some_conv intro: rd_bytes_wr_bytes split: if_splits)

lemma accessible_wr: "mem_wr p bs h = Some h' \<Longrightarrow> accessible q n h' = accessible q n h"
  by (auto simp: mem_wr_def accessible_def bind_eq_Some_conv length_wr_bytes split: if_splits)

lemma rd_bytes_wr_apart:
  assumes "wr_bytes m a bs = Some m'" and "b + n \<le> a \<or> a + length bs \<le> b"
  shows "rd_bytes m' b n = rd_bytes m b n"
proof -
  have m: "a + length bs \<le> length m" "m' = take a m @ bs @ drop (a + length bs) m"
    using assms(1) by (simp_all add: buf_simps)
  have "take n (drop b m') = take n (drop b m)" if "b + n \<le> a"
  proof -
    have "take (n + b) m' = take (n + b) m" using that m by (simp add: min_def add.commute)
    then show ?thesis by (simp add: take_drop)
  qed
  moreover have "drop b m' = drop b m" if "a + length bs \<le> b"
    using that m by (simp add: min_def)
  ultimately show ?thesis using assms(2) length_wr_bytes [OF assms(1)] by (auto simp: rd_bytes_def)
qed

lemma mem_rd_wr_apart:
  assumes "mem_wr p bs h = Some h'"
    and "fst p \<noteq> fst q \<or> snd q + int n \<le> snd p \<or> snd p + int (length bs) \<le> snd q"
  shows "mem_rd q n h' = mem_rd q n h"
proof -
  obtain m m' where m: "h (fst p) = Some m" "0 \<le> snd p" "wr_bytes m (nat (snd p)) bs = Some m'" "h' = h(fst p \<mapsto> m')"
    using assms(1) by (auto simp: mem_wr_def bind_eq_Some_conv split: if_splits)
  show ?thesis
  proof (cases "fst p = fst q \<and> 0 \<le> snd q")
    case True
    then have "nat (snd q) + n \<le> nat (snd p) \<or> nat (snd p) + length bs \<le> nat (snd q)"
      using assms(2) m(2) by linarith
    then show ?thesis using True m rd_bytes_wr_apart [OF m(3)] by (simp add: mem_rd_def)
  next
    case False
    then show ?thesis using m by (auto simp: mem_rd_def split: Option.bind_splits)
  qed
qed

lemma mem_rd_split:
  "mem_rd p (a + b) h = do { x \<leftarrow> mem_rd p a h; y \<leftarrow> mem_rd (ptr_add p (int a)) b h; Some (x @ y) }"
  by (auto simp: mem_rd_def rd_bytes_def nat_add_distrib take_add add.commute drop_drop
      split: Option.bind_split)

lemma wr_bytes_Cons: "wr_bytes m a (b # bs) = do { m \<leftarrow> wr_bytes m a [b]; wr_bytes m (Suc a) bs }"
proof (cases "a + Suc (length bs) \<le> length m")
  case True
  then have "take (Suc a) (take a m @ b # drop (Suc a) m) = take a m @ [b]"
    "drop (Suc a + length bs) (take a m @ b # drop (Suc a) m) = drop (a + Suc (length bs)) m"
    by (simp_all add: min_def add.commute)
  then show ?thesis using True by (simp add: wr_bytes_def min_def)
qed (auto simp: wr_bytes_def min_def)

lemma mem_wr_Cons: "mem_wr p (b # bs) h = do { h \<leftarrow> mem_wr p [b] h; mem_wr (ptr_add p 1) bs h }"
proof (cases "\<exists>m. h (fst p) = Some m \<and> 0 \<le> snd p")
  case True
  then obtain m where m: "h (fst p) = Some m" "0 \<le> snd p" by blast
  then have n: "nat (snd p + 1) = Suc (nat (snd p))" by simp
  show ?thesis
    using m wr_bytes_Cons [of m "nat (snd p)" b bs] unfolding mem_wr_def ptr_add_sel
    by (cases "wr_bytes m (nat (snd p)) [b]") (auto simp: n)
next
  case False
  then show ?thesis by (auto simp: mem_wr_def split: Option.bind_split)
qed

lemma mem_wr_Nil: "mem_wr p [] h = Some h' \<Longrightarrow> h' = h"
  by (auto simp: mem_wr_def bind_eq_Some_conv buf_simps fun_upd_idem split: if_splits)

end
