(* ===== verification/Ot_Queue.thy ===== *)
theory Ot_Queue
  imports Cmem
begin

text \<open>
  The byte queues of \<^verbatim>\<open>otlib/queue.c\<close> on the little-endian POSIX platform, which does not
  define \<^verbatim>\<open>__UNALIGNED_ACCESS__\<close>. A queue object holds pointers into a buffer; the operations
  take and return the object and the memory.
\<close>

section \<open>Queue objects\<close>

record ot_queue =
  q_alloc :: u16
  q_options :: u16
  q_getcursor :: ptr
  q_putcursor :: ptr
  q_front :: ptr
  q_back :: ptr

type_synonym qmem = "ot_queue \<times> mem"

definition q_empty :: "ot_queue \<Rightarrow> ot_queue" where
  "q_empty q = q\<lparr>q_options := 0, q_back := ptr_add (q_front q) (uint (q_alloc q)),
     q_putcursor := q_front q, q_getcursor := q_front q\<rparr>"

definition q_init :: "ot_queue \<Rightarrow> ptr \<Rightarrow> u16 \<Rightarrow> ot_queue" where
  "q_init q buffer alloc =
     q_empty (q\<lparr>q_alloc := alloc, q_front := buffer, q_back := ptr_add buffer (uint alloc)\<rparr>)"

definition q_rebase :: "ot_queue \<Rightarrow> ptr \<Rightarrow> ot_queue" where
  "q_rebase q buffer =
     q\<lparr>q_front := buffer, q_getcursor := buffer, q_putcursor := buffer, q_back := buffer\<rparr>"

definition q_copy :: "ot_queue \<Rightarrow> ot_queue \<Rightarrow> ot_queue" where
  "q_copy q1 q2 = q2"

definition q_getcursor_val :: "int \<Rightarrow> qmem \<Rightarrow> u8 option" where
  "q_getcursor_val offset s = ld8 (ptr_add (q_getcursor (fst s)) offset) (snd s)"

definition q_getcursor_insert :: "int \<Rightarrow> u8 \<Rightarrow> qmem \<Rightarrow> qmem option" where
  "q_getcursor_insert offset val s =
     do { h \<leftarrow> st8 (ptr_add (q_getcursor (fst s)) offset) val (snd s); Some (fst s, h) }"

definition q_putcursor_val :: "int \<Rightarrow> qmem \<Rightarrow> u8 option" where
  "q_putcursor_val offset s = ld8 (ptr_add (q_putcursor (fst s)) offset) (snd s)"

definition q_putcursor_insert :: "int \<Rightarrow> u8 \<Rightarrow> qmem \<Rightarrow> qmem option" where
  "q_putcursor_insert offset val s =
     do { h \<leftarrow> st8 (ptr_add (q_putcursor (fst s)) offset) val (snd s); Some (fst s, h) }"

definition q_offset :: "ot_queue \<Rightarrow> int \<Rightarrow> ptr" where
  "q_offset q offset = ptr_add (q_front q) offset"

text \<open>The distances are converted to the signed 16-bit result type.\<close>

definition q_length :: "ot_queue \<Rightarrow> int option" where
  "q_length q = map_option to_ot_int (ptr_diff (q_putcursor q) (q_front q))"

definition q_span :: "ot_queue \<Rightarrow> int option" where
  "q_span q = map_option to_ot_int (ptr_diff (q_putcursor q) (q_getcursor q))"

definition q_writespace :: "ot_queue \<Rightarrow> int option" where
  "q_writespace q = map_option to_ot_int (ptr_diff (q_back q) (q_putcursor q))"

definition q_readspace :: "ot_queue \<Rightarrow> int option" where
  "q_readspace q = map_option to_ot_int (ptr_diff (q_back q) (q_getcursor q))"

definition q_blocktime :: "ot_queue \<Rightarrow> u16" where
  "q_blocktime q = q_options q"

definition q_blockwrite :: "ot_queue \<Rightarrow> u16 \<Rightarrow> ot_queue" where
  "q_blockwrite q blocktime = q\<lparr>q_options := blocktime\<rparr>"

text \<open>
  \<^verbatim>\<open>q_lock\<close> waits for the option field to become 0. Without threads nothing changes it while the
  delay runs, so the loop on a locked queue does not end, which is \<open>None\<close>.
\<close>

partial_function (option) q_lock :: "ot_queue \<Rightarrow> ot_queue option" where
  "q_lock q = (if q_options q \<noteq> 0 then q_lock q else Some (q\<lparr>q_options := 1\<rparr>))"

definition q_unlock :: "ot_queue \<Rightarrow> ot_queue" where
  "q_unlock q = q\<lparr>q_options := 0\<rparr>"

definition q_rewind :: "qmem \<Rightarrow> qmem option" where
  "q_rewind s = (case s of (q, h) \<Rightarrow> do {
     dist \<leftarrow> ptr_diff (q_getcursor q) (q_front q);
     let dist = to_ot_int dist;
     if 0 < dist then do {
       let put = q_putcursor q;
       let get = q_getcursor q;
       let q = q\<lparr>q_putcursor := ptr_add (q_putcursor q) (- dist), q_getcursor := q_front q\<rparr>;
       n \<leftarrow> ptr_diff put get;
       h \<leftarrow> ot_memcpy (q_front q) get (to_ot_uint n) h;
       Some (q, h)
     } else Some (q, h)
   })"

definition q_start :: "ot_queue \<Rightarrow> u16 \<Rightarrow> u16 \<Rightarrow> ptr option \<times> ot_queue" where
  "q_start q offset options =
     (let q = q_empty q in
      if q_alloc q \<le> offset then (None, q)
      else
        let q = q\<lparr>q_options := options, q_putcursor := ptr_add (q_putcursor q) (uint offset),
                  q_getcursor := ptr_add (q_getcursor q) (uint offset)\<rparr>
        in (Some (q_getcursor q), q))"

definition q_markbyte :: "ot_queue \<Rightarrow> int \<Rightarrow> ptr \<times> ot_queue" where
  "q_markbyte q shift = (q_getcursor q, q\<lparr>q_getcursor := ptr_add (q_getcursor q) shift\<rparr>)"

section \<open>Reading and writing\<close>

definition q_writebyte :: "u8 \<Rightarrow> qmem \<Rightarrow> qmem option" where
  "q_writebyte byte_in s = (case s of (q, h) \<Rightarrow> do {
     h \<leftarrow> st8 (q_putcursor q) byte_in h;
     Some (q\<lparr>q_putcursor := ptr_add (q_putcursor q) 1\<rparr>, h)
   })"

definition q_writeshort :: "u16 \<Rightarrow> qmem \<Rightarrow> qmem option" where
  "q_writeshort short_in s = do { s \<leftarrow> q_writebyte (hi8 short_in) s; q_writebyte (lo8 short_in) s }"

definition q_writeshort_be :: "u16 \<Rightarrow> qmem \<Rightarrow> qmem option" where
  "q_writeshort_be short_in s = do { s \<leftarrow> q_writebyte (lo8 short_in) s; q_writebyte (hi8 short_in) s }"

definition q_writelong :: "u32 \<Rightarrow> qmem \<Rightarrow> qmem option" where
  "q_writelong long_in s = do {
     s \<leftarrow> q_writebyte (hi8 (hi16 long_in)) s;
     s \<leftarrow> q_writebyte (lo8 (hi16 long_in)) s;
     s \<leftarrow> q_writebyte (hi8 (lo16 long_in)) s;
     q_writebyte (lo8 (lo16 long_in)) s
   }"

definition q_writelong_be :: "u32 \<Rightarrow> qmem \<Rightarrow> qmem option" where
  "q_writelong_be long_in s = do {
     s \<leftarrow> q_writebyte (lo8 (lo16 long_in)) s;
     s \<leftarrow> q_writebyte (hi8 (lo16 long_in)) s;
     s \<leftarrow> q_writebyte (lo8 (hi16 long_in)) s;
     q_writebyte (hi8 (hi16 long_in)) s
   }"

definition q_readbyte :: "qmem \<Rightarrow> (u8 \<times> qmem) option" where
  "q_readbyte s = (case s of (q, h) \<Rightarrow> do {
     b \<leftarrow> ld8 (q_getcursor q) h;
     Some (b, q\<lparr>q_getcursor := ptr_add (q_getcursor q) 1\<rparr>, h)
   })"

definition q_readshort :: "qmem \<Rightarrow> (u16 \<times> qmem) option" where
  "q_readshort s = do { (u, s) \<leftarrow> q_readbyte s; (l, s) \<leftarrow> q_readbyte s; Some (join16 l u, s) }"

definition q_readshort_be :: "qmem \<Rightarrow> (u16 \<times> qmem) option" where
  "q_readshort_be s = do { (l, s) \<leftarrow> q_readbyte s; (u, s) \<leftarrow> q_readbyte s; Some (join16 l u, s) }"

definition q_readlong :: "qmem \<Rightarrow> (u32 \<times> qmem) option" where
  "q_readlong s = do {
     (b3, s) \<leftarrow> q_readbyte s; (b2, s) \<leftarrow> q_readbyte s;
     (b1, s) \<leftarrow> q_readbyte s; (b0, s) \<leftarrow> q_readbyte s;
     Some (join32 (join16 b0 b1) (join16 b2 b3), s)
   }"

definition q_readlong_be :: "qmem \<Rightarrow> (u32 \<times> qmem) option" where
  "q_readlong_be s = do {
     (b0, s) \<leftarrow> q_readbyte s; (b1, s) \<leftarrow> q_readbyte s;
     (b2, s) \<leftarrow> q_readbyte s; (b3, s) \<leftarrow> q_readbyte s;
     Some (join32 (join16 b0 b1) (join16 b2 b3), s)
   }"

text \<open>The string arguments are pointers into the memory. The lengths are signed.\<close>

definition q_writestring :: "ptr \<Rightarrow> int \<Rightarrow> qmem \<Rightarrow> (int \<times> qmem) option" where
  "q_writestring str len s = (case s of (q, h) \<Rightarrow>
     if len \<le> 0 then Some (0, q, h)
     else do {
       limit \<leftarrow> q_writespace q;
       let len = (if limit < len then limit else len);
       h \<leftarrow> ot_memcpy (q_putcursor q) str (to_ot_uint len) h;
       Some (len, q\<lparr>q_putcursor := ptr_add (q_putcursor q) len\<rparr>, h)
     })"

definition q_readstring :: "ptr \<Rightarrow> int \<Rightarrow> qmem \<Rightarrow> (int \<times> qmem) option" where
  "q_readstring str len s = (case s of (q, h) \<Rightarrow>
     if len \<le> 0 then Some (0, q, h)
     else do {
       limit \<leftarrow> q_readspace q;
       let len = (if limit < len then limit else len);
       h \<leftarrow> ot_memcpy str (q_getcursor q) (to_ot_uint len) h;
       Some (len, q\<lparr>q_getcursor := ptr_add (q_getcursor q) len\<rparr>, h)
     })"

text \<open>The two queues of \<^verbatim>\<open>q_movedata\<close> are different objects.\<close>

definition q_movedata :: "ot_queue \<Rightarrow> ot_queue \<Rightarrow> int \<Rightarrow> mem \<Rightarrow> (int \<times> ot_queue \<times> ot_queue \<times> mem) option" where
  "q_movedata qdst qsrc len h =
     (if len \<le> 0 then Some (0, qdst, qsrc, h)
      else do {
        writespace \<leftarrow> q_writespace qdst;
        readspace \<leftarrow> q_readspace qsrc;
        let limit = (if writespace < readspace then writespace else readspace);
        if limit < len then Some (to_ot_int (len - limit), qdst, qsrc, h)
        else do {
          let dst = q_putcursor qdst;
          let src = q_getcursor qsrc;
          let qdst = qdst\<lparr>q_putcursor := ptr_add (q_putcursor qdst) len\<rparr>;
          let qsrc = qsrc\<lparr>q_getcursor := ptr_add (q_getcursor qsrc) len\<rparr>;
          h \<leftarrow> ot_memcpy dst src (to_ot_uint len) h;
          Some (len, qdst, qsrc, h)
        }
      })"

section \<open>The queue is a FIFO of bytes\<close>

fun write_all :: "(u8 \<Rightarrow> 's \<Rightarrow> 's option) \<Rightarrow> bytes \<Rightarrow> 's \<Rightarrow> 's option" where
  "write_all wr [] s = Some s"
| "write_all wr (b # bs) s = do { s \<leftarrow> wr b s; write_all wr bs s }"

fun read_n :: "('s \<Rightarrow> (u8 \<times> 's) option) \<Rightarrow> nat \<Rightarrow> 's \<Rightarrow> (bytes \<times> 's) option" where
  "read_n rd 0 s = Some ([], s)"
| "read_n rd (Suc n) s = do { (b, s) \<leftarrow> rd s; (bs, s) \<leftarrow> read_n rd n s; Some (b # bs, s) }"

text \<open>
  What a client relies on: a byte is written at the end of the content while there is room,
  and the first byte of the content is read and removed.
\<close>

locale byte_fifo =
  fixes wr :: "u8 \<Rightarrow> 's \<Rightarrow> 's option"
    and rd :: "'s \<Rightarrow> (u8 \<times> 's) option"
    and content :: "'s \<Rightarrow> bytes"
    and ok :: "'s \<Rightarrow> bool"
    and room :: "'s \<Rightarrow> nat"
  assumes wr_law: "ok s \<Longrightarrow> 0 < room s \<Longrightarrow>
      \<exists>s'. wr b s = Some s' \<and> ok s' \<and> content s' = content s @ [b] \<and> room s' = room s - 1"
    and rd_law: "ok s \<Longrightarrow> content s = b # bs \<Longrightarrow>
      \<exists>s'. rd s = Some (b, s') \<and> ok s' \<and> content s' = bs \<and> room s' = room s"
begin

lemma write_all_ok:
  "ok s \<Longrightarrow> length bs \<le> room s \<Longrightarrow>
   \<exists>s'. write_all wr bs s = Some s' \<and> ok s' \<and> content s' = content s @ bs \<and> room s' = room s - length bs"
proof (induction bs arbitrary: s)
  case Nil
  then show ?case by simp
next
  case (Cons b bs)
  from Cons.prems obtain s1 where s1: "wr b s = Some s1" "ok s1" "content s1 = content s @ [b]"
    "room s1 = room s - 1"
    using wr_law [of s b] by auto
  then have "length bs \<le> room s1" using Cons.prems(2) by simp
  from Cons.IH [OF s1(2) this] show ?case using s1 by auto
qed

lemma read_n_ok:
  "ok s \<Longrightarrow> content s = bs @ cs \<Longrightarrow>
   \<exists>s'. read_n rd (length bs) s = Some (bs, s') \<and> ok s' \<and> content s' = cs \<and> room s' = room s"
proof (induction bs arbitrary: s)
  case Nil
  then show ?case by simp
next
  case (Cons b bs)
  from Cons.prems obtain s1 where s1: "rd s = Some (b, s1)" "ok s1" "content s1 = bs @ cs"
    "room s1 = room s"
    using rd_law [of s b "bs @ cs"] by auto
  from Cons.IH [OF s1(2,3)] show ?case using s1 by auto
qed

end

text \<open>
  A queue whose cursors are in order and whose buffer, from the front to the back, is
  memory.
\<close>

definition q_ok :: "qmem \<Rightarrow> bool" where
  "q_ok s = (case s of (q, h) \<Rightarrow>
     fst (q_getcursor q) = fst (q_front q) \<and> fst (q_putcursor q) = fst (q_front q)
     \<and> fst (q_back q) = fst (q_front q) \<and> snd (q_front q) \<le> snd (q_getcursor q)
     \<and> snd (q_getcursor q) \<le> snd (q_putcursor q) \<and> snd (q_putcursor q) \<le> snd (q_back q)
     \<and> accessible (q_front q) (nat (snd (q_back q) - snd (q_front q))) h)"

definition q_room :: "qmem \<Rightarrow> nat" where
  "q_room s = nat (snd (q_back (fst s)) - snd (q_putcursor (fst s)))"

definition q_count :: "ot_queue \<Rightarrow> nat" where
  "q_count q = nat (snd (q_putcursor q) - snd (q_getcursor q))"

definition q_content :: "qmem \<Rightarrow> bytes" where
  "q_content s = (case mem_rd (q_getcursor (fst s)) (q_count (fst s)) (snd s) of None \<Rightarrow> [] | Some bs \<Rightarrow> bs)"

lemma accessible_part:
  "accessible p n h \<Longrightarrow> fst q = fst p \<Longrightarrow> snd p \<le> snd q \<Longrightarrow> snd q + int k \<le> snd p + int n \<Longrightarrow> accessible q k h"
  by (auto simp: accessible_def)

lemma q_content_rd:
  assumes "q_ok (q, h)"
  shows "mem_rd (q_getcursor q) (q_count q) h = Some (q_content (q, h))"
    and "length (q_content (q, h)) = q_count q"
proof -
  have "accessible (q_getcursor q) (q_count q) h"
    using assms by (auto simp: q_ok_def q_count_def intro: accessible_part)
  then obtain bs where bs: "mem_rd (q_getcursor q) (q_count q) h = Some bs" using mem_rd_Some by blast
  then show "mem_rd (q_getcursor q) (q_count q) h = Some (q_content (q, h))" by (simp add: q_content_def)
  then show "length (q_content (q, h)) = q_count q" by (rule mem_rd_length)
qed

lemma q_write_law:
  assumes "q_ok s" and "0 < q_room s"
  shows "\<exists>s'. q_writebyte b s = Some s' \<and> q_ok s' \<and> q_content s' = q_content s @ [b] \<and> q_room s' = q_room s - 1"
proof -
  obtain q h where s: "s = (q, h)" by (cases s)
  note ok = assms(1) [unfolded s] and c = q_content_rd [OF assms(1) [unfolded s]]
  have "accessible (q_putcursor q) (length [b]) h"
    using ok assms(2) by (auto simp: s q_ok_def q_room_def intro: accessible_part)
  then obtain h' where h': "mem_wr (q_putcursor q) [b] h = Some h'" using mem_wr_Some by blast
  let ?q = "q\<lparr>q_putcursor := ptr_add (q_putcursor q) 1\<rparr>"
  have "q_writebyte b s = Some (?q, h')" by (simp add: q_writebyte_def s st8_def h')
  moreover have "q_ok (?q, h')"
    using ok assms(2) by (auto simp: s q_ok_def q_room_def accessible_wr [OF h'])
  moreover have "q_content (?q, h') = q_content s @ [b]"
  proof -
    have n: "q_count ?q = q_count q + 1" "snd (q_getcursor q) + int (q_count q) = snd (q_putcursor q)"
      "fst (q_getcursor q) = fst (q_putcursor q)"
      using ok by (auto simp: q_ok_def q_count_def)
    then have p: "ptr_add (q_getcursor q) (int (q_count q)) = q_putcursor q"
      by (simp add: ptr_add_def prod_eq_iff)
    have "mem_rd (q_getcursor q) (q_count q) h' = mem_rd (q_getcursor q) (q_count q) h"
      by (rule mem_rd_wr_apart [OF h']) (use n in simp)
    then have "mem_rd (q_getcursor q) (q_count q + length [b]) h' = Some (q_content (q, h) @ [b])"
      using c(1) mem_rd_wr [OF h'] unfolding mem_rd_split p by simp
    then have "mem_rd (q_getcursor ?q) (q_count ?q) h' = Some (q_content (q, h) @ [b])" by (simp add: n(1))
    then show ?thesis by (simp add: q_content_def s)
  qed
  moreover have "q_room (?q, h') = q_room s - 1" by (simp add: q_room_def s)
  ultimately show ?thesis by blast
qed

lemma q_read_law:
  assumes "q_ok s" and "q_content s = b # bs"
  shows "\<exists>s'. q_readbyte s = Some (b, s') \<and> q_ok s' \<and> q_content s' = bs \<and> q_room s' = q_room s"
proof -
  obtain q h where s: "s = (q, h)" by (cases s)
  note ok = assms(1) [unfolded s] and c = q_content_rd [OF assms(1) [unfolded s]]
  let ?q = "q\<lparr>q_getcursor := ptr_add (q_getcursor q) 1\<rparr>"
  have n: "q_count q = 1 + length bs" using c(2) assms(2) by (simp add: s)
  then have n': "q_count ?q = length bs" by (simp add: q_count_def)
  obtain x y where xy: "mem_rd (q_getcursor q) 1 h = Some x" "mem_rd (ptr_add (q_getcursor q) 1) (length bs) h = Some y"
    "x @ y = b # bs"
    using c(1) assms(2) unfolding n s mem_rd_split by (auto simp: bind_eq_Some_conv)
  then have "x = [b]" "y = bs" using mem_rd_length [OF xy(1)] by (auto simp: length_Suc_conv)
  then have "q_readbyte s = Some (b, ?q, h)" using xy(1) by (simp add: q_readbyte_def s ld8_def)
  moreover have "q_ok (?q, h)" using ok n by (auto simp: q_ok_def q_count_def)
  moreover have "q_content (?q, h) = bs" using xy(2) \<open>y = bs\<close> by (simp add: q_content_def n')
  moreover have "q_room (?q, h) = q_room s" by (simp add: q_room_def s)
  ultimately show ?thesis by blast
qed

interpretation qf: byte_fifo q_writebyte q_readbyte q_content q_ok q_room
  by unfold_locales (use q_write_law q_read_law in blast)+

section \<open>What is written is read back\<close>

lemma hi_lo_join: "join16 (lo8 w) (hi8 w) = w" "join32 (lo16 v) (hi16 v) = v"
  by simp_all

datatype q_item = Q_byte u8 | Q_short u16 | Q_short_be u16 | Q_long u32 | Q_long_be u32

datatype q_kind = K_byte | K_short | K_short_be | K_long | K_long_be

primrec kind_of :: "q_item \<Rightarrow> q_kind" where
  "kind_of (Q_byte b) = K_byte"
| "kind_of (Q_short w) = K_short"
| "kind_of (Q_short_be w) = K_short_be"
| "kind_of (Q_long v) = K_long"
| "kind_of (Q_long_be v) = K_long_be"

primrec put_item :: "q_item \<Rightarrow> qmem \<Rightarrow> qmem option" where
  "put_item (Q_byte b) s = q_writebyte b s"
| "put_item (Q_short w) s = q_writeshort w s"
| "put_item (Q_short_be w) s = q_writeshort_be w s"
| "put_item (Q_long v) s = q_writelong v s"
| "put_item (Q_long_be v) s = q_writelong_be v s"

primrec get_item :: "q_kind \<Rightarrow> qmem \<Rightarrow> (q_item \<times> qmem) option" where
  "get_item K_byte s = do { (b, s) \<leftarrow> q_readbyte s; Some (Q_byte b, s) }"
| "get_item K_short s = do { (w, s) \<leftarrow> q_readshort s; Some (Q_short w, s) }"
| "get_item K_short_be s = do { (w, s) \<leftarrow> q_readshort_be s; Some (Q_short_be w, s) }"
| "get_item K_long s = do { (v, s) \<leftarrow> q_readlong s; Some (Q_long v, s) }"
| "get_item K_long_be s = do { (v, s) \<leftarrow> q_readlong_be s; Some (Q_long_be v, s) }"

fun put_items :: "q_item list \<Rightarrow> qmem \<Rightarrow> qmem option" where
  "put_items [] s = Some s"
| "put_items (i # is) s = do { s \<leftarrow> put_item i s; put_items is s }"

fun get_items :: "q_kind list \<Rightarrow> qmem \<Rightarrow> (q_item list \<times> qmem) option" where
  "get_items [] s = Some ([], s)"
| "get_items (k # ks) s = do { (i, s) \<leftarrow> get_item k s; (is, s) \<leftarrow> get_items ks s; Some (i # is, s) }"

text \<open>The bytes of an item in the order in which they are written.\<close>

primrec item_bytes :: "q_item \<Rightarrow> bytes" where
  "item_bytes (Q_byte b) = [b]"
| "item_bytes (Q_short w) = [hi8 w, lo8 w]"
| "item_bytes (Q_short_be w) = [lo8 w, hi8 w]"
| "item_bytes (Q_long v) = [hi8 (hi16 v), lo8 (hi16 v), hi8 (lo16 v), lo8 (lo16 v)]"
| "item_bytes (Q_long_be v) = [lo8 (lo16 v), hi8 (lo16 v), lo8 (hi16 v), hi8 (hi16 v)]"

lemma write_all_eta: "write_all wr [] = Some" "write_all wr (b # bs) = (\<lambda>s. wr b s \<bind> write_all wr bs)"
  by (simp_all add: fun_eq_iff)

lemma put_item_bytes: "put_item i s = write_all q_writebyte (item_bytes i) s"
  by (cases i) (simp_all add: write_all_eta q_writeshort_def q_writeshort_be_def q_writelong_def q_writelong_be_def)

lemma get_item_bytes:
  "read_n q_readbyte (length (item_bytes i)) s = Some (item_bytes i, s') \<Longrightarrow>
   get_item (kind_of i) s = Some (i, s')"
  by (cases i) (auto simp: q_readshort_def q_readshort_be_def q_readlong_def q_readlong_be_def
      bind_eq_Some_conv hi_lo_join)

lemma put_items_ok:
  "q_ok s \<Longrightarrow> sum_list (map (length \<circ> item_bytes) is) \<le> q_room s \<Longrightarrow>
   \<exists>s'. put_items is s = Some s' \<and> q_ok s' \<and> q_content s' = q_content s @ concat (map item_bytes is)"
proof (induction "is" arbitrary: s)
  case Nil
  then show ?case by simp
next
  case (Cons i "is")
  from Cons.prems obtain s1 where s1: "put_item i s = Some s1" "q_ok s1"
    "q_content s1 = q_content s @ item_bytes i" "q_room s1 = q_room s - length (item_bytes i)"
    using qf.write_all_ok [of s "item_bytes i"] by (auto simp: put_item_bytes)
  then have "sum_list (map (length \<circ> item_bytes) is) \<le> q_room s1"
    using Cons.prems(2) by (simp add: comp_def)
  from Cons.IH [OF s1(2) this] show ?case using s1 by auto
qed

lemma get_items_ok:
  "q_ok s \<Longrightarrow> q_content s = concat (map item_bytes is) @ cs \<Longrightarrow>
   \<exists>s'. get_items (map kind_of is) s = Some (is, s') \<and> q_ok s' \<and> q_content s' = cs"
proof (induction "is" arbitrary: s)
  case Nil
  then show ?case by simp
next
  case (Cons i "is")
  from Cons.prems obtain s1 where s1: "read_n q_readbyte (length (item_bytes i)) s = Some (item_bytes i, s1)"
    "q_ok s1" "q_content s1 = concat (map item_bytes is) @ cs"
    using qf.read_n_ok [of s "item_bytes i" "concat (map item_bytes is) @ cs"] by auto
  from Cons.IH [OF s1(2,3)] show ?case using get_item_bytes [OF s1(1)] by auto
qed

text \<open>
  C24. The queue is a FIFO of bytes, shorts and longs: whatever sequence of items, in either
  byte order, is written while there is room, reading items of the same kinds afterwards
  gives, after the bytes that were in the queue, the same values in the same order.
\<close>

theorem queue_roundtrip:
  assumes "q_ok s" and "q_content s = []" and "sum_list (map (length \<circ> item_bytes) is) \<le> q_room s"
  shows "\<exists>s1 s2. put_items is s = Some s1 \<and> q_content s1 = concat (map item_bytes is)
    \<and> get_items (map kind_of is) s1 = Some (is, s2) \<and> q_content s2 = []"
proof -
  obtain s1 where s1: "put_items is s = Some s1" "q_ok s1" "q_content s1 = concat (map item_bytes is)"
    using put_items_ok [OF assms(1,3)] assms(2) by auto
  then have "q_content s1 = concat (map item_bytes is) @ []" by simp
  from get_items_ok [OF s1(2) this] show ?thesis using s1 by auto
qed

definition demo_q :: qmem where
  "demo_q = (q_init \<lparr>q_alloc = 0, q_options = 0, q_getcursor = (0, 0), q_putcursor = (0, 0),
     q_front = (0, 0), q_back = (0, 0)\<rparr> (7, 0) 16, [7 \<mapsto> replicate 16 0])"

lemma demo_q_ok: "q_ok demo_q" "q_content demo_q = []" "q_room demo_q = 16"
  by (simp_all add: demo_q_def q_init_def q_empty_def q_ok_def q_content_def q_count_def q_room_def
      accessible_def mem_rd_def rd_bytes_def)

theorem queue_roundtrip_witness:
  "\<exists>s1 s2. put_items [Q_short 0x1234, Q_byte 9, Q_long_be 0xCAFE0001] demo_q = Some s1
    \<and> get_items [K_short, K_byte, K_long_be] s1 = Some ([Q_short 0x1234, Q_byte 9, Q_long_be 0xCAFE0001], s2)
    \<and> q_content s1 = [0x12, 0x34, 9, 0x01, 0x00, 0xFE, 0xCA]"
  using queue_roundtrip [OF demo_q_ok(1,2), of "[Q_short 0x1234, Q_byte 9, Q_long_be 0xCAFE0001]"]
  by (auto simp: demo_q_ok(3) hi8_def lo8_def hi16_def lo16_def)

section \<open>Moving, rewinding and locking\<close>

text \<open>Queues whose buffer is no longer than the largest signed 16-bit number.\<close>

definition q_small :: "ot_queue \<Rightarrow> bool" where
  "q_small q \<longleftrightarrow> snd (q_back q) - snd (q_front q) < 32768"

lemma q_spaces:
  assumes "q_ok (q, h)" and "q_small q"
  shows "q_writespace q = Some (int (q_room (q, h)))"
    and "q_readspace q = Some (int (q_count q) + int (q_room (q, h)))"
    and "q_span q = Some (int (q_count q))"
  using assms
  by (auto simp: q_ok_def q_small_def q_writespace_def q_readspace_def q_span_def ptr_diff_def q_room_def q_count_def)

lemma mem_rd_take:
  assumes "mem_rd p n h = Some bs" and "k \<le> n"
  shows "mem_rd p k h = Some (take k bs)" and "mem_rd (ptr_add p (int k)) (n - k) h = Some (drop k bs)"
proof -
  have "mem_rd p (k + (n - k)) h = Some bs" using assms by simp
  then obtain x y where xy: "mem_rd p k h = Some x" "mem_rd (ptr_add p (int k)) (n - k) h = Some y" "bs = x @ y"
    unfolding mem_rd_split by (auto simp: bind_eq_Some_conv)
  moreover have "length x = k" by (rule mem_rd_length [OF xy(1)])
  ultimately show "mem_rd p k h = Some (take k bs)" "mem_rd (ptr_add p (int k)) (n - k) h = Some (drop k bs)"
    by simp_all
qed

lemma q_movedata_moves:
  assumes ok: "q_ok (qd, h)" "q_small qd" "q_ok (qs, h)" "q_small qs" and ap: "fst (q_front qd) \<noteq> fst (q_front qs)"
    and n: "0 < n" "n \<le> q_room (qd, h)" "n \<le> q_count qs"
  shows "\<exists>qd' qs' h'. q_movedata qd qs (int n) h = Some (int n, qd', qs', h')
    \<and> q_content (qd', h') = q_content (qd, h) @ take n (q_content (qs, h))
    \<and> q_content (qs', h') = drop n (q_content (qs, h)) \<and> q_ok (qd', h') \<and> q_ok (qs', h')"
proof -
  let ?qd = "qd\<lparr>q_putcursor := ptr_add (q_putcursor qd) (int n)\<rparr>"
  let ?qs = "qs\<lparr>q_getcursor := ptr_add (q_getcursor qs) (int n)\<rparr>"
  note cd = q_content_rd [OF ok(1)] and cs = q_content_rd [OF ok(3)]
  have d: "fst (q_putcursor qd) = fst (q_front qd)" "fst (q_getcursor qd) = fst (q_front qd)"
    "fst (q_getcursor qs) = fst (q_front qs)"
    using ok(1,3) by (auto simp: q_ok_def)
  have small: "int n < 32768" using n(2) ok(1,2) by (auto simp: q_ok_def q_small_def q_room_def)
  then have u: "unat (to_ot_uint (int n)) = n" by (simp add: unat_to_ot_uint)
  then have nz: "to_ot_uint (int n) \<noteq> 0" using n(1) by (auto dest: arg_cong [where f = unat])
  let ?bs = "take n (q_content (qs, h))"
  have rd: "mem_rd (q_getcursor qs) n h = Some ?bs" using mem_rd_take(1) [OF cs(1) n(3)] .
  have l: "length ?bs = n" using cs(2) n(3) by simp
  have "accessible (q_putcursor qd) (length ?bs) h"
    unfolding l using ok(1) n(2) by (auto simp: q_ok_def q_room_def intro: accessible_part)
  then obtain h' where h': "mem_wr (q_putcursor qd) ?bs h = Some h'" using mem_wr_Some by blast
  have "q_movedata qd qs (int n) h = Some (int n, ?qd, ?qs, h')"
    using n q_spaces(1) [OF ok(1,2)] q_spaces(2) [OF ok(3,4)] rd h' u nz ap d
    by (simp add: q_movedata_def ot_memcpy_def apart_def)
  moreover have "q_content (?qd, h') = q_content (qd, h) @ ?bs"
  proof -
    have c: "q_count ?qd = q_count qd + length ?bs" "snd (q_getcursor qd) + int (q_count qd) = snd (q_putcursor qd)"
      using ok(1) unfolding l by (auto simp: q_ok_def q_count_def)
    then have p: "ptr_add (q_getcursor qd) (int (q_count qd)) = q_putcursor qd"
      using d by (simp add: ptr_add_def prod_eq_iff)
    have "mem_rd (q_getcursor qd) (q_count qd) h' = mem_rd (q_getcursor qd) (q_count qd) h"
      by (rule mem_rd_wr_apart [OF h']) (use c(2) in simp)
    then have "mem_rd (q_getcursor qd) (q_count qd + length ?bs) h' = Some (q_content (qd, h) @ ?bs)"
      using cd(1) mem_rd_wr [OF h'] unfolding mem_rd_split p by simp
    then show ?thesis by (simp add: q_content_def c(1))
  qed
  moreover have "q_content (?qs, h') = drop n (q_content (qs, h))"
  proof -
    have "q_count ?qs = q_count qs - n" using n(3) by (simp add: q_count_def)
    moreover have "mem_rd (ptr_add (q_getcursor qs) (int n)) k h' = mem_rd (ptr_add (q_getcursor qs) (int n)) k h" for k
      by (rule mem_rd_wr_apart [OF h']) (use d ap in simp)
    ultimately show ?thesis using mem_rd_take(2) [OF cs(1) n(3)] by (simp add: q_content_def)
  qed
  moreover have "q_ok (?qd, h')" "q_ok (?qs, h')"
    using ok n by (auto simp: q_ok_def q_room_def q_count_def accessible_wr [OF h'])
  ultimately show ?thesis by blast
qed

text \<open>
  Moving \<open>n\<close> bytes between two queues appends the first \<open>n\<close> bytes of the source to the
  destination and removes them from the source; when the destination has no room for them
  nothing moves, and the result is the deficit as a positive number, which the caller cannot
  tell from a count of moved bytes (the documentation says it is negative).
\<close>

theorem q_movedata_transfers:
  assumes "q_ok (qd, h)" and "q_small qd" and "q_ok (qs, h)" and "q_small qs"
    and "fst (q_front qd) \<noteq> fst (q_front qs)" and "0 < n" and "n \<le> q_count qs"
  shows "if n \<le> q_room (qd, h)
    then \<exists>qd' qs' h'. q_movedata qd qs (int n) h = Some (int n, qd', qs', h')
      \<and> q_content (qd', h') = q_content (qd, h) @ take n (q_content (qs, h))
      \<and> q_content (qs', h') = drop n (q_content (qs, h)) \<and> q_ok (qd', h') \<and> q_ok (qs', h')
    else q_movedata qd qs (int n) h = Some (int (n - q_room (qd, h)), qd, qs, h)"
proof (cases "n \<le> q_room (qd, h)")
  case True
  then show ?thesis using q_movedata_moves [OF assms(1-5,6) True assms(7)] by simp
next
  case False
  have "int n < 32768" using assms(3,4,7) by (auto simp: q_ok_def q_small_def q_count_def)
  moreover have "int (n - q_room (qd, h)) = int n - int (q_room (qd, h))" using False by simp
  ultimately have "q_movedata qd qs (int n) h = Some (int (n - q_room (qd, h)), qd, qs, h)"
    using False q_spaces(1) [OF assms(1,2)] q_spaces(2) [OF assms(3,4)] assms(6,7)
    by (simp add: q_movedata_def)
  then show ?thesis using False by simp
qed

definition demo_q2 :: "ot_queue" where
  "demo_q2 = \<lparr>q_alloc = 4, q_options = 0, q_getcursor = (8, 0), q_putcursor = (8, 4), q_front = (8, 0),
     q_back = (8, 4)\<rparr>"

theorem q_movedata_transfers_witness:
  "\<exists>qd' qs' h'. q_movedata (fst demo_q) demo_q2 3 ((snd demo_q)(8 \<mapsto> [1, 2, 3, 4])) = Some (3, qd', qs', h')
    \<and> q_content (qd', h') = [1, 2, 3] \<and> q_content (qs', h') = [4]"
proof -
  let ?h = "(snd demo_q)(8 \<mapsto> [1, 2, 3, 4])"
  have d: "q_ok (fst demo_q, ?h)" "q_small (fst demo_q)" "q_room (fst demo_q, ?h) = 16"
    "fst (q_front (fst demo_q)) \<noteq> fst (q_front demo_q2)" "q_content (fst demo_q, ?h) = []"
    by (simp_all add: demo_q_def demo_q2_def q_init_def q_empty_def q_ok_def q_small_def q_room_def
        accessible_def q_content_def q_count_def mem_rd_def rd_bytes_def)
  have s: "q_ok (demo_q2, ?h)" "q_small demo_q2" "q_count demo_q2 = 4" "q_content (demo_q2, ?h) = [1, 2, 3, 4]"
    by (simp_all add: demo_q2_def q_ok_def q_small_def accessible_def q_content_def q_count_def mem_rd_def rd_bytes_def)
  show ?thesis using q_movedata_transfers [OF d(1,2) s(1,2) d(4), of 3] d(3,5) s(3,4) by fastforce
qed

text \<open>
  Rewinding keeps the content when the bytes to move do not reach into their own new
  place: the getcursor is at the front and the same bytes are to be read. When there are more
  bytes to move than bytes already read, the copy is between overlapping areas, which
  \<^verbatim>\<open>memcpy\<close> does not define.
\<close>

theorem q_rewind_content:
  assumes ok: "q_ok (q, h)" and sm: "q_small q" and g: "q_getcursor q \<noteq> q_front q"
  shows "if int (q_count q) \<le> snd (q_getcursor q) - snd (q_front q)
    then \<exists>q' h'. q_rewind (q, h) = Some (q', h') \<and> q_getcursor q' = q_front q
      \<and> q_content (q', h') = q_content (q, h) \<and> q_ok (q', h')
    else q_rewind (q, h) = None"
proof -
  let ?d = "snd (q_getcursor q) - snd (q_front q)" and ?n = "q_count q"
  let ?q = "q\<lparr>q_putcursor := ptr_add (q_putcursor q) (- ?d), q_getcursor := q_front q\<rparr>"
  have f: "fst (q_getcursor q) = fst (q_front q)" "fst (q_putcursor q) = fst (q_front q)"
    "0 < ?d" "?d < 32768" "snd (q_putcursor q) - snd (q_getcursor q) = int ?n" "int ?n < 32768"
    using ok sm g by (auto simp: q_ok_def q_small_def q_count_def prod_eq_iff)
  note c = q_content_rd [OF ok]
  have u: "unat (to_ot_uint (int ?n)) = ?n" using f(6) by (simp add: unat_to_ot_uint)
  have r: "q_rewind (q, h) = do { h \<leftarrow> ot_memcpy (q_front q) (q_getcursor q) (to_ot_uint (int ?n)) h; Some (?q, h) }"
    using f by (simp add: q_rewind_def ptr_diff_def Let_def)
  have ok': "q_ok (?q, h')" if "mem_wr (q_front q) bs h = Some h' \<or> h' = h" for bs h'
    using ok that by (auto simp: q_ok_def accessible_wr)
  have cnt: "q_count ?q = ?n" using f(5) by (simp add: q_count_def)
  show ?thesis
  proof (cases "?n = 0")
    case True
    then have "to_ot_uint (int ?n) = 0" by (simp add: to_ot_uint_def)
    then have "q_rewind (q, h) = Some (?q, h)" using r by (simp add: ot_memcpy_def)
    moreover have "q_content (?q, h) = q_content (q, h)"
      using q_content_rd(2) [OF ok' [of _ h]] c(2) cnt True by simp
    ultimately show ?thesis using ok' [of _ h] True f(3) by simp
  next
    case False
    then have nz: "to_ot_uint (int ?n) \<noteq> 0" using u by (metis unat_0)
    have acc: "accessible (q_front q) (length (q_content (q, h))) h"
      unfolding c(2) using ok by (auto simp: q_ok_def q_count_def intro: accessible_part)
    then obtain h' where h': "mem_wr (q_front q) (q_content (q, h)) h = Some h'" using mem_wr_Some by blast
    have "q_rewind (q, h) = (if int ?n \<le> ?d then Some (?q, h') else None)"
      using r u nz f(1,3) c(1) h' False by (simp add: ot_memcpy_def apart_def)
    moreover have "q_content (?q, h') = q_content (q, h)"
    proof -
      have "mem_rd (q_getcursor ?q) (q_count ?q) h' = Some (q_content (q, h))"
        using mem_rd_wr [OF h'] unfolding c(2) cnt by simp
      then show ?thesis unfolding q_content_def [of "(?q, h')"] by simp
    qed
    ultimately show ?thesis using ok' h' by auto
  qed
qed

theorem q_rewind_content_witness:
  "q_rewind (demo_q2\<lparr>q_getcursor := (8, 1)\<rparr>, [8 \<mapsto> [1, 2, 3, 4]]) = None"
proof -
  let ?q = "demo_q2\<lparr>q_getcursor := (8, 1)\<rparr>" and ?h = "[8 \<mapsto> [1, 2, 3, 4]] :: mem"
  have "q_ok (?q, ?h)" "q_small ?q" "q_getcursor ?q \<noteq> q_front ?q" "q_count ?q = 3"
    by (simp_all add: demo_q2_def q_ok_def q_small_def accessible_def q_count_def)
  from q_rewind_content [OF this(1-3)] this(4) show ?thesis by (simp add: demo_q2_def)
qed

lemma q_lock_returns: "q_lock q = Some q' \<Longrightarrow> q_options q = 0"
  by (rule q_lock.raw_induct [of "\<lambda>q q'. q_options q = 0"]) (auto split: if_splits)

lemma q_lock_free: "q_options q = 0 \<Longrightarrow> q_lock q = Some (q\<lparr>q_options := 1\<rparr>)"
  by (subst q_lock.simps) simp

lemma q_lock_stuck: "q_options q \<noteq> 0 \<Longrightarrow> q_lock q = None"
  using q_lock_returns [of q] by (cases "q_lock q") auto

text \<open>
  Taking the lock of a free queue sets its option field; on a queue that is locked, and on
  one whose option field some other call has set, \<^verbatim>\<open>q_lock\<close> never returns when nothing runs
  beside it.
\<close>

theorem q_lock_blocks:
  "q_lock q = (if q_options q = 0 then Some (q\<lparr>q_options := 1\<rparr>) else None)"
  by (simp add: q_lock_free q_lock_stuck)

section \<open>Cursors and blocks of bytes\<close>

lemma write_all_mem:
  "mem_wr (q_putcursor q) bs h = Some h' \<Longrightarrow>
   write_all q_writebyte bs (q, h) = Some (q\<lparr>q_putcursor := ptr_add (q_putcursor q) (int (length bs))\<rparr>, h')"
proof (induction bs arbitrary: q h)
  case Nil
  then show ?case using mem_wr_Nil by fastforce
next
  case (Cons b bs)
  then obtain h1 where h1: "mem_wr (q_putcursor q) [b] h = Some h1"
    "mem_wr (ptr_add (q_putcursor q) 1) bs h1 = Some h'"
    unfolding mem_wr_Cons [of _ b bs] by (auto simp: bind_eq_Some_conv)
  have "q_writebyte b (q, h) = Some (q\<lparr>q_putcursor := ptr_add (q_putcursor q) 1\<rparr>, h1)"
    by (simp add: q_writebyte_def st8_def h1(1))
  then show ?case using Cons.IH [of "q\<lparr>q_putcursor := ptr_add (q_putcursor q) 1\<rparr>" h1] h1(2) by simp
qed

lemma q_overwrite:
  assumes ok: "q_ok (q, h)" and c: "q_content (q, h) = xs @ old @ ys" and l: "length new = length old"
  obtains h' where "mem_wr (ptr_add (q_getcursor q) (int (length xs))) new h = Some h'"
    and "q_ok (q, h')" and "q_content (q, h') = xs @ new @ ys"
proof -
  let ?p = "ptr_add (q_getcursor q) (int (length xs))"
  note cr = q_content_rd [OF ok]
  have n: "q_count q = length xs + (length old + length ys)" using cr(2) c by simp
  obtain a b where ab: "mem_rd (q_getcursor q) (length xs) h = Some a" "mem_rd ?p (length old) h = Some b"
    and ab': "mem_rd (ptr_add ?p (int (length old))) (length ys) h = Some ys" and a: "a = xs"
  proof -
    from cr(1) [unfolded n c mem_rd_split] obtain a r where r: "mem_rd (q_getcursor q) (length xs) h = Some a"
      "do { x \<leftarrow> mem_rd ?p (length old) h; y \<leftarrow> mem_rd (ptr_add ?p (int (length old))) (length ys) h; Some (x @ y) } = Some r"
      "a @ r = xs @ old @ ys"
      by (auto simp: bind_eq_Some_conv)
    then obtain b y where b: "mem_rd ?p (length old) h = Some b"
      "mem_rd (ptr_add ?p (int (length old))) (length ys) h = Some y" "b @ y = r"
      by (auto simp: bind_eq_Some_conv)
    have "a = xs" "r = old @ ys" using r(3) mem_rd_length [OF r(1)] by auto
    moreover have "y = ys" using b(3) calculation(2) mem_rd_length [OF b(1)] by auto
    ultimately show thesis using that r(1) b by blast
  qed
  have "accessible ?p (length new) h" using ab(2) mem_rd_Some l by metis
  then obtain h' where h': "mem_wr ?p new h = Some h'" using mem_wr_Some by blast
  have "mem_rd (q_getcursor q) (length xs) h' = mem_rd (q_getcursor q) (length xs) h"
    by (rule mem_rd_wr_apart [OF h']) simp
  then have "mem_rd (q_getcursor q) (length xs) h' = Some xs" using ab(1) a by simp
  moreover have "mem_rd ?p (length old) h' = Some new" using mem_rd_wr [OF h'] l by simp
  moreover have "mem_rd (ptr_add ?p (int (length old))) (length ys) h' = Some ys"
    unfolding ab' [symmetric] by (rule mem_rd_wr_apart [OF h']) (simp add: l)
  ultimately have "mem_rd (q_getcursor q) (q_count q) h' = Some (xs @ new @ ys)"
    unfolding n mem_rd_split by simp
  then have "q_content (q, h') = xs @ new @ ys" by (simp add: q_content_def)
  moreover have "q_ok (q, h')" using ok by (simp add: q_ok_def accessible_wr [OF h'])
  ultimately show thesis using that h' by blast
qed

lemma q_advance_put:
  assumes ok: "q_ok (q, h)" and n: "n \<le> q_room (q, h)"
  defines "q' \<equiv> q\<lparr>q_putcursor := ptr_add (q_putcursor q) (int n)\<rparr>"
  shows "q_ok (q', h)" and "\<exists>junk. length junk = n \<and> q_content (q', h) = q_content (q, h) @ junk"
    and "q_room (q', h) = q_room (q, h) - n"
proof -
  show ok': "q_ok (q', h)" using ok n by (auto simp: q'_def q_ok_def q_room_def)
  show "q_room (q', h) = q_room (q, h) - n" using n by (simp add: q'_def q_room_def)
  have cnt: "q_count q' = q_count q + n" using ok by (auto simp: q'_def q_ok_def q_count_def)
  have g: "q_getcursor q' = q_getcursor q" by (simp add: q'_def)
  from q_content_rd(1) [OF ok'] obtain y where "mem_rd (ptr_add (q_getcursor q) (int (q_count q))) n h = Some y"
    "q_content (q', h) = q_content (q, h) @ y"
    unfolding cnt g mem_rd_split q_content_rd(1) [OF ok] by (auto simp: bind_eq_Some_conv)
  then show "\<exists>junk. length junk = n \<and> q_content (q', h) = q_content (q, h) @ junk"
    using mem_rd_length by blast
qed

lemma q_advance_get:
  assumes ok: "q_ok (q, h)" and c: "q_content (q, h) = xs @ ys"
  defines "q' \<equiv> q\<lparr>q_getcursor := ptr_add (q_getcursor q) (int (length xs))\<rparr>"
  shows "q_ok (q', h)" and "q_content (q', h) = ys"
proof -
  have n: "q_count q = length xs + length ys" using q_content_rd(2) [OF ok] c by simp
  then show ok': "q_ok (q', h)" using ok by (auto simp: q'_def q_ok_def q_count_def)
  have cnt: "q_count q' = length ys" using n by (simp add: q'_def q_count_def)
  have "mem_rd (q_getcursor q') (length ys) h = Some ys"
    using mem_rd_take(2) [OF q_content_rd(1) [OF ok], of "length xs"] n c by (simp add: q'_def)
  then show "q_content (q', h) = ys" unfolding q_content_def cnt by (simp add: cnt)
qed

lemma q_content_val:
  assumes ok: "q_ok (q, h)" and j: "j < length (q_content (q, h))"
  shows "q_getcursor_val (int j) (q, h) = Some (q_content (q, h) ! j)"
proof -
  have n: "q_count q = j + (1 + (length (q_content (q, h)) - Suc j))" using q_content_rd(2) [OF ok] j by simp
  from q_content_rd(1) [OF ok] obtain a b r where r: "mem_rd (q_getcursor q) j h = Some a"
    "mem_rd (ptr_add (q_getcursor q) (int j)) 1 h = Some b" "a @ b @ r = q_content (q, h)"
    unfolding n mem_rd_split by (auto simp: bind_eq_Some_conv)
  obtain x where "b = [x]" using mem_rd_length [OF r(2)] by (auto simp: length_Suc_conv)
  moreover have "(a @ [x] @ r) ! j = x" using mem_rd_length [OF r(1)] by (simp add: nth_append)
  ultimately show ?thesis using r by (simp add: q_getcursor_val_def ld8_def)
qed

lemma q_putcursor_end: "q_ok (q, h) \<Longrightarrow> q_putcursor q = ptr_add (q_getcursor q) (int (length (q_content (q, h))))"
  using q_content_rd(2) [of q h] by (simp add: q_ok_def q_count_def ptr_add_def prod_eq_iff)

text \<open>A string from another block is appended to the content.\<close>

lemma q_writestring_ok:
  assumes ok: "q_ok (q, h)" "q_small q" and rd: "mem_rd p (length bs) h = Some bs" and ap: "fst p \<noteq> fst (q_front q)"
    and n: "bs \<noteq> []" "length bs \<le> q_room (q, h)"
  shows "\<exists>q' h'. q_writestring p (int (length bs)) (q, h) = Some (int (length bs), q', h') \<and> q_ok (q', h')
    \<and> q_content (q', h') = q_content (q, h) @ bs \<and> q_getcursor q' = q_getcursor q \<and> q_front q' = q_front q"
proof -
  have f: "fst (q_putcursor q) = fst (q_front q)" using ok(1) by (simp add: q_ok_def)
  obtain q1 h1 where w: "write_all q_writebyte bs (q, h) = Some (q1, h1)" "q_ok (q1, h1)"
    "q_content (q1, h1) = q_content (q, h) @ bs"
    using qf.write_all_ok [OF ok(1) n(2)] by auto
  have "accessible (q_putcursor q) (length bs) h"
    using ok(1) n(2) by (auto simp: q_ok_def q_room_def intro: accessible_part)
  then obtain h2 where h2: "mem_wr (q_putcursor q) bs h = Some h2" using mem_wr_Some by blast
  from write_all_mem [OF h2] w(1) have q1: "q1 = q\<lparr>q_putcursor := ptr_add (q_putcursor q) (int (length bs))\<rparr>" "h1 = h2"
    by simp_all
  have small: "int (length bs) < 32768" using n(2) ok by (auto simp: q_ok_def q_small_def q_room_def)
  then have u: "unat (to_ot_uint (int (length bs))) = length bs" by (simp add: unat_to_ot_uint)
  then have nz: "to_ot_uint (int (length bs)) \<noteq> 0" using n(1) by (auto dest: arg_cong [where f = unat])
  have "q_writestring p (int (length bs)) (q, h) = Some (int (length bs), q1, h1)"
    using n q_spaces(1) [OF ok] u nz rd h2 ap f by (simp add: q_writestring_def ot_memcpy_def apart_def q1 Let_def)
  then show ?thesis using w(2,3) q1(1) by auto
qed

end
