(* ===== verification/Alp.thy ===== *)
theory Alp
  imports Ot_Queue Veelite_Files
begin

text \<open>
  The data of the application layer protocol, \<^verbatim>\<open>include/otlib/alp.h\<close>, and the shape of its
  operations: they work on an \<^verbatim>\<open>alp_tmpl\<close> with its two queues, on the memory the queues point
  into, and on the state of the modules they call (the file layer, the authentication table).
  The two queues of a template are different objects; \<^verbatim>\<open>ot_int\<close> has 16 bits.
\<close>

section \<open>Records and templates\<close>

definition ALP_FLAG_MB :: u8 where "ALP_FLAG_MB = 0x80"
definition ALP_FLAG_ME :: u8 where "ALP_FLAG_ME = 0x40"
definition ALP_FLAG_CF :: u8 where "ALP_FLAG_CF = 0x20"
definition ALP_FLAG_SR :: u8 where "ALP_FLAG_SR = 0x10"

datatype alp_status = MSG_Null | MSG_Chunking_Out | MSG_Chunking_In | MSG_End

record alp_record =
  r_flags :: u8
  r_plength :: u8
  r_id :: u8
  r_cmd :: u8

record alp_tmpl =
  purge_id :: u16
  outrec :: alp_record
  inq :: ot_queue
  outq :: ot_queue
  sstack :: "ptr option"

text \<open>The operations work on a template, the memory and the state of the modules they call.\<close>

record 'v alp_st =
  a_tmpl :: alp_tmpl
  a_mem :: mem
  a_sys :: 'v

definition upd_outrec :: "(alp_record \<Rightarrow> alp_record) \<Rightarrow> 'v alp_st \<Rightarrow> 'v alp_st" where
  "upd_outrec f s = s\<lparr>a_tmpl := (a_tmpl s)\<lparr>outrec := f (outrec (a_tmpl s))\<rparr>\<rparr>"

text \<open>A call on the input queue, on the output queue, and on the other modules.\<close>

definition on_inq :: "(qmem \<Rightarrow> ('b \<times> qmem) option) \<Rightarrow> 'v alp_st \<Rightarrow> ('b \<times> 'v alp_st) option" where
  "on_inq f s = do {
     (b, q, h) \<leftarrow> f (inq (a_tmpl s), a_mem s);
     Some (b, s\<lparr>a_tmpl := (a_tmpl s)\<lparr>inq := q\<rparr>, a_mem := h\<rparr>)
   }"

definition on_outq :: "(qmem \<Rightarrow> qmem option) \<Rightarrow> 'v alp_st \<Rightarrow> 'v alp_st option" where
  "on_outq f s = do {
     (q, h) \<leftarrow> f (outq (a_tmpl s), a_mem s);
     Some (s\<lparr>a_tmpl := (a_tmpl s)\<lparr>outq := q\<rparr>, a_mem := h\<rparr>)
   }"

definition on_sys :: "('v \<Rightarrow> ('b \<times> 'v) option) \<Rightarrow> 'v alp_st \<Rightarrow> ('b \<times> 'v alp_st) option" where
  "on_sys f s = do { (b, v) \<leftarrow> f (a_sys s); Some (b, s\<lparr>a_sys := v\<rparr>) }"

text \<open>The macro \<^verbatim>\<open>INREC\<close> reads the header in front of the cursor of the input queue.\<close>

definition I_CMD :: int where "I_CMD = -1"
definition I_ID :: int where "I_ID = -2"
definition I_PLEN :: int where "I_PLEN = -3"
definition I_FLAGS :: int where "I_FLAGS = -4"

definition INREC :: "int \<Rightarrow> 'v alp_st \<Rightarrow> u8 option" where
  "INREC x s = q_getcursor_val x (inq (a_tmpl s), a_mem s)"

definition move_inq_get :: "int \<Rightarrow> 'v alp_st \<Rightarrow> 'v alp_st" where
  "move_inq_get n s = (let a = a_tmpl s in
     s\<lparr>a_tmpl := a\<lparr>inq := (inq a)\<lparr>q_getcursor := ptr_add (q_getcursor (inq a)) n\<rparr>\<rparr>\<rparr>)"

definition set_outq_put :: "ptr \<Rightarrow> 'v alp_st \<Rightarrow> 'v alp_st" where
  "set_outq_put p s = (let a = a_tmpl s in s\<lparr>a_tmpl := a\<lparr>outq := (outq a)\<lparr>q_putcursor := p\<rparr>\<rparr>\<rparr>)"

definition move_outq_put :: "int \<Rightarrow> 'v alp_st \<Rightarrow> 'v alp_st" where
  "move_outq_put n s = set_outq_put (ptr_add (q_putcursor (outq (a_tmpl s))) n) s"

definition outq_space :: "'v alp_st \<Rightarrow> int option" where
  "outq_space s = q_writespace (outq (a_tmpl s))"

section \<open>Reading the input and writing the output\<close>

definition in_bytes :: "'v alp_st \<Rightarrow> bytes" where
  "in_bytes s = q_content (inq (a_tmpl s), a_mem s)"

definition out_bytes :: "'v alp_st \<Rightarrow> bytes" where
  "out_bytes s = q_content (outq (a_tmpl s), a_mem s)"

definition out_room :: "'v alp_st \<Rightarrow> nat" where
  "out_room s = q_room (outq (a_tmpl s), a_mem s)"

text \<open>Everything but the memory, the get cursor of the input and the put cursor of the output.\<close>

definition env :: "'v alp_st \<Rightarrow> alp_tmpl \<times> 'v" where
  "env s = ((a_tmpl s)\<lparr>inq := (inq (a_tmpl s))\<lparr>q_getcursor := (0, 0)\<rparr>,
     outq := (outq (a_tmpl s))\<lparr>q_putcursor := (0, 0)\<rparr>\<rparr>, a_sys s)"

definition alp_ok :: "'v alp_st \<Rightarrow> bool" where
  "alp_ok s \<longleftrightarrow> (let a = a_tmpl s; h = a_mem s in
     q_ok (inq a, h) \<and> q_small (inq a) \<and> q_ok (outq a, h) \<and> q_small (outq a)
     \<and> fst (q_front (inq a)) \<noteq> fst (q_front (outq a)))"

text \<open>
  What the commands rely on: reading removes the first byte of the input, writing appends to
  the output while there is room, and neither changes anything else.
\<close>

locale byte_io =
  fixes rd :: "'s \<Rightarrow> (u8 \<times> 's) option"
    and wr :: "u8 \<Rightarrow> 's \<Rightarrow> 's option"
    and ok :: "'s \<Rightarrow> bool"
    and cin :: "'s \<Rightarrow> bytes"
    and cout :: "'s \<Rightarrow> bytes"
    and room :: "'s \<Rightarrow> nat"
    and rest :: "'s \<Rightarrow> 'e"
  assumes rd_law: "ok s \<Longrightarrow> cin s = b # bs \<Longrightarrow>
      \<exists>s'. rd s = Some (b, s') \<and> ok s' \<and> cin s' = bs \<and> cout s' = cout s \<and> room s' = room s \<and> rest s' = rest s"
    and wr_law: "ok s \<Longrightarrow> 0 < room s \<Longrightarrow>
      \<exists>s'. wr b s = Some s' \<and> ok s' \<and> cin s' = cin s \<and> cout s' = cout s @ [b] \<and> room s' = room s - 1 \<and> rest s' = rest s"
begin

lemma reads:
  "ok s \<Longrightarrow> cin s = bs @ cs \<Longrightarrow>
   \<exists>s'. read_n rd (length bs) s = Some (bs, s') \<and> ok s' \<and> cin s' = cs \<and> cout s' = cout s
     \<and> room s' = room s \<and> rest s' = rest s"
proof (induction bs arbitrary: s)
  case Nil
  then show ?case by simp
next
  case (Cons b bs)
  then obtain s1 where s1: "rd s = Some (b, s1)" "ok s1" "cin s1 = bs @ cs" "cout s1 = cout s"
    "room s1 = room s" "rest s1 = rest s"
    using rd_law [of s b "bs @ cs"] by auto
  from Cons.IH [OF s1(2,3)] show ?case using s1 by auto
qed

lemma writes:
  "ok s \<Longrightarrow> length bs \<le> room s \<Longrightarrow>
   \<exists>s'. write_all wr bs s = Some s' \<and> ok s' \<and> cin s' = cin s \<and> cout s' = cout s @ bs
     \<and> room s' = room s - length bs \<and> rest s' = rest s"
proof (induction bs arbitrary: s)
  case Nil
  then show ?case by simp
next
  case (Cons b bs)
  then obtain s1 where s1: "wr b s = Some s1" "ok s1" "cin s1 = cin s" "cout s1 = cout s @ [b]"
    "room s1 = room s - 1" "rest s1 = rest s"
    using wr_law [of s b] by auto
  then have "length bs \<le> room s1" using Cons.prems(2) by simp
  from Cons.IH [OF s1(2) this] show ?case using s1 by auto
qed

end

lemma q_readbyte_same: "q_readbyte (q, h) = Some (b, q', h') \<Longrightarrow> h' = h \<and> q' = q\<lparr>q_getcursor := q_getcursor q'\<rparr>"
  by (auto simp: q_readbyte_def bind_eq_Some_conv)

lemma q_writebyte_same:
  "q_writebyte b (q, h) = Some (q', h') \<Longrightarrow> mem_wr (q_putcursor q) [b] h = Some h' \<and> q' = q\<lparr>q_putcursor := q_putcursor q'\<rparr>"
  by (auto simp: q_writebyte_def st8_def bind_eq_Some_conv)

lemma q_small_cursor [simp]: "q_small (q\<lparr>q_getcursor := p\<rparr>) = q_small q" "q_small (q\<lparr>q_putcursor := p\<rparr>) = q_small q"
  by (simp_all add: q_small_def)

lemma alp_rd_law:
  fixes s :: "'v alp_st"
  assumes ok: "alp_ok s" and c: "in_bytes s = b # bs"
  shows "\<exists>s'. on_inq q_readbyte s = Some (b, s') \<and> alp_ok s' \<and> in_bytes s' = bs \<and> out_bytes s' = out_bytes s
    \<and> out_room s' = out_room s \<and> env s' = env s"
proof -
  let ?a = "a_tmpl s" and ?h = "a_mem s"
  have "q_ok (inq ?a, ?h)" "q_content (inq ?a, ?h) = b # bs" using ok c by (simp_all add: alp_ok_def Let_def in_bytes_def)
  from q_read_law [OF this] obtain q' h' where q: "q_readbyte (inq ?a, ?h) = Some (b, q', h')" "q_ok (q', h')"
    "q_content (q', h') = bs" by auto
  from q_readbyte_same [OF q(1)] obtain g where g: "h' = ?h" "q' = (inq ?a)\<lparr>q_getcursor := g\<rparr>" by blast
  show ?thesis
    using q ok by (auto simp: g on_inq_def alp_ok_def Let_def in_bytes_def out_bytes_def out_room_def env_def)
qed

lemma alp_wr_law:
  fixes s :: "'v alp_st"
  assumes ok: "alp_ok s" and r: "0 < out_room s"
  shows "\<exists>s'. on_outq (q_writebyte b) s = Some s' \<and> alp_ok s' \<and> in_bytes s' = in_bytes s
    \<and> out_bytes s' = out_bytes s @ [b] \<and> out_room s' = out_room s - 1 \<and> env s' = env s"
proof -
  let ?a = "a_tmpl s" and ?h = "a_mem s"
  have "q_ok (outq ?a, ?h)" "0 < q_room (outq ?a, ?h)" using ok r by (simp_all add: alp_ok_def Let_def out_room_def)
  from q_write_law [OF this, of b] obtain q' h' where q: "q_writebyte b (outq ?a, ?h) = Some (q', h')" "q_ok (q', h')"
    "q_content (q', h') = q_content (outq ?a, ?h) @ [b]" "q_room (q', h') = q_room (outq ?a, ?h) - 1" by auto
  from q_writebyte_same [OF q(1)] obtain p where p: "mem_wr (q_putcursor (outq ?a)) [b] ?h = Some h'"
    "q' = (outq ?a)\<lparr>q_putcursor := p\<rparr>" by blast
  have f: "fst (q_putcursor (outq ?a)) \<noteq> fst (q_getcursor (inq ?a))"
    using ok by (simp add: alp_ok_def Let_def q_ok_def)
  have "mem_rd (q_getcursor (inq ?a)) n h' = mem_rd (q_getcursor (inq ?a)) n ?h" for n
    by (rule mem_rd_wr_apart [OF p(1)]) (use f in simp)
  then have "q_content (inq ?a, h') = q_content (inq ?a, ?h)" by (simp add: q_content_def)
  moreover have "q_ok (inq ?a, h')" using ok by (simp add: alp_ok_def Let_def q_ok_def accessible_wr [OF p(1)])
  ultimately show ?thesis
    using q ok by (auto simp: p(2) on_outq_def alp_ok_def Let_def in_bytes_def out_bytes_def out_room_def env_def)
qed

interpretation io: byte_io "on_inq q_readbyte" "\<lambda>b. on_outq (q_writebyte b)" alp_ok in_bytes out_bytes out_room env
  by unfold_locales (use alp_rd_law alp_wr_law in blast)+


text \<open>Half-words as two bytes, and calls of the other modules.\<close>

lemma on_inq_short:
  "on_inq q_readshort s = do { (u, s) \<leftarrow> on_inq q_readbyte s; (l, s) \<leftarrow> on_inq q_readbyte s; Some (join16 l u, s) }"
  "on_inq q_readshort_be s = do { (l, s) \<leftarrow> on_inq q_readbyte s; (u, s) \<leftarrow> on_inq q_readbyte s; Some (join16 l u, s) }"
  unfolding on_inq_def q_readshort_def q_readshort_be_def by (auto split: prod.split Option.bind_split)

lemma on_outq_short:
  "on_outq (q_writeshort w) s = write_all (\<lambda>b. on_outq (q_writebyte b)) [hi8 w, lo8 w] s"
  "on_outq (q_writeshort_be w) s = write_all (\<lambda>b. on_outq (q_writebyte b)) [lo8 w, hi8 w] s"
  unfolding on_outq_def q_writeshort_def q_writeshort_be_def write_all.simps
  by (auto split: prod.split Option.bind_split)

lemma alp_sys_simps [simp]:
  "alp_ok (s\<lparr>a_sys := v\<rparr>) = alp_ok s" "in_bytes (s\<lparr>a_sys := v\<rparr>) = in_bytes s"
  "out_bytes (s\<lparr>a_sys := v\<rparr>) = out_bytes s" "out_room (s\<lparr>a_sys := v\<rparr>) = out_room s"
  "env (s\<lparr>a_sys := v\<rparr>) = (fst (env s), v)" "outq_space (s\<lparr>a_sys := v\<rparr>) = outq_space s"
  by (simp_all add: alp_ok_def Let_def in_bytes_def out_bytes_def out_room_def env_def outq_space_def)

lemma a_sys_same [simp]: "s\<lparr>a_sys := a_sys s\<rparr> = s"
  by simp

lemma env_sys: "env s' = env s \<Longrightarrow> a_sys s' = a_sys s"
  by (simp add: env_def)

lemma env_outrec: "env s' = env s \<Longrightarrow> outrec (a_tmpl s') = outrec (a_tmpl s)"
proof -
  assume "env s' = env s"
  then have "outrec (fst (env s')) = outrec (fst (env s))" by simp
  then show ?thesis by (simp add: env_def)
qed

lemma outq_space_ok: "alp_ok s \<Longrightarrow> outq_space s = Some (int (out_room s))"
  using q_spaces(1) by (auto simp: alp_ok_def Let_def outq_space_def out_room_def)

lemma read_short:
  assumes "alp_ok s" and "in_bytes s = a # b # bs"
  shows "\<exists>s'. on_inq q_readshort s = Some (join16 b a, s') \<and> alp_ok s' \<and> in_bytes s' = bs \<and> out_bytes s' = out_bytes s
      \<and> out_room s' = out_room s \<and> env s' = env s"
    and "\<exists>s'. on_inq q_readshort_be s = Some (join16 a b, s') \<and> alp_ok s' \<and> in_bytes s' = bs \<and> out_bytes s' = out_bytes s
      \<and> out_room s' = out_room s \<and> env s' = env s"
  using io.reads [of s "[a, b]" bs] assms by (auto simp: on_inq_short bind_eq_Some_conv)

lemma write_short:
  assumes "alp_ok s" and "2 \<le> out_room s"
  shows "\<exists>s'. on_outq (q_writeshort w) s = Some s' \<and> alp_ok s' \<and> in_bytes s' = in_bytes s
      \<and> out_bytes s' = out_bytes s @ [hi8 w, lo8 w] \<and> out_room s' = out_room s - 2 \<and> env s' = env s"
    and "\<exists>s'. on_outq (q_writeshort_be w) s = Some s' \<and> alp_ok s' \<and> in_bytes s' = in_bytes s
      \<and> out_bytes s' = out_bytes s @ [lo8 w, hi8 w] \<and> out_room s' = out_room s - 2 \<and> env s' = env s"
proof -
  have l: "length [hi8 w, lo8 w] \<le> out_room s" "length [lo8 w, hi8 w] \<le> out_room s"
    "length [hi8 w, lo8 w] = 2" "length [lo8 w, hi8 w] = 2"
    using assms(2) by simp_all
  show "\<exists>s'. on_outq (q_writeshort w) s = Some s' \<and> alp_ok s' \<and> in_bytes s' = in_bytes s
      \<and> out_bytes s' = out_bytes s @ [hi8 w, lo8 w] \<and> out_room s' = out_room s - 2 \<and> env s' = env s"
    using io.writes [OF assms(1) l(1)] unfolding on_outq_short(1) l(3) .
  show "\<exists>s'. on_outq (q_writeshort_be w) s = Some s' \<and> alp_ok s' \<and> in_bytes s' = in_bytes s
      \<and> out_bytes s' = out_bytes s @ [lo8 w, hi8 w] \<and> out_room s' = out_room s - 2 \<and> env s' = env s"
    using io.writes [OF assms(1) l(2)] unfolding on_outq_short(2) l(4) .
qed

end
