(* ===== verification/Alp_Filedata.thy ===== *)
theory Alp_Filedata
  imports Alp
begin

text \<open>
  The file protocol of \<^verbatim>\<open>otlib/alp_filedata.c\<close>: the commands that read and write permissions,
  headers and data of files, over the file layer. A command function returns the number of
  bytes it put on the output queue, an \<^verbatim>\<open>ot_int\<close>; \<open>None\<close> is undefined behaviour or a loop that
  does not end.
\<close>

section \<open>Commands\<close>

type_synonym 'a fs_st = "'a vl_state_scheme alp_st"

definition sub_return :: "id_ref \<Rightarrow> u8 \<Rightarrow> u8 \<Rightarrow> int \<Rightarrow> 'a fs_st \<Rightarrow> (int \<times> 'a fs_st) option" where
  "sub_return user_id respond cmd_in data_in s = Some (0, s)"

definition sub_testchunk :: "int \<Rightarrow> bool" where
  "sub_testchunk data_in = (0 < data_in)"

definition sub_qnotfull :: "u8 \<Rightarrow> u8 \<Rightarrow> ot_queue \<Rightarrow> bool option" where
  "sub_qnotfull write write_size q = do { n \<leftarrow> q_writespace q; Some (uint write_size \<le> n \<or> write = 0) }"

definition block_of :: "u8 \<Rightarrow> u8" where
  "block_of cmd_in = drop_bit 4 cmd_in AND 0x07"

definition access_of :: "u8 \<Rightarrow> u8" where
  "access_of cmd_in = (if cmd_in AND 0x02 \<noteq> 0 then VL_ACCESS_W else VL_ACCESS_R)"

text \<open>\<^verbatim>\<open>header\<close> is not initialised before the call; it is only used when the call returns 0.\<close>

definition file_header ::
  "u8 \<Rightarrow> u8 \<Rightarrow> u8 \<Rightarrow> id_ref \<Rightarrow> 'a fs_st \<Rightarrow> ((u8 \<times> u16) \<times> 'a fs_st) option" where
  "file_header block_id file_id md user_id =
     on_sys (\<lambda>v. map_option (\<lambda>(rc, h, v). ((rc, h), v)) (vl_getheader_vaddr 0 block_id file_id md user_id v))"

definition sys_read :: "u16 \<Rightarrow> 'a fs_st \<Rightarrow> u16 option" where
  "sys_read a s = vworm_read a (a_sys s)"

text \<open>
  One id of \<^verbatim>\<open>sub_fileperms\<close>: with write access the new mode follows the id, and \<^verbatim>\<open>file_mod\<close>
  becomes the error code; with read access it becomes the mode of the file. The result is the
  new \<^verbatim>\<open>file_mod\<close> and \<^verbatim>\<open>allow_write\<close>.
\<close>

definition perm_entry ::
  "id_ref \<Rightarrow> u8 \<Rightarrow> u8 \<Rightarrow> u8 \<Rightarrow> u8 \<Rightarrow> 'a fs_st \<Rightarrow> ((u8 \<times> bool) \<times> 'a fs_st) option" where
  "perm_entry user_id respond file_block file_mod file_id s =
     (if file_mod = VL_ACCESS_W then do {
        (newmod, s) \<leftarrow> on_inq q_readbyte s;
        (rc, s) \<leftarrow> on_sys (vl_chmod file_block file_id newmod user_id) s;
        Some ((rc, respond \<noteq> 0), s)
      } else if respond \<noteq> 0 then do {
        ((rc, header), s) \<leftarrow> file_header file_block file_id VL_ACCESS_R Id_NULL s;
        if rc = 0 then do { idmod \<leftarrow> sys_read (header + 4) s; Some ((hi8 idmod, True), s) }
        else Some ((file_mod, False), s)
      } else Some ((file_mod, False), s))"

function fileperms_loop ::
  "id_ref \<Rightarrow> u8 \<Rightarrow> u8 \<Rightarrow> u8 \<Rightarrow> int \<Rightarrow> int \<Rightarrow> 'a fs_st \<Rightarrow> (int \<times> 'a fs_st) option" where
  "fileperms_loop user_id respond file_block file_mod data_in data_out s =
     (if 0 < data_in then do {
        room \<leftarrow> sub_qnotfull respond 2 (outq (a_tmpl s));
        if room then do {
          (file_id, s) \<leftarrow> on_inq q_readbyte s;
          ((new_mod, allow_write), s) \<leftarrow> perm_entry user_id respond file_block file_mod file_id s;
          let data_in = (if file_mod = VL_ACCESS_W then data_in - 2 else data_in - 1);
          if allow_write then do {
            s \<leftarrow> on_outq (q_writebyte file_id) s;
            s \<leftarrow> on_outq (q_writebyte new_mod) s;
            fileperms_loop user_id respond file_block new_mod data_in (data_out + 2) s
          } else fileperms_loop user_id respond file_block new_mod data_in data_out s
        } else Some (data_out, s)
      } else Some (data_out, s))"
  by pat_completeness auto
termination
  by (relation "measure (\<lambda>(_, _, _, _, data_in, _, _). nat data_in)") auto

definition sub_fileperms :: "id_ref \<Rightarrow> u8 \<Rightarrow> u8 \<Rightarrow> int \<Rightarrow> 'a fs_st \<Rightarrow> (int \<times> 'a fs_st) option" where
  "sub_fileperms user_id respond cmd_in data_in s =
     fileperms_loop user_id respond (block_of cmd_in) (access_of cmd_in) data_in 0 s"

definition put_header :: "u16 \<Rightarrow> 'a fs_st \<Rightarrow> 'a fs_st option" where
  "put_header header s = do {
     idmod \<leftarrow> sys_read (header + 4) s;
     s \<leftarrow> on_outq (q_writeshort_be idmod) s;
     len \<leftarrow> sys_read (header + 0) s;
     s \<leftarrow> on_outq (q_writeshort len) s;
     alloc \<leftarrow> sys_read (header + 2) s;
     on_outq (q_writeshort alloc) s
   }"

function fileheaders_loop :: "u8 \<Rightarrow> u8 \<Rightarrow> int \<Rightarrow> int \<Rightarrow> 'a fs_st \<Rightarrow> (int \<times> 'a fs_st) option" where
  "fileheaders_loop respond file_block data_in data_out s =
     (if 0 < data_in then do {
        room \<leftarrow> sub_qnotfull respond 6 (outq (a_tmpl s));
        if room then do {
          (file_id, s) \<leftarrow> on_inq q_readbyte s;
          ((rc, header), s) \<leftarrow> file_header file_block file_id VL_ACCESS_R Id_NULL s;
          if rc = 0 then do {
            s \<leftarrow> put_header header s;
            fileheaders_loop respond file_block (data_in - 1) (data_out + 6) s
          } else fileheaders_loop respond file_block (data_in - 1) data_out s
        } else Some (data_out, s)
      } else Some (data_out, s))"
  by pat_completeness auto
termination
  by (relation "measure (\<lambda>(_, _, data_in, _, _). nat data_in)") auto

definition sub_fileheaders :: "id_ref \<Rightarrow> u8 \<Rightarrow> u8 \<Rightarrow> int \<Rightarrow> 'a fs_st \<Rightarrow> (int \<times> 'a fs_st) option" where
  "sub_fileheaders user_id respond cmd_in data_in s =
     (if respond \<noteq> 0 then fileheaders_loop respond (block_of cmd_in) data_in 0 s else Some (0, s))"

section \<open>File data\<close>

text \<open>
  The loops over the half-words of a write and of a read. The first component of their result
  tells that the end of a queue was met, where the code jumps to \<^verbatim>\<open>sub_filedata_overrun\<close>. They
  are partial functions: with \<open>limit\<close> 65535 an even \<open>offset\<close> wraps around before it reaches
  the limit.
\<close>

definition inq_at_end :: "'v alp_st \<Rightarrow> bool option" where
  "inq_at_end s = map_option (\<lambda>d. 0 \<le> d) (ptr_diff (q_getcursor (inq (a_tmpl s))) (q_back (inq (a_tmpl s))))"

partial_function (option) write_loop ::
  "nat \<Rightarrow> u16 \<Rightarrow> u16 \<Rightarrow> u16 \<Rightarrow> int \<Rightarrow> u8 \<Rightarrow> 'a fs_st \<Rightarrow> ((bool \<times> u16 \<times> int \<times> u8) \<times> 'a fs_st) option"
  where
  "write_loop fd limit offset span data_in err_code s =
     (if offset < limit then do {
        over \<leftarrow> inq_at_end s;
        if over then Some ((True, span, data_in, err_code), s)
        else do {
          (w, s) \<leftarrow> on_inq q_readshort_be s;
          (e, s) \<leftarrow> on_sys (vl_write fd offset w) s;
          write_loop fd limit (offset + 2) (span - 2) (to_ot_int (data_in - 2)) (err_code OR e) s
        }
      } else Some ((False, span, data_in, err_code), s))"

partial_function (option) read_loop ::
  "nat \<Rightarrow> u16 \<Rightarrow> u16 \<Rightarrow> u16 \<Rightarrow> int \<Rightarrow> 'a fs_st \<Rightarrow> ((bool \<times> u16 \<times> int) \<times> 'a fs_st) option"
  where
  "read_loop fd limit offset span data_out s =
     (if offset < limit then do {
        n \<leftarrow> outq_space s;
        if n \<le> 2 then Some ((True, span, data_out), s)
        else do {
          w \<leftarrow> vl_read fd offset (a_sys s);
          s \<leftarrow> on_outq (q_writeshort_be w) s;
          read_loop fd limit (offset + 2) (span - 2) (to_ot_int (data_out + 2)) s
        }
      } else Some ((False, span, data_out), s))"

definition write_stage ::
  "nat \<Rightarrow> u16 \<Rightarrow> u16 \<Rightarrow> u16 \<Rightarrow> u8 \<Rightarrow> int \<Rightarrow> 'a fs_st \<Rightarrow> ((bool \<times> u16 \<times> int \<times> u8) \<times> 'a fs_st) option"
  where
  "write_stage fd offset span limit insert_mode data_in s = do {
     f \<leftarrow> get_file fd (a_sys s);
     if f_alloc f \<le> offset then Some ((False, span, data_in, 0x07), s)
     else do {
       let err_code = (if f_alloc f < limit then 0x08 else 0);
       let limit = (if f_alloc f < limit then f_alloc f else limit);
       (_, s) \<leftarrow> on_sys (\<lambda>v. Some ((), if insert_mode = 0 then put_file fd (f\<lparr>f_length := 0\<rparr>) v else v)) s;
       write_loop fd limit offset span data_in err_code s
     }
   }"

definition read_stage ::
  "nat \<Rightarrow> u16 \<Rightarrow> u16 \<Rightarrow> u16 \<Rightarrow> u16 \<Rightarrow> bool \<Rightarrow> int \<Rightarrow> 'a fs_st \<Rightarrow> ((bool \<times> u16 \<times> int) \<times> 'a fs_st) option"
  where
  "read_stage fd header offset span limit inc_header data_out s = do {
     let overhead = (if inc_header then 10 else 5);
     n \<leftarrow> outq_space s;
     if n \<le> overhead then Some ((True, span, data_out), s)
     else do {
       s \<leftarrow> (if inc_header then put_header header s
            else do { idmod \<leftarrow> sys_read (header + 4) s; on_outq (q_writebyte (lo8 idmod)) s });
       f \<leftarrow> get_file fd (a_sys s);
       let (span, limit) = (if f_length f \<le> offset then (0, 0)
          else if f_length f < limit then (f_length f - offset, f_length f) else (span, limit));
       s \<leftarrow> on_outq (q_writeshort offset) s;
       s \<leftarrow> on_outq (q_writeshort span) s;
       read_loop fd limit offset span (to_ot_int (data_out + overhead)) s
     }
   }"

text \<open>
  From the label \<^verbatim>\<open>sub_filedata_senderror\<close> to the end of the pass. The result is: whether the
  output queue is full, \<^verbatim>\<open>data_in\<close> and \<^verbatim>\<open>data_out\<close>.
\<close>

definition respond_stage ::
  "'a action_fn \<Rightarrow> u8 \<Rightarrow> ptr \<Rightarrow> nat option \<Rightarrow> u8 \<Rightarrow> u8 \<Rightarrow> u8 \<Rightarrow> u16 \<Rightarrow> int \<Rightarrow> int \<Rightarrow> 'a fs_st
    \<Rightarrow> ((bool \<times> int \<times> int) \<times> 'a fs_st) option" where
  "respond_stage act respond marker fp file_mod file_id err_code span data_in data_out s = do {
     (app_err, s) \<leftarrow> on_sys (vl_close act fp) s;
     let err_code = (if app_err \<noteq> 0 \<and> err_code = 0 then 0x09 else err_code);
     if respond \<noteq> 0 then do {
       n \<leftarrow> outq_space s;
       if n \<le> 2 then Some ((True, data_in, data_out), s)
       else if file_mod OR err_code \<noteq> 0 then do {
         let s = (if file_mod = 0
                  then upd_outrec (\<lambda>r. r\<lparr>r_cmd := r_cmd r OR 0x0F\<rparr>) (set_outq_put marker s) else s);
         let data_in = (if file_mod = 0 then 0 else data_in);
         s \<leftarrow> on_outq (q_writebyte file_id) s;
         s \<leftarrow> on_outq (q_writebyte err_code) s;
         (_, s) \<leftarrow> on_inq (\<lambda>(q, h). Some ((), snd (q_markbyte q (to_ot_int (uint span))), h)) s;
         Some ((False, to_ot_int (to_ot_int (data_in - 5) - uint span), to_ot_int (data_out + 2)), s)
       } else Some ((False, to_ot_int (to_ot_int (data_in - 5) - uint span), data_out), s)
     } else Some ((False, to_ot_int (to_ot_int (data_in - 5) - uint span), data_out), s)
   }"

text \<open>
  One pass of the loop of \<^verbatim>\<open>sub_filedata\<close>. The result is: whether it jumped to
  \<^verbatim>\<open>sub_filedata_overrun\<close>, \<^verbatim>\<open>file_mod\<close>, \<^verbatim>\<open>fp\<close>, \<^verbatim>\<open>data_in\<close> and \<^verbatim>\<open>data_out\<close>.
\<close>

definition filedata_pass ::
  "'a action_fn \<Rightarrow> id_ref \<Rightarrow> u8 \<Rightarrow> u8 \<Rightarrow> ptr \<Rightarrow> u8 \<Rightarrow> nat option \<Rightarrow> int \<Rightarrow> int \<Rightarrow> 'a fs_st
    \<Rightarrow> ((bool \<times> u8 \<times> nat option \<times> int \<times> int) \<times> 'a fs_st) option" where
  "filedata_pass act user_id respond cmd_in marker file_mod fp data_in data_out s = do {
     (file_id, s) \<leftarrow> on_inq q_readbyte s;
     (offset, s) \<leftarrow> on_inq q_readshort s;
     (span, s) \<leftarrow> on_inq q_readshort s;
     let lim_check = uint offset + uint span;
     let limit = (if 65535 < lim_check then 65535 else word_of_int lim_check);
     ((err_code, header), s) \<leftarrow> file_header (block_of cmd_in) file_id file_mod user_id s;
     let file_mod = (if file_mod AND VL_ACCESS_W \<noteq> 0 then 1 else 0);
     let respond_with = (\<lambda>fp err_code span data_in data_out s. do {
       ((full, data_in, data_out), s) \<leftarrow>
         respond_stage act respond marker fp file_mod file_id err_code span data_in data_out s;
       Some ((full, file_mod, fp, data_in, data_out), s)
     });
     if err_code \<noteq> 0 then respond_with fp err_code span data_in data_out s
     else do {
       (fp, s) \<leftarrow> on_sys (vl_open_file header) s;
       case fp of
         None \<Rightarrow> respond_with None 0xFF span data_in data_out s
       | Some fd \<Rightarrow>
           if file_mod \<noteq> 0 then do {
             ((over, span, data_in, err_code), s) \<leftarrow>
               write_stage fd offset span limit (cmd_in AND 0x01) data_in s;
             if over then Some ((True, file_mod, fp, data_in, data_out), s)
             else respond_with fp err_code span data_in data_out s
           } else do {
             ((over, span, data_out), s) \<leftarrow>
               read_stage fd header offset span limit (cmd_in AND 0x0F = 0x0C) data_out s;
             if over then Some ((True, file_mod, fp, data_in, data_out), s)
             else respond_with fp err_code span data_in data_out s
           }
     }
   }"

partial_function (option) filedata_loop ::
  "'a action_fn \<Rightarrow> id_ref \<Rightarrow> u8 \<Rightarrow> u8 \<Rightarrow> ptr \<Rightarrow> u8 \<Rightarrow> nat option \<Rightarrow> int \<Rightarrow> int \<Rightarrow> 'a fs_st \<Rightarrow> (int \<times> 'a fs_st) option"
  where
  "filedata_loop act user_id respond cmd_in marker file_mod fp data_in data_out s =
     (if 0 < data_in then do {
        ((over, file_mod, fp, data_in, data_out), s) \<leftarrow>
          filedata_pass act user_id respond cmd_in marker file_mod fp data_in data_out s;
        if over then do { (_, s) \<leftarrow> on_sys (vl_close act fp) s; Some (data_out, s) }
        else filedata_loop act user_id respond cmd_in marker file_mod fp data_in data_out s
      } else Some (data_out, s))"

definition sub_filedata ::
  "'a action_fn \<Rightarrow> id_ref \<Rightarrow> u8 \<Rightarrow> u8 \<Rightarrow> int \<Rightarrow> 'a fs_st \<Rightarrow> (int \<times> 'a fs_st) option" where
  "sub_filedata act user_id respond cmd_in data_in s =
     filedata_loop act user_id respond cmd_in (q_putcursor (outq (a_tmpl s))) (access_of cmd_in) None data_in 0 s"

section \<open>Deleting, creating and restoring\<close>

text \<open>A response of two bytes, the file and the error code, as three commands give it.\<close>

definition answer :: "u8 \<Rightarrow> u8 \<Rightarrow> u8 \<Rightarrow> int \<Rightarrow> 'v alp_st \<Rightarrow> (int \<times> 'v alp_st) option" where
  "answer respond file_id err_code data_out s =
     (if respond \<noteq> 0 then do {
        s \<leftarrow> on_outq (q_writebyte file_id) s;
        s \<leftarrow> on_outq (q_writebyte err_code) s;
        Some (data_out + 2, s)
      } else Some (data_out, s))"

function filedelete_loop :: "id_ref \<Rightarrow> u8 \<Rightarrow> u8 \<Rightarrow> int \<Rightarrow> int \<Rightarrow> 'a fs_st \<Rightarrow> (int \<times> 'a fs_st) option" where
  "filedelete_loop user_id respond file_block data_in data_out s =
     (if 0 < data_in then do {
        room \<leftarrow> sub_qnotfull respond 2 (outq (a_tmpl s));
        if room then do {
          (file_id, s) \<leftarrow> on_inq q_readbyte s;
          (err_code, s) \<leftarrow> on_sys (\<lambda>v. Some (vl_delete file_block file_id user_id v)) s;
          (data_out, s) \<leftarrow> answer respond file_id err_code data_out s;
          filedelete_loop user_id respond file_block (data_in - 1) data_out s
        } else Some (data_out, s)
      } else Some (data_out, s))"
  by pat_completeness auto
termination
  by (relation "measure (\<lambda>(_, _, _, data_in, _, _). nat data_in)") auto

definition sub_filedelete :: "id_ref \<Rightarrow> u8 \<Rightarrow> u8 \<Rightarrow> int \<Rightarrow> 'a fs_st \<Rightarrow> (int \<times> 'a fs_st) option" where
  "sub_filedelete user_id respond cmd_in data_in s =
     filedelete_loop user_id respond (block_of cmd_in) data_in 0 s"

text \<open>\<^verbatim>\<open>vl_new\<close> leaves \<^verbatim>\<open>fp\<close> NULL in this build.\<close>

function filecreate_loop ::
  "'a action_fn \<Rightarrow> id_ref \<Rightarrow> u8 \<Rightarrow> u8 \<Rightarrow> int \<Rightarrow> int \<Rightarrow> 'a fs_st \<Rightarrow> (int \<times> 'a fs_st) option" where
  "filecreate_loop act user_id respond file_block data_in data_out s =
     (if 0 < data_in then do {
        room \<leftarrow> sub_qnotfull respond 2 (outq (a_tmpl s));
        if room then do {
          (file_id, s) \<leftarrow> on_inq q_readbyte s;
          (md, s) \<leftarrow> on_inq q_readbyte s;
          (alloc, s) \<leftarrow> on_inq q_readshort (move_inq_get 2 s);
          (err_code, s) \<leftarrow> on_sys (\<lambda>v. Some (vl_new file_block file_id md alloc user_id v)) s;
          (data_out, s) \<leftarrow> answer respond file_id err_code data_out s;
          (_, s) \<leftarrow> on_sys (vl_close act None) s;
          filecreate_loop act user_id respond file_block (data_in - 6) data_out s
        } else Some (data_out, s)
      } else Some (data_out, s))"
  by pat_completeness auto
termination
  by (relation "measure (\<lambda>(_, _, _, _, data_in, _, _). nat data_in)") auto

definition sub_filecreate ::
  "'a action_fn \<Rightarrow> id_ref \<Rightarrow> u8 \<Rightarrow> u8 \<Rightarrow> int \<Rightarrow> 'a fs_st \<Rightarrow> (int \<times> 'a fs_st) option" where
  "sub_filecreate act user_id respond cmd_in data_in s =
     filecreate_loop act user_id respond (block_of cmd_in) data_in 0 s"

function filerestore_loop :: "u8 \<Rightarrow> int \<Rightarrow> int \<Rightarrow> 'a fs_st \<Rightarrow> (int \<times> 'a fs_st) option" where
  "filerestore_loop respond data_in data_out s =
     (if 0 < data_in then do {
        room \<leftarrow> sub_qnotfull respond 2 (outq (a_tmpl s));
        if room then do {
          (file_id, s) \<leftarrow> on_inq q_readbyte s;
          (data_out, s) \<leftarrow> answer respond file_id 0x03 data_out s;
          filerestore_loop respond (data_in - 1) data_out s
        } else Some (data_out, s)
      } else Some (data_out, s))"
  by pat_completeness auto
termination
  by (relation "measure (\<lambda>(_, data_in, _, _). nat data_in)") auto

definition sub_filerestore :: "id_ref \<Rightarrow> u8 \<Rightarrow> u8 \<Rightarrow> int \<Rightarrow> 'a fs_st \<Rightarrow> (int \<times> 'a fs_st) option" where
  "sub_filerestore user_id respond cmd_in data_in s = filerestore_loop respond data_in 0 s"

section \<open>The processor\<close>

definition filedata_cmd ::
  "'a action_fn \<Rightarrow> id_ref \<Rightarrow> u8 \<Rightarrow> int \<Rightarrow> 'a fs_st \<Rightarrow> (int \<times> 'a fs_st) option" where
  "filedata_cmd act user_id cmd_in data_in s =
     ([sub_fileperms, sub_return, sub_fileperms, sub_fileperms,
      sub_filedata act, sub_return, sub_filedata act, sub_filedata act,
      sub_fileheaders, sub_return, sub_filedelete, sub_filecreate act,
      sub_filedata act, sub_return, sub_filerestore, sub_return]
     ! unat (cmd_in AND 0x0F)) user_id (cmd_in AND 0x80) cmd_in data_in s"

text \<open>The result of the callback is always True.\<close>

definition alp_proc_filedata :: "'a action_fn \<Rightarrow> id_ref \<Rightarrow> 'a fs_st \<Rightarrow> (bool \<times> 'a fs_st) option" where
  "alp_proc_filedata act user_id s = do {
     plen \<leftarrow> INREC I_PLEN s;
     cmd_in \<leftarrow> INREC I_CMD s;
     (data_out, s) \<leftarrow> filedata_cmd act user_id cmd_in (uint plen) s;
     let s = upd_outrec (\<lambda>r. r\<lparr>r_plength := word_of_int data_out\<rparr>) s;
     if cmd_in AND 0x80 \<noteq> 0 then
       Some (True, upd_outrec (\<lambda>r. r\<lparr>r_cmd := (r_cmd r XOR 0x80) OR (if cmd_in AND 0x02 \<noteq> 0 then 0x0F else 0x01)\<rparr>) s)
     else Some (True, move_outq_put (- uint (r_plength (outrec (a_tmpl s)))) s)
   }"

end
