(* ===== verification/Alp_Apps.thy ===== *)
theory Alp_Apps
  imports Alp
begin

text \<open>
  The smaller protocols and the stream conversions of the application layer:
  \<^verbatim>\<open>otlib/alp_sensor.c\<close> (actuators behind files), \<^verbatim>\<open>otlib/alp_logger.c\<close> (an echo for root) and
  \<^verbatim>\<open>otlib/alp_tmpl.c\<close> (identities and queues to and from a stream of bytes).
\<close>

section \<open>Actuators\<close>

definition VL_ACCESS_X :: u8 where "VL_ACCESS_X = 0x89"

definition sensor_return ::
  "id_ref \<Rightarrow> u8 \<Rightarrow> u8 \<Rightarrow> int \<Rightarrow> 'a vl_state_scheme alp_st \<Rightarrow> (int \<times> 'a vl_state_scheme alp_st) option" where
  "sensor_return user_id respond cmd_in data_in s = Some (0, s)"

text \<open>The loop over the two entries of the list compares with its first entry each time.\<close>

definition actuator_list :: "u8 list" where "actuator_list = [0, 24]"

definition actuator_file :: "u8 \<Rightarrow> u8" where
  "actuator_file actuator_id =
     fold (\<lambda>i file. if actuator_list ! 0 = actuator_id then actuator_list ! 1 else file) [0..<2] 0"

definition actuate ::
  "'a action_fn \<Rightarrow> u8 \<Rightarrow> u8 \<Rightarrow> 'a vl_state_scheme \<Rightarrow> (u8 \<times> 'a vl_state_scheme) option" where
  "actuate act actuator_id actuator_val v =
     (let file = actuator_file actuator_id in
      if file \<noteq> 0 then do {
        (fp, v) \<leftarrow> vl_open VL_ISF_BLOCKID file VL_ACCESS_X Id_NULL v;
        case fp of
          None \<Rightarrow> Some (255, v)
        | Some fd \<Rightarrow> do {
            (error_code, v) \<leftarrow> vl_execute act fd 1 [actuator_val] v;
            (_, v) \<leftarrow> vl_close act (Some fd) v;
            Some (error_code, v)
          }
      } else Some (255, v))"

function actuator_loop ::
  "'a action_fn \<Rightarrow> u8 \<Rightarrow> int \<Rightarrow> int \<Rightarrow> 'a vl_state_scheme alp_st \<Rightarrow> (int \<times> 'a vl_state_scheme alp_st) option"
  where
  "actuator_loop act respond data_in data_out s =
     (if 0 < data_in then do {
        (actuator_id, s) \<leftarrow> on_inq q_readbyte s;
        (actuator_val, s) \<leftarrow> on_inq q_readbyte s;
        (error_code, s) \<leftarrow> on_sys (actuate act actuator_id actuator_val) s;
        room \<leftarrow> (if respond \<noteq> 0 then map_option (\<lambda>n. 2 \<le> n) (outq_space s) else Some False);
        if room then do {
          s \<leftarrow> on_outq (q_writebyte actuator_id) s;
          s \<leftarrow> on_outq (q_writebyte error_code) s;
          actuator_loop act respond (data_in - 2) (data_out + 2) s
        } else actuator_loop act respond (data_in - 2) data_out s
      } else Some (data_out, s))"
  by pat_completeness auto
termination
  by (relation "measure (\<lambda>(_, _, data_in, _, _). nat data_in)") auto

definition sub_actuator ::
  "'a action_fn \<Rightarrow> id_ref \<Rightarrow> u8 \<Rightarrow> u8 \<Rightarrow> int \<Rightarrow> 'a vl_state_scheme alp_st
    \<Rightarrow> (int \<times> 'a vl_state_scheme alp_st) option" where
  "sub_actuator act user_id respond cmd_in data_in s = actuator_loop act respond data_in 0 s"

definition alp_proc_sensor ::
  "'a action_fn \<Rightarrow> id_ref \<Rightarrow> 'a vl_state_scheme alp_st \<Rightarrow> (bool \<times> 'a vl_state_scheme alp_st) option" where
  "alp_proc_sensor act user_id s = do {
     plen \<leftarrow> INREC I_PLEN s;
     cmd_in \<leftarrow> INREC I_CMD s;
     (data_out, s) \<leftarrow> ([sub_actuator act, sensor_return] ! unat (cmd_in AND 0x01))
       user_id (cmd_in AND 0x80) cmd_in (uint plen) s;
     let s = upd_outrec (\<lambda>r. r\<lparr>r_plength := word_of_int data_out\<rparr>) s;
     if cmd_in AND 0x80 \<noteq> 0 then Some (True, upd_outrec (\<lambda>r. r\<lparr>r_cmd := r_cmd r XOR 0x80\<rparr>) s)
     else Some (True, move_outq_put (- uint (r_plength (outrec (a_tmpl s)))) s)
   }"

section \<open>The logger\<close>

definition alp_proc_logger ::
  "id_ref \<Rightarrow> 'a auth_state_scheme alp_st \<Rightarrow> (bool \<times> 'a auth_state_scheme alp_st) option" where
  "alp_proc_logger user_id s = do {
     (root, s) \<leftarrow> on_sys (auth_isroot user_id) s;
     if root then do {
       (flags, s) \<leftarrow> on_inq q_readbyte s;
       let s = upd_outrec (\<lambda>r. r\<lparr>r_flags := flags\<rparr>) s;
       (plen, s) \<leftarrow> on_inq q_readbyte s;
       let s = upd_outrec (\<lambda>r. r\<lparr>r_plength := plen\<rparr>) s;
       let s = move_inq_get 2 s;
       (_, qo, qi, h) \<leftarrow> q_movedata (outq (a_tmpl s)) (inq (a_tmpl s)) (uint plen) (a_mem s);
       Some (True, s\<lparr>a_tmpl := (a_tmpl s)\<lparr>inq := qi, outq := qo\<rparr>, a_mem := h\<rparr>)
     } else Some (True, s)
   }"

section \<open>Streams\<close>

text \<open>
  \<^verbatim>\<open>data_type\<close> points to a value of the given type: the breakdown functions return the value
  they store there, the stream functions take it, \<open>None\<close> being NULL.
\<close>

record id_stream =
  id_stream_length :: u8
  id_stream_value :: "ptr option"

definition alp_breakdown_u8 :: "qmem \<Rightarrow> (u8 \<times> qmem) option" where
  "alp_breakdown_u8 s = q_readbyte s"

definition alp_breakdown_u16 :: "qmem \<Rightarrow> (u16 \<times> qmem) option" where
  "alp_breakdown_u16 s = q_readshort s"

definition alp_breakdown_u32 :: "qmem \<Rightarrow> (u32 \<times> qmem) option" where
  "alp_breakdown_u32 s = q_readlong s"

definition alp_stream_u8 :: "u8 \<Rightarrow> qmem \<Rightarrow> qmem option" where
  "alp_stream_u8 data s = q_writebyte data s"

text \<open>The two wider stream functions call \<^verbatim>\<open>q_writebyte\<close>, whose argument is a byte.\<close>

definition alp_stream_u16 :: "u16 \<Rightarrow> qmem \<Rightarrow> qmem option" where
  "alp_stream_u16 data s = q_writebyte (ucast data) s"

definition alp_stream_u32 :: "u32 \<Rightarrow> qmem \<Rightarrow> qmem option" where
  "alp_stream_u32 data s = q_writebyte (ucast data) s"

definition alp_breakdown_queue :: "qmem \<Rightarrow> (ot_queue \<times> qmem) option" where
  "alp_breakdown_queue s = do {
     (queue_length, q, h) \<leftarrow> q_readshort s;
     let (queue_front, q') = q_markbyte q (to_ot_int (uint queue_length));
     let d = \<lparr>q_alloc = queue_length, q_options = q_options q, q_getcursor = queue_front,
              q_putcursor = queue_front, q_front = queue_front, q_back = queue_front\<rparr>;
     Some (d\<lparr>q_back := q_offset d (to_ot_int (uint queue_length)), q_getcursor := q_offset d 0,
             q_putcursor := q_offset d 0\<rparr>, q', h)
   }"

definition alp_stream_queue :: "ot_queue option \<Rightarrow> qmem \<Rightarrow> qmem option" where
  "alp_stream_queue data s = (case data of
       None \<Rightarrow> Some s
     | Some d \<Rightarrow> do {
         len \<leftarrow> q_length d;
         s \<leftarrow> q_writeshort (q_alloc d) s;
         s \<leftarrow> q_writeshort (q_options d) s;
         s \<leftarrow> q_writeshort (to_ot_uint len) s;
         (_, s) \<leftarrow> q_writestring (q_front d) len s;
         Some s
       })"

definition alp_breakdown_session_tmpl :: "ptr \<Rightarrow> qmem \<Rightarrow> qmem option" where
  "alp_breakdown_session_tmpl data s = map_option snd (q_readstring data 6 s)"

definition alp_stream_session_tmpl :: "ptr option \<Rightarrow> qmem \<Rightarrow> qmem option" where
  "alp_stream_session_tmpl data s = (case data of
       None \<Rightarrow> Some s
     | Some d \<Rightarrow> map_option snd (q_writestring d 6 s))"

definition alp_breakdown_id_tmpl :: "qmem \<Rightarrow> (id_stream \<times> qmem) option" where
  "alp_breakdown_id_tmpl s = do {
     (id_length, q, h) \<leftarrow> q_readbyte s;
     if id_length = 0 then Some (\<lparr>id_stream_length = id_length, id_stream_value = None\<rparr>, q, h)
     else
       let (p, q) = q_markbyte q (uint id_length)
       in Some (\<lparr>id_stream_length = id_length, id_stream_value = Some p\<rparr>, q, h)
   }"

text \<open>A NULL value pointer with a length other than 0 is outside every block of memory.\<close>

definition alp_stream_id_tmpl :: "id_stream option \<Rightarrow> qmem \<Rightarrow> qmem option" where
  "alp_stream_id_tmpl data s = (case data of
       None \<Rightarrow> Some s
     | Some d \<Rightarrow> do {
         s \<leftarrow> q_writebyte (id_stream_length d) s;
         if id_stream_length d = 0 then Some s
         else do {
           p \<leftarrow> id_stream_value d;
           (_, s) \<leftarrow> q_writestring p (uint (id_stream_length d)) s;
           Some s
         }
       })"

section \<open>What streams carry\<close>

lemma q_content_skip:
  assumes ok: "q_ok (q, h)" and c: "q_content (q, h) = bs @ cs"
  shows "mem_rd (q_getcursor q) (length bs) h = Some bs"
  using mem_rd_take(1) [OF q_content_rd(1) [OF ok], of "length bs"] q_content_rd(2) [OF ok] c by simp

text \<open>
  An identity that is streamed to a queue and broken down again has its length, and its
  value pointer points at the same bytes, now in the buffer of the queue.
\<close>

theorem alp_id_roundtrip:
  assumes "q_ok (q, h)" and "q_small q" and "q_content (q, h) = []" and "n \<noteq> 0"
    and "mem_rd p (unat n) h = Some v" and "fst p \<noteq> fst (q_front q)" and "1 + unat n \<le> q_room (q, h)"
  shows "\<exists>q1 h1 q2 p2. alp_stream_id_tmpl (Some \<lparr>id_stream_length = n, id_stream_value = Some p\<rparr>) (q, h) = Some (q1, h1)
    \<and> alp_breakdown_id_tmpl (q1, h1) = Some (\<lparr>id_stream_length = n, id_stream_value = Some p2\<rparr>, q2, h1)
    \<and> fst p2 = fst (q_front q) \<and> mem_rd p2 (unat n) h1 = Some v \<and> q_content (q2, h1) = []"
proof -
  have l: "length v = unat n" by (rule mem_rd_length [OF assms(5)])
  have vn: "v \<noteq> []" using l assms(4) by (auto simp: unat_eq_0)
  have "0 < q_room (q, h)" using assms(7) by simp
  from q_write_law [OF assms(1) this, of n] obtain qa ha where a: "q_writebyte n (q, h) = Some (qa, ha)" "q_ok (qa, ha)"
    "q_content (qa, ha) = [n]" "q_room (qa, ha) = q_room (q, h) - 1"
    using assms(3) by auto
  from q_writebyte_same [OF a(1)] obtain pc where pc: "mem_wr (q_putcursor q) [n] h = Some ha"
    "qa = q\<lparr>q_putcursor := pc\<rparr>" by blast
  have fq: "fst (q_putcursor q) = fst (q_front q)" "fst (q_getcursor q) = fst (q_front q)"
    using assms(1) by (simp_all add: q_ok_def)
  have rd: "mem_rd p (length v) ha = Some v"
    using mem_rd_wr_apart [OF pc(1), of p "length v"] assms(5,6) fq(1) l by simp
  have "q_small qa" using assms(2) by (simp add: pc(2) q_small_def)
  moreover have "fst p \<noteq> fst (q_front qa)" "length v \<le> q_room (qa, ha)"
    using assms(6,7) a(4) l by (simp_all add: pc(2))
  ultimately obtain q1 h1 where w: "q_writestring p (int (length v)) (qa, ha) = Some (int (length v), q1, h1)"
    "q_ok (q1, h1)" "q_content (q1, h1) = [n] @ v" "q_getcursor q1 = q_getcursor qa"
    using q_writestring_ok [OF a(2) _ rd] vn a(3) by auto
  have un: "uint n = int (length v)" using l uint_nat [of n] by simp
  have st: "alp_stream_id_tmpl (Some \<lparr>id_stream_length = n, id_stream_value = Some p\<rparr>) (q, h) = Some (q1, h1)"
    using assms(4) w(1) by (simp add: alp_stream_id_tmpl_def a(1) un)
  have "mem_rd (q_getcursor q1) (1 + length v) h1 = Some ([n] @ v)"
    using q_content_skip [OF w(2), of "[n] @ v" "[]"] w(3) by simp
  then obtain x y where xy: "mem_rd (q_getcursor q1) 1 h1 = Some x" "mem_rd (ptr_add (q_getcursor q1) 1) (length v) h1 = Some y"
    "x @ y = [n] @ v"
    unfolding mem_rd_split by (auto simp: bind_eq_Some_conv)
  then have xy': "x = [n]" "y = v" using mem_rd_length [OF xy(1)] by (auto simp: length_Suc_conv)
  let ?qb = "q1\<lparr>q_getcursor := ptr_add (q_getcursor q1) 1\<rparr>"
  let ?q2 = "?qb\<lparr>q_getcursor := ptr_add (q_getcursor q1) (1 + int (length v))\<rparr>"
  have rb: "q_readbyte (q1, h1) = Some (n, ?qb, h1)" using xy(1) by (simp add: q_readbyte_def ld8_def xy'(1))
  have bd: "alp_breakdown_id_tmpl (q1, h1)
      = Some (\<lparr>id_stream_length = n, id_stream_value = Some (ptr_add (q_getcursor q1) 1)\<rparr>, ?q2, h1)"
    using assms(4) by (simp add: alp_breakdown_id_tmpl_def rb q_markbyte_def un)
  have "q_content (?q2, h1) = []"
    using q_advance_get(2) [OF w(2), of "[n] @ v" "[]"] w(3) by (simp add: add.commute)
  then show ?thesis
    using st bd xy(2) xy'(2) l w(4) fq(2)
    by (intro exI [of _ q1] exI [of _ h1] exI [of _ ?q2] exI [of _ "ptr_add (q_getcursor q1) 1"]) (simp add: pc(2))
qed

theorem alp_id_roundtrip_witness:
  "\<exists>q1 h1 q2 p2. alp_stream_id_tmpl (Some \<lparr>id_stream_length = 2, id_stream_value = Some (9, 1)\<rparr>)
      (fst demo_q, (snd demo_q)(9 \<mapsto> [5, 6, 7])) = Some (q1, h1)
    \<and> alp_breakdown_id_tmpl (q1, h1) = Some (\<lparr>id_stream_length = 2, id_stream_value = Some p2\<rparr>, q2, h1)
    \<and> mem_rd p2 2 h1 = Some [6, 7]"
proof -
  let ?h = "(snd demo_q)(9 \<mapsto> [5, 6, 7])"
  have d: "q_ok (fst demo_q, ?h)" "q_small (fst demo_q)" "q_content (fst demo_q, ?h) = []"
    "fst ((9, 1) :: ptr) \<noteq> fst (q_front (fst demo_q))" "1 + unat (2 :: u8) \<le> q_room (fst demo_q, ?h)"
    "mem_rd (9, 1) (unat (2 :: u8)) ?h = Some [6, 7]"
    by (simp_all add: demo_q_def q_init_def q_empty_def q_ok_def q_small_def q_room_def
        accessible_def q_content_def q_count_def mem_rd_def rd_bytes_def)
  show ?thesis using alp_id_roundtrip [OF d(1-3) _ d(6,4,5)] by fastforce
qed

text \<open>
  A queue that is streamed is not what is broken down: the stream holds the allocation, the
  options and the length before the data, the breakdown takes the first number for the length
  of the data and everything behind it, options and length included, for the data.
\<close>

theorem alp_queue_stream_mismatch:
  assumes "q_ok (q, h)" and "q_small q" and "q_content (q, h) = []" and "6 + length v \<le> q_room (q, h)"
    and "q_length d = Some (int (length v))" and "mem_rd (q_front d) (length v) h = Some v" and "v \<noteq> []"
    and "fst (q_front d) \<noteq> fst (q_front q)"
  defines "bs \<equiv> [hi8 (q_options d), lo8 (q_options d), hi8 (of_nat (length v)), lo8 (of_nat (length v))] @ v"
  shows "\<exists>q1 h1 d2 q2. alp_stream_queue (Some d) (q, h) = Some (q1, h1)
    \<and> alp_breakdown_queue (q1, h1) = Some (d2, q2, h1) \<and> q_alloc d2 = q_alloc d
    \<and> mem_rd (q_front d2) (4 + length v) h1 = Some bs"
proof -
  have lv: "int (length v) < 32768" using assms(1,2,4) by (auto simp: q_ok_def q_small_def q_room_def)
  have tu: "to_ot_uint (int (length v)) = of_nat (length v)" by (simp add: to_ot_uint_def)
  let ?hd = "[hi8 (q_alloc d), lo8 (q_alloc d), hi8 (q_options d), lo8 (q_options d),
      hi8 (of_nat (length v)), lo8 (of_nat (length v))]"
  have "length ?hd \<le> q_room (q, h)" using assms(4) by simp
  from qf.write_all_ok [OF assms(1) this] obtain qa ha where a: "write_all q_writebyte ?hd (q, h) = Some (qa, ha)"
    "q_ok (qa, ha)" "q_content (qa, ha) = ?hd" "q_room (qa, ha) = q_room (q, h) - length ?hd"
    using assms(3) by auto
  have "accessible (q_putcursor q) (length ?hd) h"
    using assms(1,4) by (auto simp: q_ok_def q_room_def intro: accessible_part)
  then obtain h' where h': "mem_wr (q_putcursor q) ?hd h = Some h'" using mem_wr_Some by blast
  have e: "qa = q\<lparr>q_putcursor := ptr_add (q_putcursor q) (int (length ?hd))\<rparr>" "ha = h'"
    using write_all_mem [OF h'] a(1) by simp_all
  have "fst (q_putcursor q) = fst (q_front q)" using assms(1) by (simp add: q_ok_def)
  then have rd: "mem_rd (q_front d) (length v) ha = Some v"
    using mem_rd_wr_apart [OF h', of "q_front d" "length v"] assms(6,8) by (simp add: e(2))
  have "q_small qa" "fst (q_front d) \<noteq> fst (q_front qa)" "length v \<le> q_room (qa, ha)"
    using assms(2,4,8) a(4) by (simp_all add: e(1) q_small_def)
  then obtain q1 h1 where w: "q_writestring (q_front d) (int (length v)) (qa, ha) = Some (int (length v), q1, h1)"
    "q_ok (q1, h1)" "q_content (q1, h1) = ?hd @ v"
    using q_writestring_ok [OF a(2) _ rd] assms(7) a(3) by auto
  have st: "alp_stream_queue (Some d) (q, h) = Some (q1, h1)"
  proof -
    have "do { s \<leftarrow> q_writeshort (q_alloc d) (q, h); s \<leftarrow> q_writeshort (q_options d) s;
        q_writeshort (of_nat (length v)) s } = Some (qa, ha)"
      using a(1) by (auto simp: q_writeshort_def bind_eq_Some_conv)
    then show ?thesis using w(1) by (auto simp: alp_stream_queue_def assms(5) tu bind_eq_Some_conv)
  qed
  have c: "q_content (q1, h1) = [hi8 (q_alloc d), lo8 (q_alloc d)] @ bs" by (simp add: w(3) bs_def)
  obtain qb where rs: "q_readshort (q1, h1) = Some (q_alloc d, qb, h1)" "q_ok (qb, h1)" "q_content (qb, h1) = bs"
  proof -
    from qf.read_n_ok [OF w(2) c] obtain sb where sb: "read_n q_readbyte 2 (q1, h1) = Some ([hi8 (q_alloc d), lo8 (q_alloc d)], sb)"
      "q_ok sb" "q_content sb = bs" by (auto simp: numeral_2_eq_2)
    then have "q_readshort (q1, h1) = Some (q_alloc d, sb)"
      using get_item_bytes [of "Q_short (q_alloc d)" "(q1, h1)" sb]
      by (auto simp: numeral_2_eq_2 bind_eq_Some_conv)
    moreover have "snd sb = h1" using calculation by (auto simp: q_readshort_def q_readbyte_def bind_eq_Some_conv)
    ultimately show thesis using that [of "fst sb"] sb by (cases sb) simp
  qed
  have "mem_rd (q_getcursor qb) (length bs) h1 = Some bs"
    using q_content_skip [OF rs(2), of bs "[]"] rs(3) by simp
  moreover have "length bs = 4 + length v" by (simp add: bs_def)
  ultimately show ?thesis
    using st by (auto simp: alp_breakdown_queue_def rs(1) q_markbyte_def Let_def)
qed

theorem alp_queue_stream_mismatch_witness:
  "\<exists>q1 h1 d2 q2. alp_stream_queue (Some (demo_q2\<lparr>q_options := 2\<rparr>)) (fst demo_q, (snd demo_q)(8 \<mapsto> [1, 2, 3, 4])) = Some (q1, h1)
    \<and> alp_breakdown_queue (q1, h1) = Some (d2, q2, h1) \<and> mem_rd (q_front d2) 8 h1 = Some [0, 2, 0, 4, 1, 2, 3, 4]"
proof -
  let ?h = "(snd demo_q)(8 \<mapsto> [1, 2, 3, 4])" and ?d = "demo_q2\<lparr>q_options := 2\<rparr>" and ?v = "[1, 2, 3, 4] :: bytes"
  have d: "q_ok (fst demo_q, ?h)" "q_small (fst demo_q)" "q_content (fst demo_q, ?h) = []"
    "6 + length ?v \<le> q_room (fst demo_q, ?h)" "q_length ?d = Some (int (length ?v))"
    "mem_rd (q_front ?d) (length ?v) ?h = Some ?v" "?v \<noteq> []" "fst (q_front ?d) \<noteq> fst (q_front (fst demo_q))"
    by (simp_all add: demo_q_def demo_q2_def q_init_def q_empty_def q_ok_def q_small_def q_room_def
        accessible_def q_content_def q_count_def mem_rd_def rd_bytes_def q_length_def ptr_diff_def)
  show ?thesis using alp_queue_stream_mismatch [OF d] by (auto simp: demo_q2_def hi8_def lo8_def)
qed

section \<open>Actuators\<close>

text \<open>
  Actuating never works: an actuator other than 0 answers 255; actuator 0 answers 255 when
  its file (24) does not open, and when it opens with room for data the store of the one byte
  reads two, past the variable, which is undefined.
\<close>

theorem actuator_fails:
  assumes "actuator_id = 0 \<longrightarrow> vl_open VL_ISF_BLOCKID 24 VL_ACCESS_X Id_NULL v = Some (fp, v')"
    and "\<And>fd. fp = Some fd \<Longrightarrow> \<exists>f. get_file fd v' = Some f \<and> 0 < f_alloc f \<and> f_start f < f_start f + 1"
  shows "actuate act actuator_id val v =
    (if actuator_id = 0 then (case fp of None \<Rightarrow> Some (255, v') | Some fd \<Rightarrow> None) else Some (255, v))"
proof (cases "actuator_id = 0")
  case False
  then have "actuator_file actuator_id = 0" by (simp add: actuator_file_def actuator_list_def numeral_2_eq_2)
  then show ?thesis using False by (simp add: actuate_def)
next
  case True
  then have f: "actuator_file actuator_id = 24" by (simp add: actuator_file_def actuator_list_def numeral_2_eq_2)
  show ?thesis
  proof (cases fp)
    case None
    then show ?thesis using True assms(1) unfolding actuate_def f Let_def by simp
  next
    case (Some fd)
    with assms(2) obtain g where g: "get_file fd v' = Some g" "0 < f_alloc g" "f_start g < f_start g + 1" by blast
    have "\<not> f_alloc g < 1" using g(2) by (simp add: word_less_nat_alt)
    then have "vl_store fd 1 [val] v' = None"
      using g by (simp add: vl_store_def Let_def)
    then show ?thesis using True Some assms(1) unfolding actuate_def f Let_def by (simp add: vl_execute_def)
  qed
qed

end
