(* ===== verification/Alp_Main.thy ===== *)
theory Alp_Main
  imports Alp_Filedata Alp_Apps
begin

text \<open>
  The main processor of the application layer, \<^verbatim>\<open>otlib/alp_main.c\<close>, in the default build:
  pure ALP without NDEF, the file, sensor and logger protocols, no extension.
\<close>

section \<open>Records\<close>

definition sub_get_headerlen :: "u8 \<Rightarrow> u8" where
  "sub_get_headerlen tnf = 4"

text \<open>
  \<^verbatim>\<open>q_writelong_be\<close> takes a 32-bit number: the argument \<^verbatim>\<open>alp->OUTREC(FLAGS)\<close> is one byte,
  widened.
\<close>

definition sub_insert_header :: "ptr option \<Rightarrow> u8 \<Rightarrow> 'v alp_st \<Rightarrow> 'v alp_st option" where
  "sub_insert_header hdr_position hdr_len s = do {
     let savedput = ptr_add (q_putcursor (outq (a_tmpl s))) (uint hdr_len);
     let s = (case hdr_position of None \<Rightarrow> s | Some p \<Rightarrow> set_outq_put p s);
     s \<leftarrow> on_outq (q_writelong_be (ucast (r_flags (outrec (a_tmpl s))))) s;
     Some (upd_outrec (\<lambda>r. r\<lparr>r_flags := r_flags r AND NOT ALP_FLAG_MB\<rparr>) (set_outq_put savedput s))
   }"

definition alp_new_record :: "u8 \<Rightarrow> u8 \<Rightarrow> int \<Rightarrow> 'v alp_st \<Rightarrow> 'v alp_st option" where
  "alp_new_record flags payload_limit payload_remaining s = do {
     let s = upd_outrec (\<lambda>r. r\<lparr>r_flags := r_flags r OR flags\<rparr>) s;
     let s = upd_outrec (\<lambda>r. r\<lparr>r_flags := r_flags r OR ALP_FLAG_SR\<rparr>) s;
     let s = upd_outrec (\<lambda>r. r\<lparr>r_flags := r_flags r AND (ALP_FLAG_MB OR ALP_FLAG_SR)\<rparr>) s;
     let (payload_remaining, s) =
       (if uint payload_limit < payload_remaining then (uint payload_limit, s)
        else (payload_remaining, upd_outrec (\<lambda>r. r\<lparr>r_flags := r_flags r OR ALP_FLAG_ME\<rparr>) s));
     let s = upd_outrec (\<lambda>r. r\<lparr>r_plength := word_of_int payload_remaining\<rparr>) s;
     sub_insert_header None (sub_get_headerlen (r_flags (outrec (a_tmpl s)) AND 7)) s
   }"

section \<open>Protocols\<close>

datatype alp_fn = Proc_null | Proc_filedata | Proc_sensor | Proc_logger

record alp_elem_t =
  e_callback :: alp_fn
  e_appq :: "ot_queue option"

definition alp_proc_null :: "id_ref \<Rightarrow> 'v alp_st \<Rightarrow> (bool \<times> 'v alp_st) option" where
  "alp_proc_null a1 s = Some (True, s)"

definition null_elem :: alp_elem_t where
  "null_elem = \<lparr>e_callback = Proc_null, e_appq = None\<rparr>"

definition ALP_FUNCTIONS :: u8 where "ALP_FUNCTIONS = 5"

definition alp_table :: "alp_elem_t list" where
  "alp_table = [
     \<lparr>e_callback = Proc_filedata, e_appq = None\<rparr>,
     \<lparr>e_callback = Proc_sensor, e_appq = None\<rparr>,
     \<lparr>e_callback = Proc_null, e_appq = None\<rparr>,
     \<lparr>e_callback = Proc_logger, e_appq = None\<rparr>,
     \<lparr>e_callback = Proc_null, e_appq = None\<rparr>]"

definition sub_get_elem :: "u8 \<Rightarrow> alp_elem_t" where
  "sub_get_elem alp_id =
     (if alp_id = 0 then null_elem
      else
        let alp_id = alp_id - 1 in
        if ALP_FUNCTIONS \<le> alp_id then null_elem else alp_table ! unat alp_id)"

definition run_callback ::
  "'a action_fn \<Rightarrow> alp_fn \<Rightarrow> id_ref \<Rightarrow> 'a fs_st \<Rightarrow> (bool \<times> 'a fs_st) option" where
  "run_callback act fn = (case fn of
       Proc_null \<Rightarrow> alp_proc_null
     | Proc_filedata \<Rightarrow> alp_proc_filedata act
     | Proc_sensor \<Rightarrow> alp_proc_sensor act
     | Proc_logger \<Rightarrow> alp_proc_logger)"

text \<open>
  The application queue of a table element is an object that only the table refers to; in this
  table every element has none.
\<close>

definition load_appq :: "ot_queue option \<Rightarrow> 'v alp_st \<Rightarrow> 'v alp_st option" where
  "load_appq appq s = (case appq of
       None \<Rightarrow> Some s
     | Some q \<Rightarrow> do {
         flags \<leftarrow> INREC I_FLAGS s;
         let q = (if flags AND ALP_FLAG_MB \<noteq> 0 then q_empty q else q);
         plen \<leftarrow> INREC I_PLEN s;
         (_, q, qi, h) \<leftarrow> q_movedata q (inq (a_tmpl s)) (uint plen) (a_mem s);
         Some (s\<lparr>a_tmpl := (a_tmpl s)\<lparr>inq := qi\<rparr>, a_mem := h\<rparr>)
       })"

definition alp_proc :: "'a action_fn \<Rightarrow> id_ref \<Rightarrow> 'a fs_st \<Rightarrow> (bool \<times> 'a fs_st) option" where
  "alp_proc act user_id s = do {
     let s = upd_outrec (\<lambda>r. r\<lparr>r_plength := 0\<rparr>) s;
     alp_id \<leftarrow> INREC I_ID s;
     let proc_elem = sub_get_elem alp_id;
     s \<leftarrow> load_appq (e_appq proc_elem) s;
     flags \<leftarrow> INREC I_FLAGS s;
     (output_code, s) \<leftarrow> (if flags AND ALP_FLAG_ME \<noteq> 0
        then run_callback act (e_callback proc_elem) user_id s else Some (True, s));
     Some (output_code, upd_outrec (\<lambda>r. r\<lparr>r_flags := r_flags r OR ALP_FLAG_ME\<rparr>) s)
   }"

section \<open>Messages\<close>

definition alp_init :: "alp_tmpl \<Rightarrow> ot_queue \<Rightarrow> ot_queue \<Rightarrow> alp_tmpl" where
  "alp_init a qin qout = a\<lparr>purge_id := 1,
     outrec := (outrec a)\<lparr>r_flags := ALP_FLAG_MB OR ALP_FLAG_ME OR ALP_FLAG_SR\<rparr>,
     inq := qin, outq := qout\<rparr>"

definition lock_queues :: "'v alp_st \<Rightarrow> 'v alp_st option" where
  "lock_queues s = do {
     qi \<leftarrow> q_lock (inq (a_tmpl s));
     qo \<leftarrow> q_lock (outq (a_tmpl s));
     Some (s\<lparr>a_tmpl := (a_tmpl s)\<lparr>inq := qi, outq := qo\<rparr>\<rparr>)
   }"

definition load_record :: "'v alp_st \<Rightarrow> 'v alp_st option" where
  "load_record s =
     (if r_flags (outrec (a_tmpl s)) AND ALP_FLAG_ME \<noteq> 0 then do {
        flags \<leftarrow> INREC 0 s;
        alp_id \<leftarrow> INREC 2 s;
        cmd \<leftarrow> INREC 3 s;
        Some (upd_outrec (\<lambda>r. \<lparr>r_flags = flags, r_plength = 0, r_id = alp_id, r_cmd = cmd\<rparr>) s)
      } else Some s)"

text \<open>The header is written at its reserved place, or taken back with the data when there is none.\<close>

definition finish_record :: "ptr \<Rightarrow> 'v alp_st \<Rightarrow> 'v alp_st option" where
  "finish_record hdr_position s =
     (let r = outrec (a_tmpl s) in
      if r_plength r = 0 then
        Some (upd_outrec (\<lambda>r. r\<lparr>r_flags := r_flags r AND NOT ALP_FLAG_CF\<rparr>) (set_outq_put hdr_position s))
      else do {
        let savedput = q_putcursor (outq (a_tmpl s));
        s \<leftarrow> on_outq (q_writebyte (r_flags r)) (set_outq_put hdr_position s);
        s \<leftarrow> on_outq (q_writebyte (r_plength r)) s;
        s \<leftarrow> on_outq (q_writebyte (r_id r)) s;
        s \<leftarrow> on_outq (q_writebyte (r_cmd r)) s;
        Some (upd_outrec (\<lambda>r. r\<lparr>r_flags := r_flags r AND NOT ALP_FLAG_MB\<rparr>) (set_outq_put savedput s))
      })"

definition release_queues :: "ptr \<Rightarrow> 'v alp_st \<Rightarrow> 'v alp_st" where
  "release_queues input_position s = (let a = a_tmpl s in
     s\<lparr>a_tmpl := a\<lparr>inq := q_unlock ((inq a)\<lparr>q_putcursor := input_position, q_getcursor := input_position\<rparr>),
        outq := q_unlock (outq a)\<rparr>\<rparr>)"

definition alp_parse_message :: "'a action_fn \<Rightarrow> id_ref \<Rightarrow> 'a fs_st \<Rightarrow> (alp_status \<times> 'a fs_st) option" where
  "alp_parse_message act user_id s = do {
     s \<leftarrow> lock_queues s;
     n \<leftarrow> q_readspace (inq (a_tmpl s));
     m \<leftarrow> outq_space s;
     if n < 4 \<or> m < 4 then Some (MSG_Null, s)
     else do {
       s \<leftarrow> load_record s;
       let input_position = q_getcursor (inq (a_tmpl s));
       let s = move_inq_get 4 s;
       let hdr_position = q_putcursor (outq (a_tmpl s));
       let s = move_outq_put 4 s;
       (_, s) \<leftarrow> alp_proc act user_id s;
       s \<leftarrow> finish_record hdr_position s;
       Some (MSG_End, release_queues input_position s)
     }
   }"

end
