(* ===== verification/Alp_Fileops.thy ===== *)
theory Alp_Fileops
  imports Alp_Filedata
begin

text \<open>
  What the commands of the file protocol answer: the commands that take a list of file ids
  are loops with one contract, stated once as a locale and interpreted for each of them.
\<close>

section \<open>Commands over a list of ids\<close>

text \<open>
  The reference: the ids are served in order while there is room for one more entry; the
  result is the answer and the ids that were not served.
\<close>

fun served :: "nat \<Rightarrow> (u8 \<Rightarrow> bytes) \<Rightarrow> nat \<Rightarrow> u8 list \<Rightarrow> bytes \<times> u8 list" where
  "served size_of_entry entry room [] = ([], [])"
| "served size_of_entry entry room (i # is) =
     (if size_of_entry \<le> room
      then let (out, left) = served size_of_entry entry (room - length (entry i)) is in (entry i @ out, left)
      else ([], i # is))"

locale id_loop =
  fixes loop :: "'m \<Rightarrow> int \<Rightarrow> int \<Rightarrow> 's \<Rightarrow> (int \<times> 's) option"
    and entry_max :: nat
    and entry :: "'e \<Rightarrow> u8 \<Rightarrow> bytes"
    and good :: "'m \<Rightarrow> 'e \<Rightarrow> bool"
    and ok :: "'s \<Rightarrow> bool"
    and cin :: "'s \<Rightarrow> bytes"
    and cout :: "'s \<Rightarrow> bytes"
    and room :: "'s \<Rightarrow> nat"
    and rest :: "'s \<Rightarrow> 'e"
  assumes stop_law: "n \<le> 0 \<Longrightarrow> loop m n d s = Some (d, s)"
    and full_law: "ok s \<Longrightarrow> 0 < n \<Longrightarrow> room s < entry_max \<Longrightarrow> loop m n d s = Some (d, s)"
    and step_law: "ok s \<Longrightarrow> good m (rest s) \<Longrightarrow> 0 < n \<Longrightarrow> entry_max \<le> room s \<Longrightarrow> cin s = i # bs \<Longrightarrow>
      \<exists>m' s'. loop m n d s = loop m' (n - 1) (d + int (length (entry (rest s) i))) s'
        \<and> good m' (rest s) \<and> ok s' \<and> cin s' = bs \<and> cout s' = cout s @ entry (rest s) i
        \<and> room s' = room s - length (entry (rest s) i) \<and> rest s' = rest s"
begin

lemma loop_serves:
  "ok s \<Longrightarrow> good m (rest s) \<Longrightarrow> cin s = ids @ cs \<Longrightarrow>
   served entry_max (entry (rest s)) (room s) ids = (out, left) \<Longrightarrow>
   \<exists>s'. loop m (int (length ids)) d s = Some (d + int (length out), s') \<and> ok s' \<and> cin s' = left @ cs
     \<and> cout s' = cout s @ out \<and> rest s' = rest s"
proof (induction ids arbitrary: m d s out)
  case Nil
  then show ?case by (auto simp: stop_law)
next
  case (Cons i ids)
  show ?case
  proof (cases "entry_max \<le> room s")
    case False
    then have "loop m (int (length (i # ids))) d s = Some (d, s)" by (intro full_law [OF Cons.prems(1)]) auto
    then show ?thesis using False Cons.prems by auto
  next
    case True
    have "cin s = i # (ids @ cs)" using Cons.prems(3) by simp
    from step_law [OF Cons.prems(1,2) _ True this, of "int (length (i # ids))" d] obtain m' s1 where s1:
      "loop m (int (length (i # ids))) d s = loop m' (int (length ids)) (d + int (length (entry (rest s) i))) s1"
      "good m' (rest s1)" "ok s1" "cin s1 = ids @ cs" "cout s1 = cout s @ entry (rest s) i"
      "room s1 = room s - length (entry (rest s) i)" "rest s1 = rest s"
      by auto
    obtain o2 where o2: "served entry_max (entry (rest s1)) (room s1) ids = (o2, left)" "out = entry (rest s) i @ o2"
      using Cons.prems(4) True by (auto simp: s1(6,7) Let_def split: prod.splits)
    from Cons.IH [OF s1(3,2,4) o2(1), of "d + int (length (entry (rest s) i))"] show ?thesis
      using s1 o2(2) by (auto simp: add.assoc)
  qed
qed

end

lemma qnotfull_ok:
  "alp_ok s \<Longrightarrow> sub_qnotfull respond k (outq (a_tmpl s)) = Some (unat k \<le> out_room s \<or> respond = 0)"
proof -
  assume "alp_ok s"
  from outq_space_ok [OF this] have "q_writespace (outq (a_tmpl s)) = Some (int (out_room s))"
    by (simp add: outq_space_def)
  then show ?thesis
    unfolding sub_qnotfull_def uint_nat [of k] by (simp only: Option.bind_lunit of_nat_le_iff)
qed

text \<open>The entry with an error code, when a response is asked for.\<close>

definition code_entry :: "u8 \<Rightarrow> u8 \<Rightarrow> 'e \<Rightarrow> u8 \<Rightarrow> bytes" where
  "code_entry respond c e i = (if respond \<noteq> 0 then [i, c] else [])"

definition room_for :: "u8 \<Rightarrow> nat \<Rightarrow> nat" where
  "room_for respond k = (if respond \<noteq> 0 then k else 0)"

lemma answer_ok:
  assumes "alp_ok s" and "room_for respond 2 \<le> out_room s"
  shows "\<exists>s'. answer respond i c d s = Some (d + int (length (code_entry respond c e i)), s') \<and> alp_ok s'
    \<and> in_bytes s' = in_bytes s \<and> out_bytes s' = out_bytes s @ code_entry respond c e i
    \<and> out_room s' = out_room s - length (code_entry respond c e i) \<and> env s' = env s"
proof (cases "respond = 0")
  case True
  then show ?thesis using assms(1) by (intro exI [of _ s]) (simp add: answer_def code_entry_def)
next
  case False
  then have "length [i, c] \<le> out_room s" using assms(2) by (simp add: room_for_def)
  from io.writes [OF assms(1) this] obtain s' where s': "write_all (\<lambda>b. on_outq (q_writebyte b)) [i, c] s = Some s'"
    "alp_ok s'" "in_bytes s' = in_bytes s" "out_bytes s' = out_bytes s @ [i, c]"
    "out_room s' = out_room s - length [i, c]" "env s' = env s" by blast
  from s'(1) have "do { s \<leftarrow> on_outq (q_writebyte i) s; on_outq (q_writebyte c) s } = Some s'"
    by (auto simp: bind_eq_Some_conv)
  then have "answer respond i c d s = Some (d + 2, s')"
    using False by (auto simp: answer_def bind_eq_Some_conv)
  then show ?thesis using s' False by (intro exI [of _ s']) (simp add: code_entry_def)
qed

declare filedelete_loop.simps [simp del] filerestore_loop.simps [simp del] fileheaders_loop.simps [simp del]
  fileperms_loop.simps [simp del] filecreate_loop.simps [simp del]

text \<open>The beginning of every pass: there is room, and the id is read.\<close>

lemma pass_begins:
  assumes ok: "alp_ok s" and r: "room_for respond (unat k) \<le> out_room s" and c: "in_bytes s = i # bs"
  obtains s1 where "sub_qnotfull respond k (outq (a_tmpl s)) = Some True" and "on_inq q_readbyte s = Some (i, s1)"
    and "alp_ok s1" and "in_bytes s1 = bs" and "out_bytes s1 = out_bytes s" and "out_room s1 = out_room s"
    and "env s1 = env s" and "a_sys s1 = a_sys s"
proof -
  have "sub_qnotfull respond k (outq (a_tmpl s)) = Some True"
    using r by (auto simp: qnotfull_ok [OF ok] room_for_def)
  then show thesis using that alp_rd_law [OF ok c] env_sys by blast
qed

lemma restore_step:
  assumes ok: "alp_ok s" and n: "0 < n" and r: "room_for respond 2 \<le> out_room s" and c: "in_bytes s = i # bs"
  shows "\<exists>s'. filerestore_loop respond n d s
        = filerestore_loop respond (n - 1) (d + int (length (code_entry respond 3 (env s) i))) s'
      \<and> alp_ok s' \<and> in_bytes s' = bs \<and> out_bytes s' = out_bytes s @ code_entry respond 3 (env s) i
      \<and> out_room s' = out_room s - length (code_entry respond 3 (env s) i) \<and> env s' = env s"
proof -
  obtain s1 where s1: "sub_qnotfull respond 2 (outq (a_tmpl s)) = Some True" "on_inq q_readbyte s = Some (i, s1)"
    "alp_ok s1" "in_bytes s1 = bs" "out_bytes s1 = out_bytes s" "out_room s1 = out_room s" "env s1 = env s"
    using pass_begins [OF ok _ c, of respond 2] r by auto
  obtain s2 where s2: "answer respond i 3 d s1 = Some (d + int (length (code_entry respond 3 (env s) i)), s2)"
    "alp_ok s2" "in_bytes s2 = in_bytes s1" "out_bytes s2 = out_bytes s1 @ code_entry respond 3 (env s) i"
    "out_room s2 = out_room s1 - length (code_entry respond 3 (env s) i)" "env s2 = env s1"
    using answer_ok [OF s1(3), of respond i 3 d "env s"] r s1(6) by auto
  have "filerestore_loop respond n d s
      = filerestore_loop respond (n - 1) (d + int (length (code_entry respond 3 (env s) i))) s2"
    unfolding filerestore_loop.simps [of respond n d s] by (simp add: n s1(1,2) s2(1))
  then show ?thesis using s1 s2 by (intro exI [of _ s2]) simp
qed

lemma delete_step:
  assumes ok: "alp_ok s" and n: "0 < n" and r: "room_for respond 2 \<le> out_room s" and c: "in_bytes s = i # bs"
  shows "\<exists>s'. filedelete_loop u respond blk n d s
        = filedelete_loop u respond blk (n - 1) (d + int (length (code_entry respond 255 (env s) i))) s'
      \<and> alp_ok s' \<and> in_bytes s' = bs \<and> out_bytes s' = out_bytes s @ code_entry respond 255 (env s) i
      \<and> out_room s' = out_room s - length (code_entry respond 255 (env s) i) \<and> env s' = env s"
proof -
  obtain s1 where s1: "sub_qnotfull respond 2 (outq (a_tmpl s)) = Some True" "on_inq q_readbyte s = Some (i, s1)"
    "alp_ok s1" "in_bytes s1 = bs" "out_bytes s1 = out_bytes s" "out_room s1 = out_room s" "env s1 = env s"
    using pass_begins [OF ok _ c, of respond 2] r by auto
  obtain s2 where s2: "answer respond i 255 d s1 = Some (d + int (length (code_entry respond 255 (env s) i)), s2)"
    "alp_ok s2" "in_bytes s2 = in_bytes s1" "out_bytes s2 = out_bytes s1 @ code_entry respond 255 (env s) i"
    "out_room s2 = out_room s1 - length (code_entry respond 255 (env s) i)" "env s2 = env s1"
    using answer_ok [OF s1(3), of respond i 255 d "env s"] r s1(6) by auto
  have "filedelete_loop u respond blk n d s
      = filedelete_loop u respond blk (n - 1) (d + int (length (code_entry respond 255 (env s) i))) s2"
    unfolding filedelete_loop.simps [of u respond blk n d s]
    by (simp add: n s1(1,2) s2(1) on_sys_def vl_delete_def)
  then show ?thesis using s1 s2 by (intro exI [of _ s2]) simp
qed

lemma loop_ends:
  "n \<le> 0 \<Longrightarrow> filerestore_loop respond n d s = Some (d, s)"
  "n \<le> 0 \<Longrightarrow> filedelete_loop u respond blk n d s = Some (d, s)"
  "n \<le> 0 \<Longrightarrow> fileheaders_loop respond blk n d s = Some (d, s)"
  "n \<le> 0 \<Longrightarrow> fileperms_loop u respond blk md n d s = Some (d, s)"
  by (simp_all add: filerestore_loop.simps [of respond n d s] filedelete_loop.simps [of u respond blk n d s]
      fileheaders_loop.simps [of respond blk n d s] fileperms_loop.simps [of u respond blk md n d s])

lemma no_room:
  assumes "alp_ok s" and "out_room s < room_for respond (unat k)"
  shows "sub_qnotfull respond k (outq (a_tmpl s)) = Some False"
  using assms by (simp add: qnotfull_ok room_for_def split: if_splits)

lemma loop_full:
  assumes "alp_ok s"
  shows "out_room s < room_for respond 2 \<Longrightarrow> filerestore_loop respond n d s = Some (d, s)"
    and "out_room s < room_for respond 2 \<Longrightarrow> filedelete_loop u respond blk n d s = Some (d, s)"
    and "out_room s < room_for respond 6 \<Longrightarrow> fileheaders_loop respond blk n d s = Some (d, s)"
    and "out_room s < room_for respond 2 \<Longrightarrow> fileperms_loop u respond blk md n d s = Some (d, s)"
  using no_room [OF assms, of respond 2] no_room [OF assms, of respond 6]
  by (simp_all add: filerestore_loop.simps [of respond n d s] filedelete_loop.simps [of u respond blk n d s]
      fileheaders_loop.simps [of respond blk n d s] fileperms_loop.simps [of u respond blk md n d s])

interpretation restore: id_loop "\<lambda>_ :: unit. filerestore_loop respond" "room_for respond 2"
    "code_entry respond 3" "\<lambda>_ _. True" alp_ok in_bytes out_bytes out_room env
  by unfold_locales (simp add: loop_ends, simp add: loop_full, use restore_step in blast)

interpretation delete: id_loop "\<lambda>_ :: unit. filedelete_loop u respond blk" "room_for respond 2"
    "code_entry respond 255" "\<lambda>_ _. True" alp_ok in_bytes out_bytes out_room env
  by unfold_locales (simp add: loop_ends, simp add: loop_full, use delete_step in blast)

section \<open>Headers and permissions of the default filesystem\<close>

lemma file_header_default:
  assumes "default_ready build_id (a_sys s)"
  shows "file_header VL_ISF_BLOCKID i md Id_NULL s
    = Some (if unat i < 23 then (0, of_nat (64 + 16 * unat i)) else (1, NULL_vaddr), s)"
proof (cases "unat i < 23")
  case True
  then have "unat i < 25" by simp
  note ne = isf_header_words(7) [OF assms this]
  have "ISF_ID (isf_files ! unat i) = i" by (simp add: ISF_ID_index [OF True])
  then have "sub_isf_search i (a_sys s) = Some (of_nat (64 + 16 * unat i))"
    using isf_search_default [OF assms True] by simp
  then show ?thesis
    using True ne by (simp add: file_header_def on_sys_def vl_getheader_vaddr_def vl_consts)
next
  case False
  then have "sub_isf_search i (a_sys s) = Some NULL_vaddr" by (intro isf_search_missing [OF assms]) simp
  then show ?thesis
    using False by (simp add: file_header_def on_sys_def vl_getheader_vaddr_def vl_consts)
qed

definition header_entry :: "'e \<Rightarrow> u8 \<Rightarrow> bytes" where
  "header_entry e i =
     (if unat i < 23 then
        let f = isf_files ! unat i; alloc = of_nat (ISF_ALLOC f) :: u16
        in [i, ISF_MOD f, 0, ISF_LEN f, hi8 alloc, lo8 alloc]
      else [])"

definition perms_entry :: "u8 \<Rightarrow> 'e \<Rightarrow> u8 \<Rightarrow> bytes" where
  "perms_entry respond e i =
     (if respond \<noteq> 0 \<and> unat i < 23 then [i, ISF_MOD (isf_files ! unat i)] else [])"

lemma lo_hi_ucast: "lo8 (ucast b) = b" "hi8 (ucast b) = 0"
  by (auto simp: lo8_def hi8_def bit_eq_iff bit_simps dest: bit_imp_le_length)

lemma put_header_default:
  assumes ok: "alp_ok s" and r: "6 \<le> out_room s" and d: "default_ready build_id (a_sys s)" and i: "unat i < 23"
  shows "\<exists>s'. put_header (of_nat (64 + 16 * unat i)) s = Some s' \<and> alp_ok s' \<and> in_bytes s' = in_bytes s
    \<and> out_bytes s' = out_bytes s @ header_entry e i \<and> out_room s' = out_room s - 6 \<and> env s' = env s"
proof -
  let ?f = "isf_files ! unat i" and ?h = "of_nat (64 + 16 * unat i) :: u16"
  have i25: "unat i < 25" using i by simp
  have ident: "ISF_ID ?f = i" by (simp add: ISF_ID_index [OF i])
  note w = isf_header_words(1-3) [OF d i25, unfolded ident]
  obtain s1 where s1: "on_outq (q_writeshort_be (join16 i (ISF_MOD ?f))) s = Some s1" "alp_ok s1"
    "in_bytes s1 = in_bytes s" "out_bytes s1 = out_bytes s @ [i, ISF_MOD ?f]" "out_room s1 = out_room s - 2" "env s1 = env s"
    using write_short(2) [OF ok, of "join16 i (ISF_MOD ?f)"] r by auto
  have "2 \<le> out_room s1" using s1(5) r by simp
  from write_short(1) [OF s1(2) this, of "ucast (ISF_LEN ?f)"]
  obtain s2 where s2: "on_outq (q_writeshort (ucast (ISF_LEN ?f))) s1 = Some s2" "alp_ok s2"
    "in_bytes s2 = in_bytes s1" "out_bytes s2 = out_bytes s1 @ [0, ISF_LEN ?f]" "out_room s2 = out_room s1 - 2" "env s2 = env s1"
    unfolding lo_hi_ucast by blast
  have "2 \<le> out_room s2" using s1(5) s2(5) r by simp
  from write_short(1) [OF s2(2) this, of "of_nat (ISF_ALLOC ?f)"]
  obtain s3 where s3: "on_outq (q_writeshort (of_nat (ISF_ALLOC ?f))) s2 = Some s3" "alp_ok s3"
    "in_bytes s3 = in_bytes s2"
    "out_bytes s3 = out_bytes s2 @ [hi8 (of_nat (ISF_ALLOC ?f)), lo8 (of_nat (ISF_ALLOC ?f))]"
    "out_room s3 = out_room s2 - 2" "env s3 = env s2"
    by blast
  note e = env_sys [OF s1(6)] env_sys [OF s2(6)]
  have "put_header ?h s = Some s3"
    unfolding put_header_def sys_read_def w(3) Option.bind_lunit s1(1) e s2(1) s3(1) add_0_right w(1,2) ..
  then show ?thesis
    using s1 s2 s3 i by (intro exI [of _ s3]) (simp add: header_entry_def Let_def)
qed

lemma headers_step:
  assumes ok: "alp_ok s" and d: "default_ready build_id (snd (env s))" and n: "0 < n"
    and r: "room_for 0x80 6 \<le> out_room s" and c: "in_bytes s = i # bs"
  shows "\<exists>s'. fileheaders_loop 0x80 VL_ISF_BLOCKID n d0 s
        = fileheaders_loop 0x80 VL_ISF_BLOCKID (n - 1) (d0 + int (length (header_entry (env s) i))) s'
      \<and> alp_ok s' \<and> in_bytes s' = bs \<and> out_bytes s' = out_bytes s @ header_entry (env s) i
      \<and> out_room s' = out_room s - length (header_entry (env s) i) \<and> env s' = env s"
proof -
  obtain s1 where s1: "sub_qnotfull 0x80 6 (outq (a_tmpl s)) = Some True" "on_inq q_readbyte s = Some (i, s1)"
    "alp_ok s1" "in_bytes s1 = bs" "out_bytes s1 = out_bytes s" "out_room s1 = out_room s" "env s1 = env s"
    "a_sys s1 = a_sys s"
    using pass_begins [OF ok _ c, of "0x80" 6] r by auto
  have d1: "default_ready build_id (a_sys s1)" using d s1(8) by (simp add: env_def)
  note fh = file_header_default [OF d1, of i VL_ACCESS_R]
  show ?thesis
  proof (cases "unat i < 23")
    case True
    have "6 \<le> out_room s1" using r s1(6) by (simp add: room_for_def)
    from put_header_default [OF s1(3) this d1 True, of "env s"] obtain s2 where s2:
      "put_header (of_nat (64 + 16 * unat i)) s1 = Some s2" "alp_ok s2" "in_bytes s2 = in_bytes s1"
      "out_bytes s2 = out_bytes s1 @ header_entry (env s) i" "out_room s2 = out_room s1 - 6" "env s2 = env s1"
      by blast
    have l: "length (header_entry (env s) i) = 6" using True by (simp add: header_entry_def Let_def)
    have "fileheaders_loop 0x80 VL_ISF_BLOCKID n d0 s = fileheaders_loop 0x80 VL_ISF_BLOCKID (n - 1) (d0 + 6) s2"
      unfolding fileheaders_loop.simps [of "0x80" VL_ISF_BLOCKID n d0 s]
      using True s2(1) by (simp add: n s1(1,2) fh del: of_nat_add of_nat_mult)
    then show ?thesis using s1 s2 l by (intro exI [of _ s2]) simp
  next
    case False
    have "fileheaders_loop 0x80 VL_ISF_BLOCKID n d0 s = fileheaders_loop 0x80 VL_ISF_BLOCKID (n - 1) d0 s1"
      unfolding fileheaders_loop.simps [of "0x80" VL_ISF_BLOCKID n d0 s]
      using False by (simp add: n s1(1,2) fh)
    then show ?thesis using s1 False by (intro exI [of _ s1]) (simp add: header_entry_def)
  qed
qed

interpretation headers: id_loop "\<lambda>_ :: unit. fileheaders_loop 0x80 VL_ISF_BLOCKID" "room_for 0x80 6"
    header_entry "\<lambda>_ e. default_ready build_id (snd e)" alp_ok in_bytes out_bytes out_room env
  by unfold_locales (simp add: loop_ends, simp add: loop_full, use headers_step in blast)

text \<open>
  Reading permissions. The access mode of each file replaces the variable that tells reading
  from writing; no file of the table has the mode that stands for writing.
\<close>

lemma ISF_MOD_not_W: "ISF_MOD f \<noteq> VL_ACCESS_W"
  by (cases f) (simp_all add: VL_ACCESS_W_def ISF_MOD_file_standard_def)

lemma perms_step:
  assumes ok: "alp_ok s" and g: "md \<noteq> VL_ACCESS_W \<and> default_ready build_id (snd (env s))" and n: "0 < n"
    and r: "room_for respond 2 \<le> out_room s" and c: "in_bytes s = i # bs"
  shows "\<exists>md' s'. fileperms_loop u respond VL_ISF_BLOCKID md n d0 s
        = fileperms_loop u respond VL_ISF_BLOCKID md' (n - 1) (d0 + int (length (perms_entry respond (env s) i))) s'
      \<and> (md' \<noteq> VL_ACCESS_W \<and> default_ready build_id (snd (env s)))
      \<and> alp_ok s' \<and> in_bytes s' = bs \<and> out_bytes s' = out_bytes s @ perms_entry respond (env s) i
      \<and> out_room s' = out_room s - length (perms_entry respond (env s) i) \<and> env s' = env s"
proof -
  obtain s1 where s1: "sub_qnotfull respond 2 (outq (a_tmpl s)) = Some True" "on_inq q_readbyte s = Some (i, s1)"
    "alp_ok s1" "in_bytes s1 = bs" "out_bytes s1 = out_bytes s" "out_room s1 = out_room s" "env s1 = env s"
    "a_sys s1 = a_sys s"
    using pass_begins [OF ok _ c, of respond 2] r by auto
  have d1: "default_ready build_id (a_sys s1)" using g s1(8) by (simp add: env_def)
  note fh = file_header_default [OF d1, of i VL_ACCESS_R]
  show ?thesis
  proof (cases "respond \<noteq> 0 \<and> unat i < 23")
    case True
    let ?m = "ISF_MOD (isf_files ! unat i)"
    have i25: "unat i < 25" using True by simp
    note w = isf_header_words(3) [OF d1 i25]
    have e: "perm_entry u respond VL_ISF_BLOCKID md i s1 = Some ((?m, True), s1)"
      using True g w by (simp add: perm_entry_def fh sys_read_def del: of_nat_add of_nat_mult)
    have "length [i, ?m] \<le> out_room s1" using r s1(6) True by (simp add: room_for_def)
    from io.writes [OF s1(3) this] obtain s2 where s2: "write_all (\<lambda>b. on_outq (q_writebyte b)) [i, ?m] s1 = Some s2"
      "alp_ok s2" "in_bytes s2 = in_bytes s1" "out_bytes s2 = out_bytes s1 @ [i, ?m]"
      "out_room s2 = out_room s1 - length [i, ?m]" "env s2 = env s1" by blast
    from s2(1) obtain s' where s': "on_outq (q_writebyte i) s1 = Some s'" "on_outq (q_writebyte ?m) s' = Some s2"
      by (auto simp: bind_eq_Some_conv)
    have "fileperms_loop u respond VL_ISF_BLOCKID md n d0 s = fileperms_loop u respond VL_ISF_BLOCKID ?m (n - 1) (d0 + 2) s2"
      unfolding fileperms_loop.simps [of u respond VL_ISF_BLOCKID md n d0 s]
      using g by (simp add: n s1(1,2) e s')
    then show ?thesis
      using s1 s2 True g ISF_MOD_not_W by (intro exI [of _ ?m] exI [of _ s2]) (simp add: perms_entry_def)
  next
    case False
    have e: "perm_entry u respond VL_ISF_BLOCKID md i s1 = Some ((md, False), s1)"
      using False g by (auto simp: perm_entry_def fh)
    have "fileperms_loop u respond VL_ISF_BLOCKID md n d0 s = fileperms_loop u respond VL_ISF_BLOCKID md (n - 1) d0 s1"
      unfolding fileperms_loop.simps [of u respond VL_ISF_BLOCKID md n d0 s]
      using g by (simp add: n s1(1,2) e)
    moreover have "perms_entry respond (env s) i = []" using False by (auto simp: perms_entry_def)
    ultimately show ?thesis using s1 g by (intro exI [of _ md] exI [of _ s1]) simp
  qed
qed

interpretation perms: id_loop "fileperms_loop u respond VL_ISF_BLOCKID" "room_for respond 2"
    "perms_entry respond" "\<lambda>md e. md \<noteq> VL_ACCESS_W \<and> default_ready build_id (snd e)"
    alp_ok in_bytes out_bytes out_room env
  by unfold_locales (simp add: loop_ends, simp add: loop_full, use perms_step in blast)

end
