(* ===== verification/Alp_Reading.thy ===== *)
theory Alp_Reading
  imports Alp_Fileops
begin

text \<open>
  Reading file data through the file protocol: what one entry of a read command puts on the
  output queue, for any file whose half-words are known, and lists of entries on the default
  filesystem.
\<close>

section \<open>The read loop\<close>

lemma two_bytes_then:
  assumes "k + 2 \<le> length D"
  shows "[D ! k, D ! Suc k] @ take (2 * n) (drop (k + 2) D) = take (2 * Suc n) (drop k D)"
proof -
  have "drop k D = D ! k # D ! Suc k # drop (k + 2) D"
    using assms Cons_nth_drop_Suc [of k D] Cons_nth_drop_Suc [of "Suc k" D] by simp
  then show ?thesis by simp
qed

text \<open>The half-words of an open file are those of \<open>D\<close>.\<close>

definition file_words :: "nat \<Rightarrow> bytes \<Rightarrow> 'a vl_state_scheme \<Rightarrow> bool" where
  "file_words fd D v \<longleftrightarrow> (\<forall>k. even (unat k) \<and> unat k + 2 \<le> length D \<longrightarrow>
     vl_read fd k v = Some (join16 (D ! unat k) (D ! Suc (unat k))))"

lemma read_loop_words:
  fixes v :: "'a vl_state_scheme"
  assumes w: "file_words fd D v"
  shows "alp_ok s \<Longrightarrow> a_sys s = v \<Longrightarrow> even (unat offset) \<Longrightarrow>
    unat limit = unat offset + 2 * n \<Longrightarrow> unat limit \<le> length D \<Longrightarrow> 2 * n < out_room s \<Longrightarrow>
    0 \<le> out \<Longrightarrow> out + 2 * int n < 32768 \<Longrightarrow>
    \<exists>s'. read_loop fd limit offset span out s = Some ((False, span - of_nat (2 * n), out + 2 * int n), s')
      \<and> alp_ok s' \<and> in_bytes s' = in_bytes s
      \<and> out_bytes s' = out_bytes s @ take (2 * n) (drop (unat offset) D)
      \<and> out_room s' = out_room s - 2 * n \<and> env s' = env s"
proof (induction n arbitrary: s offset span out)
  case 0
  then have "\<not> offset < limit" by (simp add: word_less_nat_alt)
  then show ?case using 0 by (subst read_loop.simps) simp
next
  case (Suc n)
  let ?k = "unat offset"
  have lt: "offset < limit" using Suc.prems(4) by (simp add: word_less_nat_alt)
  have k: "?k + 2 \<le> length D" "?k + 2 < 65536"
    using Suc.prems(4,5) unsigned_less [where w = limit and ?'a = nat] by simp_all
  have sp: "outq_space s = Some (int (out_room s))" "\<not> out_room s \<le> 2"
    using outq_space_ok [OF Suc.prems(1)] Suc.prems(6) by simp_all
  have rd: "vl_read fd offset (a_sys s) = Some (join16 (D ! ?k) (D ! Suc ?k))"
    using w Suc.prems(2,3) k(1) by (simp add: file_words_def)
  have "2 \<le> out_room s" using Suc.prems(6) by simp
  from write_short(2) [OF Suc.prems(1) this, of "join16 (D ! ?k) (D ! Suc ?k)"]
  obtain s1 where s1: "on_outq (q_writeshort_be (join16 (D ! ?k) (D ! Suc ?k))) s = Some s1" "alp_ok s1"
    "in_bytes s1 = in_bytes s" "out_bytes s1 = out_bytes s @ [D ! ?k, D ! Suc ?k]"
    "out_room s1 = out_room s - 2" "env s1 = env s" by auto
  have off: "unat (offset + 2) = ?k + 2" using unat_add_u16 [of offset 2] k(2) by simp
  have o: "to_ot_int (out + 2) = out + 2" using Suc.prems(7,8) by simp
  have "\<exists>s'. read_loop fd limit (offset + 2) (span - 2) (out + 2) s1
      = Some ((False, (span - 2) - of_nat (2 * n), (out + 2) + 2 * int n), s')
      \<and> alp_ok s' \<and> in_bytes s' = in_bytes s1 \<and> out_bytes s' = out_bytes s1 @ take (2 * n) (drop (unat (offset + 2)) D)
      \<and> out_room s' = out_room s1 - 2 * n \<and> env s' = env s1"
    by (rule Suc.IH) (use Suc.prems s1 off env_sys [OF s1(6)] in simp_all)
  then obtain s2 where s2: "read_loop fd limit (offset + 2) (span - 2) (out + 2) s1
      = Some ((False, (span - 2) - of_nat (2 * n), (out + 2) + 2 * int n), s2)"
    "alp_ok s2" "in_bytes s2 = in_bytes s1" "out_bytes s2 = out_bytes s1 @ take (2 * n) (drop (?k + 2) D)"
    "out_room s2 = out_room s1 - 2 * n" "env s2 = env s1" unfolding off by blast
  note l = two_bytes_then [OF k(1), of n]
  have "read_loop fd limit offset span out s = read_loop fd limit (offset + 2) (span - 2) (out + 2) s1"
    by (subst read_loop.simps) (simp add: lt sp rd s1(1) o)
  moreover have "out_bytes s2 = out_bytes s @ take (2 * Suc n) (drop ?k D)"
    unfolding s2(4) s1(4) l [symmetric] by simp
  ultimately show ?case
    using s2 s1 by (intro exI [of _ s2]) (simp add: algebra_simps)
qed

section \<open>One entry of a read command\<close>

text \<open>
  A request: a file of the table, an offset and a span, both even, inside the length of the
  file; the bytes that ask for it, and the bytes that answer it.
\<close>

type_synonym read_req = "nat \<times> u16 \<times> u16"

definition req_ok :: "read_req \<Rightarrow> bool" where
  "req_ok r \<longleftrightarrow> (case r of (i, off, sp) \<Rightarrow> i < 23 \<and> even (unat off) \<and> even (unat sp)
     \<and> unat off + unat sp \<le> unat (ISF_LEN (isf_files ! i)) \<and> unat off < unat (ISF_LEN (isf_files ! i)))"

definition req_bytes :: "read_req \<Rightarrow> bytes" where
  "req_bytes r = (case r of (i, off, sp) \<Rightarrow> [of_nat i, hi8 off, lo8 off, hi8 sp, lo8 sp])"

definition reply_bytes :: "bytes \<Rightarrow> read_req \<Rightarrow> bytes" where
  "reply_bytes build_id r = (case r of (i, off, sp) \<Rightarrow>
     [of_nat i, hi8 off, lo8 off, hi8 sp, lo8 sp] @ take (unat sp) (drop (unat off) (isf_stock build_id (isf_files ! i))))"

lemma read_stage_words:
  fixes v :: "'a vl_state_scheme"
  assumes w: "file_words fd D v" and g: "get_file fd v = Some f" and len: "unat (f_length f) \<le> length D"
    and idm: "vworm_read (h + 4) v = Some (join16 x md)"
    and rq: "even (unat off)" "even (unat sp)" "unat off + unat sp \<le> unat (f_length f)" "unat off < unat (f_length f)"
    and ok: "alp_ok s" and sy: "a_sys s = v"
    and room: "7 + unat sp < out_room s" and out: "0 \<le> out" "out + 5 + int (unat sp) < 32768"
  shows "\<exists>s'. read_stage fd h off sp (off + sp) False out s = Some ((False, 0, out + 5 + int (unat sp)), s')
    \<and> alp_ok s' \<and> in_bytes s' = in_bytes s
    \<and> out_bytes s' = out_bytes s @ [x, hi8 off, lo8 off, hi8 sp, lo8 sp] @ take (unat sp) (drop (unat off) D)
    \<and> out_room s' = out_room s - (5 + unat sp) \<and> env s' = env s"
proof -
  have lim: "unat (off + sp) = unat off + unat sp"
    by (rule unat_add_u16) (use rq(3) unat_u16_less [of "f_length f"] in linarith)
  have sp: "outq_space s = Some (int (out_room s))" "\<not> out_room s \<le> 5"
    using outq_space_ok [OF ok] room by simp_all
  have idm: "sys_read (h + 4) s = Some (join16 x md)" using idm by (simp add: sys_read_def sy)
  have "0 < out_room s" using room by simp
  from alp_wr_law [OF ok this, of x] obtain s1 where s1: "on_outq (q_writebyte x) s = Some s1"
    "alp_ok s1" "in_bytes s1 = in_bytes s" "out_bytes s1 = out_bytes s @ [x]" "out_room s1 = out_room s - 1"
    "env s1 = env s" by auto
  have g: "get_file fd (a_sys s1) = Some f" using g env_sys [OF s1(6)] by (simp add: sy)
  have cmp: "\<not> f_length f \<le> off" "\<not> f_length f < off + sp"
    using rq(3,4) lim unfolding word_le_nat_alt word_less_nat_alt by simp_all
  have "2 \<le> out_room s1" using s1(5) room by simp
  from write_short(1) [OF s1(2) this, of off] obtain s2 where s2: "on_outq (q_writeshort off) s1 = Some s2" "alp_ok s2"
    "in_bytes s2 = in_bytes s1" "out_bytes s2 = out_bytes s1 @ [hi8 off, lo8 off]" "out_room s2 = out_room s1 - 2"
    "env s2 = env s1" by blast
  have "2 \<le> out_room s2" using s1(5) s2(5) room by simp
  from write_short(1) [OF s2(2) this, of sp] obtain s3 where s3: "on_outq (q_writeshort sp) s2 = Some s3" "alp_ok s3"
    "in_bytes s3 = in_bytes s2" "out_bytes s3 = out_bytes s2 @ [hi8 sp, lo8 sp]" "out_room s3 = out_room s2 - 2"
    "env s3 = env s2" by blast
  have sy3: "a_sys s3 = v" using env_sys [OF s1(6)] env_sys [OF s2(6)] env_sys [OF s3(6)] sy by simp
  obtain n where n: "unat sp = 2 * n" using rq(2) by (auto elim: evenE)
  have "\<exists>s'. read_loop fd (off + sp) off sp (out + 5) s3 = Some ((False, sp - of_nat (2 * n), out + 5 + 2 * int n), s')
      \<and> alp_ok s' \<and> in_bytes s' = in_bytes s3 \<and> out_bytes s' = out_bytes s3 @ take (2 * n) (drop (unat off) D)
      \<and> out_room s' = out_room s3 - 2 * n \<and> env s' = env s3"
    by (rule read_loop_words [OF w s3(2) sy3 rq(1)]) (use lim n rq(3) len room out s1(5) s2(5) s3(5) in simp_all)
  then obtain s4 where s4: "read_loop fd (off + sp) off sp (out + 5) s3 = Some ((False, sp - of_nat (2 * n), out + 5 + 2 * int n), s4)"
    "alp_ok s4" "in_bytes s4 = in_bytes s3" "out_bytes s4 = out_bytes s3 @ take (2 * n) (drop (unat off) D)"
    "out_room s4 = out_room s3 - 2 * n" "env s4 = env s3" by blast
  have "sp = of_nat (2 * n)" unfolding n [symmetric] by simp
  then have z: "sp - of_nat (2 * n) = 0" by simp
  note rl = s4(1) [unfolded z]
  have "out + 5 < 32768" using out(2) by linarith
  then have o: "to_ot_int (out + 5) = out + 5" using out(1) by simp
  have "read_stage fd h off sp (off + sp) False out s = Some ((False, 0, out + 5 + 2 * int n), s4)"
    unfolding read_stage_def Let_def if_False sp(1) Option.bind_lunit idm
    by (simp add: sp(2) s1(1) g cmp s2(1) s3(1) o rl)
  then show ?thesis using s1 s2 s3 s4 n by (intro exI [of _ s4]) simp
qed

text \<open>
  The whole pass: the entry is read from the input and answered, the file is closed again.
  After the first entry the variable \<^verbatim>\<open>file_mod\<close> is 0, which is the access mode of the others.
\<close>

lemma file_header_eq:
  "vl_getheader_vaddr 0 blk x md u (a_sys s) = Some (rc, h, v) \<Longrightarrow> file_header blk x md u s = Some ((rc, h), s\<lparr>a_sys := v\<rparr>)"
  by (simp add: file_header_def on_sys_def)

lemma limit_small:
  assumes "unat off + unat sp < 65536"
  shows "\<not> 65535 < uint off + uint sp" and "word_of_int (uint off + uint sp) = off + sp"
proof -
  show "\<not> 65535 < uint off + uint sp" using assms uint_nat [of off] uint_nat [of sp] by linarith
  show "word_of_int (uint off + uint sp) = off + sp" by (simp only: wi_hom_add [symmetric] word_of_int_uint)
qed

lemma respond_stage_clean:
  assumes ok: "alp_ok s" and cl: "vl_close act (Some fd) (a_sys s) = Some (0, v')"
    and room: "2 < out_room s" and n: "0 < n" "n < 32768"
  shows "respond_stage act respond marker (Some fd) 0 file_id 0 0 n out s = Some ((False, n - 5, out), s\<lparr>a_sys := v'\<rparr>)"
proof -
  have "on_sys (vl_close act (Some fd)) s = Some (0, s\<lparr>a_sys := v'\<rparr>)" using cl by (simp add: on_sys_def)
  moreover have "outq_space s = Some (int (out_room s))" by (rule outq_space_ok [OF ok])
  ultimately show ?thesis using room n by (simp add: respond_stage_def)
qed

lemma filedata_pass_words:
  assumes ok: "alp_ok s" and c: "in_bytes s = [x, hi8 off, lo8 off, hi8 sp, lo8 sp] @ cs"
    and fh: "vl_getheader_vaddr 0 (block_of cmd_in) x md Id_NULL (a_sys s) = Some (0, h, a_sys s)"
    and op: "vl_open_file h (a_sys s) = Some (Some fd, v)" and cl: "vl_close act (Some fd) v = Some (0, v')"
    and w: "file_words fd D v" and g: "get_file fd v = Some f" and len: "unat (f_length f) \<le> length D"
    and idm: "vworm_read (h + 4) v = Some (join16 x m)"
    and rq: "even (unat off)" "even (unat sp)" "unat off + unat sp \<le> unat (f_length f)" "unat off < unat (f_length f)"
    and room: "7 + unat sp < out_room s"
    and out: "0 \<le> out" "out + 5 + int (unat sp) < 32768" and n: "0 < n" "n < 32768"
    and cmd: "cmd_in AND 0x0F \<noteq> 0x0C" and md: "md AND VL_ACCESS_W = 0"
  shows "\<exists>s'. filedata_pass act Id_NULL respond cmd_in marker md fp0 n out s
        = Some ((False, 0, Some fd, n - 5, out + 5 + int (unat sp)), s')
    \<and> alp_ok s' \<and> in_bytes s' = cs
    \<and> out_bytes s' = out_bytes s @ [x, hi8 off, lo8 off, hi8 sp, lo8 sp] @ take (unat sp) (drop (unat off) D)
    \<and> out_room s' = out_room s - (5 + unat sp) \<and> env s' = (fst (env s), v')"
proof -
  have c1: "in_bytes s = x # hi8 off # lo8 off # hi8 sp # lo8 sp # cs" using c by simp
  from alp_rd_law [OF ok c1] obtain s1 where s1: "on_inq q_readbyte s = Some (x, s1)" "alp_ok s1"
    "in_bytes s1 = hi8 off # lo8 off # hi8 sp # lo8 sp # cs" "out_bytes s1 = out_bytes s" "out_room s1 = out_room s"
    "env s1 = env s" by blast
  from read_short(1) [OF s1(2,3)] obtain s2 where s2: "on_inq q_readshort s1 = Some (off, s2)" "alp_ok s2"
    "in_bytes s2 = hi8 sp # lo8 sp # cs" "out_bytes s2 = out_bytes s1" "out_room s2 = out_room s1" "env s2 = env s1"
    unfolding hi_lo_join by blast
  from read_short(1) [OF s2(2,3)] obtain s3 where s3: "on_inq q_readshort s2 = Some (sp, s3)" "alp_ok s3"
    "in_bytes s3 = cs" "out_bytes s3 = out_bytes s2" "out_room s3 = out_room s2" "env s3 = env s2"
    unfolding hi_lo_join by blast
  have sy: "a_sys s3 = a_sys s" using env_sys [OF s1(6)] env_sys [OF s2(6)] env_sys [OF s3(6)] by simp
  have fh: "file_header (block_of cmd_in) x md Id_NULL s3 = Some ((0, h), s3)"
    using file_header_eq [of "block_of cmd_in" x md Id_NULL s3] fh by (simp add: sy [symmetric])
  let ?s4 = "s3\<lparr>a_sys := v\<rparr>"
  have op: "on_sys (vl_open_file h) s3 = Some (Some fd, ?s4)" using op by (simp add: on_sys_def sy)
  have s4: "alp_ok ?s4" "a_sys ?s4 = v" "7 + unat sp < out_room ?s4" using s3 s2 s1 room by simp_all
  from read_stage_words [OF w g len idm rq s4 out] obtain s5 where
    s5: "read_stage fd h off sp (off + sp) False out ?s4 = Some ((False, 0, out + 5 + int (unat sp)), s5)"
    "alp_ok s5" "in_bytes s5 = in_bytes ?s4"
    "out_bytes s5 = out_bytes ?s4 @ [x, hi8 off, lo8 off, hi8 sp, lo8 sp] @ take (unat sp) (drop (unat off) D)"
    "out_room s5 = out_room ?s4 - (5 + unat sp)" "env s5 = env ?s4" by blast
  let ?s6 = "s5\<lparr>a_sys := v'\<rparr>"
  have cl5: "vl_close act (Some fd) (a_sys s5) = Some (0, v')" using cl env_sys [OF s5(6)] by simp
  have "2 < out_room s5" using s5(5) s4(3) s3(5) by simp
  note rs = respond_stage_clean [OF s5(2) cl5 this n, of respond marker x "out + 5 + int (unat sp)"]
  have "unat off + unat sp < 65536"
    using rq(3) unat_u16_less [of "f_length f"] by linarith
  note lim = limit_small [OF this]
  have "filedata_pass act Id_NULL respond cmd_in marker md fp0 n out s
      = Some ((False, 0, Some fd, n - 5, out + 5 + int (unat sp)), ?s6)"
    unfolding filedata_pass_def s1(1) s2(1) s3(1) Option.bind_lunit prod.case Let_def lim fh
    by (simp add: lim cmd md op s5(1) rs [simplified])
  then show ?thesis
    using s1 s2 s3 s5 by (intro exI [of _ ?s6]) simp
qed

lemma filedata_pass_read:
  assumes ok: "alp_ok s" and d: "default_ready build_id (a_sys s)" and bl: "length build_id = 9"
    and fp: "sub_new_fp (a_sys s) = Some fd" and rq: "req_ok (i, off, sp)"
    and c: "in_bytes s = req_bytes (i, off, sp) @ cs" and room: "7 + unat sp < out_room s"
    and out: "0 \<le> out" "out + 5 + int (unat sp) < 32768" and n: "0 < n" "n < 32768"
    and cmd: "block_of cmd_in = VL_ISF_BLOCKID" "cmd_in AND 0x0F \<noteq> 0x0C" and md: "md AND VL_ACCESS_W = 0"
  shows "\<exists>s'. filedata_pass act Id_NULL respond cmd_in marker md fp0 n out s
        = Some ((False, 0, Some fd, n - 5, out + 5 + int (unat sp)), s')
    \<and> alp_ok s' \<and> in_bytes s' = cs \<and> out_bytes s' = out_bytes s @ reply_bytes build_id (i, off, sp)
    \<and> out_room s' = out_room s - (5 + unat sp) \<and> env s' = (fst (env s), isf_closed fd i (a_sys s))"
proof -
  let ?f = "isf_files ! i" and ?v = "put_file fd (isf_opened i) (a_sys s)"
  from rq have r: "i < 23" "even (unat off)" "even (unat sp)" "unat off + unat sp \<le> unat (ISF_LEN ?f)"
    "unat off < unat (ISF_LEN ?f)" by (simp_all add: req_ok_def)
  have i25: "i < 25" using r(1) by simp
  have fl: "unat (f_length (isf_opened i)) = unat (ISF_LEN ?f)"
    by (simp add: isf_opened_def opened_def Let_def unat_u8_u16)
  have len: "unat (f_length (isf_opened i)) \<le> length (isf_stock build_id ?f)"
    using isf_base_bounds(5) [of ?f] by (simp add: fl length_isf_stock [OF bl])
  have w: "file_words fd (isf_stock build_id ?f) ?v"
    unfolding file_words_def length_isf_stock [OF bl]
  proof (intro allI impI)
    fix k :: u16 assume k: "even (unat k) \<and> unat k + 2 \<le> ISF_ALLOC ?f"
    show "vl_read fd k ?v = Some (join16 (isf_stock build_id ?f ! unat k) (isf_stock build_id ?f ! Suc (unat k)))"
      using vl_read_default [OF d r(1) fp, of "unat k"] k by simp
  qed
  have fh: "vl_getheader_vaddr 0 (block_of cmd_in) (of_nat i) md Id_NULL (a_sys s) = Some (0, of_nat (64 + 16 * i), a_sys s)"
    using isf_search_default [OF d r(1)] isf_header_words(7) [OF d i25]
    unfolding ISF_ID_index [OF r(1)] cmd(1)
    by (simp add: vl_getheader_vaddr_def vl_consts del: of_nat_add of_nat_mult)
  have idm: "vworm_read (of_nat (64 + 16 * i) + 4) ?v = Some (join16 (of_nat i) (ISF_MOD ?f))"
    using isf_header_words(3) [OF d i25] unfolding ISF_ID_index [OF r(1)] by (simp del: of_nat_add of_nat_mult)
  have cl: "vl_close act (Some fd) ?v = Some (0, isf_closed fd i (a_sys s))"
    using isf_close_default [OF d r(1) fp, of act] by (simp add: isf_closed_def)
  have c': "in_bytes s = [of_nat i, hi8 off, lo8 off, hi8 sp, lo8 sp] @ cs" using c by (simp add: req_bytes_def)
  from filedata_pass_words [OF ok c' fh isf_file_default [OF d r(1) fp] cl w isf_open_fields(1) [OF d r(1) fp] len idm
      r(2,3) _ _ room out n cmd(2) md, of respond marker fp0]
  show ?thesis using r(4,5) by (simp add: fl reply_bytes_def)
qed

section \<open>A list of entries\<close>

lemma length_reply:
  assumes "req_ok (i, off, sp)" and "length build_id = 9"
  shows "length (reply_bytes build_id (i, off, sp)) = 5 + unat sp"
proof -
  have "unat off + unat sp \<le> unat (ISF_LEN (isf_files ! i))" using assms(1) by (simp add: req_ok_def)
  then have "unat sp \<le> ISF_ALLOC (isf_files ! i) - unat off"
    using isf_base_bounds(5) [of "isf_files ! i"] by linarith
  then show ?thesis by (simp add: reply_bytes_def length_isf_stock [OF assms(2)] min.absorb2)
qed

definition replies :: "bytes \<Rightarrow> read_req list \<Rightarrow> bytes" where
  "replies build_id rs = concat (map (reply_bytes build_id) rs)"

lemma filedata_loop_reads:
  "alp_ok s \<Longrightarrow> default_ready build_id (a_sys s) \<Longrightarrow> length build_id = 9 \<Longrightarrow> sub_new_fp (a_sys s) = Some fd \<Longrightarrow>
   \<forall>r \<in> set rs. req_ok r \<Longrightarrow> in_bytes s = concat (map req_bytes rs) @ cs \<Longrightarrow>
   length (replies build_id rs) + 2 < out_room s \<Longrightarrow> 0 \<le> out \<Longrightarrow> out + int (length (replies build_id rs)) < 32768 \<Longrightarrow>
   5 * length rs < 32768 \<Longrightarrow> block_of cmd_in = VL_ISF_BLOCKID \<Longrightarrow> cmd_in AND 0x0F \<noteq> 0x0C \<Longrightarrow>
   md AND VL_ACCESS_W = 0 \<Longrightarrow>
   \<exists>s'. filedata_loop act Id_NULL respond cmd_in marker md fp0 (int (5 * length rs)) out s
        = Some (out + int (length (replies build_id rs)), s')
    \<and> alp_ok s' \<and> in_bytes s' = cs \<and> out_bytes s' = out_bytes s @ replies build_id rs
    \<and> fst (env s') = fst (env s) \<and> default_ready build_id (a_sys s') \<and> sub_new_fp (a_sys s') = Some fd"
proof (induction rs arbitrary: s out md fp0)
  case Nil
  then show ?case by (subst filedata_loop.simps) (simp add: replies_def)
next
  case (Cons r rs)
  obtain i off sp where r: "r = (i, off, sp)" by (cases r)
  have rq: "req_ok (i, off, sp)" using Cons.prems(5) by (simp add: r)
  have lr: "length (replies build_id (r # rs)) = 5 + unat sp + length (replies build_id rs)"
    using length_reply [OF rq Cons.prems(3)] by (simp add: replies_def r)
  have c: "in_bytes s = req_bytes (i, off, sp) @ (concat (map req_bytes rs) @ cs)"
    using Cons.prems(6) by (simp add: r)
  have room: "7 + unat sp < out_room s" using Cons.prems(7) lr by simp
  have out: "out + 5 + int (unat sp) < 32768" using Cons.prems(9) unfolding lr of_nat_add by linarith
  have n: "0 < int (5 * length (r # rs))" "int (5 * length (r # rs)) < 32768" using Cons.prems(10) by simp_all
  from filedata_pass_read [OF Cons.prems(1-4) rq c room Cons.prems(8) out n Cons.prems(11-13),
      of act respond marker fp0] obtain s1 where
    s1: "filedata_pass act Id_NULL respond cmd_in marker md fp0 (int (5 * length (r # rs))) out s
        = Some ((False, 0, Some fd, int (5 * length (r # rs)) - 5, out + 5 + int (unat sp)), s1)"
      "alp_ok s1" "in_bytes s1 = concat (map req_bytes rs) @ cs"
      "out_bytes s1 = out_bytes s @ reply_bytes build_id (i, off, sp)"
      "out_room s1 = out_room s - (5 + unat sp)" "env s1 = (fst (env s), isf_closed fd i (a_sys s))" by blast
  have sy: "a_sys s1 = isf_closed fd i (a_sys s)" using s1(6) by (simp add: env_def)
  note rdy = isf_closed_ready [OF Cons.prems(2,4), of i]
  have five: "int (5 * length (r # rs)) - 5 = int (5 * length rs)" by simp
  have "\<exists>s'. filedata_loop act Id_NULL respond cmd_in marker 0 (Some fd) (int (5 * length rs)) (out + 5 + int (unat sp)) s1
        = Some (out + 5 + int (unat sp) + int (length (replies build_id rs)), s')
    \<and> alp_ok s' \<and> in_bytes s' = cs \<and> out_bytes s' = out_bytes s1 @ replies build_id rs
    \<and> fst (env s') = fst (env s1) \<and> default_ready build_id (a_sys s') \<and> sub_new_fp (a_sys s') = Some fd"
  proof (rule Cons.IH)
    show "length (replies build_id rs) + 2 < out_room s1" using Cons.prems(7) lr s1(5) by simp
    show "out + 5 + int (unat sp) + int (length (replies build_id rs)) < 32768"
      using Cons.prems(9) unfolding lr of_nat_add by linarith
  qed (use s1 sy rdy Cons.prems(3,5,8,10,11,12) in simp_all)
  then obtain s2 where s2: "filedata_loop act Id_NULL respond cmd_in marker 0 (Some fd) (int (5 * length rs))
      (out + 5 + int (unat sp)) s1 = Some (out + 5 + int (unat sp) + int (length (replies build_id rs)), s2)"
    "alp_ok s2" "in_bytes s2 = cs" "out_bytes s2 = out_bytes s1 @ replies build_id rs"
    "fst (env s2) = fst (env s1)" "default_ready build_id (a_sys s2)" "sub_new_fp (a_sys s2) = Some fd" by blast
  have "filedata_loop act Id_NULL respond cmd_in marker md fp0 (int (5 * length (r # rs))) out s
      = Some (out + 5 + int (unat sp) + int (length (replies build_id rs)), s2)"
    unfolding filedata_loop.simps [of act Id_NULL respond cmd_in marker md fp0 "int (5 * length (r # rs))" out s]
      s1(1) Option.bind_lunit prod.case five if_False s2(1) using n(1) by simp
  moreover have "out + 5 + int (unat sp) + int (length (replies build_id rs)) = out + int (length (replies build_id (r # rs)))"
    unfolding lr of_nat_add by simp
  ultimately show ?case
    using s2 s1(4,6) by (intro exI [of _ s2]) (simp add: replies_def r)
qed

end
