(* ===== verification/Alp_Messages.thy ===== *)
theory Alp_Messages
  imports Alp_Main Alp_Reading
begin

text \<open>
  Whole messages: what \<open>alp_parse_message\<close> does with a record on the input queue, for each
  protocol, and the errors on the way.
\<close>

section \<open>From the header to the protocol\<close>

lemma q_options_simps [simp]:
  "q_ok (q\<lparr>q_options := x\<rparr>, h) = q_ok (q, h)" "q_content (q\<lparr>q_options := x\<rparr>, h) = q_content (q, h)"
  "q_room (q\<lparr>q_options := x\<rparr>, h) = q_room (q, h)" "q_small (q\<lparr>q_options := x\<rparr>) = q_small q"
  "q_getcursor_val k (q\<lparr>q_options := x\<rparr>, h) = q_getcursor_val k (q, h)"
  "q_readspace (q\<lparr>q_options := x\<rparr>) = q_readspace q" "q_writespace (q\<lparr>q_options := x\<rparr>) = q_writespace q"
  by (simp_all add: q_ok_def q_content_def q_count_def q_room_def q_small_def q_getcursor_val_def
      q_readspace_def q_writespace_def)

text \<open>
  The state in which the protocol of a record is called: the queues are locked, the header of
  the record is behind the cursor, four bytes of the output are reserved.
\<close>

definition loaded :: "alp_record \<Rightarrow> 'v alp_st \<Rightarrow> 'v alp_st" where
  "loaded r s = (let a = a_tmpl s in s\<lparr>a_tmpl := a\<lparr>outrec := r,
     inq := (inq a)\<lparr>q_options := 1, q_getcursor := ptr_add (q_getcursor (inq a)) 4\<rparr>,
     outq := (outq a)\<lparr>q_options := 1, q_putcursor := ptr_add (q_putcursor (outq a)) 4\<rparr>\<rparr>\<rparr>)"

definition idle :: "'v alp_st \<Rightarrow> bool" where
  "idle s \<longleftrightarrow> alp_ok s \<and> q_options (inq (a_tmpl s)) = 0 \<and> q_options (outq (a_tmpl s)) = 0
     \<and> r_flags (outrec (a_tmpl s)) AND ALP_FLAG_ME \<noteq> 0"

lemma loaded_facts:
  assumes ok: "alp_ok s" and c: "in_bytes s = [fl, pl, i, c] @ cs" and room: "4 \<le> out_room s"
  shows "alp_ok (loaded r s)" and "in_bytes (loaded r s) = cs"
    and "\<exists>junk. length junk = 4 \<and> out_bytes (loaded r s) = out_bytes s @ junk"
    and "out_room (loaded r s) = out_room s - 4" and "a_sys (loaded r s) = a_sys s"
    and "INREC I_FLAGS (loaded r s) = Some fl" and "INREC I_PLEN (loaded r s) = Some pl"
    and "INREC I_ID (loaded r s) = Some i" and "INREC I_CMD (loaded r s) = Some c"
    and "outrec (a_tmpl (loaded r s)) = r"
proof -
  let ?a = "a_tmpl s" and ?h = "a_mem s"
  have q: "q_ok (inq ?a, ?h)" "q_ok (outq ?a, ?h)" "q_content (inq ?a, ?h) = [fl, pl, i, c] @ cs"
    "4 \<le> q_room (outq ?a, ?h)"
    using ok c room by (simp_all add: alp_ok_def Let_def in_bytes_def out_room_def)
  note g = q_advance_get [OF q(1,3), simplified] and p = q_advance_put [OF q(2,4), simplified]
  show "alp_ok (loaded r s)"
    using ok g(1) p(1) by (simp add: alp_ok_def loaded_def Let_def q_ok_def q_small_def)
  have opt: "q_content (q\<lparr>q_options := 1, q_getcursor := x\<rparr>, h) = q_content (q\<lparr>q_getcursor := x\<rparr>, h)"
    "q_content (q\<lparr>q_options := 1, q_putcursor := x\<rparr>, h) = q_content (q\<lparr>q_putcursor := x\<rparr>, h)"
    "q_room (q\<lparr>q_options := 1, q_putcursor := x\<rparr>, h) = q_room (q\<lparr>q_putcursor := x\<rparr>, h)" for q x h
    by (simp_all add: q_content_def q_count_def q_room_def)
  show "in_bytes (loaded r s) = cs" using g(2) by (simp add: in_bytes_def loaded_def Let_def opt)
  show "\<exists>junk. length junk = 4 \<and> out_bytes (loaded r s) = out_bytes s @ junk"
    using p(2) by (simp add: out_bytes_def loaded_def Let_def opt)
  show "out_room (loaded r s) = out_room s - 4" using p(3) by (simp add: out_room_def loaded_def Let_def opt)
  show "a_sys (loaded r s) = a_sys s" "outrec (a_tmpl (loaded r s)) = r" by (simp_all add: loaded_def Let_def)
  note v = q_content_val [OF q(1), unfolded q(3)]
  show "INREC I_FLAGS (loaded r s) = Some fl" "INREC I_PLEN (loaded r s) = Some pl"
    "INREC I_ID (loaded r s) = Some i" "INREC I_CMD (loaded r s) = Some c"
    using v [of 0] v [of 1] v [of 2] v [of 3]
    by (simp_all add: INREC_def loaded_def Let_def q_getcursor_val_def I_FLAGS_def I_PLEN_def I_ID_def I_CMD_def)
qed

lemma e_appq_None: "e_appq (sub_get_elem i) = None"
proof -
  have "e_appq (alp_table ! k) = None" if "k < 5" for k
    using that by (auto simp: alp_table_def numeral_eq_Suc less_Suc_eq)
  then show ?thesis
    by (simp add: sub_get_elem_def null_elem_def ALP_FUNCTIONS_def Let_def word_le_nat_alt)
qed

lemma parse_unfold:
  assumes id: "idle s" and c: "in_bytes s = [fl, pl, i, c] @ cs" and room: "4 \<le> out_room s"
    and me: "fl AND ALP_FLAG_ME \<noteq> 0"
  shows "alp_parse_message act u s = do {
     (_, t) \<leftarrow> run_callback act (e_callback (sub_get_elem i)) u
       (loaded \<lparr>r_flags = fl, r_plength = 0, r_id = i, r_cmd = c\<rparr> s);
     t \<leftarrow> finish_record (q_putcursor (outq (a_tmpl s))) (upd_outrec (\<lambda>r. r\<lparr>r_flags := r_flags r OR ALP_FLAG_ME\<rparr>) t);
     Some (MSG_End, release_queues (q_getcursor (inq (a_tmpl s))) t)
   }"
proof -
  let ?a = "a_tmpl s" and ?r = "\<lparr>r_flags = fl, r_plength = 0, r_id = i, r_cmd = c\<rparr>"
  have ok: "alp_ok s" using id by (simp add: idle_def)
  note lf = loaded_facts [OF ok c room, of ?r]
  let ?s1 = "s\<lparr>a_tmpl := ?a\<lparr>inq := (inq ?a)\<lparr>q_options := 1\<rparr>, outq := (outq ?a)\<lparr>q_options := 1\<rparr>\<rparr>\<rparr>"
  have lk: "lock_queues s = Some ?s1" using id by (simp add: lock_queues_def idle_def q_lock_free)
  have q: "q_ok (inq ?a, a_mem s)" "q_small (inq ?a)" "q_content (inq ?a, a_mem s) = [fl, pl, i, c] @ cs"
    using ok c by (simp_all add: alp_ok_def Let_def in_bytes_def)
  have "4 \<le> q_count (inq ?a)" using q_content_rd(2) [OF q(1)] q(3) by simp
  then obtain n where n: "q_readspace (inq ?a) = Some n" "\<not> n < 4"
    using q_spaces(2) [OF q(1,2)] by simp
  obtain m where m: "outq_space s = Some m" "\<not> m < 4" using outq_space_ok [OF ok] room by simp
  have m': "outq_space ?s1 = Some m" using m(1) by (simp add: outq_space_def)
  note v = q_content_val [OF q(1), unfolded q(3)]
  have inrec: "INREC 0 ?s1 = Some fl" "INREC 2 ?s1 = Some i" "INREC 3 ?s1 = Some c"
    using v [of 0] v [of 2] v [of 3] by (simp_all add: INREC_def)
  have lr: "load_record ?s1 = Some (upd_outrec (\<lambda>_. ?r) ?s1)"
    using id by (simp add: load_record_def inrec idle_def)
  have mv: "move_outq_put 4 (move_inq_get 4 (upd_outrec (\<lambda>_. ?r) ?s1)) = loaded ?r s"
    by (simp add: move_outq_put_def move_inq_get_def upd_outrec_def set_outq_put_def loaded_def Let_def)
  have same: "upd_outrec (\<lambda>r. r\<lparr>r_plength := 0\<rparr>) (loaded ?r s) = loaded ?r s"
    by (simp add: upd_outrec_def loaded_def Let_def)
  have proc: "alp_proc act u (loaded ?r s) = do {
     (b, t) \<leftarrow> run_callback act (e_callback (sub_get_elem i)) u (loaded ?r s);
     Some (b, upd_outrec (\<lambda>r. r\<lparr>r_flags := r_flags r OR ALP_FLAG_ME\<rparr>) t)
   }"
    unfolding alp_proc_def same Let_def lf(6,8) Option.bind_lunit e_appq_None load_appq_def option.case
    using me by simp
  have cur: "q_getcursor (inq (a_tmpl (upd_outrec (\<lambda>_. ?r) ?s1))) = q_getcursor (inq ?a)"
    "q_putcursor (outq (a_tmpl (move_inq_get 4 (upd_outrec (\<lambda>_. ?r) ?s1)))) = q_putcursor (outq ?a)"
    "q_readspace (inq (a_tmpl ?s1)) = Some n"
    using n(1) by (simp_all add: upd_outrec_def move_inq_get_def Let_def)
  show ?thesis
    unfolding alp_parse_message_def lk Option.bind_lunit cur(3) m'
    using n(2) m(2) by (simp add: lr cur mv proc Let_def split_def)
qed

section \<open>From the protocol to the answer\<close>

lemma on_outq_write_all:
  "on_outq (write_all q_writebyte bs) s = write_all (\<lambda>b. on_outq (q_writebyte b)) bs s"
proof (induction bs arbitrary: s)
  case Nil
  then show ?case by (simp add: on_outq_def)
next
  case (Cons b bs)
  have "on_outq (write_all q_writebyte (b # bs)) s
      = do { s \<leftarrow> on_outq (q_writebyte b) s; on_outq (write_all q_writebyte bs) s }"
    unfolding on_outq_def by (auto split: Option.bind_split)
  also have "\<dots> = write_all (\<lambda>b. on_outq (q_writebyte b)) (b # bs) s"
    by (simp only: Cons.IH write_all.simps)
  finally show ?case .
qed

definition frame_of :: "'v alp_st \<Rightarrow> alp_tmpl" where
  "frame_of s = (fst (env s))\<lparr>outrec := \<lparr>r_flags = 0, r_plength = 0, r_id = 0, r_cmd = 0\<rparr>\<rparr>"

lemma frame_of_eq:
  assumes "frame_of t = frame_of s"
  shows "q_getcursor (outq (a_tmpl t)) = q_getcursor (outq (a_tmpl s))"
    and "q_front (inq (a_tmpl t)) = q_front (inq (a_tmpl s))" "q_back (inq (a_tmpl t)) = q_back (inq (a_tmpl s))"
proof -
  have "q_getcursor (outq (frame_of t)) = q_getcursor (outq (frame_of s))"
    "q_front (inq (frame_of t)) = q_front (inq (frame_of s))" "q_back (inq (frame_of t)) = q_back (inq (frame_of s))"
    using assms by simp_all
  then show "q_getcursor (outq (a_tmpl t)) = q_getcursor (outq (a_tmpl s))"
    "q_front (inq (a_tmpl t)) = q_front (inq (a_tmpl s))" "q_back (inq (a_tmpl t)) = q_back (inq (a_tmpl s))"
    by (simp_all add: frame_of_def env_def)
qed

text \<open>The answer of a record: its header is written over the four reserved bytes.\<close>

lemma finish_record_answer:
  assumes ok: "alp_ok t" and o: "out_bytes t = xs @ junk @ body" and j: "length junk = 4"
    and hp: "hp = ptr_add (q_getcursor (outq (a_tmpl t))) (int (length xs))"
    and r: "outrec (a_tmpl t) = \<lparr>r_flags = fl, r_plength = pl, r_id = i, r_cmd = c\<rparr>" and pl: "pl \<noteq> 0"
  shows "\<exists>t'. finish_record hp t = Some t' \<and> alp_ok t' \<and> out_bytes t' = xs @ [fl, pl, i, c] @ body
    \<and> a_sys t' = a_sys t \<and> frame_of t' = frame_of t \<and> in_bytes t' = in_bytes t
    \<and> outrec (a_tmpl t') = \<lparr>r_flags = fl AND NOT ALP_FLAG_MB, r_plength = pl, r_id = i, r_cmd = c\<rparr>"
proof -
  let ?a = "a_tmpl t" and ?h = "a_mem t" and ?n = "[fl, pl, i, c]"
  have q: "q_ok (outq ?a, ?h)" "q_content (outq ?a, ?h) = xs @ junk @ body"
    using ok o by (simp_all add: alp_ok_def Let_def out_bytes_def)
  obtain h' where h': "mem_wr hp ?n ?h = Some h'" "q_ok (outq ?a, h')" "q_content (outq ?a, h') = xs @ ?n @ body"
    using q_overwrite [OF q, of ?n] j hp by auto
  let ?q = "(outq ?a)\<lparr>q_putcursor := hp\<rparr>"
  have w: "write_all q_writebyte ?n (?q, ?h) = Some (?q\<lparr>q_putcursor := ptr_add hp 4\<rparr>, h')"
    using write_all_mem [of ?q ?n ?h h'] h'(1) by simp
  let ?t = "t\<lparr>a_tmpl := ?a\<lparr>outq := ?q\<lparr>q_putcursor := ptr_add hp 4\<rparr>\<rparr>, a_mem := h'\<rparr>"
  have "write_all (\<lambda>b. on_outq (q_writebyte b)) ?n (set_outq_put hp t) = Some ?t"
    unfolding on_outq_write_all [symmetric]
    using w by (simp add: on_outq_def set_outq_put_def Let_def del: write_all.simps)
  then have "finish_record hp t = Some (upd_outrec (\<lambda>r. r\<lparr>r_flags := r_flags r AND NOT ALP_FLAG_MB\<rparr>)
      (set_outq_put (q_putcursor (outq ?a)) ?t))"
    using pl by (auto simp: finish_record_def r Let_def bind_eq_Some_conv)
  moreover have fi: "fst hp \<noteq> fst (q_getcursor (inq ?a))"
    using ok hp by (simp add: alp_ok_def Let_def q_ok_def)
  moreover have "mem_rd (q_getcursor (inq ?a)) n h' = mem_rd (q_getcursor (inq ?a)) n ?h" for n
    by (rule mem_rd_wr_apart [OF h'(1)]) (use fi in simp)
  then have ci: "q_content (inq ?a, h') = q_content (inq ?a, ?h)" by (simp add: q_content_def)
  moreover have "q_ok (inq ?a, h')" using ok by (simp add: alp_ok_def Let_def q_ok_def accessible_wr [OF h'(1)])
  ultimately show ?thesis
    using ok h'(2,3) r
    by (intro exI [of _ "upd_outrec (\<lambda>r. r\<lparr>r_flags := r_flags r AND NOT ALP_FLAG_MB\<rparr>)
        (set_outq_put (q_putcursor (outq ?a)) ?t)"])
      (simp add: upd_outrec_def set_outq_put_def Let_def alp_ok_def out_bytes_def in_bytes_def frame_of_def env_def)
qed

lemma flags_stay: "((x OR ALP_FLAG_ME) AND NOT ALP_FLAG_MB) AND ALP_FLAG_ME \<noteq> 0"
proof -
  have "bit (((x OR ALP_FLAG_ME) AND NOT ALP_FLAG_MB) AND ALP_FLAG_ME) 6"
    by (simp add: ALP_FLAG_ME_def ALP_FLAG_MB_def bit_simps)
  then show ?thesis by (metis bit_0_eq bot_apply bot_bool_def)
qed

text \<open>
  A protocol that appends \<open>body\<close> to the output and leaves a record with a length: the message is
  the header and the body, the input is used up, and the template is ready for the next one.
\<close>

lemma message_answered:
  assumes id: "idle s" and c: "in_bytes s = [fl, pl, i, c] @ cs" and room: "4 \<le> out_room s"
    and me: "fl AND ALP_FLAG_ME \<noteq> 0"
    and cb: "run_callback act (e_callback (sub_get_elem i)) u
      (loaded \<lparr>r_flags = fl, r_plength = 0, r_id = i, r_cmd = c\<rparr> s) = Some (b, t)"
    and t: "alp_ok t" "frame_of t = frame_of (loaded \<lparr>r_flags = fl, r_plength = 0, r_id = i, r_cmd = c\<rparr> s)"
      "out_bytes t = out_bytes (loaded \<lparr>r_flags = fl, r_plength = 0, r_id = i, r_cmd = c\<rparr> s) @ body"
      "outrec (a_tmpl t) = \<lparr>r_flags = f2, r_plength = p2, r_id = i2, r_cmd = c2\<rparr>" "p2 \<noteq> 0"
  shows "\<exists>s'. alp_parse_message act u s = Some (MSG_End, s')
    \<and> out_bytes s' = out_bytes s @ [f2 OR ALP_FLAG_ME, p2, i2, c2] @ body
    \<and> in_bytes s' = [] \<and> a_sys s' = a_sys t \<and> idle s'"
proof -
  let ?r = "\<lparr>r_flags = fl, r_plength = 0, r_id = i, r_cmd = c\<rparr>"
  let ?t = "upd_outrec (\<lambda>r. r\<lparr>r_flags := r_flags r OR ALP_FLAG_ME\<rparr>) t"
  have ok: "alp_ok s" using id by (simp add: idle_def)
  note lf = loaded_facts [OF ok c room, of ?r]
  note fe = frame_of_eq [OF t(2)]
  obtain junk where junk: "length junk = 4" "out_bytes (loaded ?r s) = out_bytes s @ junk" using lf(3) by blast
  have q: "q_ok (outq (a_tmpl s), a_mem s)" using ok by (simp add: alp_ok_def Let_def)
  have hp: "q_putcursor (outq (a_tmpl s)) = ptr_add (q_getcursor (outq (a_tmpl ?t))) (int (length (out_bytes s)))"
    using q_putcursor_end [OF q] fe(1) by (simp add: out_bytes_def upd_outrec_def loaded_def Let_def)
  have tt: "alp_ok ?t" "out_bytes ?t = out_bytes s @ junk @ body"
    "outrec (a_tmpl ?t) = \<lparr>r_flags = f2 OR ALP_FLAG_ME, r_plength = p2, r_id = i2, r_cmd = c2\<rparr>"
    "a_sys ?t = a_sys t" "frame_of ?t = frame_of t"
    using t junk(2) by (simp_all add: upd_outrec_def alp_ok_def Let_def out_bytes_def frame_of_def env_def)
  from finish_record_answer [OF tt(1,2) junk(1) hp tt(3) t(5)] obtain t' where
    t': "finish_record (q_putcursor (outq (a_tmpl s))) ?t = Some t'" "alp_ok t'"
      "out_bytes t' = out_bytes s @ [f2 OR ALP_FLAG_ME, p2, i2, c2] @ body" "a_sys t' = a_sys ?t"
      "frame_of t' = frame_of ?t"
      "outrec (a_tmpl t') = \<lparr>r_flags = (f2 OR ALP_FLAG_ME) AND NOT ALP_FLAG_MB, r_plength = p2, r_id = i2, r_cmd = c2\<rparr>"
    by blast
  let ?s' = "release_queues (q_getcursor (inq (a_tmpl s))) t'"
  have "alp_parse_message act u s = Some (MSG_End, ?s')"
    unfolding parse_unfold [OF id c room me] cb Option.bind_lunit prod.case t'(1) ..
  moreover have "out_bytes ?s' = out_bytes t'"
    by (simp add: out_bytes_def release_queues_def Let_def q_unlock_def)
  moreover have "in_bytes ?s' = []"
    by (simp add: in_bytes_def release_queues_def Let_def q_unlock_def q_content_def q_count_def
        mem_rd_def rd_bytes_def split: option.split Option.bind_split)
  moreover have "alp_ok ?s'"
  proof -
    have fr: "frame_of t' = frame_of (loaded ?r s)" using t'(5) tt(5) t(2) by simp
    note e = frame_of_eq(2,3) [OF fr]
    have "q_front (inq (a_tmpl t')) = q_front (inq (a_tmpl s))" "q_back (inq (a_tmpl t')) = q_back (inq (a_tmpl s))"
      using e by (simp_all add: loaded_def Let_def)
    then show ?thesis
      using t'(2) ok by (auto simp: alp_ok_def Let_def release_queues_def q_unlock_def q_ok_def q_small_def)
  qed
  moreover have "outrec (a_tmpl ?s') = outrec (a_tmpl t')" "a_sys ?s' = a_sys t"
    "q_options (inq (a_tmpl ?s')) = 0" "q_options (outq (a_tmpl ?s')) = 0"
    using t'(4) tt(4) by (simp_all add: release_queues_def Let_def q_unlock_def)
  ultimately show ?thesis
    using t'(3,6) flags_stay [of f2] by (intro exI [of _ ?s']) (simp add: idle_def)
qed

section \<open>The file protocol\<close>

lemma filedata_element: "e_callback (sub_get_elem 1) = Proc_filedata"
  by (simp add: sub_get_elem_def ALP_FUNCTIONS_def alp_table_def)

lemma frame_of_env: "fst (env t) = fst (env s) \<Longrightarrow> frame_of t = frame_of s"
  by (simp add: frame_of_def)

lemma env_fst_outrec: "fst (env t) = fst (env s) \<Longrightarrow> outrec (a_tmpl t) = outrec (a_tmpl s)"
proof -
  assume "fst (env t) = fst (env s)"
  then have "outrec (fst (env t)) = outrec (fst (env s))" by simp
  then show ?thesis by (simp add: env_def)
qed

lemma upd_outrec_simps [simp]:
  "alp_ok (upd_outrec f t) = alp_ok t" "in_bytes (upd_outrec f t) = in_bytes t"
  "out_bytes (upd_outrec f t) = out_bytes t" "out_room (upd_outrec f t) = out_room t"
  "a_sys (upd_outrec f t) = a_sys t" "frame_of (upd_outrec f t) = frame_of t"
  "outrec (a_tmpl (upd_outrec f t)) = f (outrec (a_tmpl t))"
  by (simp_all add: upd_outrec_def alp_ok_def Let_def in_bytes_def out_bytes_def out_room_def frame_of_def env_def)

text \<open>
  A file command with the response bit whose function answers with \<open>body\<close>: the whole message.
\<close>

lemma file_command_answered:
  fixes s :: "'a fs_st"
  assumes id: "idle s" and c: "in_bytes s = [fl, pl, 1, cmd] @ cs" and room: "4 \<le> out_room s"
    and me: "fl AND ALP_FLAG_ME \<noteq> 0" and rsp: "cmd AND 0x80 = 0x80" "cmd AND 0x02 = 0"
  defines "t0 \<equiv> loaded \<lparr>r_flags = fl, r_plength = 0, r_id = 1, r_cmd = cmd\<rparr> s"
  assumes f: "filedata_cmd act u cmd (uint pl) t0 = Some (int (length body), t)"
    and t: "alp_ok t" "fst (env t) = fst (env t0)" "out_bytes t = out_bytes t0 @ body"
    and body: "body \<noteq> []" "length body < 256"
  shows "\<exists>s'. alp_parse_message act u s = Some (MSG_End, s')
    \<and> out_bytes s' = out_bytes s @ [fl OR ALP_FLAG_ME, of_nat (length body), 1, (cmd XOR 0x80) OR 0x01] @ body
    \<and> in_bytes s' = [] \<and> a_sys s' = a_sys t \<and> idle s'"
proof -
  let ?r = "\<lparr>r_flags = fl, r_plength = 0, r_id = 1, r_cmd = cmd\<rparr>"
  have ok: "alp_ok s" using id by (simp add: idle_def)
  note lf = loaded_facts [OF ok c room, of ?r, folded t0_def]
  have r: "outrec (a_tmpl t) = ?r" using env_fst_outrec [OF t(2)] lf(10) by simp
  let ?t = "upd_outrec (\<lambda>r. r\<lparr>r_cmd := (r_cmd r XOR 0x80) OR 0x01\<rparr>) (upd_outrec (\<lambda>r. r\<lparr>r_plength := of_nat (length body)\<rparr>) t)"
  have cb: "run_callback act (e_callback (sub_get_elem 1)) u t0 = Some (True, ?t)"
    unfolding filedata_element run_callback_def alp_fn.case alp_proc_filedata_def lf(7,9) Option.bind_lunit f prod.case
    using rsp by (simp add: Let_def)
  have "unat (of_nat (length body) :: u8) = length body"
    using body(2) by (simp add: unat_of_nat take_bit_nat_eq_self)
  then have nz: "(of_nat (length body) :: u8) \<noteq> 0" using body(1) by auto
  show ?thesis
    using message_answered [OF id c room me cb [unfolded t0_def], of body fl "of_nat (length body)" 1 "(cmd XOR 0x80) OR 0x01"]
      t frame_of_env [OF t(2)] r nz
    by (simp add: t0_def)
qed


text \<open>A message on a template with two buffers of 64 bytes, over the default filesystem.\<close>

definition demo_queue :: "nat \<Rightarrow> nat \<Rightarrow> ot_queue" where
  "demo_queue b n = \<lparr>q_alloc = 64, q_options = 0, q_getcursor = (b, 0), q_putcursor = (b, int n),
     q_front = (b, 0), q_back = (b, 64)\<rparr>"

definition demo_msg :: "bytes \<Rightarrow> vl_state alp_st" where
  "demo_msg msg = \<lparr>a_tmpl = alp_init \<lparr>purge_id = 0, outrec = \<lparr>r_flags = 0, r_plength = 0, r_id = 0, r_cmd = 0\<rparr>,
       inq = demo_queue 7 0, outq = demo_queue 8 0, sstack = None\<rparr> (demo_queue 7 (length msg)) (demo_queue 8 0),
     a_mem = [7 \<mapsto> msg @ replicate (64 - length msg) 0, 8 \<mapsto> replicate 64 0], a_sys = demo_fs\<rparr>"

lemma demo_msg_facts:
  assumes "length msg \<le> 64"
  shows "idle (demo_msg msg)" and "in_bytes (demo_msg msg) = msg" and "out_bytes (demo_msg msg) = []"
    and "out_room (demo_msg msg) = 64" and "a_sys (demo_msg msg) = demo_fs" and "alp_ok (demo_msg msg)"
  using assms
  by (simp_all add: demo_msg_def demo_queue_def alp_init_def idle_def alp_ok_def Let_def q_ok_def q_small_def
      accessible_def in_bytes_def out_bytes_def out_room_def q_content_def q_count_def q_room_def mem_rd_def
      rd_bytes_def ALP_FLAG_MB_def ALP_FLAG_ME_def ALP_FLAG_SR_def)


section \<open>Listing, deleting and restoring\<close>

lemma served_all:
  assumes "\<And>i. length (e i) \<le> k"
  shows "k * length ids \<le> r \<Longrightarrow> served k e r ids = (concat (map e ids), [])"
proof (induction ids arbitrary: r)
  case (Cons i ids)
  have "k * length ids \<le> r - length (e i)" using Cons.prems assms [of i] by simp
  from Cons.IH [OF this] show ?case using Cons.prems by simp
qed simp

lemma concat_bound:
  assumes "\<And>i. length (e i) \<le> k"
  shows "length (concat (map e ids)) \<le> k * length ids"
proof (induction ids)
  case (Cons i ids)
  then show ?case using assms [of i] by simp
qed simp

text \<open>
  C6. Listing permissions by message, on the default filesystem: command 0xB0 with a list of file
  ids is answered by one record with the id and the access mode of every requested id below 23,
  in the order of the request; nothing else changes. The other ids are passed over. These are the
  ids without a file and also 0xFE and 0xFF, the user data and the application extension: their
  headers are in the table, but behind the 23 headers that the filesystem header counts
  (\<open>default_isf_missing\<close>).
\<close>

theorem alp_list_permissions:
  fixes s :: "'a fs_st"
  assumes "idle s" and "default_ready build_id (a_sys s)" and "in_bytes s = [fl, of_nat (length ids), 1, 0xB0] @ ids @ cs"
    and "fl AND ALP_FLAG_ME \<noteq> 0" and "2 * length ids < 256" and "2 * length ids + 4 \<le> out_room s"
    and "\<exists>i \<in> set ids. unat i < 23"
  defines "out \<equiv> concat (map (\<lambda>i. if unat i < 23 then [i, ISF_MOD (isf_files ! unat i)] else []) ids)"
  shows "\<exists>s'. alp_parse_message act u s = Some (MSG_End, s')
    \<and> out_bytes s' = out_bytes s @ [fl OR ALP_FLAG_ME, of_nat (length out), 1, 0x31] @ out
    \<and> in_bytes s' = [] \<and> idle s' \<and> a_sys s' = a_sys s"
proof -
  let ?e = "\<lambda>i. if unat i < 23 then [i, ISF_MOD (isf_files ! unat i)] else []"
  let ?t0 = "loaded \<lparr>r_flags = fl, r_plength = 0, r_id = 1, r_cmd = 0xB0\<rparr> s"
  have ok: "alp_ok s" using assms(1) by (simp add: idle_def)
  have room: "4 \<le> out_room s" using assms(6) by simp
  note lf = loaded_facts [OF ok assms(3) room, of "\<lparr>r_flags = fl, r_plength = 0, r_id = 1, r_cmd = 0xB0\<rparr>"]
  have e: "perms_entry 0x80 (env ?t0) = ?e" by (simp add: perms_entry_def fun_eq_iff)
  have len: "length (?e i) \<le> 2" for i by simp
  have sv: "served (room_for 0x80 2) (perms_entry 0x80 (env ?t0)) (out_room ?t0) ids = (out, [])"
    unfolding e out_def using served_all [of ?e 2, OF len] assms(6) lf(4) by (simp add: room_for_def)
  have g: "access_of 0xB0 \<noteq> VL_ACCESS_W \<and> default_ready build_id (snd (env ?t0))"
    using assms(2) lf(5) by (simp add: access_of_def VL_ACCESS_R_def VL_ACCESS_W_def env_def)
  from perms.loop_serves [OF lf(1) g lf(2) sv, of u 0] obtain t where
    t: "fileperms_loop u 0x80 VL_ISF_BLOCKID (access_of 0xB0) (int (length ids)) 0 ?t0 = Some (int (length out), t)"
      "alp_ok t" "out_bytes t = out_bytes ?t0 @ out" "env t = env ?t0" by auto
  have pl: "uint (of_nat (length ids) :: u8) = int (length ids)"
    using assms(5) by (simp add: uint_nat unat_of_nat take_bit_nat_eq_self)
  have blk: "block_of 0xB0 = VL_ISF_BLOCKID" by (simp add: block_of_def VL_ISF_BLOCKID_def)
  have "filedata_cmd act u 0xB0 (uint (of_nat (length ids) :: u8)) ?t0 = Some (int (length out), t)"
    unfolding pl using t(1) by (simp add: filedata_cmd_def sub_fileperms_def blk)
  moreover have "fst (env t) = fst (env ?t0)" using t(4) by simp
  moreover have "out \<noteq> []" using assms(7) by (auto simp: out_def)
  moreover have "length out < 256" using concat_bound [of ?e 2 ids, OF len] assms(5) by (simp add: out_def)
  ultimately have "\<exists>s'. alp_parse_message act u s = Some (MSG_End, s')
      \<and> out_bytes s' = out_bytes s @ [fl OR ALP_FLAG_ME, of_nat (length out), 1, (0xB0 XOR 0x80) OR 0x01] @ out
      \<and> in_bytes s' = [] \<and> a_sys s' = a_sys t \<and> idle s'"
    by (intro file_command_answered [OF assms(1,3) room assms(4)]) (use t in simp_all)
  moreover have "a_sys t = a_sys s" using env_sys [OF t(4)] lf(5) by simp
  ultimately show ?thesis by auto
qed

theorem alp_list_permissions_witness:
  "\<exists>s'. alp_parse_message (\<lambda>_ _ s. Some (0, s)) Id_NULL (demo_msg [0xD0, 3, 1, 0xB0, 14, 0x80, 0]) = Some (MSG_End, s')
    \<and> out_bytes s' = [0xD0, 4, 1, 0x31, 14, 0, 0, 0x34]"
proof -
  let ?s = "demo_msg [0xD0, 3, 1, 0xB0, 14, 0x80, 0]"
  have f: "idle ?s" "in_bytes ?s = [0xD0, 3, 1, 0xB0, 14, 0x80, 0]" "out_bytes ?s = []" "out_room ?s = 64"
    "a_sys ?s = demo_fs"
    by (rule demo_msg_facts, simp)+
  have c: "in_bytes ?s = [0xD0, of_nat (length [14, 0x80, 0 :: u8]), 1, 0xB0] @ [14, 0x80, 0] @ []" by (simp add: f(2))
  show ?thesis
    using alp_list_permissions [OF f(1) _ c, of "replicate 9 0x41" "\<lambda>_ _ s. Some (0, s)" Id_NULL] demo_fs_ready
    by (auto simp: f ALP_FLAG_ME_def isf_files_def ISF_MOD_file_standard_def)
qed

text \<open>
  Listing headers by message: command 0xB8 with a list of file ids is answered by one
  record with six bytes for every file that exists: id, access mode, length and allocation, in
  the order of the request.
\<close>

theorem alp_list_headers:
  fixes s :: "'a fs_st"
  assumes "idle s" and "default_ready build_id (a_sys s)" and "in_bytes s = [fl, of_nat (length ids), 1, 0xB8] @ ids @ cs"
    and "fl AND ALP_FLAG_ME \<noteq> 0" and "6 * length ids < 256" and "6 * length ids + 4 \<le> out_room s"
    and "\<exists>i \<in> set ids. unat i < 23"
  defines "out \<equiv> concat (map (\<lambda>i. if unat i < 23 then let f = isf_files ! unat i
      in [i, ISF_MOD f, 0, ISF_LEN f, hi8 (of_nat (ISF_ALLOC f)), lo8 (of_nat (ISF_ALLOC f))] else []) ids)"
  shows "\<exists>s'. alp_parse_message act u s = Some (MSG_End, s')
    \<and> out_bytes s' = out_bytes s @ [fl OR ALP_FLAG_ME, of_nat (length out), 1, 0x39] @ out
    \<and> in_bytes s' = [] \<and> idle s' \<and> a_sys s' = a_sys s"
proof -
  let ?t0 = "loaded \<lparr>r_flags = fl, r_plength = 0, r_id = 1, r_cmd = 0xB8\<rparr> s"
  have ok: "alp_ok s" using assms(1) by (simp add: idle_def)
  have room: "4 \<le> out_room s" using assms(6) by simp
  note lf = loaded_facts [OF ok assms(3) room, of "\<lparr>r_flags = fl, r_plength = 0, r_id = 1, r_cmd = 0xB8\<rparr>"]
  have len: "length (header_entry (env ?t0) i) \<le> 6" for i by (simp add: header_entry_def Let_def)
  have out: "out = concat (map (header_entry (env ?t0)) ids)"
    unfolding out_def header_entry_def Let_def ..
  have sv: "served (room_for 0x80 6) (header_entry (env ?t0)) (out_room ?t0) ids = (out, [])"
    unfolding out using served_all [of "header_entry (env ?t0)" 6, OF len] assms(6) lf(4) by (simp add: room_for_def)
  have g: "default_ready build_id (snd (env ?t0))" using assms(2) lf(5) by (simp add: env_def)
  from headers.loop_serves [OF lf(1) g lf(2) sv, of 0] obtain t where
    t: "fileheaders_loop 0x80 VL_ISF_BLOCKID (int (length ids)) 0 ?t0 = Some (int (length out), t)"
      "alp_ok t" "out_bytes t = out_bytes ?t0 @ out" "env t = env ?t0" by auto
  have pl: "uint (of_nat (length ids) :: u8) = int (length ids)"
    using assms(5) by (simp add: uint_nat unat_of_nat take_bit_nat_eq_self)
  have blk: "block_of 0xB8 = VL_ISF_BLOCKID" by (simp add: block_of_def VL_ISF_BLOCKID_def)
  have "filedata_cmd act u 0xB8 (uint (of_nat (length ids) :: u8)) ?t0 = Some (int (length out), t)"
    unfolding pl using t(1) by (simp add: filedata_cmd_def sub_fileheaders_def blk)
  moreover have "fst (env t) = fst (env ?t0)" using t(4) by simp
  moreover have "out \<noteq> []" using assms(7) by (auto simp: out_def Let_def)
  moreover have "length out < 256" using concat_bound [of "header_entry (env ?t0)" 6 ids, OF len] assms(5) by (simp add: out)
  ultimately have "\<exists>s'. alp_parse_message act u s = Some (MSG_End, s')
      \<and> out_bytes s' = out_bytes s @ [fl OR ALP_FLAG_ME, of_nat (length out), 1, (0xB8 XOR 0x80) OR 0x01] @ out
      \<and> in_bytes s' = [] \<and> a_sys s' = a_sys t \<and> idle s'"
    by (intro file_command_answered [OF assms(1,3) room assms(4)]) (use t in simp_all)
  moreover have "a_sys t = a_sys s" using env_sys [OF t(4)] lf(5) by simp
  ultimately show ?thesis by auto
qed

theorem alp_list_headers_witness:
  "\<exists>s'. alp_parse_message (\<lambda>_ _ s. Some (0, s)) Id_NULL (demo_msg [0xD0, 1, 1, 0xB8, 14]) = Some (MSG_End, s')
    \<and> out_bytes s' = [0xD0, 6, 1, 0x39, 14, 0, 0, 22, 0, 22]"
proof -
  let ?s = "demo_msg [0xD0, 1, 1, 0xB8, 14]"
  have f: "idle ?s" "in_bytes ?s = [0xD0, 1, 1, 0xB8, 14]" "out_bytes ?s = []" "out_room ?s = 64" "a_sys ?s = demo_fs"
    by (rule demo_msg_facts, simp)+
  have c: "in_bytes ?s = [0xD0, of_nat (length [14 :: u8]), 1, 0xB8] @ [14] @ []" by (simp add: f(2))
  show ?thesis
    using alp_list_headers [OF f(1) _ c, of "replicate 9 0x41" "\<lambda>_ _ s. Some (0, s)" Id_NULL] demo_fs_ready
    by (auto simp: f ALP_FLAG_ME_def isf_files_def ISF_ALLOC_eq hi8_def lo8_def)
qed

text \<open>
  Deleting and restoring answer every id, as far as the output has room for two bytes each,
  with the id and an error code (255: no deletion in this build; 3: not restorable), read as
  many ids as they answer, and change nothing else; without the response bit they read all ids
  and answer nothing.
\<close>

theorem alp_delete_restore_answers:
  assumes "alp_ok s" and "in_bytes s = ids @ cs" and "e = (\<lambda>err i. if respond \<noteq> 0 then [i, err] else [])"
    and "served (if respond \<noteq> 0 then 2 else 0) (e 255) (out_room s) ids = (out1, left1)"
    and "served (if respond \<noteq> 0 then 2 else 0) (e 3) (out_room s) ids = (out2, left2)"
  shows "(\<exists>s'. sub_filedelete u respond cmd (int (length ids)) s = Some (int (length out1), s')
      \<and> in_bytes s' = left1 @ cs \<and> out_bytes s' = out_bytes s @ out1 \<and> env s' = env s)
    \<and> (\<exists>s'. sub_filerestore u respond cmd (int (length ids)) s = Some (int (length out2), s')
      \<and> in_bytes s' = left2 @ cs \<and> out_bytes s' = out_bytes s @ out2 \<and> env s' = env s)"
proof -
  have e: "e err = code_entry respond err (env s)" for err by (simp add: assms(3) code_entry_def fun_eq_iff)
  have r: "(if respond \<noteq> 0 then 2 else 0) = room_for respond 2" by (simp add: room_for_def)
  show ?thesis
    unfolding sub_filedelete_def sub_filerestore_def
    using delete.loop_serves [OF assms(1) TrueI assms(2) assms(4) [unfolded e r], of u "block_of cmd" 0]
      restore.loop_serves [OF assms(1) TrueI assms(2) assms(5) [unfolded e r], of 0]
    unfolding add_0 by blast
qed

theorem alp_delete_restore_answers_witness:
  "\<exists>s'. sub_filedelete Id_NULL 0x80 0xBA 2 (demo_msg [5, 7, 9]) = Some (4, s')
    \<and> out_bytes s' = [5, 255, 7, 255] \<and> in_bytes s' = [9]"
proof -
  have f: "alp_ok (demo_msg [5, 7, 9])" "in_bytes (demo_msg [5, 7, 9]) = [5, 7] @ [9]" "out_bytes (demo_msg [5, 7, 9]) = []"
    "out_room (demo_msg [5, 7, 9]) = 64"
    using demo_msg_facts [of "[5, 7, 9]"] by simp_all
  show ?thesis
    using alp_delete_restore_answers [OF f(1,2) refl, of "0x80" "[5, 255, 7, 255]" "[]" "[5, 3, 7, 3]" "[]" Id_NULL "0xBA"]
    by (auto simp: f(3,4))
qed

end
