(* ===== verification/Alp_Errors.thy ===== *)
theory Alp_Errors
  imports Alp_Messages
begin

text \<open>
  Where the application layer does not do what its comments promise: messages that leave the
  queues locked, record headers without their fields, variables of one entry of a command that
  reach into the next, and files whose length is lost.
\<close>

section \<open>Messages and records\<close>

text \<open>
  C23. A message that arrives when the output has no room for a header is refused with
  \<^verbatim>\<open>MSG_Null\<close>, and the queues stay locked: the next call of the parser on the same template
  never returns.
\<close>

theorem alp_message_deadlock:
  assumes "idle s" and "out_room s < 4"
  shows "\<exists>s'. alp_parse_message act u s = Some (MSG_Null, s') \<and> alp_parse_message act2 u2 s' = None"
proof -
  let ?a = "a_tmpl s"
  let ?s1 = "s\<lparr>a_tmpl := ?a\<lparr>inq := (inq ?a)\<lparr>q_options := 1\<rparr>, outq := (outq ?a)\<lparr>q_options := 1\<rparr>\<rparr>\<rparr>"
  have ok: "alp_ok s" using assms(1) by (simp add: idle_def)
  have lk: "lock_queues s = Some ?s1" using assms(1) by (simp add: lock_queues_def idle_def q_lock_free)
  have "q_ok (inq ?a, a_mem s)" "q_small (inq ?a)" using ok by (simp_all add: alp_ok_def Let_def)
  from q_spaces(2) [OF this] obtain n where n: "q_readspace (inq (a_tmpl ?s1)) = Some n" by simp
  have m: "outq_space ?s1 = Some (int (out_room s))" using outq_space_ok [OF ok] by (simp add: outq_space_def)
  have "alp_parse_message act u s = Some (MSG_Null, ?s1)"
    unfolding alp_parse_message_def lk Option.bind_lunit n m using assms(2) by simp
  moreover have "lock_queues ?s1 = None" by (simp add: lock_queues_def q_lock_stuck)
  then have "alp_parse_message act2 u2 ?s1 = None" by (simp add: alp_parse_message_def)
  ultimately show ?thesis by blast
qed

theorem alp_message_deadlock_witness:
  "\<exists>s'. alp_parse_message (\<lambda>_ _ s. Some (0, s)) Id_NULL
      ((demo_msg [])\<lparr>a_tmpl := (a_tmpl (demo_msg []))\<lparr>outq := (demo_queue 8 0)\<lparr>q_putcursor := (8, 61)\<rparr>\<rparr>\<rparr>) = Some (MSG_Null, s')
    \<and> alp_parse_message (\<lambda>_ _ s. Some (0, s)) Id_NULL s' = None"
proof (rule alp_message_deadlock)
  let ?s = "(demo_msg [])\<lparr>a_tmpl := (a_tmpl (demo_msg []))\<lparr>outq := (demo_queue 8 0)\<lparr>q_putcursor := (8, 61)\<rparr>\<rparr>\<rparr>"
  show "idle ?s" "out_room ?s < 4"
    by (simp_all add: demo_msg_def demo_queue_def alp_init_def idle_def alp_ok_def Let_def q_ok_def q_small_def
        accessible_def out_room_def q_room_def ALP_FLAG_MB_def ALP_FLAG_ME_def ALP_FLAG_SR_def)
qed

lemma put_after:
  assumes "alp_ok s" and "alp_ok t" and "env t = env s" and "out_bytes t = out_bytes s @ bs"
  shows "q_putcursor (outq (a_tmpl t)) = ptr_add (q_putcursor (outq (a_tmpl s))) (int (length bs))"
proof -
  have q: "q_ok (outq (a_tmpl s), a_mem s)" "q_ok (outq (a_tmpl t), a_mem t)"
    using assms(1,2) by (simp_all add: alp_ok_def Let_def)
  have "q_getcursor (outq (fst (env t))) = q_getcursor (outq (fst (env s)))" using assms(3) by simp
  then have "q_getcursor (outq (a_tmpl t)) = q_getcursor (outq (a_tmpl s))" by (simp add: env_def)
  then show ?thesis
    using q_putcursor_end [OF q(1)] q_putcursor_end [OF q(2)] assms(4) by (simp add: out_bytes_def)
qed

text \<open>
  The header that \<^verbatim>\<open>alp_new_record\<close> puts on the output holds the flags and three zero bytes:
  the length, the protocol and the command of the record are not written, although the record
  in the template has its length.
\<close>

theorem alp_new_record_header:
  fixes flags limit :: u8 and remaining :: int
  assumes "alp_ok s" and "4 \<le> out_room s"
  defines "f \<equiv> ((r_flags (outrec (a_tmpl s)) OR flags OR ALP_FLAG_SR) AND (ALP_FLAG_MB OR ALP_FLAG_SR))
    OR (if uint limit < remaining then 0 else ALP_FLAG_ME)"
  shows "\<exists>s'. alp_new_record flags limit remaining s = Some s' \<and> out_bytes s' = out_bytes s @ [f, 0, 0, 0]
    \<and> r_plength (outrec (a_tmpl s')) = word_of_int (if uint limit < remaining then uint limit else remaining)
    \<and> in_bytes s' = in_bytes s"
proof -
  let ?n = "if uint limit < remaining then uint limit else remaining"
  let ?s1 = "upd_outrec (\<lambda>r. r\<lparr>r_flags := f, r_plength := word_of_int ?n\<rparr>) s"
  have ok: "alp_ok ?s1" and room: "length [f, 0, 0, 0] \<le> out_room ?s1" using assms(1,2) by simp_all
  have b: "lo8 (lo16 (ucast f :: u32)) = f" "hi8 (lo16 (ucast f :: u32)) = 0" "lo8 (hi16 (ucast f :: u32)) = 0"
    "hi8 (hi16 (ucast f :: u32)) = 0"
    by (auto simp: lo8_def hi8_def lo16_def hi16_def bit_eq_iff bit_simps dest: bit_imp_le_length)
  from io.writes [OF ok room] obtain s2 where
    s2: "write_all (\<lambda>b. on_outq (q_writebyte b)) [f, 0, 0, 0] ?s1 = Some s2" "alp_ok s2" "in_bytes s2 = in_bytes ?s1"
      "out_bytes s2 = out_bytes ?s1 @ [f, 0, 0, 0]" "env s2 = env ?s1" by blast
  have "q_writelong_be (ucast f) = write_all q_writebyte [f, 0, 0, 0]"
    using put_item_bytes [of "Q_long_be (ucast f)"] by (simp add: fun_eq_iff b del: write_all.simps)
  then have w: "on_outq (q_writelong_be (ucast f)) ?s1 = Some s2"
    using s2(1) on_outq_write_all [of "[f, 0, 0, 0]" ?s1] by simp
  have nr: "alp_new_record flags limit remaining s = sub_insert_header None 4 ?s1"
    by (cases "uint limit < remaining")
      (simp_all add: alp_new_record_def sub_get_headerlen_def Let_def upd_outrec_def f_def or.assoc)
  have put: "set_outq_put (ptr_add (q_putcursor (outq (a_tmpl ?s1))) 4) s2 = s2"
    using put_after [OF ok s2(2,5,4)] by (simp add: set_outq_put_def Let_def)
  have fl: "r_flags (outrec (a_tmpl ?s1)) = f" by simp
  have "alp_new_record flags limit remaining s
      = Some (upd_outrec (\<lambda>r. r\<lparr>r_flags := r_flags r AND NOT ALP_FLAG_MB\<rparr>) s2)"
    unfolding nr sub_insert_header_def option.case Let_def fl w Option.bind_lunit using put by simp
  moreover have "r_plength (outrec (a_tmpl s2)) = word_of_int ?n" using env_outrec [OF s2(5)] by simp
  ultimately show ?thesis
    using s2(3,4) by (intro exI [of _ "upd_outrec (\<lambda>r. r\<lparr>r_flags := r_flags r AND NOT ALP_FLAG_MB\<rparr>) s2"]) simp
qed

theorem alp_new_record_header_witness:
  "\<exists>s'. alp_new_record 0 100 20 (demo_msg []) = Some s' \<and> out_bytes s' = [0xD0, 0, 0, 0]
    \<and> r_plength (outrec (a_tmpl s')) = 20"
  using alp_new_record_header [of "demo_msg []" 0 100 20] demo_msg_facts [of "[]"]
  by (auto simp: demo_msg_def alp_init_def ALP_FLAG_ME_def ALP_FLAG_MB_def ALP_FLAG_SR_def)

section \<open>One entry of a command and the next\<close>

lemma outq_back:
  assumes ok: "alp_ok t" and o: "out_bytes t = xs @ ys"
    and p: "p = ptr_add (q_getcursor (outq (a_tmpl t))) (int (length xs))"
  shows "alp_ok (set_outq_put p t)" and "out_bytes (set_outq_put p t) = xs"
    and "out_room (set_outq_put p t) = out_room t + length ys" and "in_bytes (set_outq_put p t) = in_bytes t"
    and "a_sys (set_outq_put p t) = a_sys t"
proof -
  let ?q = "outq (a_tmpl t)" and ?h = "a_mem t"
  have q: "q_ok (?q, ?h)" "q_content (?q, ?h) = xs @ ys" using ok o by (simp_all add: alp_ok_def Let_def out_bytes_def)
  have n: "q_count ?q = length xs + length ys" using q_content_rd(2) [OF q(1)] q(2) by simp
  have q': "q_ok (?q\<lparr>q_putcursor := p\<rparr>, ?h)" using q(1) n p by (auto simp: q_ok_def q_count_def)
  have cnt: "q_count (?q\<lparr>q_putcursor := p\<rparr>) = length xs" using p by (simp add: q_count_def)
  have "mem_rd (q_getcursor ?q) (length xs) ?h = Some xs"
    using mem_rd_take(1) [OF q_content_rd(1) [OF q(1)], of "length xs"] n q(2) by simp
  then have "q_content (?q\<lparr>q_putcursor := p\<rparr>, ?h) = xs" by (simp add: q_content_def cnt)
  then show "out_bytes (set_outq_put p t) = xs" by (simp add: out_bytes_def set_outq_put_def Let_def)
  show "alp_ok (set_outq_put p t)" using ok q' by (simp add: alp_ok_def set_outq_put_def Let_def)
  show "out_room (set_outq_put p t) = out_room t + length ys"
    using q(1) n p by (auto simp: out_room_def set_outq_put_def Let_def q_room_def q_ok_def q_count_def)
  show "in_bytes (set_outq_put p t) = in_bytes t" "a_sys (set_outq_put p t) = a_sys t"
    by (simp_all add: in_bytes_def set_outq_put_def Let_def)
qed

text \<open>
  The second close of a file that a pass has closed already: the slot still has the address of
  the header, and its length is 0.
\<close>

lemma stale_close:
  assumes d: "default_ready build_id v" and i: "i < 23" and fp: "sub_new_fp v = Some fd"
  shows "\<exists>w. vl_close act (Some fd) (isf_closed fd i v) = Some (0, w) \<and> vworm_read (of_nat (64 + 16 * i)) w = Some 0"
proof -
  let ?f = "closed (isf_opened i)" and ?v = "isf_closed fd i v"
  have i25: "i < 25" using i by simp
  have g: "get_file fd ?v = Some ?f"
    using sub_new_fp_Some(1) [OF fp] by (simp add: isf_closed_def get_put_file)
  have f: "f_header ?f = of_nat (64 + 16 * i)" "f_length ?f = 0" "f_flags ?f = 0"
    by (simp_all add: closed_def isf_opened_def opened_def Let_def)
  note w = isf_header_words(6,8) [OF isf_closed_ready(1) [OF d fp] i25, of i]
  have "hdr_ok ?v (f_header ?f)" "vworm_read (f_header ?f + 10) ?v = Some 0" unfolding f(1) by (rule w(2), rule w(1))
  from vl_close_spec [OF g this, of act] show ?thesis by (auto simp: f(2,3) f(1))
qed

text \<open>A list of three reads at the head of the input: a file, an offset and a span.\<close>

lemma read_entry:
  assumes ok: "alp_ok s" and c: "in_bytes s = m # a # b # c # d # cs"
  obtains s1 s2 s3 where "on_inq q_readbyte s = Some (m, s1)" and "on_inq q_readshort s1 = Some (join16 b a, s2)"
    and "on_inq q_readshort s2 = Some (join16 d c, s3)" and "alp_ok s3" and "in_bytes s3 = cs"
    and "out_bytes s3 = out_bytes s" and "out_room s3 = out_room s" and "env s3 = env s"
proof -
  from alp_rd_law [OF ok c] obtain s1 where s1: "on_inq q_readbyte s = Some (m, s1)" "alp_ok s1"
    "in_bytes s1 = a # b # c # d # cs" "out_bytes s1 = out_bytes s" "out_room s1 = out_room s" "env s1 = env s" by blast
  from read_short(1) [OF s1(2,3)] obtain s2 where s2: "on_inq q_readshort s1 = Some (join16 b a, s2)" "alp_ok s2"
    "in_bytes s2 = c # d # cs" "out_bytes s2 = out_bytes s1" "out_room s2 = out_room s1" "env s2 = env s1" by blast
  from read_short(1) [OF s2(2,3)] obtain s3 where s3: "on_inq q_readshort s2 = Some (join16 d c, s3)" "alp_ok s3"
    "in_bytes s3 = cs" "out_bytes s3 = out_bytes s2" "out_room s3 = out_room s2" "env s3 = env s2" by blast
  show thesis using that [OF s1(1) s2(1) s3(1)] s1 s2 s3 by simp
qed

text \<open>
  The pass for a file that does not exist, after a pass for one that does: the answer starts
  over at the marker, and the closed file is closed once more.
\<close>

lemma filedata_pass_missing:
  assumes ok: "alp_ok s" and d: "default_ready build_id v" and i: "i < 23" and fp: "sub_new_fp v = Some fd"
    and sy: "a_sys s = isf_closed fd i v" and c: "in_bytes s = m # a # b # x # y # cs" and m: "23 \<le> unat m"
    and o: "out_bytes s = xs @ ys" and mk: "marker = ptr_add (q_getcursor (outq (a_tmpl s))) (int (length xs))"
    and room: "2 < out_room s" and out: "0 \<le> out" "out < 32766" and cmd: "block_of cmd_in = VL_ISF_BLOCKID"
  shows "\<exists>s'. filedata_pass act Id_NULL 0x80 cmd_in marker 0 (Some fd) n out s
      = Some ((False, 0, Some fd, to_ot_int (- 5 - uint (join16 y x)), out + 2), s')
    \<and> out_bytes s' = xs @ [m, 1] \<and> vworm_read (of_nat (64 + 16 * i)) (a_sys s') = Some 0"
proof -
  obtain s1 s2 s3 where rd: "on_inq q_readbyte s = Some (m, s1)" "on_inq q_readshort s1 = Some (join16 b a, s2)"
    "on_inq q_readshort s2 = Some (join16 y x, s3)" and s3: "alp_ok s3" "in_bytes s3 = cs"
    "out_bytes s3 = out_bytes s" "out_room s3 = out_room s" "env s3 = env s"
    using read_entry [OF ok c] by blast
  have sy3: "a_sys s3 = isf_closed fd i v" using env_sys [OF s3(5)] sy by simp
  have g3: "q_getcursor (outq (a_tmpl s3)) = q_getcursor (outq (a_tmpl s))"
    using arg_cong [OF s3(5), of "\<lambda>e. q_getcursor (outq (fst e))"] by (simp add: env_def)
  have fh: "file_header VL_ISF_BLOCKID m 0 Id_NULL s3 = Some ((1, NULL_vaddr), s3)"
    using file_header_default [of build_id s3 m 0] isf_closed_ready(1) [OF d fp, of i] m by (simp add: sy3)
  obtain w where w: "vl_close act (Some fd) (isf_closed fd i v) = Some (0, w)" "vworm_read (of_nat (64 + 16 * i)) w = Some 0"
    using stale_close [OF d i fp, of act] by blast
  let ?s4 = "s3\<lparr>a_sys := w\<rparr>"
  let ?s5 = "upd_outrec (\<lambda>r. r\<lparr>r_cmd := r_cmd r OR 0x0F\<rparr>) (set_outq_put marker ?s4)"
  have cl: "on_sys (vl_close act (Some fd)) s3 = Some (0, ?s4)" using w(1) by (simp add: on_sys_def sy3)
  have sp: "outq_space ?s4 = Some (int (out_room s))" using outq_space_ok [OF s3(1)] s3(4) by simp
  have b4: "alp_ok ?s4" "out_bytes ?s4 = xs @ ys" "marker = ptr_add (q_getcursor (outq (a_tmpl ?s4))) (int (length xs))"
    using s3 o mk g3 by simp_all
  note bk = outq_back [OF b4]
  have ok5: "alp_ok ?s5" "length [m, 1] \<le> out_room ?s5" using bk(1,3) s3(4) room by simp_all
  from io.writes [OF ok5] obtain s6 where s6: "write_all (\<lambda>b. on_outq (q_writebyte b)) [m, 1] ?s5 = Some s6" "alp_ok s6"
    "out_bytes s6 = out_bytes ?s5 @ [m, 1]" "env s6 = env ?s5" by blast
  from s6(1) obtain t where t: "on_outq (q_writebyte m) ?s5 = Some t" "on_outq (q_writebyte 1) t = Some s6"
    by (auto simp: bind_eq_Some_conv)
  let ?k = "to_ot_int (uint (join16 y x))"
  let ?s7 = "s6\<lparr>a_tmpl := (a_tmpl s6)\<lparr>inq := snd (q_markbyte (inq (a_tmpl s6)) ?k)\<rparr>\<rparr>"
  have mkb: "on_inq (\<lambda>(q, h). Some ((), snd (q_markbyte q ?k), h)) s6 = Some ((), ?s7)" by (simp add: on_inq_def)
  have o2: "to_ot_int (out + 2) = out + 2" using out by simp
  have "respond_stage act 0x80 marker (Some fd) 0 m 1 (join16 y x) n out s3
      = Some ((False, to_ot_int (- 5 - uint (join16 y x)), out + 2), ?s7)"
    unfolding respond_stage_def cl Option.bind_lunit prod.case Let_def sp
    using room by (simp add: t mkb o2)
  then have "filedata_pass act Id_NULL 0x80 cmd_in marker 0 (Some fd) n out s
      = Some ((False, 0, Some fd, to_ot_int (- 5 - uint (join16 y x)), out + 2), ?s7)"
    unfolding filedata_pass_def rd Option.bind_lunit prod.case Let_def cmd and_zero_eq fh by simp
  moreover have "out_bytes s6 = xs @ [m, 1]" using s6(3) bk(2) by simp
  then have "out_bytes ?s7 = xs @ [m, 1]" by (simp add: out_bytes_def)
  moreover have "a_sys ?s7 = w" using env_sys [OF s6(4)] bk(5) by simp
  ultimately show ?thesis using w(2) by (intro exI [of _ ?s7]) simp
qed

lemma filedata_loop_end: "n \<le> 0 \<Longrightarrow> filedata_loop act u respond cmd_in marker md fp n out s = Some (out, s)"
  by (subst filedata_loop.simps) simp

lemma left_negative:
  assumes "unat (w :: u16) \<le> 32763"
  shows "\<not> 0 < to_ot_int (- 5 - uint w)"
proof -
  have w: "uint w \<le> 32763" "0 \<le> uint w" using assms uint_nat [of w] by linarith+
  then have "to_ot_int (- 5 - uint w) = - 5 - uint w" by (intro to_ot_int_small) linarith+
  then show ?thesis using w(2) by linarith
qed

text \<open>
  C14. Reading two files of which the second does not exist destroys the length of the first:
  the error path closes the slot of the first file again, which writes the length 0 into its
  header. The answer holds only the error of the second entry, but the number of bytes that the
  command reports, from which the length of the record is set, still counts the data.
\<close>

theorem alp_missing_file_wipes:
  fixes s :: "'a fs_st"
  assumes "alp_ok s" and "default_ready build_id (a_sys s)" and "length build_id = 9" and "sub_new_fp (a_sys s) = Some fd"
    and "req_ok (i, off, sp)" and "in_bytes s = req_bytes (i, off, sp) @ [m, a, b, x, y] @ cs" and "23 \<le> unat m"
    and "unat (join16 y x) \<le> 32763" and "7 + unat sp < out_room s"
  shows "vworm_read (of_nat (64 + 16 * i)) (a_sys s) = Some (ucast (ISF_LEN (isf_files ! i)))
    \<and> (\<exists>s'. sub_filedata act Id_NULL 0x80 0xB4 10 s = Some (7 + int (unat sp), s')
      \<and> out_bytes s' = out_bytes s @ [m, 1] \<and> vworm_read (of_nat (64 + 16 * i)) (a_sys s') = Some 0)"
proof -
  have i: "i < 23" "i < 25" using assms(5) by (simp_all add: req_ok_def)
  let ?mk = "q_putcursor (outq (a_tmpl s))"
  have cmd: "block_of 0xB4 = VL_ISF_BLOCKID" "(0xB4 :: u8) AND 0x0F \<noteq> 0x0C" "access_of 0xB4 AND VL_ACCESS_W = 0"
    by (simp_all add: block_of_def access_of_def VL_ISF_BLOCKID_def VL_ACCESS_R_def VL_ACCESS_W_def)
  have sp: "unat sp < 256"
    using assms(5) unsigned_less [where w = "ISF_LEN (isf_files ! i)" and ?'a = nat] by (simp add: req_ok_def)
  then have usp: "uint sp < 256" using uint_nat [of sp] by linarith
  have "\<exists>s'. filedata_pass act Id_NULL 0x80 0xB4 ?mk (access_of 0xB4) None 10 0 s
        = Some ((False, 0, Some fd, 10 - 5, 0 + 5 + int (unat sp)), s')
    \<and> alp_ok s' \<and> in_bytes s' = [m, a, b, x, y] @ cs \<and> out_bytes s' = out_bytes s @ reply_bytes build_id (i, off, sp)
    \<and> out_room s' = out_room s - (5 + unat sp) \<and> env s' = (fst (env s), isf_closed fd i (a_sys s))"
    by (rule filedata_pass_read [OF assms(1-6,9)]) (use cmd sp usp in simp_all)
  then obtain s1 where s1: "filedata_pass act Id_NULL 0x80 0xB4 ?mk (access_of 0xB4) None 10 0 s
      = Some ((False, 0, Some fd, 10 - 5, 0 + 5 + int (unat sp)), s1)" "alp_ok s1" "in_bytes s1 = m # a # b # x # y # cs"
    "out_bytes s1 = out_bytes s @ reply_bytes build_id (i, off, sp)" "out_room s1 = out_room s - (5 + unat sp)"
    "env s1 = (fst (env s), isf_closed fd i (a_sys s))" by auto
  have sy: "a_sys s1 = isf_closed fd i (a_sys s)" using s1(6) by (simp add: env_def)
  have g: "q_getcursor (outq (a_tmpl s1)) = q_getcursor (outq (a_tmpl s))"
    using arg_cong [OF s1(6), of "\<lambda>e. q_getcursor (outq (fst e))"] by (simp add: env_def)
  have "q_ok (outq (a_tmpl s), a_mem s)" using assms(1) by (simp add: alp_ok_def Let_def)
  then have mk: "?mk = ptr_add (q_getcursor (outq (a_tmpl s1))) (int (length (out_bytes s)))"
    unfolding g out_bytes_def by (rule q_putcursor_end)
  have "\<exists>s'. filedata_pass act Id_NULL 0x80 0xB4 ?mk 0 (Some fd) 5 (5 + int (unat sp)) s1
      = Some ((False, 0, Some fd, to_ot_int (- 5 - uint (join16 y x)), 5 + int (unat sp) + 2), s')
    \<and> out_bytes s' = out_bytes s @ [m, 1] \<and> vworm_read (of_nat (64 + 16 * i)) (a_sys s') = Some 0"
    by (rule filedata_pass_missing [OF s1(2) assms(2) i(1) assms(4) sy s1(3) assms(7) s1(4) mk _ _ _ cmd(1)])
      (use s1(5) assms(9) sp usp in simp_all)
  then obtain s2 where s2: "filedata_pass act Id_NULL 0x80 0xB4 ?mk 0 (Some fd) 5 (5 + int (unat sp)) s1
      = Some ((False, 0, Some fd, to_ot_int (- 5 - uint (join16 y x)), 5 + int (unat sp) + 2), s2)"
    "out_bytes s2 = out_bytes s @ [m, 1]" "vworm_read (of_nat (64 + 16 * i)) (a_sys s2) = Some 0" by blast
  note neg = left_negative [OF assms(8)]
  have second: "filedata_loop act Id_NULL 0x80 0xB4 ?mk 0 (Some fd) 5 (5 + int (unat sp)) s1 = Some (5 + int (unat sp) + 2, s2)"
    unfolding filedata_loop.simps [of act Id_NULL "0x80" "0xB4" ?mk 0 "Some fd" 5 "5 + int (unat sp)" s1] s2(1)
      Option.bind_lunit prod.case
    using neg by (simp add: filedata_loop_end)
  have "filedata_loop act Id_NULL 0x80 0xB4 ?mk (access_of 0xB4) None 10 0 s = Some (5 + int (unat sp) + 2, s2)"
    unfolding filedata_loop.simps [of act Id_NULL "0x80" "0xB4" ?mk "access_of 0xB4" None 10 0 s] s1(1) Option.bind_lunit prod.case
    using second by simp
  then have "sub_filedata act Id_NULL 0x80 0xB4 10 s = Some (7 + int (unat sp), s2)"
    unfolding sub_filedata_def by simp
  then show ?thesis using s2(2,3) isf_header_words(1) [OF assms(2) i(2)] by blast
qed

theorem alp_missing_file_wipes_witness:
  "vworm_read 304 demo_fs = Some 22
    \<and> (\<exists>s'. sub_filedata (\<lambda>_ _ s. Some (0, s)) Id_NULL 0x80 0xB4 10 (demo_msg [15, 0, 0, 0, 8, 0x30, 0, 0, 0, 4]) = Some (15, s')
      \<and> out_bytes s' = [0x30, 1] \<and> vworm_read 304 (a_sys s') = Some 0)"
proof -
  let ?s = "demo_msg [15, 0, 0, 0, 8, 0x30, 0, 0, 0, 4]"
  have f: "alp_ok ?s" "in_bytes ?s = [15, 0, 0, 0, 8, 0x30, 0, 0, 0, 4]" "out_bytes ?s = []" "out_room ?s = 64" "a_sys ?s = demo_fs"
    by (rule demo_msg_facts, simp)+
  have rq: "req_ok (15, 0, 8)" by (simp add: req_ok_def isf_files_def)
  have c: "in_bytes ?s = req_bytes (15, 0, 8) @ [0x30, 0, 0, 0, 4] @ []" by (simp add: f(2) req_bytes_def hi8_def lo8_def)
  have j: "unat (join16 4 0 :: u16) \<le> 32763" by (simp add: join16_def)
  show ?thesis
    using alp_missing_file_wipes [OF f(1) _ _ _ rq c _ j, of "replicate 9 0x41" 0 "\<lambda>_ _ s. Some (0, s)"]
      demo_fs_ready demo_fs_free
    by (simp add: f isf_files_def)
qed

text \<open>The variable \<^verbatim>\<open>file_mod\<close> after a pass is 1 or 0, whatever happens to the entry.\<close>

lemma filedata_pass_mode:
  assumes "filedata_pass act u respond cmd_in marker md fp n out s = Some ((over, md', fp', n', out'), s')"
  shows "md' = (if md AND VL_ACCESS_W \<noteq> 0 then 1 else 0)"
proof -
  let ?m = "if md AND VL_ACCESS_W \<noteq> 0 then 1 else 0 :: u8"
  obtain file_id s1 offset s2 span s3 err_code header s4 where 1: "on_inq q_readbyte s = Some (file_id, s1)"
    "on_inq q_readshort s1 = Some (offset, s2)" "on_inq q_readshort s2 = Some (span, s3)"
    "file_header (block_of cmd_in) file_id md u s3 = Some ((err_code, header), s4)"
    using assms unfolding filedata_pass_def by (auto simp: bind_eq_Some_conv Let_def)
  show ?thesis
  proof (cases "err_code = 0")
    case False
    then show ?thesis
      using assms unfolding filedata_pass_def by (auto simp: 1 bind_eq_Some_conv Let_def split: if_splits)
  next
    case True
    then obtain fo s5 where 2: "on_sys (vl_open_file header) s4 = Some (fo, s5)"
      using assms unfolding filedata_pass_def by (auto simp: 1 bind_eq_Some_conv Let_def)
    show ?thesis
    proof (cases fo)
      case None
      then show ?thesis
        using assms True unfolding filedata_pass_def by (auto simp: 1 2 bind_eq_Some_conv Let_def split: if_splits)
    next
      case (Some fd)
      then show ?thesis
        using assms True unfolding filedata_pass_def
        by (cases "md AND VL_ACCESS_W = 0") (auto simp: 1 2 bind_eq_Some_conv Let_def split: if_splits)
    qed
  qed
qed

lemma no_access_mode: "auth_check md 0 u s = Some (r, s') \<Longrightarrow> r = 0"
  by (auto simp: auth_check_def Let_def bind_eq_Some_conv split: if_splits)

lemma file_header_no_access:
  "file_header blk ident 0 u s = Some ((rc, h), s') \<Longrightarrow> u \<noteq> Id_NULL \<Longrightarrow> rc \<noteq> 0"
  by (auto simp: file_header_def on_sys_def vl_getheader_vaddr_def bind_eq_Some_conv dest: no_access_mode split: if_splits)

text \<open>
  A read command of a user serves at most its first entry: after any pass the access mode is
  0, with which no identity, not even root, is granted a file, so every later entry is refused.
\<close>

theorem alp_second_read_refused:
  assumes "filedata_pass act u respond cmd_in marker (access_of cmd_in) fp n out s = Some ((over, md, fp', n', out'), s1)"
    and "cmd_in AND 0x02 = 0" and "u \<noteq> Id_NULL"
    and "file_header (block_of cmd_in) ident md u s2 = Some ((rc, h), s3)"
  shows "rc \<noteq> 0"
proof -
  have "md = 0"
    using filedata_pass_mode [OF assms(1)] assms(2) by (simp add: access_of_def VL_ACCESS_R_def VL_ACCESS_W_def)
  then show ?thesis using file_header_no_access assms(3,4) by blast
qed

text \<open>A pass for a missing file without the response bit.\<close>

lemma filedata_pass_missing_quiet:
  assumes ok: "alp_ok s" and d: "default_ready build_id (a_sys s)" and c: "in_bytes s = m # a # b # x # y # cs"
    and m: "23 \<le> unat m" and cmd: "block_of cmd_in = VL_ISF_BLOCKID"
  shows "\<exists>s'. filedata_pass act u 0 cmd_in marker md None n out s
      = Some ((False, if md AND VL_ACCESS_W \<noteq> 0 then 1 else 0, None,
          to_ot_int (to_ot_int (n - 5) - uint (join16 y x)), out), s')
    \<and> alp_ok s' \<and> in_bytes s' = cs \<and> out_bytes s' = out_bytes s \<and> out_room s' = out_room s \<and> a_sys s' = a_sys s"
proof -
  obtain s1 s2 s3 where rd: "on_inq q_readbyte s = Some (m, s1)" "on_inq q_readshort s1 = Some (join16 b a, s2)"
    "on_inq q_readshort s2 = Some (join16 y x, s3)" and s3: "alp_ok s3" "in_bytes s3 = cs"
    "out_bytes s3 = out_bytes s" "out_room s3 = out_room s" "env s3 = env s"
    using read_entry [OF ok c] by blast
  have sy: "a_sys s3 = a_sys s" by (rule env_sys [OF s3(5)])
  have "sub_isf_search m (a_sys s3) = Some NULL_vaddr" using isf_search_missing [OF d m] by (simp add: sy)
  then have fh: "file_header VL_ISF_BLOCKID m md u s3 = Some ((1, NULL_vaddr), s3)"
    by (simp add: file_header_def on_sys_def vl_getheader_vaddr_def vl_consts)
  have "respond_stage act 0 marker None k m 1 (join16 y x) n out s3
      = Some ((False, to_ot_int (to_ot_int (n - 5) - uint (join16 y x)), out), s3)" for k
    by (simp add: respond_stage_def on_sys_def vl_close_def)
  then have "filedata_pass act u 0 cmd_in marker md None n out s
      = Some ((False, if md AND VL_ACCESS_W \<noteq> 0 then 1 else 0, None,
          to_ot_int (to_ot_int (n - 5) - uint (join16 y x)), out), s3)"
    unfolding filedata_pass_def rd Option.bind_lunit prod.case Let_def cmd fh by simp
  then show ?thesis using s3 sy by blast
qed

theorem alp_second_read_refused_witness:
  "\<exists>s1. filedata_pass (\<lambda>_ _ s. Some (0, s)) Auth_root 0 0x34 (8, 0) (access_of 0x34) None 10 0
        (demo_msg [0x30, 0, 0, 0, 4, 15, 0, 0, 0, 4]) = Some ((False, 0, None, 1, 0), s1)
    \<and> (\<forall>rc h s3. file_header (block_of 0x34) 15 0 Auth_root s1 = Some ((rc, h), s3) \<longrightarrow> rc \<noteq> 0)"
proof -
  let ?s = "demo_msg [0x30, 0, 0, 0, 4, 15, 0, 0, 0, 4]"
  have f: "alp_ok ?s" "in_bytes ?s = 0x30 # 0 # 0 # 0 # 4 # [15, 0, 0, 0, 4]" "a_sys ?s = demo_fs"
    by (rule demo_msg_facts, simp)+
  have d: "default_ready (replicate 9 0x41) (a_sys ?s)" by (simp add: f(3) demo_fs_ready)
  have blk: "block_of 0x34 = VL_ISF_BLOCKID" by (simp add: block_of_def VL_ISF_BLOCKID_def)
  have "to_ot_int (to_ot_int (10 - 5) - uint (join16 4 0 :: u16)) = 1" by (simp add: join16_def)
  then obtain s1 where s1: "filedata_pass (\<lambda>_ _ s. Some (0, s)) Auth_root 0 0x34 (8, 0) (access_of 0x34) None 10 0 ?s
      = Some ((False, 0, None, 1, 0), s1)"
    using filedata_pass_missing_quiet [OF f(1) d f(2) _ blk, of "\<lambda>_ _ s. Some (0, s)" Auth_root "(8, 0)" "access_of 0x34" 10 0]
    by (auto simp: access_of_def VL_ACCESS_R_def VL_ACCESS_W_def)
  have "rc \<noteq> 0" if "file_header (block_of 0x34) 15 0 Auth_root s1 = Some ((rc, h), s3)" for rc h s3
    by (rule alp_second_read_refused [OF s1 _ _ that]) simp_all
  then show ?thesis using s1 by blast
qed

end
