(* ===== verification/Fs_Store.thy ===== *)
theory Fs_Store
  imports Veelite_Files
begin

text \<open>
  The contract of the filesystem as a whole: the indexed files of the default filesystem are a
  map from ids to contents. A client writes a file by opening, storing and closing it, and reads
  it by opening, loading and closing it (as \<^verbatim>\<open>sub_loadstore\<close> of \<^verbatim>\<open>test/veelite.c\<close> does); every sequence of
  such accesses gives the data that the map gives.
\<close>

section \<open>Stores of files\<close>

text \<open>An access of a client: the length given and the buffer, or the number of bytes wanted.\<close>

datatype 'k file_access = Put 'k u16 bytes | Get 'k u16

text \<open>
  The specification: a map of contents. Of the buffer, \<open>taken k len\<close> bytes are stored in file \<open>k\<close>.
\<close>

fun spec_run :: "('k \<Rightarrow> u16 \<Rightarrow> nat) \<Rightarrow> 'k file_access list \<Rightarrow> ('k \<Rightarrow> bytes) \<Rightarrow> bytes list \<times> ('k \<Rightarrow> bytes)" where
  "spec_run taken [] c = ([], c)"
| "spec_run taken (Put k len buf # as) c = spec_run taken as (c(k := take (taken k len) buf))"
| "spec_run taken (Get k n # as) c = (let (outs, c') = spec_run taken as c in (take (unat n) (c k) # outs, c'))"

text \<open>A client that makes the accesses in order and collects what it reads.\<close>

fun run_accesses ::
  "('k \<Rightarrow> u16 \<Rightarrow> bytes \<Rightarrow> 's \<Rightarrow> 's option) \<Rightarrow> ('k \<Rightarrow> u16 \<Rightarrow> 's \<Rightarrow> (bytes \<times> 's) option) \<Rightarrow>
   'k file_access list \<Rightarrow> 's \<Rightarrow> (bytes list \<times> 's) option" where
  "run_accesses put get [] s = Some ([], s)"
| "run_accesses put get (Put k len buf # as) s = do { s \<leftarrow> put k len buf s; run_accesses put get as s }"
| "run_accesses put get (Get k n # as) s = do {
     (bs, s) \<leftarrow> get k n s;
     (outs, s) \<leftarrow> run_accesses put get as s;
     Some (bs # outs, s)
   }"

text \<open>The file is valid, and the buffer has the bytes the store takes, which it takes in pairs.\<close>

fun access_ok :: "('k \<Rightarrow> u16 \<Rightarrow> nat) \<Rightarrow> ('k \<Rightarrow> bool) \<Rightarrow> 'k file_access \<Rightarrow> bool" where
  "access_ok taken valid (Put k len buf) \<longleftrightarrow> valid k \<and> 2 * ((taken k len + 1) div 2) \<le> length buf"
| "access_ok taken valid (Get k n) \<longleftrightarrow> valid k"

locale file_store =
  fixes put :: "'k \<Rightarrow> u16 \<Rightarrow> bytes \<Rightarrow> 's \<Rightarrow> 's option"
    and get :: "'k \<Rightarrow> u16 \<Rightarrow> 's \<Rightarrow> (bytes \<times> 's) option"
    and taken :: "'k \<Rightarrow> u16 \<Rightarrow> nat"
    and valid :: "'k \<Rightarrow> bool"
    and holds :: "('k \<Rightarrow> bytes) \<Rightarrow> 's \<Rightarrow> bool"
  assumes put_law: "holds c s \<Longrightarrow> valid k \<Longrightarrow> 2 * ((taken k len + 1) div 2) \<le> length buf \<Longrightarrow>
      \<exists>s'. put k len buf s = Some s' \<and> holds (c(k := take (taken k len) buf)) s'"
    and get_law: "holds c s \<Longrightarrow> valid k \<Longrightarrow> \<exists>s'. get k n s = Some (take (unat n) (c k), s') \<and> holds c s'"
begin

lemma refines:
  "holds c s \<Longrightarrow> \<forall>a \<in> set as. access_ok taken valid a \<Longrightarrow>
   \<exists>s'. run_accesses put get as s = Some (fst (spec_run taken as c), s') \<and> holds (snd (spec_run taken as c)) s'"
proof (induction as arbitrary: c s)
  case Nil
  then show ?case by simp
next
  case (Cons a as)
  show ?case
  proof (cases a)
    case (Put k len buf)
    define d where "d = c(k := take (taken k len) buf)"
    obtain s1 where s1: "put k len buf s = Some s1" "holds d s1"
      using put_law [of c s k len buf] Cons.prems Put unfolding d_def by auto
    moreover have "spec_run taken (a # as) c = spec_run taken as d" by (simp only: Put spec_run.simps d_def)
    ultimately show ?thesis using Cons.IH [OF s1(2)] Cons.prems(2) Put by simp
  next
    case (Get k n)
    obtain s1 where "get k n s = Some (take (unat n) (c k), s1)" "holds c s1"
      using get_law [of c s k n] Cons.prems Get by auto
    then show ?thesis using Cons.IH [of c s1] Cons.prems(2) Get by (auto split: prod.splits)
  qed
qed

end

section \<open>The indexed files\<close>

text \<open>The header of file \<open>i\<close>, and the slot it opens into when its length is \<open>n\<close>.\<close>

abbreviation isf_hdr :: "nat \<Rightarrow> u16" where "isf_hdr i \<equiv> of_nat (64 + 16 * i)"

abbreviation isf_at :: "nat \<Rightarrow> u16" where "isf_at i \<equiv> of_nat (ISF_BASE (isf_files ! i))"

abbreviation isf_room :: "nat \<Rightarrow> u16" where "isf_room i \<equiv> of_nat (ISF_ALLOC (isf_files ! i))"

definition isf_slot :: "nat \<Rightarrow> u16 \<Rightarrow> vlFILE" where
  "isf_slot i n = opened (isf_hdr i) n (isf_room i)
     (join16 (ISF_ID (isf_files ! i)) (ISF_MOD (isf_files ! i))) (isf_at i)"

text \<open>What opening a file relies on: the counts of the filesystem header, and the fields of each header.\<close>

definition fs_layout :: "'a core_state_scheme \<Rightarrow> bool" where
  "fs_layout s \<longleftrightarrow> fs_size s = 1280
     \<and> vworm_read 10 s = Some 2 \<and> vworm_read 16 s = Some 0 \<and> vworm_read 22 s = Some 23
     \<and> (\<forall>i < 23. vworm_read (isf_hdr i + 2) s = Some (isf_room i)
          \<and> vworm_read (isf_hdr i + 4) s = Some (join16 (ISF_ID (isf_files ! i)) (ISF_MOD (isf_files ! i)))
          \<and> vworm_read (isf_hdr i + 6) s = Some (isf_at i)
          \<and> vworm_read (isf_hdr i + 8) s = Some NULL_vaddr \<and> vworm_read (isf_hdr i + 10) s = Some 0)"

text \<open>The files hold the contents \<open>c\<close>, and a file can be opened.\<close>

definition file_holds :: "nat \<Rightarrow> bytes \<Rightarrow> 'a core_state_scheme \<Rightarrow> bool" where
  "file_holds i bs s \<longleftrightarrow> length bs \<le> ISF_ALLOC (isf_files ! i) \<and> vworm_read (isf_hdr i) s = Some (of_nat (length bs))
     \<and> load_loop (\<lambda>a. vworm_read a s) (length bs) (isf_at i) None = Some bs"

definition fs_holds :: "(nat \<Rightarrow> bytes) \<Rightarrow> 'a vl_state_scheme \<Rightarrow> bool" where
  "fs_holds c s \<longleftrightarrow> fs_layout s \<and> sub_new_fp s \<noteq> None \<and> (\<forall>i < 23. file_holds i (c i) s)"

definition put_file_data ::
  "'a action_fn \<Rightarrow> nat \<Rightarrow> u16 \<Rightarrow> bytes \<Rightarrow> 'a vl_state_scheme \<Rightarrow> 'a vl_state_scheme option" where
  "put_file_data act i len buf s = do {
     (fp, s) \<leftarrow> ISF_open_su (of_nat i) s;
     fd \<leftarrow> fp;
     (_, s) \<leftarrow> vl_store fd len buf s;
     (_, s) \<leftarrow> vl_close act fp s;
     Some s
   }"

definition get_file_data ::
  "'a action_fn \<Rightarrow> nat \<Rightarrow> u16 \<Rightarrow> 'a vl_state_scheme \<Rightarrow> (bytes \<times> 'a vl_state_scheme) option" where
  "get_file_data act i n s = do {
     (fp, s) \<leftarrow> ISF_open_su (of_nat i) s;
     fd \<leftarrow> fp;
     (_, bs) \<leftarrow> vl_load fd n s;
     (_, s) \<leftarrow> vl_close act fp s;
     Some (bs, s)
   }"

definition isf_cut :: "nat \<Rightarrow> u16 \<Rightarrow> nat" where
  "isf_cut i len = min (unat len) (ISF_ALLOC (isf_files ! i))"

section \<open>Opening\<close>

lemma unat_isf_hdr: "i < 25 \<Longrightarrow> unat k < 16 \<Longrightarrow> unat (isf_hdr i + k) = 64 + 16 * i + unat k"
proof -
  assume "i < 25" "unat k < 16"
  moreover have "unat (isf_hdr i) = 64 + 16 * i" by (rule unat_of_nat_u16) (use \<open>i < 25\<close> in simp)
  ultimately show ?thesis using unat_add_u16 [of "isf_hdr i" k] by simp
qed

lemma isf_words:
  "unat (isf_at i) = ISF_BASE (isf_files ! i)" "unat (isf_room i) = ISF_ALLOC (isf_files ! i)"
  using isf_base_bounds [of "isf_files ! i"] by (auto intro!: unat_of_nat_u16)

lemma isf_hdr_ok: "fs_size s = 1280 \<Longrightarrow> i < 23 \<Longrightarrow> hdr_ok s (isf_hdr i)"
  using unat_isf_hdr [of i 0] by (simp add: hdr_ok_def)

lemma isf_slot_ok:
  assumes "i < 23"
  shows "file_ok 1280 (isf_slot i n)" "hdr_apart (isf_slot i n)"
  using isf_base_bounds [of "isf_files ! i"] isf_words [of i] unat_isf_hdr [of i 0] assms
  by (simp_all add: isf_slot_def opened_def file_ok_def hdr_apart_def)

lemma isf_search_words:
  assumes m: "fsblock s = Some m" and cnt: "vworm_read 10 s = Some 2" "vworm_read 16 s = Some 0" "vworm_read 22 s = Some 23"
    and i: "i < 23" and idm: "vworm_read (isf_hdr i + 4) s = Some (join16 (of_nat i) md)"
  shows "sub_isf_search (of_nat i) s = Some (isf_hdr i)"
proof -
  have cnt: "rd16 m 10 = Some 2" "rd16 m 16 = Some 0" "rd16 m 22 = Some 23"
    using cnt vworm_read_lit [OF m, of 10] vworm_read_lit [OF m, of 16] vworm_read_lit [OF m, of 22] by simp_all
  have u: "unat (of_nat i :: u8) = i" using i by (simp add: unat_of_nat take_bit_nat_eq_self)
  have "uint (of_nat i :: u8) = int (unat (of_nat i :: u8))" by (rule uint_nat)
  then have lt: "uint (of_nat i :: u8) < sint (23 :: u16)" using i u by simp
  have "vworm_read (of_nat (64 + 16 * i + 4)) s = rd16 m (64 + 16 * i + 4)"
    by (rule vworm_read_lit [OF m]) (use i in auto)
  then have r: "rd16 m (64 + 16 * i + 4) = Some (join16 (of_nat i) md)" using idm by simp
  have "unat (of_nat i :: u16) = i" using i by (intro unat_of_nat_u16) simp
  then have c: "ucast (of_nat i :: u8) = (of_nat i :: u16)" by (simp only: word_unat_eq_iff unat_u8_u16 u)
  show ?thesis
    using lt r m cnt u
    by (simp add: sub_isf_search_def sub_header_search_def GFB_Header_START_def OVERHEAD_START_VADDR_def c mult.commute)
qed

lemma isf_search_layout:
  assumes "fs_layout s" and i: "i < 23"
  shows "sub_isf_search (of_nat i) s = Some (isf_hdr i)"
proof -
  have "fs_size s \<noteq> 0" using assms(1) by (simp add: fs_layout_def)
  then obtain m where "fsblock s = Some m" by (auto simp: fs_size_def split: option.splits)
  then show ?thesis
    by (rule isf_search_words [OF _ _ _ _ i]) (use assms in \<open>auto simp: fs_layout_def ISF_ID_index\<close>)
qed

lemma open_layout:
  assumes l: "fs_layout s" and i: "i < 23" and fp: "sub_new_fp s = Some fd"
    and n: "vworm_read (isf_hdr i) s = Some n"
  shows "ISF_open_su (of_nat i) s = Some (Some fd, put_file fd (isf_slot i n) s)"
    "get_file fd (put_file fd (isf_slot i n) s) = Some (isf_slot i n)"
proof -
  have "isf_hdr i \<noteq> NULL_vaddr" using unat_isf_hdr [of i 0] i by (auto simp: NULL_vaddr_def)
  moreover have "vl_open_file (isf_hdr i) s = Some (Some fd, put_file fd (isf_slot i n) s)"
    unfolding isf_slot_def by (rule vl_open_file_spec [OF fp n]) (use l i in \<open>simp_all add: fs_layout_def\<close>)
  ultimately show "ISF_open_su (of_nat i) s = Some (Some fd, put_file fd (isf_slot i n) s)"
    using isf_search_layout [OF l i]
    by (simp add: ISF_open_su_def vl_open_def vl_getheader_vaddr_def vl_consts)
  show "get_file fd (put_file fd (isf_slot i n) s) = Some (isf_slot i n)"
    using sub_new_fp_Some(1) [OF fp] by (simp add: get_put_file)
qed

section \<open>Reading\<close>

lemma load_loop_take:
  "load_loop rd n c x = Some bs \<Longrightarrow> k \<le> n \<Longrightarrow> load_loop rd k c x = Some (take k bs)"
proof (induction n arbitrary: k c x bs)
  case 0
  then show ?case by simp
next
  case (Suc n)
  then show ?case by (cases k) (auto simp: bind_eq_Some_conv)
qed

lemma fs_holds_eq:
  assumes "\<And>a. vworm_read a s' = vworm_read a s" and "fs_size s' = fs_size s" and "sub_new_fp s' \<noteq> None"
    and "fs_holds c s"
  shows "fs_holds c s'"
  using assms by (simp add: fs_holds_def fs_layout_def file_holds_def)

text \<open>A file of the filesystem is opened, and closed again without a change.\<close>

lemma held_open:
  fixes v :: "'a vl_state_scheme"
  assumes h: "fs_holds c v" and i: "i < 23" and fp: "sub_new_fp v = Some fd"
  shows "vl_open_file (isf_hdr i) v = Some (Some fd, put_file fd (isf_slot i (of_nat (length (c i)))) v)"
    "get_file fd (put_file fd (isf_slot i (of_nat (length (c i)))) v) = Some (isf_slot i (of_nat (length (c i))))"
    "unat (of_nat (length (c i)) :: u16) = length (c i)"
proof -
  have l: "fs_layout v" and f: "file_holds i (c i) v" using h i by (simp_all add: fs_holds_def)
  show "vl_open_file (isf_hdr i) v = Some (Some fd, put_file fd (isf_slot i (of_nat (length (c i)))) v)"
    unfolding isf_slot_def
    by (rule vl_open_file_spec [OF fp]) (use l f i in \<open>simp_all add: fs_layout_def file_holds_def\<close>)
  show "get_file fd (put_file fd (isf_slot i (of_nat (length (c i)))) v) = Some (isf_slot i (of_nat (length (c i))))"
    using sub_new_fp_Some(1) [OF fp] by (simp add: get_put_file)
  have "length (c i) \<le> ISF_ALLOC (isf_files ! i)" using f by (simp add: file_holds_def)
  then show "unat (of_nat (length (c i)) :: u16) = length (c i)"
    using isf_base_bounds(3) [of "isf_files ! i"] by (intro unat_of_nat_u16) simp
qed

lemma held_close:
  fixes v :: "'a vl_state_scheme"
  assumes h: "fs_holds c v" and i: "i < 23" and fp: "sub_new_fp v = Some fd"
  shows "\<exists>v'. vl_close act (Some fd) (put_file fd (isf_slot i (of_nat (length (c i)))) v) = Some (0, v') \<and> fs_holds c v'"
proof -
  let ?g = "isf_slot i (of_nat (length (c i)))" and ?v = "put_file fd (isf_slot i (of_nat (length (c i)))) v"
  let ?v' = "put_file fd (closed ?g) (?v\<lparr>rtc_n := Suc (rtc_n ?v)\<rparr>)"
  have "fs_layout v" and "file_holds i (c i) v" using h i by (simp_all add: fs_holds_def)
  then have "vl_close act (Some fd) ?v = Some (0, ?v')"
    by (intro vl_close_clean [OF held_open(2) [OF h i fp]])
      (use i in \<open>simp_all add: isf_slot_def opened_def fs_layout_def file_holds_def\<close>)
  moreover have "fs_holds c ?v'"
  proof (rule fs_holds_eq [OF _ _ _ h])
    have "fd < length (vlfile v)" using sub_new_fp_Some(1) [OF fp] .
    then show "sub_new_fp ?v' \<noteq> None"
      unfolding sub_new_fp_None by (auto simp: put_file_def closed_def intro!: exI [of _ fd])
  qed simp_all
  ultimately show ?thesis by blast
qed

lemma get_file_law:
  assumes h: "fs_holds c s" and i: "i < 23"
  shows "\<exists>s'. get_file_data act i n s = Some (take (unat n) (c i), s') \<and> fs_holds c s'"
proof -
  let ?len = "of_nat (length (c i)) :: u16"
  obtain fd where fp: "sub_new_fp s = Some fd" using h by (auto simp: fs_holds_def)
  have l: "fs_layout s" and f: "file_holds i (c i) s" using h i by (simp_all add: fs_holds_def)
  have sz: "fs_size s = 1280" using l by (simp add: fs_layout_def)
  let ?g = "isf_slot i ?len" and ?s = "put_file fd (isf_slot i ?len) s"
  have r: "vworm_read (isf_hdr i) s = Some ?len" using f by (simp add: file_holds_def)
  note op = held_open(2) [OF h i fp] and ul = held_open(3) [OF h i fp]
  have "file_ok (fs_size ?s) ?g" "fs_size ?s < 65536" "f_length ?g \<le> f_alloc ?g"
    using isf_slot_ok(1) [OF i, of ?len] sz f ul isf_words(2) [of i]
    by (simp_all add: isf_slot_def opened_def word_le_nat_alt file_holds_def)
  note ld = vl_load_eq [OF op this, of n]
  have um: "unat (min n ?len) = min (unat n) (length (c i))" by (simp add: min_def word_le_nat_alt ul)
  have "load_loop (\<lambda>a. vworm_read a s) (length (c i)) (isf_at i) None = Some (c i)"
    using f by (simp add: file_holds_def)
  then have "load_loop (\<lambda>a. vworm_read a s) (unat (min n ?len)) (isf_at i) None = Some (take (unat n) (c i))"
    using load_loop_take [of "\<lambda>a. vworm_read a s" "length (c i)" "isf_at i" None "c i" "min (unat n) (length (c i))"]
    by (cases "unat n \<le> length (c i)") (simp_all add: um)
  then have "vl_load fd n ?s = Some (min n ?len, take (unat n) (c i))" using ld by (simp add: isf_slot_def opened_def)
  moreover obtain s' where "vl_close act (Some fd) ?s = Some (0, s')" "fs_holds c s'" using held_close [OF h i fp] by blast
  ultimately show ?thesis
    using open_layout(1) [OF l i fp r] by (intro exI [of _ s']) (simp add: get_file_data_def)
qed

section \<open>Writing\<close>

text \<open>Where the data of file \<open>i\<close> lies, and what does not lie there.\<close>

lemma isf_area: "in_area (isf_at i) (isf_room i) b \<longleftrightarrow>
    ISF_BASE (isf_files ! i) \<le> unat (even_addr b)
    \<and> unat (even_addr b) < ISF_BASE (isf_files ! i) + ISF_ALLOC (isf_files ! i)"
proof -
  have "2 * ((ISF_ALLOC (isf_files ! i) + 1) div 2) = ISF_ALLOC (isf_files ! i)"
    using isf_base_bounds(4) [of "isf_files ! i"] by simp
  then show ?thesis unfolding in_area_def isf_words by simp
qed

lemma isf_data_address:
  assumes "k < ISF_ALLOC (isf_files ! j)" and "(isf_at j + of_nat k) AND 1 = 0"
  shows "unat (even_addr (isf_at j + of_nat k)) = ISF_BASE (isf_files ! j) + k"
proof -
  have "unat (isf_at j + of_nat k) = ISF_BASE (isf_files ! j) + k"
    using unat_off [of "isf_at j" k] isf_words(1) [of j] isf_base_bounds(3) [of "isf_files ! j"] assms(1) by simp
  moreover have "even_addr (isf_at j + of_nat k) = isf_at j + of_nat k"
    using assms(2) even_and_1 [of "isf_at j + of_nat k"] by simp
  ultimately show ?thesis by simp
qed

lemma isf_data_apart:
  assumes "i < 23" "j < 23" "i \<noteq> j" and k: "k < ISF_ALLOC (isf_files ! j)" "(isf_at j + of_nat k) AND 1 = 0"
  shows "\<not> in_area (isf_at i) (isf_room i) (isf_at j + of_nat k)"
proof -
  have "isf_files ! i \<noteq> isf_files ! j"
    using assms(1-3) nth_eq_iff_index_eq [OF distinct_isf_files] length_isf_files by simp
  then have "ISF_BASE (isf_files ! i) + ISF_ALLOC (isf_files ! i) \<le> ISF_BASE (isf_files ! j)
      \<or> ISF_BASE (isf_files ! j) + ISF_ALLOC (isf_files ! j) \<le> ISF_BASE (isf_files ! i)"
    using null_files.areas_disjoint [of "isf_files ! i" "isf_files ! j"] by auto
  then show ?thesis using isf_data_address [OF k] k(1) by (auto simp: isf_area)
qed

text \<open>
  A write to file \<open>i\<close> changes its data and the words 0, 12 and 14 of its header. All the other
  words that the layout and the other files are made of stay.
\<close>

lemma file_holds_same:
  assumes "file_holds j bs s" and "vworm_read (isf_hdr j) s' = vworm_read (isf_hdr j) s"
    and "\<And>k. k < length bs \<Longrightarrow> (isf_at j + of_nat k) AND 1 = 0 \<Longrightarrow>
      vworm_read (isf_at j + of_nat k) s' = vworm_read (isf_at j + of_nat k) s"
  shows "file_holds j bs s'"
proof -
  have "load_loop (\<lambda>a. vworm_read a s') (length bs) (isf_at j) None
      = load_loop (\<lambda>a. vworm_read a s) (length bs) (isf_at j) None"
    by (rule load_loop_cong) (rule assms(3))
  then show ?thesis using assms(1,2) by (simp add: file_holds_def)
qed

lemma isf_hdr_words:
  assumes "i < 23" "j < 23" and "even (unat k)" "unat k < 16"
  shows "even_addr (isf_hdr j + k) = isf_hdr j + k" "unat (isf_hdr j + k) < 768"
    "isf_hdr j + k \<in> {isf_hdr i, isf_hdr i + 12, isf_hdr i + 14} \<longleftrightarrow> i = j \<and> k \<in> {0, 12, 14}"
proof -
  have u: "unat (isf_hdr j + k) = 64 + 16 * j + unat k" by (rule unat_isf_hdr) (use assms in auto)
  then show "even_addr (isf_hdr j + k) = isf_hdr j + k" "unat (isf_hdr j + k) < 768" using assms by simp_all
  have eq: "isf_hdr j + k = isf_hdr i + l \<longleftrightarrow> i = j \<and> k = l" if "unat l < 16" for l :: u16
  proof
    assume "isf_hdr j + k = isf_hdr i + l"
    then have "unat (isf_hdr j + k) = unat (isf_hdr i + l)" by (simp only:)
    moreover have "unat (isf_hdr i + l) = 64 + 16 * i + unat l" by (rule unat_isf_hdr) (use assms(1) that in auto)
    ultimately have "64 + 16 * j + unat k = 64 + 16 * i + unat l" using u by (simp only:)
    moreover from this have "j = i" using assms(4) that by linarith
    ultimately show "i = j \<and> k = l" by (simp add: word_unat_eq_iff)
  qed simp
  show "isf_hdr j + k \<in> {isf_hdr i, isf_hdr i + 12, isf_hdr i + 14} \<longleftrightarrow> i = j \<and> k \<in> {0, 12, 14}"
    using eq [of 0] eq [of 12] eq [of 14] by auto
qed

lemma not_hdr_word:
  assumes "i < 23" and "unat x < 64 \<or> 768 \<le> unat x"
  shows "x \<notin> {isf_hdr i, isf_hdr i + 12, isf_hdr i + 14}"
proof
  assume "x \<in> {isf_hdr i, isf_hdr i + 12, isf_hdr i + 14}"
  then obtain l where l: "l \<in> {0, 12, 14}" "x = isf_hdr i + l" by (metis add_0_right insert_iff empty_iff)
  have "unat l \<le> 14" using l(1) by auto
  moreover have "unat x = 64 + 16 * i + unat l"
    unfolding l(2) by (rule unat_isf_hdr) (use assms(1) \<open>unat l \<le> 14\<close> in auto)
  ultimately show False using assms by linarith
qed

text \<open>
  What storing and closing leaves for the others: \<open>same\<close> says which words of the block stay.
\<close>

lemma fs_holds_put:
  assumes h: "fs_holds c s" and i: "i < 23" and fp: "sub_new_fp s' \<noteq> None" and sz: "fs_size s' = fs_size s"
    and same: "\<And>b. \<not> in_area (isf_at i) (isf_room i) b \<Longrightarrow>
      even_addr b \<notin> {isf_hdr i, isf_hdr i + 12, isf_hdr i + 14} \<Longrightarrow> vworm_read b s' = vworm_read b s"
    and new: "file_holds i bs s'"
  shows "fs_holds (c(i := bs)) s'"
proof -
  have low: "\<not> in_area (isf_at i) (isf_room i) b" if "unat (even_addr b) < 768" for b
    using isf_base_bounds(2) [of "isf_files ! i"] that by (simp add: isf_area)
  have hd: "vworm_read (isf_hdr j + k) s' = vworm_read (isf_hdr j + k) s"
    if "j < 23" "even (unat k)" "unat k < 16" "i \<noteq> j \<or> k \<notin> {0, 12, 14}" for j k
    using that isf_hdr_words [OF i that(1-3)] by (intro same low) auto
  have "vworm_read k s' = vworm_read k s" if "k \<in> {10, 16, 22}" for k
    using that by (intro same low not_hdr_word [OF i]) auto
  moreover have hk: "vworm_read (isf_hdr j + k) s' = vworm_read (isf_hdr j + k) s"
    if "j < 23" "k \<in> {2, 4, 6, 8, 10}" for j k
    using that by (intro hd) auto
  moreover note hk [of _ 2, simplified] hk [of _ 4, simplified] hk [of _ 6, simplified]
    hk [of _ 8, simplified] hk [of _ 10, simplified]
  ultimately have lay: "fs_layout s'" using h sz unfolding fs_holds_def fs_layout_def by simp
  have "file_holds j (c j) s'" if "j < 23" "i \<noteq> j" for j
  proof (rule file_holds_same)
    show fj: "file_holds j (c j) s" using h that by (simp add: fs_holds_def)
    show "vworm_read (isf_hdr j) s' = vworm_read (isf_hdr j) s" using hd [of j 0] that by simp
    fix k assume k: "k < length (c j)" "(isf_at j + of_nat k) AND 1 = 0"
    then have kr: "k < ISF_ALLOC (isf_files ! j)" using fj by (simp add: file_holds_def)
    have "768 \<le> unat (even_addr (isf_at j + of_nat k))"
      using isf_data_address [OF kr k(2)] isf_base_bounds(2) [of "isf_files ! j"] by simp
    then show "vworm_read (isf_at j + of_nat k) s' = vworm_read (isf_at j + of_nat k) s"
      by (intro same isf_data_apart [OF i that(1,2) kr k(2)] not_hdr_word [OF i]) simp
  qed
  then show ?thesis using lay fp new by (auto simp: fs_holds_def)
qed

lemma put_file_law:
  fixes s :: "'a vl_state_scheme"
  assumes h: "fs_holds c s" and i: "i < 23" and d: "2 * ((isf_cut i len + 1) div 2) \<le> length buf"
  shows "\<exists>s'. put_file_data act i len buf s = Some s' \<and> fs_holds (c(i := take (isf_cut i len) buf)) s'"
proof -
  obtain fd where fp: "sub_new_fp s = Some fd" using h by (auto simp: fs_holds_def)
  have l: "fs_layout s" using h by (simp add: fs_holds_def)
  obtain n0 where n0: "vworm_read (isf_hdr i) s = Some n0" using h i by (auto simp: fs_holds_def file_holds_def)
  let ?g = "isf_slot i n0" and ?h = "isf_hdr i" and ?n = "min len (isf_room i)"
  let ?s = "put_file fd ?g s"
  note op = open_layout [OF l i fp n0]
  have sz: "fs_size ?s = 1280" using l by (simp add: fs_layout_def)
  have fl: "f_header ?g = ?h" "f_start ?g = isf_at i" "f_alloc ?g = isf_room i"
    by (simp_all add: isf_slot_def opened_def)
  have un: "unat ?n = isf_cut i len" using isf_words(2) [of i] by (simp add: isf_cut_def min_def word_le_nat_alt)
  have ok: "file_ok (fs_size ?s) ?g" using isf_slot_ok(1) [OF i] sz by simp
  obtain s1 where s1: "vl_store fd len buf ?s = Some (0, s1)" "block_frame (put_file fd (stored ?n ?g) ?s) s1"
    "\<forall>k \<le> unat ?n. load_loop (\<lambda>a. vworm_read a s1) k (isf_at i) None = Some (take k buf)"
    "\<forall>b. \<not> in_area (isf_at i) (isf_room i) b \<longrightarrow> vworm_read b s1 = vworm_read b ?s"
    using vl_store_spec [OF op(2) ok _ refl, of len buf] d sz un unfolding fl by auto
  have g1: "get_file fd s1 = Some (stored ?n ?g)"
    using vl_frame(4) [OF s1(2)] get_fileD [OF op(2)] by (simp add: get_put_file)
  have sz1: "fs_size s1 = 1280" using fs_size_frame [OF s1(2)] sz by simp
  have fh: "f_header (stored ?n ?g) = ?h" "f_length (stored ?n ?g) = ?n" by (simp_all add: stored_def fl)
  have "\<not> in_area (isf_at i) (isf_room i) (?h + 10)"
    using isf_hdr_words [OF i i, of 10] isf_base_bounds(2) [of "isf_files ! i"] by (simp add: isf_area)
  then have a1: "vworm_read (f_header (stored ?n ?g) + 10) s1 = Some 0" "lo8 0 AND ucast (f_flags (stored ?n ?g)) = 0"
    using s1(4) l i unfolding fh by (simp_all add: fs_layout_def lo8_def)
  obtain s2 where s2: "vl_close act (Some fd) s1 = Some (0, s2)" "vworm_read ?h s2 = Some ?n"
    "\<forall>b. even_addr b \<notin> {?h, ?h + 12, ?h + 14} \<longrightarrow> vworm_read b s2 = vworm_read b s1"
    "vlfile s2 = (vlfile s1)[fd := closed (stored ?n ?g)]" "fs_size s2 = fs_size s1"
    using vl_close_spec [OF g1 _ a1, of act] isf_hdr_ok [OF sz1 i] unfolding fh by metis
  have cut: "isf_cut i len \<le> ISF_ALLOC (isf_files ! i)" "isf_cut i len \<le> length buf"
    using d by (auto simp: isf_cut_def)
  have "load_loop (\<lambda>a. vworm_read a s2) (isf_cut i len) (isf_at i) None
      = load_loop (\<lambda>a. vworm_read a s1) (isf_cut i len) (isf_at i) None"
  proof (rule load_loop_cong)
    fix k assume k: "k < isf_cut i len" "(isf_at i + of_nat k) AND 1 = 0"
    then have "768 \<le> unat (even_addr (isf_at i + of_nat k))"
      using isf_data_address [of k i] cut(1) isf_base_bounds(2) [of "isf_files ! i"] by simp
    then show "vworm_read (isf_at i + of_nat k) s2 = vworm_read (isf_at i + of_nat k) s1"
      by (intro s2(3) [rule_format] not_hdr_word [OF i]) simp
  qed
  also have "\<dots> = Some (take (isf_cut i len) buf)" using s1(3) un by simp
  finally have new: "file_holds i (take (isf_cut i len) buf) s2"
    using s2(2) cut un [symmetric] by (simp add: file_holds_def min_absorb2)
  have "fd < length (vlfile s1)" using get_fileD [OF g1] by simp
  then have "sub_new_fp s2 \<noteq> None"
    unfolding sub_new_fp_None s2(4) by (auto intro!: exI [of _ fd] simp: closed_def)
  then have "fs_holds (c(i := take (isf_cut i len) buf)) s2"
    by (rule fs_holds_put [OF h i]) (use s2(3,5) s1(4) sz1 sz new in auto)
  moreover have "put_file_data act i len buf s = Some s2"
    using op(1) s1(1) s2(1) by (simp add: put_file_data_def)
  ultimately show ?thesis by blast
qed

section \<open>The contract\<close>

interpretation isf_store: file_store "put_file_data act" "get_file_data act" isf_cut "\<lambda>i. i < 23" fs_holds
  for act
  by unfold_locales (rule put_file_law, assumption+, rule get_file_law, assumption+)

text \<open>What the default filesystem holds.\<close>

definition stock_contents :: "bytes \<Rightarrow> nat \<Rightarrow> bytes" where
  "stock_contents build_id i = take (unat (ISF_LEN (isf_files ! i))) (isf_stock build_id (isf_files ! i))"

lemma length_stock_contents:
  "length build_id = 9 \<Longrightarrow> length (stock_contents build_id i) = unat (ISF_LEN (isf_files ! i))"
  using isf_base_bounds(5) [of "isf_files ! i"] by (simp add: stock_contents_def length_isf_stock)

lemma stock_holds:
  assumes d: "default_ready build_id s" and b: "length build_id = 9" and i: "i < 23"
  shows "file_holds i (stock_contents build_id i) s"
proof -
  let ?f = "isf_files ! i" and ?n = "unat (ISF_LEN (isf_files ! i))"
  from d obtain img where img: "fsblock s = Some img" "length img = 1280"
    "take (ISF_ALLOC ?f) (drop (ISF_BASE ?f) img) = isf_stock build_id ?f"
    by (auto simp: default_ready_def)
  have "2 * ((?n + 1) div 2) \<le> ISF_ALLOC ?f"
    using isf_base_bounds(4,5) [of ?f] by presburger
  then have "load_loop (\<lambda>a. vworm_read a s) ?n (isf_at i) None = Some (take ?n (drop (ISF_BASE ?f) img))"
    using isf_base_bounds(1-3) [of ?f] img(2) by (intro load_image [OF img(1)]) linarith+
  also have "take ?n (drop (ISF_BASE ?f) img) = stock_contents build_id i"
    using isf_base_bounds(5) [of ?f] by (simp add: stock_contents_def img(3) [symmetric] min_def)
  finally have "load_loop (\<lambda>a. vworm_read a s) ?n (isf_at i) None = Some (stock_contents build_id i)" .
  moreover have "vworm_read (isf_hdr i) s = Some (of_nat ?n)"
    using isf_header_words(1) [OF d, of i] i by simp
  ultimately show ?thesis
    using length_stock_contents [OF b, of i] isf_base_bounds(5) [of ?f] by (simp add: file_holds_def)
qed

lemma default_layout: "default_ready build_id s \<Longrightarrow> fs_layout s"
proof -
  assume d: "default_ready build_id s"
  then obtain img where img: "fsblock s = Some img" "length img = 1280" "fsheader_at img 0 = Some default_fsheader"
    by (auto simp: default_ready_def)
  have "vworm_read k s = rd16 img (unat k)" if "k \<in> {10, 16, 22}" for k
    using vworm_read_lit [OF img(1), of "unat k"] that by auto
  then have "vworm_read 10 s = Some 2" "vworm_read 16 s = Some 0" "vworm_read 22 s = Some 23"
    using default_block_fields [OF img(3)] by simp_all
  moreover have "fs_size s = 1280" using img(1,2) by (simp add: fs_size_def)
  ultimately show "fs_layout s" using isf_header_words(2-6) [OF d] unfolding fs_layout_def by simp
qed

lemma default_holds:
  "default_ready build_id s \<Longrightarrow> length build_id = 9 \<Longrightarrow> sub_new_fp s = Some fd \<Longrightarrow>
   fs_holds (stock_contents build_id) s"
  by (simp add: fs_holds_def default_layout stock_holds)

text \<open>
  C1. Every sequence of accesses to the files of the initialised filesystem runs to its end and reads
  what a map from ids to contents gives.
\<close>

theorem fs_refines_map:
  assumes "default_ready build_id s" and "length build_id = 9" and "sub_new_fp s = Some fd"
    and "\<forall>a \<in> set as. access_ok isf_cut (\<lambda>i. i < 23) a"
  shows "\<exists>s'. run_accesses (put_file_data act) (get_file_data act) as s
      = Some (fst (spec_run isf_cut as (stock_contents build_id)), s')
    \<and> fs_holds (snd (spec_run isf_cut as (stock_contents build_id))) s'"
  by (rule isf_store.refines [OF default_holds [OF assms(1-3)] assms(4)])

lemma demo_cuts: "isf_cut 14 3 = 3" "isf_cut 15 40 = 22"
  by (simp_all add: isf_cut_def isf_files_def ISF_ALLOC_eq)

theorem fs_refines_map_witness:
  "\<exists>s'. run_accesses (put_file_data (\<lambda>_ _ s. Some (0, s))) (get_file_data (\<lambda>_ _ s. Some (0, s)))
      [Get 1 4, Put 14 3 [1, 2, 3, 4], Put 15 40 (replicate 40 7), Get 14 9, Get 15 40] demo_fs
    = Some ([take 4 (stock_contents (replicate 9 0x41) 1), [1, 2, 3], replicate 22 7], s')"
proof -
  have "length (replicate 9 0x41 :: bytes) = 9" by simp
  note r = fs_refines_map [OF demo_fs_ready this demo_fs_free, of
      "[Get 1 4, Put 14 3 [1, 2, 3, 4], Put 15 40 (replicate 40 7), Get 14 9, Get 15 40]" "\<lambda>_ _ s. Some (0, s)"]
  have "take 3 [1, 2, 3, 4] = [1, 2, 3 :: u8]" "take 9 [1, 2, 3] = [1, 2, 3 :: u8]" by (simp_all add: numeral_eq_Suc)
  then show ?thesis using r by (auto simp: demo_cuts)
qed

end
