(* ===== verification/Alp_Writing.thy ===== *)
theory Alp_Writing
  imports Alp_Errors Fs_Store
begin

text \<open>
  Writing file data through the file protocol, on a filesystem that holds any contents: the
  first entry of a write command stores its data in its file, and what follows it is served as
  an entry of a read command.
\<close>

section \<open>Contents by half-words\<close>

lemma even_plus:
  fixes c :: u16
  shows "even (unat (c + 1)) \<longleftrightarrow> odd (unat c)" "even (unat (c + 2)) \<longleftrightarrow> even (unat c)"
proof -
  have "unat (c + 1) = (unat c + 1) mod 65536" "unat (c + 2) = (unat c + 2) mod 65536"
    by (simp_all add: unat_word_ariths)
  then show "even (unat (c + 1)) \<longleftrightarrow> odd (unat c)" "even (unat (c + 2)) \<longleftrightarrow> even (unat c)"
    by (simp_all add: dvd_mod_iff)
qed

lemma load_loop_two:
  assumes "even (unat c)"
  shows "load_loop rd (Suc (Suc n)) c x =
    do { w \<leftarrow> rd c; bs \<leftarrow> load_loop rd n (c + 2) (Some w); Some (lo8 w # hi8 w # bs) }"
proof -
  have "c AND 1 = 0" using assms even_and_1 by simp
  moreover have "(c + 1) AND 1 \<noteq> 0" using assms even_plus(1) [of c] even_and_1 [of "c + 1"] by blast
  ultimately show ?thesis by (cases "rd c") (simp_all add: add.commute)
qed

lemma load_loop_word:
  "load_loop rd n c x = Some bs \<Longrightarrow> even (unat c) \<Longrightarrow> 2 * m + 2 \<le> n \<Longrightarrow>
   rd (c + of_nat (2 * m)) = Some (join16 (bs ! (2 * m)) (bs ! Suc (2 * m)))"
proof (induction m arbitrary: n c x bs)
  case 0
  then obtain k where k: "n = Suc (Suc k)" by (cases n; cases "n - 1") auto
  show ?case
    using k "0.prems"(1) load_loop_two [OF "0.prems"(2), of rd k x] by (auto simp: bind_eq_Some_conv hi_lo_join simp del: load_loop.simps)
next
  case (Suc m)
  then obtain k where k: "n = Suc (Suc k)" by (cases n; cases "n - 1") auto
  then obtain w bs' where w: "load_loop rd k (c + 2) (Some w) = Some bs'" "bs = lo8 w # hi8 w # bs'"
    using Suc.prems(1) load_loop_two [OF Suc.prems(2), of rd k x] by (auto simp: bind_eq_Some_conv simp del: load_loop.simps)
  have "c + of_nat (2 * Suc m) = (c + 2) + of_nat (2 * m)" by simp
  then show ?case
    using Suc.IH [OF w(1)] Suc.prems(2,3) w(2) k by (simp add: even_plus add.assoc)
qed

lemma words_load_loop:
  "length bs = 2 * m \<Longrightarrow> even (unat c) \<Longrightarrow>
   (\<And>k. k < m \<Longrightarrow> rd (c + of_nat (2 * k)) = Some (join16 (bs ! (2 * k)) (bs ! Suc (2 * k)))) \<Longrightarrow>
   load_loop rd (2 * m) c x = Some bs"
proof (induction m arbitrary: c x bs)
  case 0
  then show ?case by simp
next
  case (Suc m)
  then obtain b0 b1 bs' where bs: "bs = b0 # b1 # bs'" by (cases bs; cases "tl bs") auto
  have "load_loop rd (2 * m) (c + 2) (Some (join16 b0 b1)) = Some bs'"
  proof (rule Suc.IH)
    fix k assume "k < m"
    then have "rd (c + of_nat (2 * Suc k)) = Some (join16 (bs ! (2 * Suc k)) (bs ! Suc (2 * Suc k)))"
      by (intro Suc.prems(3)) simp
    then show "rd (c + 2 + of_nat (2 * k)) = Some (join16 (bs' ! (2 * k)) (bs' ! Suc (2 * k)))"
      by (simp add: bs algebra_simps)
  qed (use Suc.prems bs in \<open>simp_all add: even_plus\<close>)
  moreover have "rd c = Some (join16 b0 b1)" using Suc.prems(3) [of 0] bs by simp
  ultimately show ?case using load_loop_two [OF Suc.prems(2), of rd "2 * m"] bs by simp
qed

section \<open>The write loop\<close>

lemma inq_not_end:
  assumes "alp_ok s" and "in_bytes s \<noteq> []"
  shows "inq_at_end s = Some False"
proof -
  have q: "q_ok (inq (a_tmpl s), a_mem s)" using assms(1) by (simp add: alp_ok_def Let_def)
  have "length (in_bytes s) = q_count (inq (a_tmpl s))" unfolding in_bytes_def by (rule q_content_rd(2) [OF q])
  then have "0 < q_count (inq (a_tmpl s))" using assms(2) by (metis length_greater_0_conv)
  then show ?thesis using q by (auto simp: inq_at_end_def q_ok_def ptr_diff_def q_count_def)
qed

lemma vl_write_slot:
  fixes v :: "'a vl_state_scheme"
  assumes "get_file fd v = Some f" and "file_ok (fs_size v) f" and "fs_size v < 65536" and lt: "off < f_alloc f"
  shows "\<exists>v'. vl_write fd off w v = Some (0, v') \<and> vlfile v' = (vlfile v)[fd := written off f] \<and> fs_size v' = fs_size v
    \<and> vworm_read (off + f_start f) v' = Some w
    \<and> (\<forall>b. even_addr b \<noteq> even_addr (off + f_start f) \<longrightarrow> vworm_read b v' = vworm_read b v)"
proof -
  obtain fn where fn: "f_write f = Some fn" using assms(2) by (auto simp: file_ok_def)
  let ?v = "put_file fd (written off f) v"
  have "vworm_mapped (off + f_start f) ?v" using area_mapped [OF assms(2,3) lt] by simp
  then obtain r v' where w: "vworm_write (off + f_start f) w ?v = Some (r, v')"
    using vw.wr_iff_mapped [of "off + f_start f" w ?v] by auto
  have "r = 0" using vw.wr_code [OF w] .
  moreover note fr = vworm_write_block_frame [OF w]
  have "vlfile v' = (vlfile v)[fd := written off f]" using vl_frame(1) [OF fr] by (simp add: put_file_def)
  moreover have "fs_size v' = fs_size v" using fs_size_frame [OF fr] by simp
  ultimately show ?thesis
    using vl_write_eq [OF assms(1) fn lt, of w] w vw.rd_wr_same [OF w refl] vw.rd_wr_other [OF w] by simp
qed

text \<open>
  The loop over data whose first half-word extends the file: it takes all of the data from the
  input and leaves it in the area of the file, behind what was there.
\<close>

lemma write_loop_words:
  fixes s :: "'a fs_st"
  shows "alp_ok s \<Longrightarrow> in_bytes s = data @ cs \<Longrightarrow> length data = 2 * n \<Longrightarrow> get_file fd (a_sys s) = Some f \<Longrightarrow>
    file_ok (fs_size (a_sys s)) f \<Longrightarrow> fs_size (a_sys s) < 65536 \<Longrightarrow> f_length f = offset \<Longrightarrow> even (unat offset) \<Longrightarrow>
    unat limit = unat offset + 2 * n \<Longrightarrow> limit \<le> f_alloc f \<Longrightarrow> 2 * int n \<le> d \<Longrightarrow> d < 32768 \<Longrightarrow>
    \<exists>s' f'. write_loop fd limit offset span d e s = Some ((False, span - of_nat (2 * n), d - 2 * int n, e), s')
      \<and> alp_ok s' \<and> in_bytes s' = cs \<and> out_bytes s' = out_bytes s \<and> out_room s' = out_room s
      \<and> fst (env s') = fst (env s)
      \<and> vlfile (a_sys s') = (vlfile (a_sys s))[fd := f'] \<and> f' = f\<lparr>f_length := limit, f_flags := f_flags f'\<rparr>
      \<and> fs_size (a_sys s') = fs_size (a_sys s)
      \<and> (\<forall>k < n. vworm_read (offset + f_start f + of_nat (2 * k)) (a_sys s') = Some (join16 (data ! (2 * k)) (data ! Suc (2 * k))))
      \<and> (\<forall>b. unat (even_addr b) < unat (f_start f) + unat offset \<or> unat (f_start f) + unat limit \<le> unat (even_addr b) \<longrightarrow>
           vworm_read b (a_sys s') = vworm_read b (a_sys s))"
proof (induction n arbitrary: s f data offset span d)
  case 0
  then have l: "limit = offset" by (simp add: word_unat_eq_iff)
  then show ?case
    using 0 get_fileD [OF 0(4)] by (subst write_loop.simps) (auto intro!: exI [of _ s] exI [of _ f])
next
  case (Suc n)
  obtain x y ds where data: "data = x # y # ds" using Suc.prems(3) by (cases data; cases "tl data") auto
  have ld: "length ds = 2 * n" using Suc.prems(3) data by simp
  have lt: "offset < limit" using Suc.prems(9) by (simp add: word_less_nat_alt)
  then have lta: "offset < f_alloc f" using Suc.prems(10) by simp
  have ne: "inq_at_end s = Some False" by (rule inq_not_end [OF Suc.prems(1)]) (simp add: Suc.prems(2) data)
  have "in_bytes s = x # y # (ds @ cs)" using Suc.prems(2) data by simp
  from read_short(2) [OF Suc.prems(1) this] obtain s1 where s1: "on_inq q_readshort_be s = Some (join16 x y, s1)"
    "alp_ok s1" "in_bytes s1 = ds @ cs" "out_bytes s1 = out_bytes s" "out_room s1 = out_room s" "env s1 = env s" by blast
  have sy: "a_sys s1 = a_sys s" by (rule env_sys [OF s1(6)])
  from vl_write_slot [OF Suc.prems(4-6) lta, of "join16 x y"] obtain v where
    v: "vl_write fd offset (join16 x y) (a_sys s) = Some (0, v)" "vlfile v = (vlfile (a_sys s))[fd := written offset f]"
    "fs_size v = fs_size (a_sys s)" "vworm_read (offset + f_start f) v = Some (join16 x y)"
    "\<forall>b. even_addr b \<noteq> even_addr (offset + f_start f) \<longrightarrow> vworm_read b v = vworm_read b (a_sys s)" by blast
  let ?s2 = "s1\<lparr>a_sys := v\<rparr>" and ?f = "written offset f"
  have ul: "unat limit < 65536" by simp
  have uo: "unat (offset + 2) = unat offset + 2" using unat_add_u16 [of offset 2] Suc.prems(9) ul by simp
  have g2: "get_file fd (a_sys ?s2) = Some ?f" using get_fileD [OF Suc.prems(4)] v(2) by (simp add: get_file_def)
  have fl: "f_length ?f = offset + 2" using Suc.prems(7) by simp
  have fok: "file_ok (fs_size (a_sys ?s2)) ?f" using Suc.prems(5) v(3) by (simp add: file_ok_def)
  have "\<exists>s' f'. write_loop fd limit (offset + 2) (span - 2) (d - 2) e ?s2
        = Some ((False, (span - 2) - of_nat (2 * n), (d - 2) - 2 * int n, e), s')
      \<and> alp_ok s' \<and> in_bytes s' = cs \<and> out_bytes s' = out_bytes ?s2 \<and> out_room s' = out_room ?s2
      \<and> fst (env s') = fst (env ?s2)
      \<and> vlfile (a_sys s') = (vlfile (a_sys ?s2))[fd := f'] \<and> f' = ?f\<lparr>f_length := limit, f_flags := f_flags f'\<rparr>
      \<and> fs_size (a_sys s') = fs_size (a_sys ?s2)
      \<and> (\<forall>k < n. vworm_read (offset + 2 + f_start ?f + of_nat (2 * k)) (a_sys s') = Some (join16 (ds ! (2 * k)) (ds ! Suc (2 * k))))
      \<and> (\<forall>b. unat (even_addr b) < unat (f_start ?f) + unat (offset + 2) \<or> unat (f_start ?f) + unat limit \<le> unat (even_addr b) \<longrightarrow>
           vworm_read b (a_sys s') = vworm_read b (a_sys ?s2))"
    by (rule Suc.IH [OF _ _ ld g2 fok _ fl]) (use Suc.prems s1 v(3) uo in \<open>simp_all\<close>)
  then obtain s3 f' where
    s3: "write_loop fd limit (offset + 2) (span - 2) (d - 2) e ?s2
        = Some ((False, (span - 2) - of_nat (2 * n), (d - 2) - 2 * int n, e), s3)"
      "alp_ok s3" "in_bytes s3 = cs" "out_bytes s3 = out_bytes ?s2" "out_room s3 = out_room ?s2" "fst (env s3) = fst (env ?s2)"
      "vlfile (a_sys s3) = (vlfile v)[fd := f']" "f' = ?f\<lparr>f_length := limit, f_flags := f_flags f'\<rparr>" "fs_size (a_sys s3) = fs_size v"
    and ws: "\<And>k. k < n \<Longrightarrow> vworm_read (offset + 2 + f_start f + of_nat (2 * k)) (a_sys s3) = Some (join16 (ds ! (2 * k)) (ds ! Suc (2 * k)))"
    and fr: "\<And>b. unat (even_addr b) < unat (f_start f) + unat offset + 2 \<or> unat (f_start f) + unat limit \<le> unat (even_addr b) \<Longrightarrow>
      vworm_read b (a_sys s3) = vworm_read b v"
    by (elim exE conjE) (use uo in \<open>auto\<close>)
  have "to_ot_int (d - 2) = d - 2" using Suc.prems(11,12) by (intro to_ot_int_small) linarith+
  then have "write_loop fd limit offset span d e s = Some ((False, (span - 2) - of_nat (2 * n), (d - 2) - 2 * int n, e), s3)"
    using lt ne s1(1) v(1) s3(1) by (subst write_loop.simps) (simp add: on_sys_def sy)
  moreover have "(span - 2) - of_nat (2 * n) = span - of_nat (2 * Suc n)" "(d - 2) - 2 * int n = d - 2 * int (Suc n)"
    by (simp_all add: algebra_simps)
  moreover have "f' = f\<lparr>f_length := limit, f_flags := f_flags f'\<rparr>"
    by (subst s3(8)) (simp add: written_def Let_def)
  moreover have ua: "unat (offset + f_start f) = unat (f_start f) + unat offset"
    using unat_start_plus [OF Suc.prems(5,6), of offset] lta by (simp add: add.commute)
  have ea: "unat (even_addr (offset + f_start f)) = unat (f_start f) + unat offset"
    using Suc.prems(5,8) by (simp add: ua file_ok_def)
  have "vworm_read (offset + f_start f + of_nat (2 * k)) (a_sys s3) = Some (join16 (data ! (2 * k)) (data ! Suc (2 * k)))"
    if "k < Suc n" for k
  proof (cases k)
    case 0
    then show ?thesis using fr [of "offset + f_start f"] v(4) by (simp add: ea data)
  next
    case (Suc j)
    then show ?thesis using ws [of j] that by (simp add: data algebra_simps)
  qed
  moreover have "vworm_read b (a_sys s3) = vworm_read b (a_sys s)"
    if "unat (even_addr b) < unat (f_start f) + unat offset \<or> unat (f_start f) + unat limit \<le> unat (even_addr b)" for b
  proof -
    have "even_addr b \<noteq> even_addr (offset + f_start f)" using that ea lt by (auto simp: word_less_nat_alt)
    then show ?thesis using fr [of b] v(5) that by auto
  qed
  ultimately show ?case
    using s1 s3(2-9) v(2,3) by (intro exI [of _ s3] exI [of _ f']) (simp add: env_def)
qed

section \<open>Files that hold contents\<close>

text \<open>The header that the file protocol finds for a file, and the half-words of the opened file.\<close>

lemma held_header:
  fixes v :: "'a vl_state_scheme"
  assumes "fs_layout v" and "i < 23"
  shows "vl_getheader_vaddr 0 VL_ISF_BLOCKID (of_nat i) md Id_NULL v = Some (0, isf_hdr i, v)"
proof -
  have "isf_hdr i \<noteq> NULL_vaddr" using unat_isf_hdr [of i 0] assms(2) by (auto simp: NULL_vaddr_def)
  then show ?thesis
    using isf_search_layout [OF assms] by (simp add: vl_getheader_vaddr_def vl_consts del: of_nat_add of_nat_mult)
qed

lemma held_words:
  fixes v :: "'a vl_state_scheme"
  assumes h: "fs_holds c v" and i: "i < 23" and fp: "sub_new_fp v = Some fd"
  shows "file_words fd (c i) (put_file fd (isf_slot i (of_nat (length (c i)))) v)"
  unfolding file_words_def
proof (intro allI impI)
  fix k :: u16 assume k: "even (unat k) \<and> unat k + 2 \<le> length (c i)"
  then obtain m where m: "unat k = 2 * m" by (auto elim: evenE)
  then have km: "k = of_nat (2 * m)" unfolding m [symmetric] by simp
  have uk: "unat (of_nat (2 * m) :: u16) = 2 * m" unfolding km [symmetric] by (rule m)
  have "load_loop (\<lambda>a. vworm_read a v) (length (c i)) (isf_at i) None = Some (c i)"
    using h i by (simp add: fs_holds_def file_holds_def)
  moreover have "even (unat (isf_at i))" using isf_base_bounds(1) [of "isf_files ! i"] by (simp add: isf_words)
  ultimately have "vworm_read (isf_at i + of_nat (2 * m)) v = Some (join16 (c i ! (2 * m)) (c i ! Suc (2 * m)))"
    by (rule load_loop_word) (use k m in simp)
  then show "vl_read fd k (put_file fd (isf_slot i (of_nat (length (c i)))) v) = Some (join16 (c i ! unat k) (c i ! Suc (unat k)))"
    unfolding km vl_read_def held_open(2) [OF h i fp] uk
    by (simp add: isf_slot_def opened_def add.commute del: of_nat_mult)
qed

section \<open>The entries of a write command\<close>

text \<open>An entry whose variable \<^verbatim>\<open>file_mod\<close> does not ask for writing is answered with the data of its file.\<close>

lemma held_pass_reads:
  assumes ok: "alp_ok s" and h: "fs_holds c (a_sys s)" and j: "j < 23"
    and c: "in_bytes s = req_bytes (j, off, sp) @ cs" and room: "7 + unat sp < out_room s"
    and rq: "even (unat off)" "even (unat sp)" "unat off + unat sp \<le> length (c j)" "unat off < length (c j)"
    and out: "0 \<le> out" "out + 5 + int (unat sp) < 32768" and n: "0 < n" "n < 32768"
    and cmd: "block_of cmd_in = VL_ISF_BLOCKID" "cmd_in AND 0x0F \<noteq> 0x0C" and md: "md AND VL_ACCESS_W = 0"
  shows "\<exists>fd s'. filedata_pass act Id_NULL respond cmd_in marker md fp0 n out s
        = Some ((False, 0, Some fd, n - 5, out + 5 + int (unat sp)), s')
    \<and> alp_ok s' \<and> in_bytes s' = cs
    \<and> out_bytes s' = out_bytes s @ req_bytes (j, off, sp) @ take (unat sp) (drop (unat off) (c j))
    \<and> fs_holds c (a_sys s')"
proof -
  obtain fd where fp: "sub_new_fp (a_sys s) = Some fd" using h by (auto simp: fs_holds_def)
  have l: "fs_layout (a_sys s)" using h by (simp add: fs_holds_def)
  note op = held_open [OF h j fp]
  let ?g = "isf_slot j (of_nat (length (c j)))" and ?v = "put_file fd (isf_slot j (of_nat (length (c j)))) (a_sys s)"
  obtain v' where v': "vl_close act (Some fd) ?v = Some (0, v')" "fs_holds c v'" using held_close [OF h j fp] by blast
  have fl: "unat (f_length ?g) = length (c j)" using op(3) by (simp add: isf_slot_def opened_def)
  have idm: "vworm_read (isf_hdr j + 4) ?v = Some (join16 (of_nat j) (ISF_MOD (isf_files ! j)))"
    using l j by (simp add: fs_layout_def ISF_ID_index del: of_nat_add of_nat_mult)
  have c': "in_bytes s = [of_nat j, hi8 off, lo8 off, hi8 sp, lo8 sp] @ cs" using c by (simp add: req_bytes_def)
  have fh: "vl_getheader_vaddr 0 (block_of cmd_in) (of_nat j) md Id_NULL (a_sys s) = Some (0, isf_hdr j, a_sys s)"
    unfolding cmd(1) by (rule held_header [OF l j])
  have "\<exists>s'. filedata_pass act Id_NULL respond cmd_in marker md fp0 n out s
        = Some ((False, 0, Some fd, n - 5, out + 5 + int (unat sp)), s')
    \<and> alp_ok s' \<and> in_bytes s' = cs
    \<and> out_bytes s' = out_bytes s @ [of_nat j, hi8 off, lo8 off, hi8 sp, lo8 sp] @ take (unat sp) (drop (unat off) (c j))
    \<and> out_room s' = out_room s - (5 + unat sp) \<and> env s' = (fst (env s), v')"
    by (rule filedata_pass_words [OF ok c' fh op(1) v'(1) held_words [OF h j fp] op(2) _ idm rq(1,2) _ _ room out n cmd(2) md])
      (use rq(3,4) fl in simp_all)
  then show ?thesis using v'(2) by (auto simp: req_bytes_def env_def)
qed

text \<open>The bytes and the number of bytes that a write entry without an error puts on the output.\<close>

definition write_ack :: "u8 \<Rightarrow> nat \<Rightarrow> bytes" where
  "write_ack respond i = (if respond = 0 then [] else [of_nat i, 0])"

lemma respond_stage_written:
  assumes ok: "alp_ok s" and cl: "vl_close act (Some fd) (a_sys s) = Some (0, v')" and room: "2 < out_room s"
    and n: "5 \<le> n" "n < 32768" and out: "0 \<le> out" "out + 2 < 32768"
  shows "\<exists>s'. respond_stage act respond marker (Some fd) 1 (of_nat i) 0 0 n out s
      = Some ((False, n - 5, out + int (length (write_ack respond i))), s')
    \<and> alp_ok s' \<and> in_bytes s' = in_bytes s \<and> out_bytes s' = out_bytes s @ write_ack respond i
    \<and> out_room s' = out_room s - length (write_ack respond i) \<and> a_sys s' = v'"
proof (cases "respond = 0")
  case True
  then show ?thesis
    using ok cl n by (intro exI [of _ "s\<lparr>a_sys := v'\<rparr>"]) (simp add: respond_stage_def on_sys_def write_ack_def)
next
  case False
  let ?s1 = "s\<lparr>a_sys := v'\<rparr>"
  have cl1: "on_sys (vl_close act (Some fd)) s = Some (0, ?s1)" using cl by (simp add: on_sys_def)
  note sp = outq_space_ok [OF ok]
  have "alp_ok ?s1" "length [of_nat i, 0 :: u8] \<le> out_room ?s1" using ok room by simp_all
  from io.writes [OF this] obtain s2 where s2: "write_all (\<lambda>b. on_outq (q_writebyte b)) [of_nat i, 0] ?s1 = Some s2" "alp_ok s2"
    "in_bytes s2 = in_bytes ?s1" "out_bytes s2 = out_bytes ?s1 @ [of_nat i, 0]" "out_room s2 = out_room ?s1 - 2" "env s2 = env ?s1"
    by auto
  from s2(1) obtain t where t: "on_outq (q_writebyte (of_nat i)) ?s1 = Some t" "on_outq (q_writebyte 0) t = Some s2"
    by (auto simp: bind_eq_Some_conv)
  have mk: "on_inq (\<lambda>(q, h). Some ((), snd (q_markbyte q 0), h)) s2 = Some ((), s2)"
    by (simp add: on_inq_def q_markbyte_def ptr_add_def)
  have "respond_stage act respond marker (Some fd) 1 (of_nat i) 0 0 n out s = Some ((False, n - 5, out + 2), s2)"
    using False room n out by (simp add: respond_stage_def cl1 sp t mk)
  then show ?thesis using False s2 env_sys [OF s2(6)] by (intro exI [of _ s2]) (simp add: write_ack_def)
qed

text \<open>A write entry at offset 0 that fits into its file replaces the contents of the file.\<close>

lemma held_pass_writes:
  fixes s :: "'a fs_st"
  assumes ok: "alp_ok s" and h: "fs_holds c (a_sys s)" and i: "i < 23"
    and c: "in_bytes s = req_bytes (i, 0, sp) @ data @ cs" and len: "length data = unat sp" "even (unat sp)" "0 < sp"
    and fits: "unat sp \<le> ISF_ALLOC (isf_files ! i)" and room: "2 < out_room s"
    and out: "0 \<le> out" "out + 2 < 32768" and n: "5 + int (unat sp) \<le> n" "n < 32768"
    and cmd: "block_of cmd_in = VL_ISF_BLOCKID" "cmd_in AND 0x01 = 0" and md: "md AND VL_ACCESS_W \<noteq> 0"
  shows "\<exists>fd s'. filedata_pass act Id_NULL respond cmd_in marker md fp0 n out s
        = Some ((False, 1, Some fd, n - 5 - int (unat sp), out + int (length (write_ack respond i))), s')
    \<and> alp_ok s' \<and> in_bytes s' = cs \<and> out_bytes s' = out_bytes s @ write_ack respond i
    \<and> out_room s' = out_room s - length (write_ack respond i) \<and> fs_holds (c(i := data)) (a_sys s')"
proof -
  let ?h = "isf_hdr i"
  obtain fd where fp: "sub_new_fp (a_sys s) = Some fd" using h by (auto simp: fs_holds_def)
  have l: "fs_layout (a_sys s)" using h by (simp add: fs_holds_def)
  have sz: "fs_size (a_sys s) = 1280" using l by (simp add: fs_layout_def)
  define g where "g = isf_slot i (of_nat (length (c i)))"
  note op = held_open [OF h i fp, folded g_def]
  have gf: "f_header g = ?h" "f_start g = isf_at i" "f_alloc g = isf_room i" by (simp_all add: g_def isf_slot_def opened_def)
  have "in_bytes s = of_nat i # hi8 0 # lo8 0 # hi8 sp # lo8 sp # (data @ cs)" using c by (simp add: req_bytes_def)
  then obtain s1 s2 s3 where rd: "on_inq q_readbyte s = Some (of_nat i, s1)" "on_inq q_readshort s1 = Some (0, s2)"
    "on_inq q_readshort s2 = Some (sp, s3)" and s3: "alp_ok s3" "in_bytes s3 = data @ cs"
    "out_bytes s3 = out_bytes s" "out_room s3 = out_room s" "env s3 = env s"
    using read_entry [OF ok, of "of_nat i" "hi8 0" "lo8 0" "hi8 sp" "lo8 sp" "data @ cs"] unfolding hi_lo_join by blast
  have sy: "a_sys s3 = a_sys s" by (rule env_sys [OF s3(5)])
  have fh: "file_header (block_of cmd_in) (of_nat i) md Id_NULL s3 = Some ((0, ?h), s3)"
    using file_header_eq [OF held_header [OF l i, folded sy], of md] by (simp add: cmd(1))
  let ?s4 = "s3\<lparr>a_sys := put_file fd g (a_sys s)\<rparr>"
  have on: "on_sys (vl_open_file ?h) s3 = Some (Some fd, ?s4)" using op(1) by (simp add: on_sys_def sy)
  \<comment> \<open>the write\<close>
  let ?g0 = "g\<lparr>f_length := 0\<rparr>" and ?s5 = "s3\<lparr>a_sys := put_file fd (g\<lparr>f_length := 0\<rparr>) (put_file fd g (a_sys s))\<rparr>"
  obtain m where m: "unat sp = 2 * m" using len(2) by (auto elim: evenE)
  have room': "sp \<le> f_alloc g" "f_alloc g \<noteq> 0"
    using fits isf_words(2) [of i] len(3) by (auto simp: gf word_le_nat_alt word_less_nat_alt)
  have fdl: "fd < length (vlfile (a_sys s))" by (rule sub_new_fp_Some(1) [OF fp])
  have g5: "get_file fd (a_sys ?s5) = Some ?g0" using fdl by (simp add: get_put_file)
  have ok5: "file_ok (fs_size (a_sys ?s5)) ?g0"
    using isf_slot_ok(1) [OF i, of "of_nat (length (c i))"] sz by (simp add: g_def file_ok_def)
  have "\<exists>s' f'. write_loop fd sp 0 sp n 0 ?s5 = Some ((False, sp - of_nat (2 * m), n - 2 * int m, 0), s')
      \<and> alp_ok s' \<and> in_bytes s' = cs \<and> out_bytes s' = out_bytes ?s5 \<and> out_room s' = out_room ?s5
      \<and> fst (env s') = fst (env ?s5)
      \<and> vlfile (a_sys s') = (vlfile (a_sys ?s5))[fd := f'] \<and> f' = ?g0\<lparr>f_length := sp, f_flags := f_flags f'\<rparr>
      \<and> fs_size (a_sys s') = fs_size (a_sys ?s5)
      \<and> (\<forall>k < m. vworm_read (0 + f_start ?g0 + of_nat (2 * k)) (a_sys s') = Some (join16 (data ! (2 * k)) (data ! Suc (2 * k))))
      \<and> (\<forall>b. unat (even_addr b) < unat (f_start ?g0) + unat (0 :: u16) \<or> unat (f_start ?g0) + unat sp \<le> unat (even_addr b) \<longrightarrow>
           vworm_read b (a_sys s') = vworm_read b (a_sys ?s5))"
    by (rule write_loop_words [OF _ _ _ g5 ok5]) (use s3 len m sz n room' in simp_all)
  then obtain s6 f' where
    s6: "write_loop fd sp 0 sp n 0 ?s5 = Some ((False, sp - of_nat (2 * m), n - 2 * int m, 0), s6)"
      "alp_ok s6" "in_bytes s6 = cs" "out_bytes s6 = out_bytes s" "out_room s6 = out_room s"
      "vlfile (a_sys s6) = (vlfile (a_sys s))[fd := f']" "f' = ?g0\<lparr>f_length := sp, f_flags := f_flags f'\<rparr>" "fs_size (a_sys s6) = 1280"
    and ws: "\<And>k. k < m \<Longrightarrow> vworm_read (isf_at i + of_nat (2 * k)) (a_sys s6) = Some (join16 (data ! (2 * k)) (data ! Suc (2 * k)))"
    and fr: "\<And>b. unat (even_addr b) < unat (isf_at i) \<or> unat (isf_at i) + unat sp \<le> unat (even_addr b) \<Longrightarrow>
      vworm_read b (a_sys s6) = vworm_read b (a_sys s)"
    using s3(3,4) sz gf by (elim exE conjE) (auto simp del: of_nat_mult)
  have spm: "sp = of_nat (2 * m)" unfolding m [symmetric] by simp
  then have z: "sp - of_nat (2 * m) = 0" by simp
  have wr: "write_stage fd 0 sp sp 0 n ?s4 = Some ((False, 0, n - int (unat sp), 0), s6)"
    using s6(1) room' op(2) unfolding z m by (simp add: write_stage_def on_sys_def leD)
  \<comment> \<open>the close\<close>
  have g6: "get_file fd (a_sys s6) = Some f'" using fdl s6(6) by (simp add: get_file_def)
  have ff: "f_header f' = ?h" "f_length f' = sp" by (subst s6(7), simp add: gf)+
  have noarea: "vworm_read b (a_sys s6) = vworm_read b (a_sys s)" if "\<not> in_area (isf_at i) (isf_room i) b" for b
    using fr [of b] that fits unfolding isf_area isf_words by auto
  have "\<not> in_area (isf_at i) (isf_room i) (?h + 10)"
    using isf_hdr_words [OF i i, of 10] isf_base_bounds(2) [of "isf_files ! i"] by (simp add: isf_area)
  then have a6: "vworm_read (f_header f' + 10) (a_sys s6) = Some 0" "lo8 0 AND ucast (f_flags f') = 0"
    using noarea l i unfolding ff by (simp_all add: fs_layout_def lo8_def)
  obtain v where v: "vl_close act (Some fd) (a_sys s6) = Some (0, v)" "vworm_read ?h v = Some sp"
    "\<forall>b. even_addr b \<notin> {?h, ?h + 12, ?h + 14} \<longrightarrow> vworm_read b v = vworm_read b (a_sys s6)"
    "vlfile v = (vlfile (a_sys s6))[fd := closed f']" "fs_size v = fs_size (a_sys s6)"
    using vl_close_spec [OF g6 _ a6, of act] isf_hdr_ok [OF s6(8) i] unfolding ff by metis
  have base: "even (unat (isf_at i))" using isf_base_bounds(1) [of "isf_files ! i"] by (simp add: isf_words)
  have "load_loop (\<lambda>a. vworm_read a v) (2 * m) (isf_at i) None = Some data"
  proof (rule words_load_loop [OF _ base])
    fix k assume k: "k < m"
    then have kr: "2 * k < ISF_ALLOC (isf_files ! i)" using fits m by simp
    have "even (unat (isf_at i + of_nat (2 * k)))"
      using unat_off [of "isf_at i" "2 * k"] isf_words(1) [of i] isf_base_bounds(1,3) [of "isf_files ! i"] kr by simp
    then have ev: "(isf_at i + of_nat (2 * k)) AND 1 = 0" using even_and_1 by blast
    have "768 \<le> unat (even_addr (isf_at i + of_nat (2 * k)))"
      using isf_data_address [OF kr ev] isf_base_bounds(2) [of "isf_files ! i"] by simp
    then have "vworm_read (isf_at i + of_nat (2 * k)) v = vworm_read (isf_at i + of_nat (2 * k)) (a_sys s6)"
      by (intro v(3) [rule_format] not_hdr_word [OF i]) simp
    then show "vworm_read (isf_at i + of_nat (2 * k)) v = Some (join16 (data ! (2 * k)) (data ! Suc (2 * k)))"
      using ws [OF k] by simp
  qed (use len m in simp)
  then have new: "file_holds i data v" using v(2) len(1) fits m spm by (simp add: file_holds_def)
  have "sub_new_fp v \<noteq> None"
    unfolding sub_new_fp_None v(4) s6(6) using fdl by (auto intro!: exI [of _ fd] simp: closed_def)
  then have hv: "fs_holds (c(i := data)) v"
    by (rule fs_holds_put [OF h i]) (use v(3,5) noarea s6(8) sz new in auto)
  \<comment> \<open>the pass\<close>
  have "2 < out_room s6" "5 \<le> n - int (unat sp)" "n - int (unat sp) < 32768"
    using s6(5) room n by linarith+
  from respond_stage_written [OF s6(2) v(1) this out] obtain s7 where
    s7: "respond_stage act respond marker (Some fd) 1 (of_nat i) 0 0 (n - int (unat sp)) out s6
      = Some ((False, n - int (unat sp) - 5, out + int (length (write_ack respond i))), s7)"
    "alp_ok s7" "in_bytes s7 = cs" "out_bytes s7 = out_bytes s @ write_ack respond i"
    "out_room s7 = out_room s - length (write_ack respond i)" "a_sys s7 = v"
    unfolding s6(3-5) by blast
  have lim: "\<not> 65535 < uint (0 :: u16) + uint sp" "word_of_int (uint (0 :: u16) + uint sp) = sp"
    using limit_small [of 0 sp] by simp_all
  have "filedata_pass act Id_NULL respond cmd_in marker md fp0 n out s
      = Some ((False, 1, Some fd, n - int (unat sp) - 5, out + int (length (write_ack respond i))), s7)"
    unfolding filedata_pass_def rd Option.bind_lunit prod.case Let_def fh lim if_not_P [OF lim(1)]
    using md by (simp add: cmd(2) on wr s7(1) [simplified] del: of_nat_add of_nat_mult)
  moreover have "n - int (unat sp) - 5 = n - 5 - int (unat sp)" by simp
  ultimately show ?thesis using s7(2-6) hv by metis
qed



end
