(* ===== verification/Ot_Utils.thy ===== *)
theory Ot_Utils
  imports Ot_Queue "HOL-Library.Signed_Division"
begin

text \<open>
  The utility functions of \<^verbatim>\<open>otlib/utils.c\<close>: timeout codes, binary data as hexadecimal text,
  numbers as decimal text, and the listing function \<^verbatim>\<open>slistf\<close>. The text is written through a
  pointer that moves on with every byte, so the state of a writer is the pointer and the memory.
\<close>

section \<open>Timeout codes\<close>

text \<open>Four bits of mantissa and three of exponent; the shift is twice the exponent.\<close>

definition otutils_calc_timeout :: "u8 \<Rightarrow> u32" where
  "otutils_calc_timeout timeout_code =
     (let shift = drop_bit 3 timeout_code AND 0x0E;
          timeout = ucast (timeout_code AND 0x0F);
          timeout = timeout + (if shift \<noteq> 0 then 1 else 0)
      in timeout * push_bit (unat shift) 1)"

function encode_loop :: "u8 \<Rightarrow> u16 \<Rightarrow> u8 \<times> u16" where
  "encode_loop ex ticks = (if 16 < ticks then encode_loop (ex + 2) (drop_bit 4 ticks) else (ex, ticks))"
  by pat_completeness auto
termination
  by (relation "measure (\<lambda>(_, ticks). unat ticks)")
    (auto simp: unat_drop_bit_eq drop_bit_eq_div word_less_nat_alt unat_div)

definition otutils_encode_timeout :: "u16 \<Rightarrow> u8" where
  "otutils_encode_timeout timeout_ticks =
     (if timeout_ticks < 16 then ucast timeout_ticks
      else
        let (ex, ticks) = encode_loop 1 (drop_bit 2 timeout_ticks); ticks = ticks - 1
        in push_bit 4 ex + ucast ticks)"

section \<open>Hexadecimal text\<close>

definition otutils_hexlut :: bytes where
  "otutils_hexlut = map of_char ''0123456789ABCDEF''"

definition otutils_byte2hex :: "u8 \<Rightarrow> u16" where
  "otutils_byte2hex input =
     (let out1 = otutils_hexlut ! unat (input AND 0xF); out0 = otutils_hexlut ! unat (drop_bit 4 input)
      in join16 out0 out1)"

text \<open>\<^verbatim>\<open>*dst++ = c\<close>\<close>

definition emit :: "u8 \<Rightarrow> ptr \<times> mem \<Rightarrow> (ptr \<times> mem) option" where
  "emit c s = (case s of (dst, h) \<Rightarrow> do { h \<leftarrow> st8 dst c h; Some (ptr_add dst 1, h) })"

function bin2hex_loop :: "ptr \<Rightarrow> u16 \<Rightarrow> ptr \<times> mem \<Rightarrow> (ptr \<times> mem) option" where
  "bin2hex_loop src sz s =
     (let sz = sz - 1 in
      if 0 \<le> sint sz then do {
        b \<leftarrow> ld8 src (snd s);
        s \<leftarrow> emit (otutils_hexlut ! unat (drop_bit 4 b)) s;
        b \<leftarrow> ld8 src (snd s);
        s \<leftarrow> emit (otutils_hexlut ! unat (b AND 0x0F)) s;
        bin2hex_loop (ptr_add src 1) sz s
      } else Some s)"
  by pat_completeness auto
termination
  by (relation "measure (\<lambda>(_, sz, _). unat sz)") (auto intro!: measure_unat)

definition otutils_bin2hex :: "ptr \<Rightarrow> ptr \<Rightarrow> int \<Rightarrow> mem \<Rightarrow> (int \<times> mem) option" where
  "otutils_bin2hex dst src sz h = do {
     (_, h) \<leftarrow> bin2hex_loop src (word_of_int sz) (dst, h);
     Some (to_ot_int (2 * sz), h)
   }"

section \<open>Decimal text\<close>

text \<open>Every intermediate value fits its type, so the arithmetic is that of the integers.\<close>

function int2dec_loop :: "int \<Rightarrow> bool \<Rightarrow> int \<Rightarrow> ptr \<times> mem \<Rightarrow> (ptr \<times> mem) option" where
  "int2dec_loop divider force data s =
     (if divider \<noteq> 0 then
        let digit = data sdiv divider in
        if digit \<noteq> 0 \<or> force then do {
          s \<leftarrow> emit (word_of_int (digit + 0x30)) s;
          int2dec_loop (divider sdiv 10) True (data - digit * divider) s
        } else int2dec_loop (divider sdiv 10) force data s
      else Some s)"
  by pat_completeness auto
termination
  by (relation "measure (\<lambda>(divider, _, _, _). nat \<bar>divider\<bar>)")
    (auto simp: signed_divide_int_def abs_mult sgn_if)

definition otutils_int2dec :: "ptr \<Rightarrow> int \<Rightarrow> mem \<Rightarrow> (int \<times> mem) option" where
  "otutils_int2dec dst data h = do {
     s \<leftarrow> emit 0x20 (dst, h);
     (data, s) \<leftarrow> (if data < 0 then do { s \<leftarrow> emit 0x2D s; Some (to_ot_int (0 - data), s) } else Some (data, s));
     (p, h) \<leftarrow> int2dec_loop 10000 False data s;
     n \<leftarrow> ptr_diff p dst;
     Some (to_ot_int n, h)
   }"

text \<open>The digit is an \<^verbatim>\<open>ot_u8\<close> here; the negation of the least 32-bit number is undefined.\<close>

function long2dec_loop :: "int \<Rightarrow> bool \<Rightarrow> int \<Rightarrow> ptr \<times> mem \<Rightarrow> (ptr \<times> mem) option" where
  "long2dec_loop divider force data s =
     (if divider \<noteq> 0 then
        let digit = (word_of_int (data sdiv divider) :: u8) in
        if digit \<noteq> 0 \<or> force then do {
          s \<leftarrow> emit (digit + 0x30) s;
          long2dec_loop (divider sdiv 10) True (data - uint digit * divider) s
        } else long2dec_loop (divider sdiv 10) force data s
      else Some s)"
  by pat_completeness auto
termination
  by (relation "measure (\<lambda>(divider, _, _, _). nat \<bar>divider\<bar>)")
    (auto simp: signed_divide_int_def abs_mult sgn_if)

definition otutils_long2dec :: "ptr \<Rightarrow> int \<Rightarrow> mem \<Rightarrow> (int \<times> mem) option" where
  "otutils_long2dec dst data h = do {
     s \<leftarrow> emit 0x20 (dst, h);
     (data, s) \<leftarrow> (if data < 0 then do {
        s' \<leftarrow> (if data = - (2 ^ 31) then None else Some s);
        s \<leftarrow> emit 0x2D s';
        Some (0 - data, s)
      } else Some (data, s));
     (p, h) \<leftarrow> long2dec_loop 1000000000 False data s;
     n \<leftarrow> ptr_diff p dst;
     Some (to_ot_int n, h)
   }"

section \<open>Listing\<close>

text \<open>The label is a string up to its zero byte.\<close>

partial_function (option) label_loop :: "ptr \<Rightarrow> ptr \<times> mem \<Rightarrow> (ptr \<times> mem) option" where
  "label_loop scratch s = do {
     c \<leftarrow> ld8 scratch (snd s);
     if c \<noteq> 0 then do { s \<leftarrow> emit c s; label_loop (ptr_add scratch 1) s } else Some s
   }"

definition list_value :: "char \<Rightarrow> ptr \<Rightarrow> mem \<Rightarrow> (int \<times> ptr) option" where
  "list_value format src h =
     (if format = CHR ''b'' then do { b \<leftarrow> ld8 src h; Some (sint b, ptr_add src 1) }
      else do {
        u \<leftarrow> ld8 src h;
        l \<leftarrow> ld8 (ptr_add src 1) h;
        Some (sint (join16 l u), ptr_add src 2)
      })"

function list_loop :: "char \<Rightarrow> u8 \<Rightarrow> ptr \<Rightarrow> ptr \<times> mem \<Rightarrow> (ptr \<times> mem) option" where
  "list_loop format number src s =
     (if 0 < number then do {
        (v, src) \<leftarrow> list_value format src (snd s);
        (n, h) \<leftarrow> otutils_int2dec (fst s) v (snd s);
        list_loop format (number - 1) src (ptr_add (fst s) n, h)
      } else Some s)"
  by pat_completeness auto
termination
  by (relation "measure (\<lambda>(_, number, _, _). unat number)") (auto simp: measure_unat word_gt_0)

definition slistf :: "ptr \<Rightarrow> ptr \<Rightarrow> char \<Rightarrow> u8 \<Rightarrow> ptr \<Rightarrow> mem \<Rightarrow> (int \<times> mem) option" where
  "slistf dst label format number src h = do {
     s \<leftarrow> label_loop label (dst, h);
     (p, h) \<leftarrow> (if format = CHR ''x'' then do {
          (n, h) \<leftarrow> otutils_bin2hex (fst s) src (uint number) (snd s);
          Some (ptr_add (fst s) n, h)
        } else if format = CHR ''b'' \<or> format = CHR ''s'' then list_loop format number src s
        else do {
          s \<leftarrow> emit 0x20 s;
          h \<leftarrow> ot_memcpy (fst s) src (ucast number) (snd s);
          Some (ptr_add (fst s) (uint number), h)
        });
     n \<leftarrow> ptr_diff p dst;
     Some (to_ot_int n, h)
   }"

section \<open>What is written\<close>

declare encode_loop.simps [simp del] bin2hex_loop.simps [simp del] int2dec_loop.simps [simp del]
  long2dec_loop.simps [simp del] list_loop.simps [simp del]

lemma emit_all:
  "mem_wr dst bs h = Some h' \<Longrightarrow> write_all emit bs (dst, h) = Some (ptr_add dst (int (length bs)), h')"
proof (induction bs arbitrary: dst h)
  case Nil
  then show ?case using mem_wr_Nil by fastforce
next
  case (Cons b bs)
  then obtain h1 where h1: "mem_wr dst [b] h = Some h1" "mem_wr (ptr_add dst 1) bs h1 = Some h'"
    unfolding mem_wr_Cons [of _ b bs] by (auto simp: bind_eq_Some_conv)
  then have "emit b (dst, h) = Some (ptr_add dst 1, h1)" by (simp add: emit_def st8_def)
  then show ?case using Cons.IH [OF h1(2)] by simp
qed

lemma write_all_append:
  "write_all wr (xs @ ys) s = do { s \<leftarrow> write_all wr xs s; write_all wr ys s }"
  by (induction xs arbitrary: s) (auto split: Option.bind_splits)

lemma mem_wr_append:
  assumes "mem_wr p (xs @ ys) h = Some h'"
  obtains h1 where "mem_wr p xs h = Some h1" and "mem_wr (ptr_add p (int (length xs))) ys h1 = Some h'"
proof -
  have "\<exists>h1. mem_wr p xs h = Some h1 \<and> mem_wr (ptr_add p (int (length xs))) ys h1 = Some h'"
    using assms
  proof (induction xs arbitrary: p h)
    case Nil
    then have "accessible p (length ys) h" using mem_wr_Some [of p ys h] by auto
    then have "accessible p (length []) h" by (auto simp: accessible_def)
    then obtain h1 where h1: "mem_wr p [] h = Some h1" using mem_wr_Some by blast
    then show ?case using Nil mem_wr_Nil [OF h1] by simp
  next
    case (Cons x xs)
    then obtain h1 where h1: "mem_wr p [x] h = Some h1" "mem_wr (ptr_add p 1) (xs @ ys) h1 = Some h'"
      by (auto simp: mem_wr_Cons [of p x "xs @ ys"] bind_eq_Some_conv)
    from Cons.IH [OF h1(2)] show ?case using h1(1) by (auto simp: mem_wr_Cons [of p x xs] ac_simps)
  qed
  then show thesis using that by blast
qed

subsection \<open>Hexadecimal\<close>

definition hex_byte :: "u8 \<Rightarrow> bytes" where
  "hex_byte b = [otutils_hexlut ! unat (drop_bit 4 b), otutils_hexlut ! unat (b AND 0x0F)]"

definition hex_text :: "bytes \<Rightarrow> bytes" where
  "hex_text bs = concat (map hex_byte bs)"

definition hex_value :: "u8 \<Rightarrow> u8" where
  "hex_value c = (if c \<le> 0x39 then c - 0x30 else c - 0x37)"

fun unhex :: "bytes \<Rightarrow> bytes" where
  "unhex (a # b # cs) = (push_bit 4 (hex_value a) OR hex_value b) # unhex cs"
| "unhex _ = []"

lemma hex_text_simps [simp]: "hex_text [] = []" "hex_text (b # bs) = hex_byte b @ hex_text bs"
  by (simp_all add: hex_text_def)

lemma length_hex_text [simp]: "length (hex_text bs) = 2 * length bs"
  by (induction bs) (simp_all add: hex_byte_def)

lemma hex_values: "\<forall>n \<in> set [0..<16]. hex_value (otutils_hexlut ! n) = of_nat n"
  by code_simp

lemma nibbles: "unat (drop_bit 4 (b :: u8)) < 16" "unat (b AND 0x0F) < 16"
  "push_bit 4 (drop_bit 4 b) OR (b AND 0x0F) = b"
proof -
  show "unat (drop_bit 4 b) < 16"
    using unsigned_less [where w = b and ?'a = nat] by (simp add: unat_drop_bit_eq drop_bit_eq_div unat_div)
  have m: "b AND 0x0F = take_bit 4 b" by (simp add: take_bit_eq_mask mask_numeral)
  then show "unat (b AND 0x0F) < 16" by (simp add: unsigned_take_bit_eq take_bit_eq_mod unat_mod)
  show "push_bit 4 (drop_bit 4 b) OR (b AND 0x0F) = b"
    unfolding m by (rule bit_word_eqI) (auto simp: bit_simps)
qed

lemma unhex_hex_text: "unhex (hex_text bs) = bs"
proof (induction bs)
  case (Cons b bs)
  have "hex_value (otutils_hexlut ! unat (drop_bit 4 b)) = drop_bit 4 b"
    "hex_value (otutils_hexlut ! unat (b AND 0x0F)) = b AND 0x0F"
    using hex_values nibbles(1,2) [of b] by simp_all
  then show ?case using Cons nibbles(3) [of b] by (simp add: hex_byte_def)
qed simp

lemma sint_small: "n < 32768 \<Longrightarrow> sint (of_nat n :: u16) = int n"
  using to_ot_int_small [of "int n"] by (simp add: to_ot_int_def)

lemma mem_rd_Cons:
  assumes "mem_rd p (Suc n) h = Some (b # bs)"
  shows "ld8 p h = Some b" and "mem_rd (ptr_add p 1) n h = Some bs"
proof -
  have "mem_rd p (1 + n) h = Some (b # bs)" using assms by simp
  then obtain x y where xy: "mem_rd p 1 h = Some x" "mem_rd (ptr_add p 1) n h = Some y" "b # bs = x @ y"
    unfolding mem_rd_split by (auto simp: bind_eq_Some_conv)
  moreover from mem_rd_length [OF xy(1)] have "length x = 1" .
  ultimately have "x = [b]" "y = bs" by (auto simp: length_Suc_conv)
  then show "ld8 p h = Some b" "mem_rd (ptr_add p 1) n h = Some bs" using xy by (simp_all add: ld8_def)
qed

lemma bin2hex_loop_text:
  "mem_wr dst (hex_text bs) h = Some h' \<Longrightarrow> mem_rd src (length bs) h = Some bs \<Longrightarrow> fst dst \<noteq> fst src \<Longrightarrow>
   length bs < 32768 \<Longrightarrow>
   bin2hex_loop src (of_nat (length bs)) (dst, h) = Some (ptr_add dst (int (length (hex_text bs))), h')"
proof (induction bs arbitrary: src dst h)
  case Nil
  then show ?case using mem_wr_Nil [of dst h h'] by (simp add: bin2hex_loop.simps)
next
  case (Cons b bs)
  note r = mem_rd_Cons [OF Cons.prems(2) [unfolded length_Cons]]
  from Cons.prems(1) obtain h1 h2 where
    h1: "mem_wr dst [otutils_hexlut ! unat (drop_bit 4 b)] h = Some h1"
    and h2: "mem_wr (ptr_add dst 1) [otutils_hexlut ! unat (b AND 0x0F)] h1 = Some h2"
    and h': "mem_wr (ptr_add dst 2) (hex_text bs) h2 = Some h'"
    by (auto simp: hex_byte_def mem_wr_Cons [of _ _ "_ # _"] mem_wr_Cons [of "ptr_add dst 1" _ "hex_text bs"]
        bind_eq_Some_conv)
  have same: "mem_rd p n h1 = mem_rd p n h" "mem_rd p n h2 = mem_rd p n h" if "fst p = fst src" for p n
    using mem_rd_wr_apart [OF h1, of p n] mem_rd_wr_apart [OF h2, of p n] Cons.prems(3) that by simp_all
  have ld: "ld8 src h1 = Some b" using r(1) by (simp add: ld8_def same)
  have m: "mem_rd (ptr_add src 1) (length bs) h2 = Some bs" using r(2) by (simp add: same)
  have l: "0 \<le> sint (of_nat (length bs) :: u16)" using Cons.prems(4) by (simp add: sint_small)
  have "bin2hex_loop (ptr_add src 1) (of_nat (length bs)) (ptr_add dst 2, h2)
      = Some (ptr_add (ptr_add dst 2) (int (length (hex_text bs))), h')"
    by (rule Cons.IH [OF h' m]) (use Cons.prems in simp_all)
  then show ?case
    unfolding bin2hex_loop.simps [of src "of_nat (length (b # bs))"]
    using r(1) ld l h1 h2 by (simp add: Let_def emit_def st8_def hex_byte_def ac_simps)
qed

lemma bin2hex_text:
  assumes "mem_wr dst (hex_text bs) h = Some h'" and "mem_rd src (length bs) h = Some bs" and "fst dst \<noteq> fst src"
    and "length bs < 16384"
  shows "otutils_bin2hex dst src (int (length bs)) h = Some (int (length (hex_text bs)), h')"
  using bin2hex_loop_text [OF assms(1-3)] assms(4) by (simp add: otutils_bin2hex_def)

subsection \<open>Decimal\<close>

fun dec_digits :: "nat \<Rightarrow> nat list" where
  "dec_digits n = (if n < 10 then [n] else dec_digits (n div 10) @ [n mod 10])"

declare dec_digits.simps [simp del]

definition asc :: "nat \<Rightarrow> u8" where
  "asc d = of_nat d + 0x30"

text \<open>
  A blank, the sign and the digits without leading zeros; zero has no digit at all. The least
  number is its own negation, so its digits are taken from negative quotients.
\<close>

definition dec_text :: "int \<Rightarrow> bytes" where
  "dec_text n = 0x20 # (if n < 0 then [0x2D] else []) @ (if n = 0 then [] else map asc (dec_digits (nat \<bar>n\<bar>)))"

definition int_text :: "int \<Rightarrow> bytes" where
  "int_text n = (if n = - 32768 then map of_char '' --.)*('' else dec_text n)"

definition dec_value :: "bytes \<Rightarrow> nat" where
  "dec_value cs = foldl (\<lambda>a c. 10 * a + unat (c - 0x30)) 0 cs"

fun padded :: "nat \<Rightarrow> nat \<Rightarrow> nat list" where
  "padded 0 n = []"
| "padded (Suc k) n = padded k (n div 10) @ [n mod 10]"

lemma padded_head:
  "n < 10 ^ Suc k \<Longrightarrow> padded (Suc k) n = n div 10 ^ k # padded k (n mod 10 ^ k)"
proof (induction k arbitrary: n)
  case (Suc k)
  have "n div 10 < 10 ^ Suc k" using Suc.prems by simp
  from Suc.IH [OF this]
  have "padded (Suc (Suc k)) n = n div 10 div 10 ^ k # padded k (n div 10 mod 10 ^ k) @ [n mod 10]" by simp
  moreover have "n mod 10 ^ Suc k = 10 * (n div 10 mod 10 ^ k) + n mod 10"
    by (simp add: mod_mult2_eq)
  ultimately show ?case by (simp add: div_mult2_eq)
qed simp

lemma length_padded [simp]: "length (padded k n) = k"
  by (induction k arbitrary: n) simp_all

lemma padded_0: "padded k 0 = replicate k 0"
  by (induction k) (simp_all add: replicate_append_same)

lemma padded_dec: "0 < n \<Longrightarrow> n < 10 ^ k \<Longrightarrow> dropWhile (\<lambda>d. d = 0) (padded k n) = dec_digits n"
proof (induction k arbitrary: n)
  case (Suc k)
  show ?case
  proof (cases "n < 10")
    case True
    then show ?thesis using Suc.prems
      by (simp add: padded_0 dropWhile_append dec_digits.simps [of n])
  next
    case False
    have ne: "dec_digits (n div 10) \<noteq> []" by (subst dec_digits.simps) simp
    have d: "dropWhile (\<lambda>d. d = 0) (padded k (n div 10)) = dec_digits (n div 10)"
      using Suc.IH [of "n div 10"] Suc.prems False by simp
    then have "\<not> (\<forall>d \<in> set (padded k (n div 10)). d = 0)" using ne by (simp flip: dropWhile_eq_Nil_conv)
    then show ?thesis using False d by (auto simp: dropWhile_append dec_digits.simps [of n])
  qed
qed simp

definition place :: "nat \<Rightarrow> int" where
  "place k = (if k = 0 then 0 else 10 ^ (k - 1))"

lemma sdiv_int: "int a sdiv int b = int (a div b)"
  by (cases "a = 0"; cases "b = 0") (simp_all add: signed_divide_int_def zdiv_int)

lemma place_step: "place (Suc k) sdiv 10 = place k" "place (Suc k) = int (10 ^ k)"
proof -
  show p: "place (Suc k) = int (10 ^ k)" by (simp add: place_def)
  have "int (10 ^ k) sdiv int 10 = int (10 ^ k div 10)" by (rule sdiv_int)
  moreover have "int (10 ^ k div 10) = place k"
    by (cases k) (simp_all add: place_def)
  ultimately show "place (Suc k) sdiv 10 = place k" using p by simp
qed

lemma place_digit:
  "int data sdiv place (Suc k) = int (data div 10 ^ k)"
  "int data - int (data div 10 ^ k) * place (Suc k) = int (data mod 10 ^ k)"
proof -
  show "int data sdiv place (Suc k) = int (data div 10 ^ k)" unfolding place_step(2) by (rule sdiv_int)
  have "int data = int (data div 10 ^ k * 10 ^ k + data mod 10 ^ k)" by (simp only: div_mult_mod_eq)
  then show "int data - int (data div 10 ^ k) * place (Suc k) = int (data mod 10 ^ k)"
    unfolding place_step(2) by (simp only: of_nat_add of_nat_mult)
qed

lemma int2dec_step:
  "int2dec_loop (place (Suc k)) force (int data) s =
    (if data div 10 ^ k \<noteq> 0 \<or> force
     then emit (asc (data div 10 ^ k)) s \<bind> int2dec_loop (place k) True (int (data mod 10 ^ k))
     else int2dec_loop (place k) force (int data) s)"
proof -
  have "place (Suc k) \<noteq> 0" by (simp add: place_step)
  moreover have "(word_of_int (int (data div 10 ^ k) + 0x30) :: u8) = asc (data div 10 ^ k)"
    by (simp add: asc_def)
  ultimately show ?thesis
    unfolding int2dec_loop.simps [of "place (Suc k)"] Let_def place_digit place_step(1) by simp
qed

lemma long2dec_step:
  assumes "data < 10 ^ Suc k"
  shows "long2dec_loop (place (Suc k)) force (int data) s =
    (if data div 10 ^ k \<noteq> 0 \<or> force
     then emit (asc (data div 10 ^ k)) s \<bind> long2dec_loop (place k) True (int (data mod 10 ^ k))
     else long2dec_loop (place k) force (int data) s)"
proof -
  let ?d = "data div 10 ^ k"
  have nz: "place (Suc k) \<noteq> 0" by (simp add: place_step)
  have "?d < 10" using assms by (simp add: less_mult_imp_div_less mult.commute)
  then have u: "unat (of_nat ?d :: u8) = ?d" by (simp add: unat_of_nat take_bit_nat_eq_self)
  then have u': "uint (of_nat ?d :: u8) = int ?d" unfolding uint_nat u by simp
  have z: "(of_nat ?d :: u8) = 0 \<longleftrightarrow> ?d = 0" unfolding unat_eq_0 [symmetric] u ..
  show ?thesis
    unfolding long2dec_loop.simps [of "place (Suc k)"] Let_def place_digit(1) place_step(1) of_int_of_nat_eq u' place_digit(2) z
    using nz by (simp add: asc_def)
qed

lemma int2dec_loop_digits:
  "data < 10 ^ k \<Longrightarrow> int2dec_loop (place k) force (int data) s =
    write_all emit (map asc (if force then padded k data else dropWhile (\<lambda>d. d = 0) (padded k data))) s"
proof (induction k arbitrary: force data s)
  case 0
  then show ?case by (simp add: place_def int2dec_loop.simps [of 0])
next
  case (Suc k)
  have "data mod 10 ^ k < 10 ^ k" by simp
  from Suc.IH [OF this, of True]
  have f: "int2dec_loop (place k) True (int (data mod 10 ^ k)) = write_all emit (map asc (padded k (data mod 10 ^ k)))"
    by (intro ext) simp
  have d: "int2dec_loop (place k) False (int data) s =
      write_all emit (map asc (dropWhile (\<lambda>d. d = 0) (padded k (data mod 10 ^ k)))) s" if "data div 10 ^ k = 0"
    using that Suc.IH [of data False s] by (simp add: div_eq_0_iff)
  show ?case
    unfolding int2dec_step padded_head [OF Suc.prems] f using d by (cases force) auto
qed

lemma long2dec_loop_eq:
  "data < 10 ^ k \<Longrightarrow> long2dec_loop (place k) force (int data) s = int2dec_loop (place k) force (int data) s"
proof (induction k arbitrary: force data s)
  case 0
  then show ?case by (simp add: place_def int2dec_loop.simps [of 0] long2dec_loop.simps [of 0])
next
  case (Suc k)
  have "data mod 10 ^ k < 10 ^ k" by simp
  from Suc.IH [OF this, of True]
  have f: "long2dec_loop (place k) True (int (data mod 10 ^ k)) = int2dec_loop (place k) True (int (data mod 10 ^ k))"
    by (intro ext) simp
  show ?case
    unfolding int2dec_step long2dec_step [OF Suc.prems] f using Suc.IH [of data force s] by (auto simp: div_eq_0_iff)
qed

lemma loops_text:
  assumes "0 \<le> n" and "n < 10 ^ k"
  shows "int2dec_loop (place k) False n s = write_all emit (if n = 0 then [] else map asc (dec_digits (nat n))) s"
    and "long2dec_loop (place k) False n s = write_all emit (if n = 0 then [] else map asc (dec_digits (nat n))) s"
proof -
  have n: "nat n < 10 ^ k" "int (nat n) = n" using assms by (simp_all add: nat_less_iff)
  then have "dropWhile (\<lambda>d. d = 0) (padded k (nat n)) = (if n = 0 then [] else dec_digits (nat n))"
    using padded_dec [of "nat n" k] assms(1) by (auto simp: padded_0)
  then show "int2dec_loop (place k) False n s = write_all emit (if n = 0 then [] else map asc (dec_digits (nat n))) s"
    using int2dec_loop_digits [OF n(1), of False s] unfolding n(2) by simp
  then show "long2dec_loop (place k) False n s = write_all emit (if n = 0 then [] else map asc (dec_digits (nat n))) s"
    using long2dec_loop_eq [OF n(1), of False s] unfolding n(2) by simp
qed

lemma length_dec_digits: "0 < n \<Longrightarrow> n < 10 ^ k \<Longrightarrow> length (dec_digits n) \<le> k"
  using padded_dec [of n k] length_dropWhile_le [of "\<lambda>d. d = 0" "padded k n"] by simp

lemma length_dec_text:
  assumes "\<bar>n\<bar> < 10 ^ k"
  shows "length (dec_text n) \<le> k + 2"
proof -
  have "nat \<bar>n\<bar> < 10 ^ k" using assms by (simp add: nat_less_iff)
  then show ?thesis using length_dec_digits [of "nat \<bar>n\<bar>" k] by (auto simp: dec_text_def)
qed

lemma emit_head:
  assumes "mem_wr dst (c # bs) h = Some h'"
  obtains h1 where "emit c (dst, h) = Some (ptr_add dst 1, h1)" and "mem_wr (ptr_add dst 1) bs h1 = Some h'"
  using assms by (auto simp: mem_wr_Cons [of dst c bs] bind_eq_Some_conv emit_def st8_def)

lemma int2dec_text:
  assumes "- 32768 \<le> n" and "n < 32768" and "mem_wr dst (int_text n) h = Some h'"
  shows "otutils_int2dec dst n h = Some (int (length (int_text n)), h')"
proof -
  have pl: "place 5 = 10000" by (simp add: place_def)
  define ds where "ds = (if n = - 32768 then map of_char ''-.)*('' else if n = 0 then [] else map asc (dec_digits (nat \<bar>n\<bar>)))"
  define sg where "sg = (if n < 0 then [0x2D :: u8] else [])"
  have tx: "int_text n = 0x20 # sg @ ds" by (simp add: int_text_def dec_text_def ds_def sg_def)
  have neg: "to_ot_int (0 - n) = (if n = - 32768 then n else - n)" if "n < 0"
  proof (cases "n = - 32768")
    case True
    then show ?thesis by (simp add: to_ot_int_def)
  next
    case False
    then show ?thesis using that assms(1) to_ot_int_small [of "0 - n"] by simp
  qed
  have loop: "int2dec_loop 10000 False (if n < 0 \<and> n \<noteq> - 32768 then - n else n) s = write_all emit ds s" for s
  proof (cases "n = - 32768")
    case True
    then show ?thesis
      by (simp add: ds_def int2dec_loop.simps signed_divide_int_def Let_def cong: Option.bind_cong)
  next
    case False
    then show ?thesis
      using loops_text(1) [of "\<bar>n\<bar>" 5 s] assms(1,2) unfolding pl by (auto simp: ds_def)
  qed
  have len: "length (int_text n) < 10"
  proof -
    have "\<bar>n\<bar> < 10 ^ 5" using assms(1,2) by (simp add: abs_less_iff)
    from length_dec_text [OF this] show ?thesis by (simp add: int_text_def)
  qed
  obtain h1 where h1: "emit 0x20 (dst, h) = Some (ptr_add dst 1, h1)" "mem_wr (ptr_add dst 1) (sg @ ds) h1 = Some h'"
    using assms(3) unfolding tx by (rule emit_head)
  from emit_all [OF h1(2)] have w: "write_all emit (sg @ ds) (ptr_add dst 1, h1)
      = Some (ptr_add dst (int (length (int_text n))), h')" by (simp add: tx ac_simps)
  show ?thesis
  proof (cases "n < 0")
    case True
    then obtain s where s: "emit 0x2D (ptr_add dst 1, h1) = Some s"
      "write_all emit ds s = Some (ptr_add dst (int (length (int_text n))), h')"
      using w by (auto simp: sg_def bind_eq_Some_conv)
    then show ?thesis using True len loop [of s] neg
      by (cases "n = - 32768") (simp_all add: otutils_int2dec_def h1(1))
  next
    case False
    then show ?thesis using w len loop by (simp add: otutils_int2dec_def h1(1) sg_def)
  qed
qed

lemma long2dec_text:
  assumes "\<bar>n\<bar> < 2 ^ 31" and "mem_wr dst (dec_text n) h = Some h'"
  shows "otutils_long2dec dst n h = Some (int (length (dec_text n)), h')"
proof -
  have pl: "place 10 = 1000000000" by (simp add: place_def)
  define ds where "ds = (if n = 0 then [] else map asc (dec_digits (nat \<bar>n\<bar>)))"
  define sg where "sg = (if n < 0 then [0x2D :: u8] else [])"
  have tx: "dec_text n = 0x20 # sg @ ds" by (simp add: dec_text_def ds_def sg_def)
  have b: "\<bar>n\<bar> < 10 ^ 10" using assms(1) by simp
  have loop: "long2dec_loop 1000000000 False \<bar>n\<bar> s = write_all emit ds s" for s
    using loops_text(2) [of "\<bar>n\<bar>" 10 s] b unfolding pl by (auto simp: ds_def)
  have len: "length (dec_text n) < 13" using length_dec_text [OF b] by simp
  obtain h1 where h1: "emit 0x20 (dst, h) = Some (ptr_add dst 1, h1)" "mem_wr (ptr_add dst 1) (sg @ ds) h1 = Some h'"
    using assms(2) unfolding tx by (rule emit_head)
  from emit_all [OF h1(2)] have w: "write_all emit (sg @ ds) (ptr_add dst 1, h1)
      = Some (ptr_add dst (int (length (dec_text n))), h')" by (simp add: tx ac_simps)
  show ?thesis
  proof (cases "n < 0")
    case True
    then have "\<bar>n\<bar> = - n" by simp
    moreover obtain s where "emit 0x2D (ptr_add dst 1, h1) = Some s"
      "write_all emit ds s = Some (ptr_add dst (int (length (dec_text n))), h')"
      using w True by (auto simp: sg_def bind_eq_Some_conv)
    ultimately show ?thesis using True assms(1) len loop [of s]
      by (simp add: otutils_long2dec_def h1(1))
  next
    case False
    then have "\<bar>n\<bar> = n" by simp
    with False show ?thesis using w len loop by (simp add: otutils_long2dec_def h1(1) sg_def)
  qed
qed

text \<open>Reading a decimal text: a blank, a sign or none, and at least one character, all of them digits.\<close>

definition dec_read :: "bytes \<Rightarrow> int option" where
  "dec_read cs = (case cs of [] \<Rightarrow> None
     | b # cs \<Rightarrow> let neg = (cs \<noteq> [] \<and> hd cs = 0x2D); ds = (if neg then tl cs else cs) in
         if b = 0x20 \<and> ds \<noteq> [] \<and> (\<forall>d \<in> set ds. 0x30 \<le> d \<and> d \<le> 0x39)
         then Some (if neg then - int (dec_value ds) else int (dec_value ds)) else None)"

lemma dec_digits_less: "d \<in> set (dec_digits n) \<Longrightarrow> d < 10"
proof (induction n rule: dec_digits.induct)
  case (1 n)
  then show ?case by (cases "n < 10") (auto simp: dec_digits.simps [of n])
qed

lemma unat_asc:
  "d < 10 \<Longrightarrow> unat (asc d - 0x30) = d" "d < 10 \<Longrightarrow> asc d \<noteq> 0x2D" "d < 10 \<Longrightarrow> 0x30 \<le> asc d" "d < 10 \<Longrightarrow> asc d \<le> 0x39"
proof -
  have "\<forall>d \<in> set [0..<10]. unat (asc d - 0x30) = d \<and> asc d \<noteq> 0x2D \<and> 0x30 \<le> asc d \<and> asc d \<le> 0x39" by code_simp
  then show "d < 10 \<Longrightarrow> unat (asc d - 0x30) = d" "d < 10 \<Longrightarrow> asc d \<noteq> 0x2D" "d < 10 \<Longrightarrow> 0x30 \<le> asc d"
    "d < 10 \<Longrightarrow> asc d \<le> 0x39" by simp_all
qed

lemma dec_value_digits: "dec_value (map asc (dec_digits n)) = n"
proof (induction n rule: dec_digits.induct)
  case (1 n)
  then show ?case
    by (cases "n < 10") (simp_all add: dec_digits.simps [of n] dec_value_def unat_asc(1))
qed

lemma dec_read_text: "dec_read (dec_text n) = (if n = 0 then None else Some n)"
proof -
  let ?ds = "dec_digits (nat \<bar>n\<bar>)"
  have "?ds \<noteq> []" by (subst dec_digits.simps) simp
  then obtain d ds where d: "?ds = d # ds" by (cases ?ds) simp_all
  have "\<forall>e \<in> set (d # ds). e < 10" using dec_digits_less [of _ "nat \<bar>n\<bar>"] d by metis
  then have "asc d \<noteq> 0x2D" "\<forall>e \<in> set (map asc (d # ds)). 0x30 \<le> e \<and> e \<le> 0x39" using unat_asc by auto
  then show ?thesis
    using dec_value_digits [of "nat \<bar>n\<bar>"] unfolding dec_read_def dec_text_def d
    by (cases "n = 0"; cases "n < 0") simp_all
qed

section \<open>Decimal text\<close>

text \<open>
  C20. The decimal text of a number whose magnitude is below \<open>2 ^ 31\<close>, or \<open>2 ^ 15\<close> for
  \<^verbatim>\<open>otutils_int2dec\<close>: a blank, the sign and the digits without leading zeros. This text of at most 12
  bytes is what the functions write at the pointer they are given, their result being its length.
  Read back it gives the number, unless that is 0, whose text is a blank without a digit. The least
  number of each type is not in the range; \<open>decimal_text_edges\<close> says what is written for it.
\<close>

theorem decimal_text_correct:
  assumes "\<bar>n\<bar> < 2 ^ 31" and "mem_wr dst (dec_text n) h = Some h'"
  shows "otutils_long2dec dst n h = Some (int (length (dec_text n)), h')
    \<and> (\<bar>n\<bar> < 2 ^ 15 \<longrightarrow> otutils_int2dec dst n h = Some (int (length (dec_text n)), h'))
    \<and> mem_rd dst (length (dec_text n)) h' = Some (dec_text n)
    \<and> length (dec_text n) \<le> 12 \<and> dec_read (dec_text n) = (if n = 0 then None else Some n)"
proof (intro conjI impI)
  show "otutils_long2dec dst n h = Some (int (length (dec_text n)), h')" by (rule long2dec_text [OF assms])
  show "otutils_int2dec dst n h = Some (int (length (dec_text n)), h')" if "\<bar>n\<bar> < 2 ^ 15"
  proof -
    from that have "int_text n = dec_text n" "- 32768 \<le> n" "n < 32768" by (auto simp: int_text_def)
    then show ?thesis using int2dec_text [of n dst h h'] assms(2) by simp
  qed
  show "mem_rd dst (length (dec_text n)) h' = Some (dec_text n)" by (rule mem_rd_wr [OF assms(2)])
  show "length (dec_text n) \<le> 12" using length_dec_text [of n 10] assms(1) by simp
qed (rule dec_read_text)

theorem decimal_text_correct_witness:
  "\<exists>h'. otutils_long2dec (0, 2) (- 1203) [0 \<mapsto> replicate 10 0] = Some (6, h') \<and> h' 0 = Some [0, 0, 0x20, 0x2D, 0x31, 0x32, 0x30, 0x33, 0, 0]"
proof -
  have t: "dec_text (- 1203) = [0x20, 0x2D, 0x31, 0x32, 0x30, 0x33]"
    by (simp add: dec_text_def asc_def dec_digits.simps)
  define h' :: mem where "h' = [0 \<mapsto> [0, 0, 0x20, 0x2D, 0x31, 0x32, 0x30, 0x33, 0, 0]]"
  have "mem_wr (0, 2) (dec_text (- 1203)) [0 \<mapsto> replicate 10 0] = Some h'"
    unfolding t h'_def by (simp add: mem_wr_def wr_bytes_def numeral_eq_Suc)
  from decimal_text_correct [OF _ this] have "otutils_long2dec (0, 2) (- 1203) [0 \<mapsto> replicate 10 0] = Some (6, h')"
    by (simp add: t)
  then show ?thesis by (auto simp: h'_def)
qed

text \<open>
  The edges of decimal text: 0 is written as a blank without a digit; the least 16-bit
  number, whose negation is itself, is written with characters that are not digits; for the
  least 32-bit number the negation is undefined.
\<close>

theorem decimal_text_edges:
  assumes "mem_wr dst [0x20] h = Some h0" and "mem_wr dst (map of_char '' --.)*('') h = Some h1"
  shows "otutils_int2dec dst 0 h = Some (1, h0) \<and> otutils_long2dec dst 0 h = Some (1, h0)
    \<and> otutils_int2dec dst (- 32768) h = Some (7, h1) \<and> otutils_long2dec dst (- 2147483648) h = None
    \<and> dec_read (map of_char '' --.)*('') = None"
proof (intro conjI)
  show "dec_read (map of_char '' --.)*('') = None" by (simp add: dec_read_def)
  have 0: "dec_text 0 = [0x20]" "int_text 0 = [0x20]" by (simp_all add: dec_text_def int_text_def)
  show "otutils_int2dec dst 0 h = Some (1, h0)" "otutils_long2dec dst 0 h = Some (1, h0)"
    using int2dec_text [of 0 dst h h0] long2dec_text [of 0 dst h h0] assms(1) unfolding 0 by simp_all
  show "otutils_int2dec dst (- 32768) h = Some (7, h1)"
    using int2dec_text [of "- 32768" dst h h1] assms(2) by (simp add: int_text_def)
  show "otutils_long2dec dst (- 2147483648) h = None"
    by (cases "emit 0x20 (dst, h)") (simp_all add: otutils_long2dec_def)
qed

theorem decimal_text_edges_witness:
  "\<exists>h'. otutils_int2dec (0, 0) (- 32768) [0 \<mapsto> replicate 7 0] = Some (7, h') \<and> h' 0 = Some (map of_char '' --.)*('')"
proof -
  have "\<exists>h0. mem_wr (0, 0) [0x20] [0 \<mapsto> replicate 7 0] = Some h0"
    by (simp add: mem_wr_def wr_bytes_def)
  then obtain h0 where h0: "mem_wr (0, 0) [0x20] [0 \<mapsto> replicate 7 0] = Some h0" by blast
  have "mem_wr (0, 0) (map of_char '' --.)*('') [0 \<mapsto> replicate 7 0] = Some [0 \<mapsto> map of_char '' --.)*('']"
    by (simp add: mem_wr_def wr_bytes_def)
  from decimal_text_edges [OF h0 this] show ?thesis by simp
qed

section \<open>Hexadecimal text\<close>

text \<open>
  The hexadecimal text that \<^verbatim>\<open>otutils_bin2hex\<close> writes for a list of bytes has two digits
  for every byte, is the returned number of bytes long, and reads back to the bytes;
  \<^verbatim>\<open>otutils_byte2hex\<close> gives the same two digits in memory order.
\<close>

theorem bin2hex_roundtrip:
  assumes "mem_wr dst (hex_text bs) h = Some h'" and "mem_rd src (length bs) h = Some bs" and "fst dst \<noteq> fst src"
    and "length bs < 16384"
  shows "otutils_bin2hex dst src (int (length bs)) h = Some (2 * int (length bs), h')
    \<and> mem_rd dst (2 * length bs) h' = Some (hex_text bs) \<and> unhex (hex_text bs) = bs
    \<and> hex_text bs = concat (map (\<lambda>b. [lo8 (otutils_byte2hex b), hi8 (otutils_byte2hex b)]) bs)"
proof (intro conjI)
  show "otutils_bin2hex dst src (int (length bs)) h = Some (2 * int (length bs), h')"
    using bin2hex_text [OF assms] by simp
  show "mem_rd dst (2 * length bs) h' = Some (hex_text bs)" using mem_rd_wr [OF assms(1)] by simp
  show "hex_text bs = concat (map (\<lambda>b. [lo8 (otutils_byte2hex b), hi8 (otutils_byte2hex b)]) bs)"
    by (simp add: hex_text_def hex_byte_def [abs_def] otutils_byte2hex_def)
qed (rule unhex_hex_text)

theorem bin2hex_roundtrip_witness:
  "\<exists>h'. otutils_bin2hex (0, 0) (1, 1) 2 [0 \<mapsto> replicate 4 0, 1 \<mapsto> [0, 0xA3, 0x0F]] = Some (4, h')
    \<and> h' 0 = Some [0x41, 0x33, 0x30, 0x46]"
proof -
  have t: "hex_text [0xA3, 0x0F] = [0x41, 0x33, 0x30, 0x46]" by code_simp
  define h :: mem where "h = [0 \<mapsto> replicate 4 0, 1 \<mapsto> [0, 0xA3, 0x0F]]"
  define h' where "h' = h(0 \<mapsto> [0x41, 0x33, 0x30, 0x46])"
  have w: "mem_wr (0, 0) (hex_text [0xA3, 0x0F]) h = Some h'"
    unfolding t h'_def by (simp add: mem_wr_def wr_bytes_def h_def)
  have r: "mem_rd (1, 1) (length [0xA3, 0x0F :: u8]) h = Some [0xA3, 0x0F]"
    by (simp add: mem_rd_def rd_bytes_def h_def)
  show ?thesis using bin2hex_roundtrip [OF w r] unfolding h_def [symmetric] by (simp add: h'_def)
qed

section \<open>Timeout codes\<close>

lemma encode_loop_cases:
  assumes "unat q < 16384" and "4 \<le> unat q"
  obtains k where "k \<in> {0, 1, 2, 3 :: nat}" and "encode_loop 1 q = (of_nat (2 * k + 1), drop_bit (4 * k) q)"
    and "1 \<le> unat q div 16 ^ k" and "unat q div 16 ^ k \<le> 16"
proof -
  have less: "16 < drop_bit n q \<longleftrightarrow> 16 < unat q div 2 ^ n" for n
    unfolding word_less_nat_alt unat_drop_bit_eq by (simp add: drop_bit_eq_div)
  have p: "2 ^ (4 * k) = (16 :: nat) ^ k" for k by (simp add: power_mult)
  have step: "encode_loop (of_nat (2 * k + 1)) (drop_bit (4 * k) q) =
      (if 16 < unat q div 16 ^ k then encode_loop (of_nat (2 * Suc k + 1)) (drop_bit (4 * Suc k) q)
       else (of_nat (2 * k + 1), drop_bit (4 * k) q))" for k
    unfolding encode_loop.simps [of "of_nat (2 * k + 1)"] less p by (simp add: ac_simps)
  consider "unat q \<le> 16" | "16 < unat q" "unat q div 16 \<le> 16" | "16 < unat q div 16" "unat q div 256 \<le> 16"
    | "16 < unat q div 256"
    by linarith
  then show thesis
  proof cases
    case 1
    then show thesis using that [of 0] step [of 0] assms by simp
  next
    case 2
    then show thesis using that [of 1] step [of 0] step [of 1] by simp
  next
    case 3
    then show thesis using that [of 2] step [of 0] step [of 1] step [of 2] by simp
  next
    case 4
    have "unat q div 4096 \<le> 16" "1 \<le> unat q div 4096" using 4 assms(1) by linarith+
    moreover have "16 < unat q div 16" "16 < unat q" using 4 by linarith+
    ultimately show thesis using 4 that [of 3] step [of 0] step [of 1] step [of 2] step [of 3] by simp
  qed
qed

lemma calc_timeout_codes:
  "\<forall>m \<in> set [0..<16]. otutils_calc_timeout (0x10 + of_nat m) = of_nat (m + 1) * 0x4 \<and> drop_bit 4 (0x10 + of_nat m :: u8) = 1"
  "\<forall>m \<in> set [0..<16]. otutils_calc_timeout (0x30 + of_nat m) = of_nat (m + 1) * 0x40 \<and> drop_bit 4 (0x30 + of_nat m :: u8) = 3"
  "\<forall>m \<in> set [0..<16]. otutils_calc_timeout (0x50 + of_nat m) = of_nat (m + 1) * 0x400 \<and> drop_bit 4 (0x50 + of_nat m :: u8) = 5"
  "\<forall>m \<in> set [0..<16]. otutils_calc_timeout (0x70 + of_nat m) = of_nat (m + 1) * 0x4000 \<and> drop_bit 4 (0x70 + of_nat m :: u8) = 7"
  by code_simp+

lemma calc_timeout_small: "\<forall>m \<in> set [0..<16]. otutils_calc_timeout (of_nat m) = of_nat m \<and> drop_bit 4 (of_nat m :: u8) = 0"
  by code_simp

lemma unat_of_nat_u32: "n < 4294967296 \<Longrightarrow> unat (of_nat n :: u32) = n"
  by (simp add: unat_of_nat take_bit_nat_eq_self)

text \<open>The value of the code with odd exponent \<open>2 k + 1\<close> and mantissa \<open>m\<close>.\<close>

lemma timeout_of_code:
  assumes "k \<in> {0, 1, 2, 3 :: nat}" and "m < 16"
  shows "unat (otutils_calc_timeout (push_bit 4 (of_nat (2 * k + 1)) + of_nat m)) = (m + 1) * 4 ^ (2 * k + 1)"
    and "unat (drop_bit 4 (push_bit 4 (of_nat (2 * k + 1)) + of_nat m :: u8)) = 2 * k + 1"
proof -
  have u: "unat (of_nat (m + 1) * of_nat c :: u32) = (m + 1) * c" if "c \<le> 0x4000" for c
  proof -
    have "(m + 1) * c \<le> 16 * 0x4000" using assms(2) that by (intro mult_mono) simp_all
    then show ?thesis unfolding of_nat_mult [symmetric] by (intro unat_of_nat_u32) linarith
  qed
  have m: "m \<in> set [0..<16]" using assms(2) by simp
  from calc_timeout_codes(1) [rule_format, OF m] calc_timeout_codes(2) [rule_format, OF m]
    calc_timeout_codes(3) [rule_format, OF m] calc_timeout_codes(4) [rule_format, OF m]
  show "unat (otutils_calc_timeout (push_bit 4 (of_nat (2 * k + 1)) + of_nat m)) = (m + 1) * 4 ^ (2 * k + 1)"
    "unat (drop_bit 4 (push_bit 4 (of_nat (2 * k + 1)) + of_nat m :: u8)) = 2 * k + 1"
    using assms(1) u [of "0x4"] u [of "0x40"] u [of "0x400"] u [of "0x4000"] by auto
qed

text \<open>
  Encoding a timeout and calculating it again rounds down: with \<open>e\<close> the exponent of the
  code the result is the number of whole units of \<open>4 ^ e\<close> ticks, at most 16 of them, so that
  at most half of the timeout is lost; timeouts up to 16 ticks are exact.
\<close>

theorem timeout_roundtrip:
  fixes t :: u16
  defines "e \<equiv> unat (drop_bit 4 (otutils_encode_timeout t))"
  shows "unat (otutils_calc_timeout (otutils_encode_timeout t)) = unat t div 4 ^ e * 4 ^ e
    \<and> unat t div 4 ^ e \<le> 16 \<and> unat t \<le> 2 * unat (otutils_calc_timeout (otutils_encode_timeout t))"
proof (cases "t < 16")
  case True
  then have t: "unat t \<in> set [0..<16]" by (simp add: word_less_nat_alt)
  have c: "otutils_encode_timeout t = of_nat (unat t)" using True by (simp add: otutils_encode_timeout_def)
  have "unat (of_nat (unat t) :: u32) = unat t"
    using t by (simp add: unat_of_nat take_bit_nat_eq_self)
  then show ?thesis using calc_timeout_small [rule_format, OF t] t unfolding e_def c by simp
next
  case False
  define q where "q = drop_bit 2 t"
  have q: "unat q = unat t div 4" unfolding q_def unat_drop_bit_eq by (simp add: drop_bit_eq_div)
  have "16 \<le> unat t" using False by (simp add: word_less_nat_alt)
  then have b: "unat q < 16384" "4 \<le> unat q" unfolding q using unat_u16_less [of t] by linarith+
  obtain k where k: "k \<in> {0, 1, 2, 3 :: nat}" "encode_loop 1 q = (of_nat (2 * k + 1), drop_bit (4 * k) q)"
    "1 \<le> unat q div 16 ^ k" "unat q div 16 ^ k \<le> 16"
    by (rule encode_loop_cases [OF b])
  define m where "m = unat q div 16 ^ k - 1"
  have dk: "unat (drop_bit (4 * k) q) = m + 1"
    unfolding unat_drop_bit_eq using k(3) by (simp add: m_def drop_bit_eq_div power_mult)
  have p: "unat q div 16 ^ k = unat t div 4 ^ (2 * k + 1)"
    unfolding q div_mult2_eq [symmetric] by (simp add: power_mult)
  have um: "unat (drop_bit (4 * k) q - 1) = m" 
    by (subst unat_sub) (simp_all add: dk word_le_nat_alt)
  then have mm: "ucast (drop_bit (4 * k) q - 1) = (of_nat m :: u8)"
    by (simp only: of_nat_unat [of "drop_bit (4 * k) q - 1", symmetric, where ?'a = "8 word"] um)
  have code: "otutils_encode_timeout t = push_bit 4 (of_nat (2 * k + 1)) + of_nat m"
    unfolding otutils_encode_timeout_def q_def [symmetric] k(2) Let_def prod.case mm using False by (rule if_not_P)
  have "m < 16" using k(3,4) by (simp add: m_def)
  note v = timeout_of_code [OF k(1) this, folded code]
  have mk: "m + 1 = unat t div 4 ^ (2 * k + 1)" using k(3) unfolding m_def p by simp
  have "unat t < 4 ^ (2 * k + 1) + (m + 1) * 4 ^ (2 * k + 1)"
    unfolding mk by (rule dividend_less_div_times) simp
  moreover have "(4 :: nat) ^ (2 * k + 1) \<le> (m + 1) * 4 ^ (2 * k + 1)" by simp
  ultimately have "unat t \<le> 2 * ((m + 1) * 4 ^ (2 * k + 1))" by linarith
  then show ?thesis using k(4) unfolding e_def v p mk by simp
qed

section \<open>Listing\<close>

text \<open>The numbers in the data: signed bytes, or signed big-endian half-words.\<close>

fun be_numbers :: "bytes \<Rightarrow> int list" where
  "be_numbers (u # l # bs) = sint (join16 l u) # be_numbers bs"
| "be_numbers _ = []"

definition data_numbers :: "char \<Rightarrow> bytes \<Rightarrow> int list" where
  "data_numbers format bs = (if format = CHR ''b'' then map sint bs else be_numbers bs)"

definition number_width :: "char \<Rightarrow> nat" where
  "number_width format = (if format = CHR ''s'' then 2 else 1)"

definition list_text :: "char \<Rightarrow> bytes \<Rightarrow> bytes" where
  "list_text format bs =
     (if format = CHR ''x'' then hex_text bs
      else if format = CHR ''b'' \<or> format = CHR ''s'' then concat (map int_text (data_numbers format bs))
      else 0x20 # bs)"

lemma mem_rd_other: "mem_wr dst xs h = Some h' \<Longrightarrow> fst dst \<noteq> fst p \<Longrightarrow> mem_rd p n h' = mem_rd p n h"
  using mem_rd_wr_apart [of dst xs h h' p n] by blast

lemma label_loop_copies:
  "mem_wr dst lab h = Some h' \<Longrightarrow> mem_rd label (length lab + 1) h = Some (lab @ [0]) \<Longrightarrow> 0 \<notin> set lab \<Longrightarrow>
   fst dst \<noteq> fst label \<Longrightarrow> label_loop label (dst, h) = Some (ptr_add dst (int (length lab)), h')"
proof (induction lab arbitrary: label dst h)
  case Nil
  have "ld8 label h = Some 0" by (rule mem_rd_Cons(1) [of label 0]) (use Nil in simp)
  then show ?case using mem_wr_Nil Nil(1) by (fastforce simp: label_loop.simps [of label])
next
  case (Cons c lab)
  note r = mem_rd_Cons [OF Cons.prems(2) [unfolded length_Cons append_Cons add_Suc]]
  obtain h1 where h1: "emit c (dst, h) = Some (ptr_add dst 1, h1)" "mem_wr (ptr_add dst 1) lab h1 = Some h'"
    using Cons.prems(1) by (rule emit_head)
  have "mem_wr dst [c] h = Some h1" using h1(1) by (auto simp: emit_def st8_def bind_eq_Some_conv)
  from mem_rd_other [OF this] have "mem_rd (ptr_add label 1) (length lab + 1) h1 = Some (lab @ [0])"
    using r(2) Cons.prems(4) by simp
  then have "label_loop (ptr_add label 1) (ptr_add dst 1, h1) = Some (ptr_add (ptr_add dst 1) (int (length lab)), h')"
    using Cons.IH [OF h1(2)] Cons.prems(3,4) by simp
  then show ?case using Cons.prems(3) r(1) h1(1) by (simp add: label_loop.simps [of label] ac_simps)
qed

lemma sint_bounds: "- 32768 \<le> sint (w :: u16)" "sint (w :: u16) < 32768"
  "- 32768 \<le> sint (b :: u8)" "sint (b :: u8) < 32768"
  using sint_greater_eq [of w] sint_less [of w] sint_greater_eq [of b] sint_less [of b] by simp_all

text \<open>One number is taken from the data.\<close>

lemma list_value_next:
  assumes "mem_rd src (number_width format * Suc n) h = Some bs" and "format = CHR ''b'' \<or> format = CHR ''s''"
  obtains v cs where "list_value format src h = Some (v, ptr_add src (int (number_width format)))"
    and "mem_rd (ptr_add src (int (number_width format))) (number_width format * n) h = Some cs"
    and "data_numbers format bs = v # data_numbers format cs" and "- 32768 \<le> v" and "v < 32768"
proof (cases "format = CHR ''b''")
  case True
  then have "mem_rd src (Suc n) h = Some bs" using assms(1) by (simp add: number_width_def)
  moreover from mem_rd_length [OF this] obtain b cs where "bs = b # cs" by (auto simp: length_Suc_conv)
  ultimately show thesis
    using that [of "sint b" cs] mem_rd_Cons [of src n h b cs] True
    by (simp add: number_width_def list_value_def data_numbers_def sint_bounds)
next
  case False
  with assms have f: "format = CHR ''s''" and r: "mem_rd src (Suc (Suc (2 * n))) h = Some bs"
    by (simp_all add: number_width_def)
  from mem_rd_length [OF r] obtain u l cs where bs: "bs = u # l # cs" by (auto simp: length_Suc_conv)
  note r1 = mem_rd_Cons [OF r [unfolded bs]]
  note r2 = mem_rd_Cons [OF r1(2)]
  show thesis
    using that [of "sint (join16 l u)" cs] r1(1) r2 f
    by (simp add: number_width_def list_value_def data_numbers_def sint_bounds bs)
qed

lemma list_loop_text:
  "mem_wr dst (concat (map int_text (data_numbers format bs))) h = Some h' \<Longrightarrow>
   mem_rd src (number_width format * n) h = Some bs \<Longrightarrow> format = CHR ''b'' \<or> format = CHR ''s'' \<Longrightarrow> n < 256 \<Longrightarrow>
   fst dst \<noteq> fst src \<Longrightarrow>
   list_loop format (of_nat n) src (dst, h)
     = Some (ptr_add dst (int (length (concat (map int_text (data_numbers format bs))))), h')"
proof (induction n arbitrary: src dst h bs)
  case 0
  then have "bs = []" using mem_rd_length by fastforce
  then show ?case using 0(1) mem_wr_Nil [of dst h h'] by (simp add: list_loop.simps data_numbers_def split: if_splits)
next
  case (Suc n)
  obtain v cs where v: "list_value format src h = Some (v, ptr_add src (int (number_width format)))"
    "mem_rd (ptr_add src (int (number_width format))) (number_width format * n) h = Some cs"
    "data_numbers format bs = v # data_numbers format cs" "- 32768 \<le> v" "v < 32768"
    by (rule list_value_next [OF Suc.prems(2,3)])
  let ?out = "concat (map int_text (data_numbers format cs))"
  from Suc.prems(1) have "mem_wr dst (int_text v @ ?out) h = Some h'" by (simp add: v(3))
  then obtain h1 where h1: "mem_wr dst (int_text v) h = Some h1"
    "mem_wr (ptr_add dst (int (length (int_text v)))) ?out h1 = Some h'" by (rule mem_wr_append)
  have "mem_rd (ptr_add src (int (number_width format))) (number_width format * n) h1 = Some cs"
    using mem_rd_other [OF h1(1)] v(2) Suc.prems(5) by simp
  from Suc.IH [OF h1(2) this Suc.prems(3)] have
    "list_loop format (of_nat n) (ptr_add src (int (number_width format))) (ptr_add dst (int (length (int_text v))), h1)
      = Some (ptr_add dst (int (length (int_text v)) + int (length ?out)), h')"
    using Suc.prems(4,5) by simp
  moreover have "0 < (of_nat (Suc n) :: u8)"
    using Suc.prems(4) by (simp add: word_less_nat_alt unat_of_nat take_bit_nat_eq_self del: of_nat_Suc)
  moreover have "of_nat (Suc n) - 1 = (of_nat n :: u8)" by simp
  ultimately show ?case
    unfolding list_loop.simps [of format "of_nat (Suc n)"] v(3)
    using v(1) int2dec_text [OF v(4,5) h1(1)] by (simp del: of_nat_Suc)
qed

text \<open>
  \<^verbatim>\<open>slistf\<close> writes the label and behind it the data in the format asked for: hexadecimal
  text, the decimal texts of the signed bytes or of the signed big-endian half-words, or a
  blank and the bytes as they are; it returns the length of what it wrote.
\<close>

theorem slistf_writes:
  assumes "mem_wr dst (lab @ list_text format bs) h = Some h'" and "mem_rd label (length lab + 1) h = Some (lab @ [0])"
    and "0 \<notin> set lab" and "mem_rd src (number_width format * unat number) h = Some bs"
    and "fst dst \<noteq> fst label" and "fst dst \<noteq> fst src" and "length (lab @ list_text format bs) < 32768"
  shows "slistf dst label format number src h = Some (int (length (lab @ list_text format bs)), h')"
proof -
  obtain h1 where h1: "mem_wr dst lab h = Some h1"
    "mem_wr (ptr_add dst (int (length lab))) (list_text format bs) h1 = Some h'"
    using assms(1) by (rule mem_wr_append)
  let ?p = "ptr_add dst (int (length lab))"
  have lab: "label_loop label (dst, h) = Some (?p, h1)"
    by (rule label_loop_copies [OF h1(1) assms(2,3,5)])
  have src: "mem_rd src (number_width format * unat number) h1 = Some bs"
    using mem_rd_other [OF h1(1) assms(6)] assms(4) by simp
  have n: "unat number < 256" using unsigned_less [where w = number and ?'a = nat] by simp
  have d: "fst ?p \<noteq> fst src" using assms(6) by simp
  have l: "number_width format \<noteq> 2 \<Longrightarrow> length bs = unat number"
    using mem_rd_length [OF src] by (simp add: number_width_def split: if_splits)
  consider "format = CHR ''x''" | "format = CHR ''b'' \<or> format = CHR ''s''"
    | "format \<noteq> CHR ''x''" "format \<noteq> CHR ''b''" "format \<noteq> CHR ''s''" by blast
  then show ?thesis
  proof cases
    case 1
    then have b: "length bs = unat number" using l by (simp add: number_width_def)
    have "otutils_bin2hex ?p src (uint number) h1 = Some (int (length (hex_text bs)), h')"
      unfolding uint_nat b [symmetric] by (rule bin2hex_text) (use h1(2) src d n b 1 in \<open>simp_all add: list_text_def number_width_def\<close>)
    then show ?thesis using 1 assms(7) by (simp add: slistf_def lab list_text_def del: length_hex_text)
  next
    case 2
    then have f: "format \<noteq> CHR ''x''" by auto
    have t: "list_text format bs = concat (map int_text (data_numbers format bs))" using 2 by (auto simp: list_text_def)
    from list_loop_text [OF h1(2) [unfolded t] src 2 n d]
    have "list_loop format number src (?p, h1) = Some (ptr_add ?p (int (length (list_text format bs))), h')"
      unfolding t by simp
    then show ?thesis using 2 f assms(7) by (simp add: slistf_def lab)
  next
    case 3
    then have b: "length bs = unat number" and t: "list_text format bs = 0x20 # bs"
      using l by (simp_all add: number_width_def list_text_def)
    obtain h2 where h2: "emit 0x20 (?p, h1) = Some (ptr_add ?p 1, h2)" "mem_wr (ptr_add ?p 1) bs h2 = Some h'"
      using h1(2) unfolding t by (rule emit_head)
    have "mem_wr ?p [0x20] h1 = Some h2" using h2(1) by (auto simp: emit_def st8_def bind_eq_Some_conv)
    from mem_rd_other [OF this d] have "mem_rd src (unat number) h2 = Some bs"
      using src 3 by (simp add: number_width_def)
    then have "ot_memcpy (ptr_add ?p 1) src (ucast number) h2 = Some h'"
      using h2(2) d mem_wr_Nil [of "ptr_add ?p 1" h2 h'] b
      by (cases "bs = []") (auto simp: ot_memcpy_def apart_def unat_eq_0 dest!: arg_cong [where f = unat])
    moreover have "uint number = int (length bs)" unfolding uint_nat b ..
    ultimately show ?thesis using 3 h2(1) assms(7) t by (simp add: slistf_def lab)
  qed
qed

theorem slistf_writes_witness:
  "\<exists>h'. slistf (0, 0) (1, 0) CHR ''s'' 2 (1, 2) [0 \<mapsto> replicate 9 0, 1 \<mapsto> [0x74, 0, 0xFF, 0xFE, 0, 0x15]] = Some (7, h')
    \<and> h' 0 = Some (map of_char ''t -2 21'' @ [0, 0])"
proof -
  define h :: mem where "h = [0 \<mapsto> replicate 9 0, 1 \<mapsto> [0x74, 0, 0xFF, 0xFE, 0, 0x15]]"
  define h' where "h' = h(0 \<mapsto> map of_char ''t -2 21'' @ [0, 0])"
  have t: "list_text CHR ''s'' [0xFF, 0xFE, 0, 0x15] = map of_char '' -2 21''"
    by (simp add: list_text_def data_numbers_def int_text_def dec_text_def asc_def dec_digits.simps join16_def)
  have w: "mem_wr (0, 0) ([0x74] @ list_text CHR ''s'' [0xFF, 0xFE, 0, 0x15]) h = Some h'"
    unfolding t h'_def by (simp add: mem_wr_def wr_bytes_def h_def numeral_eq_Suc)
  have l: "mem_rd (1, 0) (length [0x74 :: u8] + 1) h = Some ([0x74] @ [0])"
    by (simp add: mem_rd_def rd_bytes_def h_def)
  have r: "mem_rd (1, 2) (number_width CHR ''s'' * unat (2 :: u8)) h = Some [0xFF, 0xFE, 0, 0x15]"
    by (simp add: mem_rd_def rd_bytes_def h_def number_width_def)
  show ?thesis
    using slistf_writes [OF w l _ r] unfolding h_def [symmetric] t by (simp add: h'_def)
qed

end
