(* ===== verification/Ot_Crypto.thy ===== *)
theory Ot_Crypto
  imports Ot_Queue Ot_Auth
begin

text \<open>
  Encryption: the EAX wrapper of \<^verbatim>\<open>otlib/crypto.c\<close> with the driver functions of
  \<^verbatim>\<open>platform/posix_c/otlib_eax.c\<close>, and the functions of \<^verbatim>\<open>otlib/auth.c\<close> that encrypt data and
  queues with a key of the table.

  The OTEAX library is not code of the repository. Its functions are the fields of the record
  \<open>eax\<close>, an argument of the operations, on the bytes they are documented to work on: a nonce of
  7 bytes, a message encrypted in place, and a tag of 4 bytes behind it. \<open>eax_laws\<close> is what the
  code relies on: the lengths, and that decryption undoes encryption.
\<close>

section \<open>The driver\<close>

record eax =
  eax_init_and_key :: "bytes \<Rightarrow> int \<times> bytes"
  eax_encrypt_message :: "bytes \<Rightarrow> bytes \<Rightarrow> bytes \<Rightarrow> int \<times> bytes"
  eax_decrypt_message :: "bytes \<Rightarrow> bytes \<Rightarrow> bytes \<Rightarrow> int \<times> bytes"

definition eax_laws :: "eax \<Rightarrow> bool" where
  "eax_laws X \<longleftrightarrow>
     (\<forall>n m c. length (snd (eax_encrypt_message X n m c)) = length m + 4)
     \<and> (\<forall>n m c. length (snd (eax_decrypt_message X n m c)) = length m - 4)
     \<and> (\<forall>n m c e. eax_encrypt_message X n m c = (0, e) \<longrightarrow> eax_decrypt_message X n e c = (0, m))"

definition EAXdrv_init :: "eax \<Rightarrow> ptr \<Rightarrow> mem \<Rightarrow> (int \<times> bytes) option" where
  "EAXdrv_init X key h = do { k \<leftarrow> mem_rd key 16 h; Some (eax_init_and_key X k) }"

text \<open>The length is that of the message; the tag follows it.\<close>

type_synonym eax_fn = "ptr \<Rightarrow> ptr \<Rightarrow> u16 \<Rightarrow> bytes \<Rightarrow> mem \<Rightarrow> (int \<times> mem) option"

definition EAXdrv_encrypt :: "eax \<Rightarrow> eax_fn" where
  "EAXdrv_encrypt X nonce data datalen context h = do {
     n \<leftarrow> mem_rd nonce 7 h;
     m \<leftarrow> mem_rd data (unat datalen) h;
     let (rc, c) = eax_encrypt_message X n m context;
     h \<leftarrow> mem_wr data c h;
     Some (rc, h)
   }"

definition EAXdrv_decrypt :: "eax \<Rightarrow> eax_fn" where
  "EAXdrv_decrypt X nonce data datalen context h = do {
     n \<leftarrow> mem_rd nonce 7 h;
     c \<leftarrow> mem_rd data (unat datalen + 4) h;
     let (rc, m) = eax_decrypt_message X n c context;
     h \<leftarrow> mem_wr data m h;
     Some (rc, h)
   }"

section \<open>The wrapper\<close>

definition EAX_crypt :: "eax \<Rightarrow> eax_fn \<Rightarrow> ptr option \<Rightarrow> ptr \<Rightarrow> u16 \<Rightarrow> ptr \<Rightarrow> ptr \<Rightarrow> mem \<Rightarrow> (int \<times> mem) option" where
  "EAX_crypt X crypt dst src srclen nonce key h = do {
     (retval, context) \<leftarrow> EAXdrv_init X key h;
     if retval = 0 then do {
       h \<leftarrow> (case dst of
               None \<Rightarrow> Some h
             | Some d \<Rightarrow> if d \<noteq> src \<and> srclen \<noteq> 0 then ot_memcpy d src srclen h else Some h);
       d \<leftarrow> dst;
       (rc, h) \<leftarrow> crypt nonce d srclen context h;
       if rc = 0 then Some (4, h) else Some (retval - 1, h)
     } else Some (retval, h)
   }"

definition EAX_encrypt :: "eax \<Rightarrow> ptr option \<Rightarrow> ptr \<Rightarrow> u16 \<Rightarrow> ptr \<Rightarrow> ptr \<Rightarrow> mem \<Rightarrow> (int \<times> mem) option" where
  "EAX_encrypt X dst src srclen nonce key h = EAX_crypt X (EAXdrv_encrypt X) dst src srclen nonce key h"

definition EAX_decrypt :: "eax \<Rightarrow> ptr option \<Rightarrow> ptr \<Rightarrow> u16 \<Rightarrow> ptr \<Rightarrow> ptr \<Rightarrow> mem \<Rightarrow> (int \<times> mem) option" where
  "EAX_decrypt X dst src srclen nonce key h = EAX_crypt X (EAXdrv_decrypt X) dst src srclen nonce key h"

section \<open>Encryption with a key of the table\<close>

definition sub_do_crypto ::
  "eax_fn \<Rightarrow> ptr \<Rightarrow> ptr \<Rightarrow> u16 \<Rightarrow> u16 \<Rightarrow> 'a auth_state_scheme \<Rightarrow> mem \<Rightarrow> (int \<times> mem) option" where
  "sub_do_crypto EAXdrv_fn nonce data datalen key_index s h =
     (if dlls_size s \<le> key_index then Some (-1, h)
      else if unat key_index < length (dlls_ctx s) then do {
        (retval, h) \<leftarrow> EAXdrv_fn nonce data datalen (dlls_ctx s ! unat key_index) h;
        Some (if retval \<noteq> 0 then -2 else 4, h)
      } else None)"

definition auth_encrypt ::
  "eax \<Rightarrow> ptr \<Rightarrow> ptr \<Rightarrow> u16 \<Rightarrow> u16 \<Rightarrow> 'a auth_state_scheme \<Rightarrow> mem \<Rightarrow> (int \<times> mem) option" where
  "auth_encrypt X nonce data datalen key_index s h =
     sub_do_crypto (EAXdrv_encrypt X) nonce data datalen key_index s h"

definition auth_decrypt ::
  "eax \<Rightarrow> ptr \<Rightarrow> ptr \<Rightarrow> u16 \<Rightarrow> u16 \<Rightarrow> 'a auth_state_scheme \<Rightarrow> mem \<Rightarrow> (int \<times> mem) option" where
  "auth_decrypt X nonce data datalen key_index s h =
     sub_do_crypto (EAXdrv_decrypt X) nonce data (datalen - 4) key_index s h"

definition sub_crypt_q ::
  "eax \<Rightarrow> u16 \<Rightarrow> bool \<Rightarrow> 'a auth_state_scheme \<Rightarrow> qmem \<Rightarrow> (int \<times> qmem) option" where
  "sub_crypt_q X key_index enc s qh = (case qh of (q, h) \<Rightarrow> do {
     let (nonce, q) = q_markbyte q 7;
     span \<leftarrow> q_span q;
     let len = to_ot_uint span;
     let data = q_getcursor q;
     let EAXdrv_fn = (if enc then EAXdrv_encrypt X else EAXdrv_decrypt X);
     let len = (if enc then len else len - 4);
     (rc, h) \<leftarrow> sub_do_crypto EAXdrv_fn nonce data len key_index s h;
     Some (rc, q, h)
   })"

definition auth_encrypt_q :: "eax \<Rightarrow> u16 \<Rightarrow> 'a auth_state_scheme \<Rightarrow> qmem \<Rightarrow> (int \<times> qmem) option" where
  "auth_encrypt_q X key_index s qh = do {
     let saved_get = q_getcursor (fst qh);
     (tag_size, q, h) \<leftarrow> sub_crypt_q X key_index True s qh;
     let q = q\<lparr>q_getcursor := saved_get\<rparr>;
     let q = (if 0 < tag_size then q\<lparr>q_putcursor := ptr_add (q_putcursor q) tag_size\<rparr> else q);
     Some (tag_size, q, h)
   }"

definition auth_decrypt_q :: "eax \<Rightarrow> u16 \<Rightarrow> 'a auth_state_scheme \<Rightarrow> qmem \<Rightarrow> (int \<times> qmem) option" where
  "auth_decrypt_q X key_index s qh = do {
     (tag_size, q, h) \<leftarrow> sub_crypt_q X key_index False s qh;
     let q = (if 0 < tag_size
              then q\<lparr>q_putcursor := ptr_add (q_putcursor q) (- tag_size), q_back := ptr_add (q_back q) (- tag_size)\<rparr>
              else q);
     Some (tag_size, q, h)
   }"

text \<open>\<^verbatim>\<open>write_bytes\<close> is computed but not used: four bytes are written in any case.\<close>

definition auth_putnonce_q :: "u16 \<Rightarrow> 'a auth_state_scheme \<Rightarrow> qmem \<Rightarrow> (qmem \<times> 'a auth_state_scheme) option" where
  "auth_putnonce_q total_size s qh = (case qh of (q, h) \<Rightarrow> do {
     let pad_bytes = sint (total_size - 4);
     let q = (if 0 < pad_bytes then q\<lparr>q_putcursor := ptr_add (q_putcursor q) pad_bytes\<rparr> else q);
     let output_nonce = dlls_nonce s;
     let s = s\<lparr>dlls_nonce := dlls_nonce s + 1\<rparr>;
     qh \<leftarrow> q_writelong_be output_nonce (q, h);
     Some (qh, s)
   })"

section \<open>What the driver does to the memory\<close>

lemma EAXdrv_encrypt_writes:
  assumes "mem_rd nonce 7 h = Some n" and "mem_rd data (unat len) h = Some m"
    and "eax_encrypt_message X n m c = (rc, e)" and "mem_wr data e h = Some h'"
  shows "EAXdrv_encrypt X nonce data len c h = Some (rc, h')"
  using assms by (simp add: EAXdrv_encrypt_def)

lemma EAXdrv_decrypt_writes:
  assumes "mem_rd nonce 7 h = Some n" and "mem_rd data (unat len + 4) h = Some e"
    and "eax_decrypt_message X n e c = (rc, m)" and "mem_wr data m h = Some h'"
  shows "EAXdrv_decrypt X nonce data len c h = Some (rc, h')"
  using assms by (simp add: EAXdrv_decrypt_def)

lemma eax_length:
  "eax_laws X \<Longrightarrow> eax_encrypt_message X n m c = (rc, e) \<Longrightarrow> length e = length m + 4"
  "eax_laws X \<Longrightarrow> eax_decrypt_message X n e c = (rc, m) \<Longrightarrow> length m = length e - 4"
  unfolding eax_laws_def by (metis snd_conv)+

lemma eax_undo:
  "eax_laws X \<Longrightarrow> eax_encrypt_message X n m c = (0, e) \<Longrightarrow> eax_decrypt_message X n e c = (0, m)"
  unfolding eax_laws_def by blast

section \<open>Queues\<close>

text \<open>A queue that holds a nonce and a message, as the drivers see it.\<close>

lemma q_content_split:
  assumes "q_ok (q, h)" and "q_content (q, h) = xs @ ys"
  shows "mem_rd (q_getcursor q) (length xs) h = Some xs"
    and "mem_rd (ptr_add (q_getcursor q) (int (length xs))) (length ys) h = Some ys"
    and "q_count q = length xs + length ys"
proof -
  show n: "q_count q = length xs + length ys" using q_content_rd(2) [OF assms(1)] assms(2) by simp
  have "mem_rd (q_getcursor q) (length xs + length ys) h = Some (xs @ ys)"
    using q_content_rd(1) [OF assms(1)] unfolding n assms(2) .
  from mem_rd_take [OF this, of "length xs"]
  show "mem_rd (q_getcursor q) (length xs) h = Some xs"
    "mem_rd (ptr_add (q_getcursor q) (int (length xs))) (length ys) h = Some ys" by simp_all
qed

lemma q_shrink:
  assumes ok: "q_ok (q, h)" and c: "q_content (q, h) = xs @ ys"
  defines "q' \<equiv> q\<lparr>q_putcursor := ptr_add (q_putcursor q) (- int (length ys)),
    q_back := ptr_add (q_back q) (- int (length ys))\<rparr>"
  shows "q_ok (q', h)" and "q_content (q', h) = xs" and "q_room (q', h) = q_room (q, h)"
proof -
  note n = q_content_split [OF ok c]
  then have cnt: "q_count q' = length xs" using ok by (auto simp: q'_def q_count_def q_ok_def)
  have "accessible (q_front q) (nat (snd (q_back q) - int (length ys) - snd (q_front q))) h"
    using ok by (auto simp: q_ok_def intro: accessible_part)
  then show "q_ok (q', h)" using ok n(3) by (auto simp: q'_def q_ok_def q_count_def)
  show "q_content (q', h) = xs" using n(1) by (simp add: q_content_def cnt) (simp add: q'_def)
  show "q_room (q', h) = q_room (q, h)" by (simp add: q'_def q_room_def)
qed

text \<open>The message is as long as the queue says.\<close>

lemma q_span_rest:
  assumes "q_ok (q, h)" and "q_small q" and "q_content (q, h) = n @ m"
  shows "q_span (q\<lparr>q_getcursor := ptr_add (q_getcursor q) (int (length n))\<rparr>) = Some (int (length m))"
    and "length m < 32768"
proof -
  let ?q = "q\<lparr>q_getcursor := ptr_add (q_getcursor q) (int (length n))\<rparr>"
  note a = q_advance_get [OF assms(1,3)]
  have "q_small ?q" using assms(2) by (simp add: q_small_def)
  from q_spaces(3) [OF a(1) this] q_content_rd(2) [OF a(1)] a(2)
  show "q_span ?q = Some (int (length m))" by simp
  show "length m < 32768" using q_content_split(3) [OF assms(1,3)] assms(1,2)
    by (auto simp: q_ok_def q_small_def q_count_def)
qed

lemma auth_encrypt_q_works:
  assumes X: "eax_laws X" and ok: "q_ok (q, h)" and sm: "q_small q" and c: "q_content (q, h) = n @ m"
    and n: "length n = 7" and room: "4 \<le> q_room (q, h)"
    and k: "key_index < dlls_size s" "unat key_index < length (dlls_ctx s)"
    and e: "eax_encrypt_message X n m (dlls_ctx s ! unat key_index) = (0, e)"
  obtains h' where "auth_encrypt_q X key_index s (q, h) = Some (4, q\<lparr>q_putcursor := ptr_add (q_putcursor q) 4\<rparr>, h')"
    and "q_ok (q\<lparr>q_putcursor := ptr_add (q_putcursor q) 4\<rparr>, h')"
    and "q_content (q\<lparr>q_putcursor := ptr_add (q_putcursor q) 4\<rparr>, h') = n @ e"
proof -
  let ?q = "q\<lparr>q_putcursor := ptr_add (q_putcursor q) (int 4)\<rparr>"
  note r = q_content_split [OF ok c] and sp = q_span_rest [OF ok sm c]
  obtain junk where j: "q_ok (?q, h)" "q_content (?q, h) = n @ (m @ junk) @ []" "length junk = 4"
    using q_advance_put [OF ok room] c by auto
  have "length e = length (m @ junk)" using eax_length(1) [OF X e] j(3) by simp
  from q_overwrite [OF j(1,2) this] obtain h' where
    h': "mem_wr (ptr_add (q_getcursor q) (int (length n))) e h = Some h'" "q_ok (?q, h')" "q_content (?q, h') = n @ e"
    by auto
  have u: "unat (to_ot_uint (int (length m))) = length m" using sp(2) by (simp add: unat_to_ot_uint)
  have "EAXdrv_encrypt X (q_getcursor q) (ptr_add (q_getcursor q) 7) (to_ot_uint (int (length m)))
      (dlls_ctx s ! unat key_index) h = Some (0, h')"
    by (rule EAXdrv_encrypt_writes [OF _ _ e]) (use r(1,2) h'(1) n in \<open>simp_all add: u\<close>)
  then have "auth_encrypt_q X key_index s (q, h) = Some (4, ?q, h')"
    using sp(1) k n
    by (simp add: auth_encrypt_q_def sub_crypt_q_def q_markbyte_def sub_do_crypto_def not_le Let_def)
  then show thesis using that h'(2,3) by simp
qed

lemma auth_decrypt_q_works:
  assumes X: "eax_laws X" and ok: "q_ok (q, h)" and sm: "q_small q" and c: "q_content (q, h) = n @ e"
    and n: "length n = 7" and l: "4 \<le> length e"
    and k: "key_index < dlls_size s" "unat key_index < length (dlls_ctx s)"
    and m: "eax_decrypt_message X n e (dlls_ctx s ! unat key_index) = (rc, m)"
  defines "q1 \<equiv> q\<lparr>q_getcursor := ptr_add (q_getcursor q) 7\<rparr>"
  obtains h' where "auth_decrypt_q X key_index s (q, h) =
      Some (if rc = 0 then 4 else -2,
        if rc = 0 then q1\<lparr>q_putcursor := ptr_add (q_putcursor q1) (-4), q_back := ptr_add (q_back q1) (-4)\<rparr> else q1, h')"
    and "q_ok (q1, h')" and "q_content (q1, h') = m @ drop (length m) e"
proof -
  note r = q_content_split [OF ok c] and sp = q_span_rest [OF ok sm c]
  have lm: "length m = length e - 4" by (rule eax_length(2) [OF X m])
  have c': "q_content (q, h) = n @ take (length m) e @ drop (length m) e" using c by simp
  have "length m = length (take (length m) e)" using lm by simp
  from q_overwrite [OF ok c' this] obtain h' where
    h': "mem_wr (ptr_add (q_getcursor q) (int (length n))) m h = Some h'" "q_ok (q, h')"
      "q_content (q, h') = n @ m @ drop (length m) e" .
  have u: "unat (to_ot_uint (int (length e)) - 4) = length e - 4"
    using sp(2) l by (subst unat_sub) (simp_all add: unat_to_ot_uint word_le_nat_alt)
  have "EAXdrv_decrypt X (q_getcursor q) (ptr_add (q_getcursor q) 7) (to_ot_uint (int (length e)) - 4)
      (dlls_ctx s ! unat key_index) h = Some (rc, h')"
    by (rule EAXdrv_decrypt_writes [OF _ _ m]) (use r(1,2) h'(1) n l in \<open>simp_all add: u\<close>)
  then have "auth_decrypt_q X key_index s (q, h) =
      Some (if rc = 0 then 4 else -2,
        if rc = 0 then q1\<lparr>q_putcursor := ptr_add (q_putcursor q1) (-4), q_back := ptr_add (q_back q1) (-4)\<rparr> else q1, h')"
    using sp(1) k n
    by (simp add: auth_decrypt_q_def sub_crypt_q_def q_markbyte_def sub_do_crypto_def not_le Let_def q1_def)
  moreover have "q_ok (q1, h')" "q_content (q1, h') = m @ drop (length m) e"
    using q_advance_get [OF h'(2,3)] n by (simp_all add: q1_def)
  ultimately show thesis by (rule that)
qed

text \<open>A driver that satisfies the laws: a cipher by exclusive or with a checksum as the tag.\<close>

definition demo_tag :: "bytes \<Rightarrow> bytes \<Rightarrow> bytes" where
  "demo_tag n m = replicate 4 (fold (XOR) (n @ m) 0)"

definition demo_eax :: eax where
  "demo_eax = \<lparr>eax_init_and_key = (\<lambda>k. (0, k)),
     eax_encrypt_message = (\<lambda>n m c. (0, map (\<lambda>b. b XOR fold (XOR) c 0x55) m @ demo_tag n m)),
     eax_decrypt_message = (\<lambda>n e c.
       let m = map (\<lambda>b. b XOR fold (XOR) c 0x55) (take (length e - 4) e)
       in if drop (length e - 4) e = demo_tag n m then (0, m) else (1, m))\<rparr>"

lemma demo_eax_laws: "eax_laws demo_eax"
  by (auto simp: eax_laws_def demo_eax_def demo_tag_def Let_def comp_def xor.assoc)

definition demo_cq :: "bytes \<Rightarrow> qmem" where
  "demo_cq bs = (\<lparr>q_alloc = 20, q_options = 0, q_getcursor = (0, 0), q_putcursor = (0, int (length bs)),
     q_front = (0, 0), q_back = (0, 20)\<rparr>, [0 \<mapsto> bs @ replicate (20 - length bs) 0])"

lemma demo_cq_ok:
  assumes "length bs \<le> 20"
  shows "q_ok (demo_cq bs)" and "q_content (demo_cq bs) = bs" and "q_small (fst (demo_cq bs))"
    and "q_room (demo_cq bs) = 20 - length bs"
  using assms
  by (simp_all add: demo_cq_def q_ok_def q_content_def q_count_def q_small_def q_room_def accessible_def
      mem_rd_def rd_bytes_def nat_diff_distrib')

text \<open>
  C15. A queue that holds a nonce of 7 bytes and a message, encrypted with a key of the table,
  holds the nonce, the ciphertext and its tag; decrypting it with the same key leaves the
  message as the unread content. The tag of 4 bytes is taken from the room of the queue, and
  decryption takes the same 4 bytes off its end, so the room does not come back.
\<close>

theorem auth_queue_roundtrip:
  assumes "eax_laws X" and "q_ok (q, h)" and "q_small q" and "q_content (q, h) = n @ m"
    and "length n = 7" and "4 \<le> q_room (q, h)"
    and "key_index < dlls_size s" and "unat key_index < length (dlls_ctx s)"
    and "eax_encrypt_message X n m (dlls_ctx s ! unat key_index) = (0, e)"
  shows "\<exists>q1 h1 q2 h2. auth_encrypt_q X key_index s (q, h) = Some (4, q1, h1)
    \<and> q_content (q1, h1) = n @ e \<and> q_room (q1, h1) = q_room (q, h) - 4
    \<and> auth_decrypt_q X key_index s (q1, h1) = Some (4, q2, h2)
    \<and> q_ok (q2, h2) \<and> q_content (q2, h2) = m \<and> q_room (q2, h2) = q_room (q, h) - 4
    \<and> q_back q2 = ptr_add (q_back q) (-4)"
proof -
  let ?q = "q\<lparr>q_putcursor := ptr_add (q_putcursor q) 4\<rparr>"
  let ?q1 = "?q\<lparr>q_getcursor := ptr_add (q_getcursor ?q) 7\<rparr>"
  obtain h1 where h1: "auth_encrypt_q X key_index s (q, h) = Some (4, ?q, h1)" "q_ok (?q, h1)" "q_content (?q, h1) = n @ e"
    by (rule auth_encrypt_q_works [OF assms])
  have r: "q_room (?q, h1) = q_room (q, h) - 4" by (simp add: q_room_def)
  have le: "length e = length m + 4" by (rule eax_length(1) [OF assms(1,9)])
  have "q_small ?q" using assms(3) by (simp add: q_small_def)
  from auth_decrypt_q_works [OF assms(1) h1(2) this h1(3) assms(5) _ assms(7,8) eax_undo [OF assms(1,9)]] le
  obtain h2 where h2: "auth_decrypt_q X key_index s (?q, h1) =
      Some (4, ?q1\<lparr>q_putcursor := ptr_add (q_putcursor ?q1) (-4), q_back := ptr_add (q_back ?q1) (-4)\<rparr>, h2)"
    "q_ok (?q1, h2)" "q_content (?q1, h2) = m @ drop (length m) e"
    by auto
  have d: "int (length (drop (length m) e)) = 4" using le by simp
  note sh = q_shrink [OF h2(2,3), unfolded d]
  have "q_room (?q1, h2) = q_room (q, h) - 4" by (simp add: q_room_def)
  with sh show ?thesis using h1 h2(1) r by (intro exI conjI) (assumption | simp)+
qed

theorem auth_queue_roundtrip_witness:
  "\<exists>q1 h1 q2 h2. auth_encrypt_q demo_eax 1 demo_auth (demo_cq [1, 2, 3, 4, 5, 6, 7, 0xAA, 0xBB]) = Some (4, q1, h1)
    \<and> q_content (q1, h1) = [1, 2, 3, 4, 5, 6, 7, 0xFF, 0xEE, 0x11, 0x11, 0x11, 0x11]
    \<and> auth_decrypt_q demo_eax 1 demo_auth (q1, h1) = Some (4, q2, h2) \<and> q_content (q2, h2) = [0xAA, 0xBB]"
proof -
  let ?m = "[1, 2, 3, 4, 5, 6, 7, 0xAA, 0xBB] :: bytes"
  have e: "eax_encrypt_message demo_eax [1, 2, 3, 4, 5, 6, 7] [0xAA, 0xBB] (dlls_ctx demo_auth ! unat (1 :: u16))
      = (0, [0xFF, 0xEE, 0x11, 0x11, 0x11, 0x11])"
    by (simp add: demo_eax_def demo_tag_def demo_auth_def numeral_eq_Suc)
  have c: "q_content (fst (demo_cq ?m), snd (demo_cq ?m)) = [1, 2, 3, 4, 5, 6, 7] @ [0xAA, 0xBB]"
    by (simp add: demo_cq_ok)
  show ?thesis
    using auth_queue_roundtrip [OF demo_eax_laws _ demo_cq_ok(3) c _ _ _ _ e]
    by (auto simp: demo_cq_ok demo_auth_def)
qed

text \<open>
  C16. Refused decryption: an index without a key gives -1, a message whose tag is wrong gives
  -2; in both cases the length of the queue stays, but the nonce has been taken from its front,
  and with a wrong tag the message is overwritten by what the driver left.
\<close>

theorem auth_decrypt_q_refuses:
  assumes "eax_laws X" and "q_ok (q, h)" and "q_small q" and "q_content (q, h) = n @ e"
    and "length n = 7" and "4 \<le> length e"
  defines "q1 \<equiv> q\<lparr>q_getcursor := ptr_add (q_getcursor q) 7\<rparr>"
  shows "(dlls_size s \<le> key_index \<longrightarrow>
      auth_decrypt_q X key_index s (q, h) = Some (-1, q1, h) \<and> q_content (q1, h) = e)
    \<and> (key_index < dlls_size s \<and> unat key_index < length (dlls_ctx s)
      \<and> eax_decrypt_message X n e (dlls_ctx s ! unat key_index) = (rc, m) \<and> rc \<noteq> 0 \<longrightarrow>
        (\<exists>h'. auth_decrypt_q X key_index s (q, h) = Some (-2, q1, h') \<and> q_content (q1, h') = m @ drop (length m) e))"
proof (intro conjI impI)
  assume "dlls_size s \<le> key_index"
  then show "auth_decrypt_q X key_index s (q, h) = Some (-1, q1, h)"
    using q_span_rest(1) [OF assms(2-4)] assms(5)
    by (simp add: auth_decrypt_q_def sub_crypt_q_def q_markbyte_def sub_do_crypto_def Let_def q1_def)
  show "q_content (q1, h) = e" using q_advance_get(2) [OF assms(2,4)] assms(5) by (simp add: q1_def)
next
  assume a: "key_index < dlls_size s \<and> unat key_index < length (dlls_ctx s)
      \<and> eax_decrypt_message X n e (dlls_ctx s ! unat key_index) = (rc, m) \<and> rc \<noteq> 0"
  obtain h' where "auth_decrypt_q X key_index s (q, h) = Some (-2, q1, h')" "q_content (q1, h') = m @ drop (length m) e"
    using auth_decrypt_q_works [OF assms(1-6), of key_index s rc m] a unfolding q1_def by auto
  then show "\<exists>h'. auth_decrypt_q X key_index s (q, h) = Some (-2, q1, h') \<and> q_content (q1, h') = m @ drop (length m) e"
    by blast
qed

theorem auth_decrypt_q_refuses_witness:
  "\<exists>q1 h'. auth_decrypt_q demo_eax 1 demo_auth (demo_cq [1, 2, 3, 4, 5, 6, 7, 0xFF, 0, 0, 0, 0]) = Some (-2, q1, h')
    \<and> q_content (q1, h') = [0xAA, 0, 0, 0, 0]"
proof -
  let ?m = "[1, 2, 3, 4, 5, 6, 7, 0xFF, 0, 0, 0, 0] :: bytes"
  have e: "eax_decrypt_message demo_eax [1, 2, 3, 4, 5, 6, 7] [0xFF, 0, 0, 0, 0] (dlls_ctx demo_auth ! unat (1 :: u16))
      = (1, [0xAA])"
  proof -
    have k: "dlls_ctx demo_auth ! unat (1 :: u16) = [0]" by (simp add: demo_auth_def)
    show ?thesis unfolding k by code_simp
  qed
  have c: "q_content (fst (demo_cq ?m), snd (demo_cq ?m)) = [1, 2, 3, 4, 5, 6, 7] @ [0xFF, 0, 0, 0, 0]"
    by (simp add: demo_cq_ok)
  show ?thesis
    using auth_decrypt_q_refuses [OF demo_eax_laws _ demo_cq_ok(3) c, of demo_auth 1 1 "[0xAA]"] e
    by (auto simp: demo_cq_ok demo_auth_def)
qed

text \<open>
  The bounds the queue functions do not check: encrypting a queue with less than 4 bytes of
  room at the end of its block writes the tag past the block; a queue that holds less than the
  nonce of 7 bytes and the tag of 4 gives decryption a length that wraps around, and it reads
  past its block; both are undefined.
\<close>

theorem auth_crypt_q_overruns:
  assumes "eax_laws X" and "q_ok (q, h)" and "q_small q" and "h (fst (q_front q)) = Some blk" and "length blk < 65528"
    and "key_index < dlls_size s"
  shows "(7 \<le> q_count q \<and> q_room (q, h) < 4 \<and> snd (q_back q) = int (length blk) \<longrightarrow>
      auth_encrypt_q X key_index s (q, h) = None)
    \<and> (q_count q < 11 \<longrightarrow> auth_decrypt_q X key_index s (q, h) = None)"
proof -
  let ?d = "ptr_add (q_getcursor q) 7" and ?q1 = "q\<lparr>q_getcursor := ptr_add (q_getcursor q) 7\<rparr>"
  have blk: "h (fst ?d) = Some blk" and pos: "0 \<le> snd ?d" and fr: "0 \<le> snd (q_front q)"
    using assms(2,4) by (auto simp: q_ok_def accessible_def)
  have sp: "q_span ?q1 = Some (int (q_count q) - 7)"
    using assms(2,3) by (auto simp: q_span_def ptr_diff_def q_ok_def q_small_def q_count_def)
  have cnt: "q_count q < 32768" using assms(2,3) by (auto simp: q_ok_def q_small_def q_count_def)
  show ?thesis
  proof (intro conjI impI)
    assume a: "7 \<le> q_count q \<and> q_room (q, h) < 4 \<and> snd (q_back q) = int (length blk)"
    let ?len = "to_ot_uint (int (q_count q) - 7)"
    have u: "unat ?len = q_count q - 7" using a cnt by (subst unat_to_ot_uint) auto
    have "\<not> accessible ?d (q_count q - 7 + 4) h"
      using a assms(2) blk by (auto simp: accessible_def q_ok_def q_room_def q_count_def)
    then have "mem_wr ?d e h = None" if "length e = q_count q - 7 + 4" for e
      using that mem_wr_Some [of ?d e h] by auto
    then have "mem_wr ?d (snd (eax_encrypt_message X n m c)) h = None" if "length m = q_count q - 7" for n m c
      using that eax_length(1) [OF assms(1), of n m c] by (cases "eax_encrypt_message X n m c") simp
    then have "EAXdrv_encrypt X (q_getcursor q) ?d ?len c h = None" for c
      by (auto simp: EAXdrv_encrypt_def u split_def split: Option.bind_split dest: mem_rd_length)
    then show "auth_encrypt_q X key_index s (q, h) = None"
      using assms(6) sp by (simp add: auth_encrypt_q_def sub_crypt_q_def q_markbyte_def sub_do_crypto_def not_le Let_def)
  next
    assume a: "q_count q < 11"
    let ?len = "to_ot_uint (int (q_count q) - 7) - 4"
    have "?len = word_of_int (int (q_count q) - 11 + 65536)" by (simp add: to_ot_uint_def)
    then have "uint ?len = int (q_count q) + 65525"
      using a by (simp only: uint_word_of_int) (simp add: take_bit_eq_mod)
    then have u: "unat ?len = q_count q + 65525" by (simp add: unat_eq_nat_uint)
    have "\<not> accessible ?d (unat ?len + 4) h" using blk pos assms(5) unfolding u by (auto simp: accessible_def)
    then have "mem_rd ?d (unat ?len + 4) h = None" using mem_rd_Some [of ?d "unat ?len + 4" h] by auto
    then have "EAXdrv_decrypt X (q_getcursor q) ?d ?len c h = None" for c
      by (simp add: EAXdrv_decrypt_def bind_eq_None_conv)
    then show "auth_decrypt_q X key_index s (q, h) = None"
      using assms(6) sp by (simp add: auth_decrypt_q_def sub_crypt_q_def q_markbyte_def sub_do_crypto_def not_le Let_def)
  qed
qed

theorem auth_crypt_q_overruns_witness:
  "auth_decrypt_q demo_eax 1 demo_auth (demo_cq [1, 2, 3, 4, 5, 6, 7, 0xFF, 0, 0]) = None
   \<and> auth_encrypt_q demo_eax 1 demo_auth (demo_cq (replicate 18 0)) = None"
proof -
  let ?a = "[1, 2, 3, 4, 5, 6, 7, 0xFF, 0, 0] :: bytes" and ?b = "replicate 18 0 :: bytes"
  have "q_ok (fst (demo_cq bs), snd (demo_cq bs))" "q_small (fst (demo_cq bs))"
    "snd (demo_cq bs) (fst (q_front (fst (demo_cq bs)))) = Some (bs @ replicate (20 - length bs) 0)"
    "length (bs @ replicate (20 - length bs) 0) < 65528"
    if "length bs \<le> 20" for bs
    using demo_cq_ok [OF that] that by (simp_all add: demo_cq_def)
  note w = auth_crypt_q_overruns [OF demo_eax_laws this, of _ 1 demo_auth]
  have n: "q_count (fst (demo_cq bs)) = length bs" "q_back (fst (demo_cq bs)) = (0, 20)" for bs
    by (simp_all add: demo_cq_def q_count_def)
  have k: "1 < dlls_size demo_auth" by (simp add: demo_auth_def)
  show ?thesis
    using w [of ?a] w [of ?b] k by (simp add: n demo_cq_ok)
qed

section \<open>Nonces\<close>

text \<open>Both functions for one total size, with the bytes \<open>dst\<close> at the pointer of \<^verbatim>\<open>auth_putnonce\<close>.\<close>

lemma putnonce_both:
  assumes "q_ok (q, h)" and "unat total_size \<le> q_room (q, h)" and "4 \<le> q_room (q, h)" and "unat total_size < 32768"
    and dst: "length dst = unat total_size"
  shows "\<exists>q' h' pad. auth_putnonce_q total_size s (q, h) = Some ((q', h'), s\<lparr>dlls_nonce := dlls_nonce s + 1\<rparr>)
    \<and> q_ok (q', h') \<and> q_content (q', h') = q_content (q, h) @ pad @ nonce_bytes (dlls_nonce s)
    \<and> length pad = unat total_size - 4
    \<and> auth_putnonce dst total_size s =
        Some (take (unat total_size - 4) dst @ take (unat total_size) (nonce_bytes (dlls_nonce s)),
          s\<lparr>dlls_nonce := dlls_nonce s + 1\<rparr>)"
proof -
  define t where "t = unat total_size"
  note assms = assms [folded t_def]
  note dst = dst [folded t_def]
  have nt: "nat (int (length dst) - 4) = length dst - 4" by arith
  let ?n = "t - 4" and ?nb = "nonce_bytes (dlls_nonce s)"
  have sint: "sint (total_size - 4) = int t - 4"
  proof -
    have "to_ot_int (int t - 4) = int t - 4" if "t < 32768" for t using that by simp
    from this [OF assms(4)] show ?thesis by (simp add: to_ot_int_def t_def)
  qed
  have nb: "length ?nb = 4" by (simp add: nonce_bytes_def)
  define q1 where "q1 = q\<lparr>q_putcursor := ptr_add (q_putcursor q) (int ?n)\<rparr>"
  have q1: "(if 0 < sint (total_size - 4) then q\<lparr>q_putcursor := ptr_add (q_putcursor q) (sint (total_size - 4))\<rparr> else q) = q1"
    unfolding q1_def sint by (cases "4 < t") (auto simp: of_nat_diff)
  have n: "?n \<le> q_room (q, h)" using assms(2) by simp
  obtain pad where pad: "length pad = ?n" "q_content (q1, h) = q_content (q, h) @ pad"
    using q_advance_put(2) [OF assms(1) n] unfolding q1_def by blast
  have ok: "q_ok (q1, h)" "q_room (q1, h) = q_room (q, h) - ?n"
    using q_advance_put(1,3) [OF assms(1) n] unfolding q1_def by simp_all
  have "length ?nb \<le> q_room (q1, h)" using assms(2,3) by (simp add: ok(2) nb)
  from qf.write_all_ok [OF ok(1) this] obtain q' h' where
    w: "write_all q_writebyte ?nb (q1, h) = Some (q', h')" "q_ok (q', h')" "q_content (q', h') = q_content (q1, h) @ ?nb"
    by (metis prod.collapse)
  have "q_writelong_be (dlls_nonce s) (q1, h) = write_all q_writebyte ?nb (q1, h)"
    using put_item_bytes [of "Q_long_be (dlls_nonce s)"] by (simp add: nonce_bytes_def)
  then have "auth_putnonce_q total_size s (q, h) = Some ((q', h'), s\<lparr>dlls_nonce := dlls_nonce s + 1\<rparr>)"
    unfolding auth_putnonce_q_def prod.case Let_def q1 using w(1) by simp
  moreover have "auth_putnonce dst total_size s =
      Some (take ?n dst @ take t ?nb, s\<lparr>dlls_nonce := dlls_nonce s + 1\<rparr>)"
    unfolding auth_putnonce_def Let_def sint using dst nt by (auto simp: wr_bytes_def nb min_def)
  ultimately show ?thesis unfolding t_def [symmetric] using w(2,3) pad by (intro exI conjI) (assumption | simp)+
qed

text \<open>
  C39. For a total size of at least 4, \<^verbatim>\<open>auth_putnonce_q\<close> appends to the queue
  \<open>total_size - 4\<close> bytes that it leaves as they are and then the nonce, exactly the bytes that
  \<^verbatim>\<open>auth_putnonce\<close> puts behind the same number of bytes it leaves, and both advance the nonce.
\<close>

theorem auth_putnonce_q_appends:
  assumes "q_ok (q, h)" and "4 \<le> unat total_size" and "unat total_size \<le> q_room (q, h)" and "unat total_size < 32768"
    and "length dst = unat total_size"
  shows "\<exists>q' h' pad. auth_putnonce_q total_size s (q, h) = Some ((q', h'), s\<lparr>dlls_nonce := dlls_nonce s + 1\<rparr>)
    \<and> q_ok (q', h') \<and> q_content (q', h') = q_content (q, h) @ pad @ nonce_bytes (dlls_nonce s)
    \<and> length pad = unat total_size - 4
    \<and> auth_putnonce dst total_size s =
        Some (take (unat total_size - 4) dst @ nonce_bytes (dlls_nonce s), s\<lparr>dlls_nonce := dlls_nonce s + 1\<rparr>)"
proof -
  have "take (unat total_size) (nonce_bytes (dlls_nonce s)) = nonce_bytes (dlls_nonce s)"
    using assms(2) by (simp add: nonce_bytes_def)
  moreover have "4 \<le> q_room (q, h)" using assms(2,3) by simp
  ultimately show ?thesis using putnonce_both [OF assms(1,3) _ assms(4,5), of s] by simp
qed

text \<open>
  Below 4 the two differ, although \<^verbatim>\<open>auth.h\<close> calls them identical: the queue gets all 4 bytes
  of the nonce, the pointer only as many as asked for.
\<close>

lemma auth_putnonce_q_short:
  assumes "q_ok (q, h)" and "unat total_size < 4" and "4 \<le> q_room (q, h)" and "length dst = unat total_size"
  shows "\<exists>q' h'. auth_putnonce_q total_size s (q, h) = Some ((q', h'), s\<lparr>dlls_nonce := dlls_nonce s + 1\<rparr>)
    \<and> q_content (q', h') = q_content (q, h) @ nonce_bytes (dlls_nonce s)
    \<and> auth_putnonce dst total_size s =
        Some (take (unat total_size) (nonce_bytes (dlls_nonce s)), s\<lparr>dlls_nonce := dlls_nonce s + 1\<rparr>)"
  using putnonce_both [OF assms(1) _ assms(3) _ assms(4), of s] assms(2,3) by auto

theorem auth_putnonce_q_appends_witness:
  "\<exists>q' h'. auth_putnonce_q 7 demo_auth (demo_cq [9]) = Some ((q', h'), demo_auth\<lparr>dlls_nonce := 8\<rparr>)
    \<and> length (q_content (q', h')) = 8 \<and> drop 4 (q_content (q', h')) = [7, 0, 0, 0]"
proof -
  have ok: "q_ok (fst (demo_cq [9]), snd (demo_cq [9]))" "q_room (demo_cq [9]) = 19" "q_content (demo_cq [9]) = [9]"
    using demo_cq_ok [of "[9]"] by simp_all
  have a: "dlls_nonce demo_auth = 7" by (simp add: demo_auth_def)
  show ?thesis
    using auth_putnonce_q_appends [OF ok(1), of 7 "replicate 7 0" demo_auth]
    by (auto simp: ok a nonce_bytes_def lo8_def hi8_def lo16_def hi16_def)
qed

section \<open>The wrapper\<close>

text \<open>
  Encrypting in place with \<^verbatim>\<open>EAX_encrypt\<close> and decrypting in place with \<^verbatim>\<open>EAX_decrypt\<close>,
  with the same length of the plain data, gives the data back; both report the 4 bytes of the
  tag.
\<close>

theorem EAX_roundtrip:
  assumes "eax_laws X" and "mem_rd key 16 h = Some k" and "eax_init_and_key X k = (0, c)"
    and "mem_rd nonce 7 h = Some n" and "mem_rd p (unat len) h = Some m" and "accessible p (unat len + 4) h"
    and "eax_encrypt_message X n m c = (0, e)"
    and "fst key \<noteq> fst p" and "fst nonce \<noteq> fst p"
  shows "\<exists>h1 h2. EAX_encrypt X (Some p) p len nonce key h = Some (4, h1)
    \<and> mem_rd p (unat len + 4) h1 = Some e
    \<and> EAX_decrypt X (Some p) p len nonce key h1 = Some (4, h2)
    \<and> mem_rd p (unat len) h2 = Some m"
proof -
  have lm: "length m = unat len" by (rule mem_rd_length [OF assms(5)])
  have le: "length e = unat len + 4" using eax_length(1) [OF assms(1,7)] lm by simp
  then obtain h1 where h1: "mem_wr p e h = Some h1" using mem_wr_Some [of p e h] assms(6) by auto
  have same: "mem_rd r j h1 = mem_rd r j h" if "fst r \<noteq> fst p" for r j
    using mem_rd_wr_apart [OF h1, of r j] that by simp
  have e1: "mem_rd p (unat len + 4) h1 = Some e" using mem_rd_wr [OF h1] le by simp
  have "EAX_encrypt X (Some p) p len nonce key h = Some (4, h1)"
    using EAXdrv_encrypt_writes [OF assms(4,5,7) h1] assms(2,3)
    by (simp add: EAX_encrypt_def EAX_crypt_def EAXdrv_init_def)
  moreover have "accessible p (length m) h1"
    using mem_rd_Some [of p "unat len + 4" h1] e1 by (auto simp: lm accessible_def)
  then obtain h2 where h2: "mem_wr p m h1 = Some h2" using mem_wr_Some by blast
  have "EAX_decrypt X (Some p) p len nonce key h1 = Some (4, h2)"
    using EAXdrv_decrypt_writes [OF _ e1 eax_undo [OF assms(1,7)] h2, of nonce] assms(2-4,8,9)
    by (simp add: EAX_decrypt_def EAX_crypt_def EAXdrv_init_def same)
  moreover have "mem_rd p (unat len) h2 = Some m" using mem_rd_wr [OF h2] by (simp add: lm)
  ultimately show ?thesis using e1 by blast
qed

theorem EAX_roundtrip_witness:
  "\<exists>h1 h2. EAX_encrypt demo_eax (Some (0, 0)) (0, 0) 2 (1, 0) (1, 0)
      [0 \<mapsto> [0xAA, 0xBB, 0, 0, 0, 0], 1 \<mapsto> replicate 16 0] = Some (4, h1)
    \<and> EAX_decrypt demo_eax (Some (0, 0)) (0, 0) 2 (1, 0) (1, 0) h1 = Some (4, h2)
    \<and> mem_rd (0, 0) 2 h2 = Some [0xAA, 0xBB]"
proof -
  define h :: mem where "h = [0 \<mapsto> [0xAA, 0xBB, 0, 0, 0, 0], 1 \<mapsto> replicate 16 0]"
  have r: "mem_rd (1, 0) 16 h = Some (replicate 16 0)" "mem_rd (1, 0) 7 h = Some (replicate 7 0)"
    "mem_rd (0, 0) (unat (2 :: u16)) h = Some [0xAA, 0xBB]" "accessible (0, 0) (unat (2 :: u16) + 4) h"
    by (simp_all add: h_def mem_rd_def rd_bytes_def accessible_def)
  have x: "eax_init_and_key demo_eax k = (0, k)"
    "eax_encrypt_message demo_eax n m k = (0, snd (eax_encrypt_message demo_eax n m k))" for k n m
    by (simp_all add: demo_eax_def)
  show ?thesis
    using EAX_roundtrip [OF demo_eax_laws r(1) x(1) r(2-4) x(2)] unfolding h_def [symmetric] by auto
qed

text \<open>
  Decrypting into another place copies the ciphertext without its tag: whatever bytes lie
  behind the destination are taken for the tag, and the tag behind the source has no influence.
\<close>

theorem EAX_decrypt_copy_drops_tag:
  assumes "mem_rd key 16 h = Some k" and "eax_init_and_key X k = (0, c)" and "mem_rd nonce 7 h = Some n"
    and "mem_rd src (unat len) h = Some e" and "mem_rd (ptr_add dst (int (unat len))) 4 h = Some t" and "accessible dst (unat len + 4) h"
    and "eax_decrypt_message X n (e @ t) c = (rc, m)" and "length m = unat len"
    and "fst dst \<noteq> fst src" and "fst nonce \<noteq> fst dst"
  shows "\<exists>h'. EAX_decrypt X (Some dst) src len nonce key h = Some (if rc = 0 then 4 else -1, h')
    \<and> mem_rd dst (unat len) h' = Some m"
proof -
  have le: "length e = unat len" by (rule mem_rd_length [OF assms(4)])
  have "accessible dst (length e) h" using assms(6) by (auto simp: le accessible_def)
  then obtain h1 where h1: "mem_wr dst e h = Some h1" using mem_wr_Some by blast
  have "mem_rd (ptr_add dst (int (unat len))) 4 h1 = Some t"
    using mem_rd_wr_apart [OF h1, of "ptr_add dst (int (unat len))" 4] assms(5) le by simp
  then have t: "mem_rd dst (unat len + 4) h1 = Some (e @ t)"
    using mem_rd_wr [OF h1] unfolding le mem_rd_split by simp
  have n: "mem_rd nonce 7 h1 = Some n" using mem_rd_wr_apart [OF h1, of nonce 7] assms(3,10) by simp
  have "accessible dst (length m) h1" using mem_rd_Some [of dst "unat len + 4" h1] t by (auto simp: assms(8) accessible_def)
  then obtain h2 where h2: "mem_wr dst m h1 = Some h2" using mem_wr_Some by blast
  have cp: "(if dst \<noteq> src \<and> len \<noteq> 0 then ot_memcpy dst src len h else Some h) = Some h1"
    using assms(4,9) h1 mem_wr_Nil [of dst h h1] le
    by (cases "len = 0") (auto simp: ot_memcpy_def apart_def)
  have "EAX_decrypt X (Some dst) src len nonce key h = Some (if rc = 0 then 4 else -1, h2)"
    using EAXdrv_decrypt_writes [OF n t assms(7) h2] assms(1,2) cp
    by (simp add: EAX_decrypt_def EAX_crypt_def EAXdrv_init_def del: not_None_eq)
  then show ?thesis using mem_rd_wr [OF h2] assms(8) by auto
qed

theorem EAX_decrypt_copy_drops_tag_witness:
  "\<exists>h'. EAX_decrypt demo_eax (Some (0, 0)) (2, 0) 2 (1, 0) (1, 0)
      [0 \<mapsto> replicate 6 0, 1 \<mapsto> replicate 16 0, 2 \<mapsto> [0xFF, 0xEE, 0x11, 0x11, 0x11, 0x11]] = Some (-1, h')
    \<and> mem_rd (0, 0) 2 h' = Some [0xAA, 0xBB]"
proof -
  define h :: mem where "h = [0 \<mapsto> replicate 6 0, 1 \<mapsto> replicate 16 0, 2 \<mapsto> [0xFF, 0xEE, 0x11, 0x11, 0x11, 0x11]]"
  have r: "mem_rd (1, 0) 16 h = Some (replicate 16 0)" "mem_rd (1, 0) 7 h = Some (replicate 7 0)"
    "mem_rd (2, 0) (unat (2 :: u16)) h = Some [0xFF, 0xEE]"
    "mem_rd (ptr_add (0, 0) (int (unat (2 :: u16)))) 4 h = Some (replicate 4 0)"
    "accessible (0, 0) (unat (2 :: u16) + 4) h"
    by (simp_all add: h_def mem_rd_def rd_bytes_def accessible_def)
  have x: "eax_init_and_key demo_eax (replicate 16 0) = (0, replicate 16 0)" by (simp add: demo_eax_def)
  have d: "eax_decrypt_message demo_eax (replicate 7 0) ([0xFF, 0xEE] @ replicate 4 0) (replicate 16 0) = (1, [0xAA, 0xBB])"
    by code_simp
  show ?thesis
    using EAX_decrypt_copy_drops_tag [OF r(1) x r(2-5) d] unfolding h_def [symmetric] by simp
qed

end
