(* ===== verification/Ot_Platform.thy ===== *)
theory Ot_Platform
  imports Ot_Queue
begin

text \<open>
  Small parts of the platform: the pair of buffers of \<^verbatim>\<open>otlib/buffers.c\<close>, the delays of
  \<^verbatim>\<open>platform/*/otlib_delay.c\<close>, and the packing of bytes into words of
  \<^verbatim>\<open>platform/c2000/otlib_utils.c\<close>.
\<close>

section \<open>Buffers\<close>

text \<open>\<^verbatim>\<open>otbuf\<close> is one array, its halves the buffers of \<^verbatim>\<open>otmpin\<close> and \<^verbatim>\<open>otmpout\<close>.\<close>

record otmp =
  otmpin :: ot_queue
  otmpout :: ot_queue

definition OT_PARAM_BUFFER_SIZE :: nat where "OT_PARAM_BUFFER_SIZE = 1024"
definition ALP_SIZE :: nat where "ALP_SIZE = OT_PARAM_BUFFER_SIZE div 2"

definition buffers_init :: "ptr \<Rightarrow> otmp \<Rightarrow> otmp" where
  "buffers_init otbuf s =
     (let s = s\<lparr>otmpin := q_init (otmpin s) otbuf (of_nat ALP_SIZE)\<rparr>
      in s\<lparr>otmpout := q_init (otmpout s) (ptr_add otbuf (int ALP_SIZE)) (of_nat ALP_SIZE)\<rparr>)"

text \<open>The queues \<^verbatim>\<open>q1\<close> and \<^verbatim>\<open>q2\<close> are two objects; \<^verbatim>\<open>scratch\<close> is not initialised.\<close>

definition buffers_swap :: "ot_queue \<Rightarrow> ot_queue \<Rightarrow> ot_queue \<Rightarrow> ot_queue \<times> ot_queue" where
  "buffers_swap scratch q1 q2 =
     (let scratch = q_copy scratch q1;
          q1 = q_copy q1 q2;
          q2 = q_copy q2 scratch
      in (q1, q2))"

lemma buffers_swap_twice: "buffers_swap x (fst (buffers_swap y q1 q2)) (snd (buffers_swap y q1 q2)) = (q1, q2)"
  by (simp add: buffers_swap_def q_copy_def)

lemma buffers_init_ready:
  assumes "h b = Some m" and "length m = OT_PARAM_BUFFER_SIZE"
  shows "q_ok (otmpin (buffers_init (b, 0) s), h)" "q_content (otmpin (buffers_init (b, 0) s), h) = []"
    "q_room (otmpin (buffers_init (b, 0) s), h) = ALP_SIZE"
    "q_ok (otmpout (buffers_init (b, 0) s), h)" "q_content (otmpout (buffers_init (b, 0) s), h) = []"
    "q_room (otmpout (buffers_init (b, 0) s), h) = ALP_SIZE"
  using assms
  by (simp_all add: buffers_init_def Let_def q_init_def q_empty_def q_ok_def q_content_def q_count_def q_room_def
      accessible_def mem_rd_def rd_bytes_def ALP_SIZE_def OT_PARAM_BUFFER_SIZE_def ptr_add_def)

text \<open>Filling the input queue stays in its half: the output queue can still be filled.\<close>

lemma buffers_apart:
  fixes s :: otmp
  assumes m: "h b = Some m" "length m = OT_PARAM_BUFFER_SIZE" and l: "length bs \<le> ALP_SIZE"
  shows "\<exists>q h'. write_all q_writebyte bs (otmpin (buffers_init (b, 0) s), h) = Some (q, h')
    \<and> q_content (q, h') = bs \<and> q_ok (otmpout (buffers_init (b, 0) s), h')
    \<and> (\<forall>i \<ge> ALP_SIZE. the (h' b) ! i = m ! i)"
proof -
  let ?q = "otmpin (buffers_init (b, 0) s)"
  note r = buffers_init_ready [of h b m s, OF m]
  obtain q h' where w: "write_all q_writebyte bs (?q, h) = Some (q, h')" "q_content (q, h') = bs"
    using qf.write_all_ok [OF r(1)] r(2,3) l by force
  have pc: "q_putcursor ?q = (b, 0)" by (simp add: buffers_init_def Let_def q_init_def q_empty_def)
  have len: "length bs \<le> length m" using l m(2) by (simp add: ALP_SIZE_def)
  then have wr: "wr_bytes m 0 bs = Some (bs @ drop (length bs) m)" by (simp add: wr_bytes_def)
  then have "mem_wr (q_putcursor ?q) bs h = Some (h(b \<mapsto> bs @ drop (length bs) m))"
    using m(1) by (simp add: mem_wr_def pc)
  from write_all_mem [OF this] have h': "h' = h(b \<mapsto> bs @ drop (length bs) m)" using w(1) by simp
  then have "h' b = Some (bs @ drop (length bs) m)" "length (bs @ drop (length bs) m) = OT_PARAM_BUFFER_SIZE"
    using len m(2) by simp_all
  note buffers_init_ready(4) [of h' b _ s, OF this]
  moreover have "the (h' b) ! i = m ! i" if "ALP_SIZE \<le> i" for i
    using that l len by (simp add: h' nth_append)
  ultimately show ?thesis using w by blast
qed

section \<open>Delays\<close>

text \<open>\<open>wait\<close> is the primitive of the platform that waits a number of microseconds.\<close>

definition delay_us :: "(u16 \<Rightarrow> 's \<Rightarrow> 's) \<Rightarrow> u16 \<Rightarrow> 's \<Rightarrow> 's" where "delay_us wait n s = wait n s"
definition delay_ms :: "(u16 \<Rightarrow> 's \<Rightarrow> 's) \<Rightarrow> u16 \<Rightarrow> 's \<Rightarrow> 's" where "delay_ms wait n s = delay_us wait (n * 1000) s"
definition delay_ti :: "(u16 \<Rightarrow> 's \<Rightarrow> 's) \<Rightarrow> u16 \<Rightarrow> 's \<Rightarrow> 's" where "delay_ti wait n s = delay_us wait (n * 977) s"
definition delay_sti :: "(u16 \<Rightarrow> 's \<Rightarrow> 's) \<Rightarrow> u16 \<Rightarrow> 's \<Rightarrow> 's" where "delay_sti wait sti s = delay_us wait (sti * 31) s"

text \<open>
  The microseconds are an \<^verbatim>\<open>ot_u16\<close>: a delay of more than 65 milliseconds, 67 ticks or 2114 short
  ticks is cut off.
\<close>

lemma unat_times_exact:
  fixes n :: u16
  assumes "k < 65536"
  shows "unat (n * of_nat k) = k * unat n \<longleftrightarrow> k * unat n < 65536"
proof -
  have "unat (n * of_nat k) = (unat n * k) mod 65536"
    using assms by (simp add: unat_word_ariths unat_of_nat take_bit_nat_eq_self)
  then show ?thesis by (simp add: mult.commute) (metis mod_less mod_less_divisor zero_less_numeral)
qed

lemma delays_exact:
  "unat (delay_ms (\<lambda>us _. us) n s) = 1000 * unat n \<longleftrightarrow> unat n \<le> 65"
  "unat (delay_ti (\<lambda>us _. us) n s) = 977 * unat n \<longleftrightarrow> unat n \<le> 67"
  "unat (delay_sti (\<lambda>us _. us) n s) = 31 * unat n \<longleftrightarrow> unat n \<le> 2114"
  using unat_times_exact [of 1000 n] unat_times_exact [of 977 n] unat_times_exact [of 31 n]
  by (simp_all add: delay_us_def delay_ms_def delay_ti_def delay_sti_def) linarith+

section \<open>Packing\<close>

text \<open>
  On the C2000 a byte takes a word of 16 bits; packing puts two of them into one, the first into
  the high byte. The words behind the pointers are lists.
\<close>

fun pack2_loop :: "u16 list \<Rightarrow> u16 list \<Rightarrow> nat \<Rightarrow> u16 list option" where
  "pack2_loop dst src 0 = Some dst"
| "pack2_loop (d # dst) (a # src) (Suc 0) = Some (push_bit 8 a # dst)"
| "pack2_loop (d # dst) (a # b # src) (Suc (Suc n)) =
     do { dst \<leftarrow> pack2_loop dst src n; Some ((push_bit 8 a OR (b AND 0xFF)) # dst) }"
| "pack2_loop dst src n = None"

definition otutils_pack2 :: "u16 list \<Rightarrow> u16 list \<Rightarrow> u16 \<Rightarrow> u16 list option" where
  "otutils_pack2 dst src n = pack2_loop dst src (unat n)"

fun unpack2_loop :: "u16 list \<Rightarrow> u16 list \<Rightarrow> nat \<Rightarrow> u16 list option" where
  "unpack2_loop dst src 0 = Some dst"
| "unpack2_loop (d # dst) (w # src) (Suc 0) = Some (drop_bit 8 (w AND 0xFF00) # dst)"
| "unpack2_loop (d # e # dst) (w # src) (Suc (Suc n)) =
     do { dst \<leftarrow> unpack2_loop dst src n; Some (drop_bit 8 (w AND 0xFF00) # (w AND 0x00FF) # dst) }"
| "unpack2_loop dst src n = None"

definition otutils_unpack2 :: "u16 list \<Rightarrow> u16 list \<Rightarrow> u16 \<Rightarrow> u16 list option" where
  "otutils_unpack2 dst src n = unpack2_loop dst src (unat n)"

lemma pack_word:
  "drop_bit 8 ((push_bit 8 a OR (b AND 0xFF)) AND 0xFF00) = (a AND 0xFF :: u16)"
  "(push_bit 8 a OR (b AND 0xFF)) AND 0xFF = (b AND 0xFF :: u16)"
  "drop_bit 8 (push_bit 8 a AND 0xFF00) = (a AND 0xFF :: u16)"
  "drop_bit 8 (push_bit 8 a) AND 0xFF = (a AND 0xFF :: u16)"
proof -
  have m: "(0xFF :: u16) = mask 8" "(0xFF00 :: u16) = push_bit 8 (mask 8)"
    by (simp_all add: mask_eq_exp_minus_1 push_bit_eq_mult)
  show "drop_bit 8 ((push_bit 8 a OR (b AND 0xFF)) AND 0xFF00) = (a AND 0xFF :: u16)"
    "(push_bit 8 a OR (b AND 0xFF)) AND 0xFF = (b AND 0xFF :: u16)"
    "drop_bit 8 (push_bit 8 a AND 0xFF00) = (a AND 0xFF :: u16)"
    "drop_bit 8 (push_bit 8 a) AND 0xFF = (a AND 0xFF :: u16)"
    unfolding m by (rule bit_word_eqI; auto simp: bit_simps)+
qed

lemma pack2_unpack2_loop:
  "(n + 1) div 2 \<le> length dst \<Longrightarrow> n \<le> length src \<Longrightarrow> n \<le> length out \<Longrightarrow>
   \<exists>d. pack2_loop dst src n = Some d \<and> length d = length dst
     \<and> unpack2_loop out d n = Some (map (\<lambda>w. w AND 0xFF) (take n src) @ drop n out)"
proof (induction dst src n arbitrary: out rule: pack2_loop.induct)
  case (2 d dst a src)
  then show ?case by (cases out) (auto simp: pack_word)
next
  case (3 d dst a b src n)
  then obtain x y out' where o: "out = x # y # out'" by (auto simp: Suc_le_length_iff)
  obtain d' where "pack2_loop dst src n = Some d'" "length d' = length dst"
    "unpack2_loop out' d' n = Some (map (\<lambda>w. w AND 0xFF) (take n src) @ drop n out')"
    using "3.IH" [of out'] "3.prems" o by auto
  then show ?case by (simp add: o pack_word)
qed auto

text \<open>Packing and unpacking gives the low bytes of the words, for odd sizes too.\<close>

lemma pack2_roundtrip:
  assumes "(unat n + 1) div 2 \<le> length dst" and "unat n \<le> length src" and "unat n \<le> length out"
  shows "\<exists>d. otutils_pack2 dst src n = Some d \<and> length d = length dst
    \<and> otutils_unpack2 out d n = Some (map (\<lambda>w. w AND 0xFF) (take (unat n) src) @ drop (unat n) out)"
  using pack2_unpack2_loop [OF assms] by (simp add: otutils_pack2_def otutils_unpack2_def)

end
