(* ===== verification/Csip_Config.thy ===== *)
theory Csip_Config
  imports Fs_Config
begin

text \<open>
  The filesystem of the smart inverter application, \<^verbatim>\<open>include/app/csip_master/fs_config.h\<close> and
  \<^verbatim>\<open>fs_defaults.h\<close> (a MULTIFS build, so \<^verbatim>\<open>_NOMIRROR\<close> is 1; \<^verbatim>\<open>__DEBUG__\<close> is not defined). The table
  of its files, with the prefix \<open>CS\<close>, is also that of \<^verbatim>\<open>csip_c2000\<close>; what differs there is in the
  theory \<^verbatim>\<open>C2k_Config\<close>. Definitions of \<^verbatim>\<open>csip_master\<close> alone have the prefix \<open>CM\<close>.
\<close>

section \<open>The table of files\<close>

datatype csip_file =
    C_network_settings | C_device_features | C_channel_configuration
  | C_real_time_scheduler | C_hold_scan_sequence | C_sleep_scan_sequence
  | C_beacon_transmit_sequence | C_isf_list | C_iss_list
  | C_gfb_file_list | C_location_data_list | C_ipv6_addresses
  | C_sensor_list | C_sensor_alarms | C_root_authentication_key
  | C_user_authentication_key | C_pwrdata_inv | C_pwrdata_mppt
  | C_csip_nameplate_inv | C_csip_nameplate_mppt | C_csip_cfg
  | C_csip_setarray | C_csip_issuecmd | C_csip_operations
  | C_csip_issuecontrol | C_application_extension

definition csip_files :: "csip_file list" where
  "csip_files = [C_network_settings, C_device_features, C_channel_configuration,
     C_real_time_scheduler, C_hold_scan_sequence, C_sleep_scan_sequence,
     C_beacon_transmit_sequence, C_isf_list, C_iss_list,
     C_gfb_file_list, C_location_data_list, C_ipv6_addresses,
     C_sensor_list, C_sensor_alarms, C_root_authentication_key,
     C_user_authentication_key, C_pwrdata_inv, C_pwrdata_mppt,
     C_csip_nameplate_inv, C_csip_nameplate_mppt, C_csip_cfg,
     C_csip_setarray, C_csip_issuecmd, C_csip_operations,
     C_csip_issuecontrol, C_application_extension]"

primrec CS_ID :: "csip_file \<Rightarrow> u8" where
  "CS_ID C_network_settings = 0x00"
| "CS_ID C_device_features = 0x01"
| "CS_ID C_channel_configuration = 0x02"
| "CS_ID C_real_time_scheduler = 0x03"
| "CS_ID C_hold_scan_sequence = 0x04"
| "CS_ID C_sleep_scan_sequence = 0x05"
| "CS_ID C_beacon_transmit_sequence = 0x06"
| "CS_ID C_isf_list = 0x07"
| "CS_ID C_iss_list = 0x08"
| "CS_ID C_gfb_file_list = 0x09"
| "CS_ID C_location_data_list = 0x0A"
| "CS_ID C_ipv6_addresses = 0x0B"
| "CS_ID C_sensor_list = 0x0C"
| "CS_ID C_sensor_alarms = 0x0D"
| "CS_ID C_root_authentication_key = 0x0E"
| "CS_ID C_user_authentication_key = 0x0F"
| "CS_ID C_pwrdata_inv = 0x10"
| "CS_ID C_pwrdata_mppt = 0x11"
| "CS_ID C_csip_nameplate_inv = 0x12"
| "CS_ID C_csip_nameplate_mppt = 0x13"
| "CS_ID C_csip_cfg = 0x14"
| "CS_ID C_csip_setarray = 0x15"
| "CS_ID C_csip_issuecmd = 0x16"
| "CS_ID C_csip_operations = 0x17"
| "CS_ID C_csip_issuecontrol = 0x18"
| "CS_ID C_application_extension = 0xFF"

definition CS_NOMIRROR :: bool where "CS_NOMIRROR = True"

definition CS_SET_MIRROR :: "bool \<Rightarrow> bool" where "CS_SET_MIRROR v \<longleftrightarrow> v \<and> \<not> CS_NOMIRROR"

primrec CS_ENMIRROR :: "csip_file \<Rightarrow> bool" where
  "CS_ENMIRROR C_network_settings = CS_SET_MIRROR True"
| "CS_ENMIRROR C_device_features = CS_SET_MIRROR True"
| "CS_ENMIRROR C_channel_configuration = CS_SET_MIRROR False"
| "CS_ENMIRROR C_real_time_scheduler = CS_SET_MIRROR True"
| "CS_ENMIRROR C_hold_scan_sequence = CS_SET_MIRROR False"
| "CS_ENMIRROR C_sleep_scan_sequence = CS_SET_MIRROR False"
| "CS_ENMIRROR C_beacon_transmit_sequence = CS_SET_MIRROR False"
| "CS_ENMIRROR C_isf_list = CS_SET_MIRROR True"
| "CS_ENMIRROR C_iss_list = CS_SET_MIRROR False"
| "CS_ENMIRROR C_gfb_file_list = CS_SET_MIRROR True"
| "CS_ENMIRROR C_location_data_list = CS_SET_MIRROR False"
| "CS_ENMIRROR C_ipv6_addresses = CS_SET_MIRROR True"
| "CS_ENMIRROR C_sensor_list = CS_SET_MIRROR False"
| "CS_ENMIRROR C_sensor_alarms = CS_SET_MIRROR False"
| "CS_ENMIRROR C_root_authentication_key = CS_SET_MIRROR True"
| "CS_ENMIRROR C_user_authentication_key = CS_SET_MIRROR True"
| "CS_ENMIRROR C_pwrdata_inv = CS_SET_MIRROR True"
| "CS_ENMIRROR C_pwrdata_mppt = CS_SET_MIRROR True"
| "CS_ENMIRROR C_csip_nameplate_inv = CS_SET_MIRROR True"
| "CS_ENMIRROR C_csip_nameplate_mppt = CS_SET_MIRROR True"
| "CS_ENMIRROR C_csip_cfg = CS_SET_MIRROR True"
| "CS_ENMIRROR C_csip_setarray = CS_SET_MIRROR True"
| "CS_ENMIRROR C_csip_issuecmd = CS_SET_MIRROR True"
| "CS_ENMIRROR C_csip_operations = CS_SET_MIRROR True"
| "CS_ENMIRROR C_csip_issuecontrol = CS_SET_MIRROR True"
| "CS_ENMIRROR C_application_extension = CS_SET_MIRROR True"

section \<open>Blocks of files\<close>

definition CS_OTFS_FILES :: nat where "CS_OTFS_FILES = 16"
definition CS_CSIP_FILES :: nat where "CS_CSIP_FILES = 9"
definition CS_APPEXT_FILES :: nat where "CS_APPEXT_FILES = 1"

definition CS_OVERHEAD_START_VADDR :: nat where "CS_OVERHEAD_START_VADDR = 0"
definition CS_OVERHEAD_TOTAL_BYTES :: nat where "CS_OVERHEAD_TOTAL_BYTES = 0x200"
definition CS_ISF_MIRROR_VADDR :: u16 where "CS_ISF_MIRROR_VADDR = 0xC000"

definition CS_GFB_BLOCK_BYTES :: nat where "CS_GFB_BLOCK_BYTES = 32"
definition CS_GFB_BLOCKS_PER_FILE :: nat where "CS_GFB_BLOCKS_PER_FILE = 1"
definition CS_GFB_NUM_STOCK_FILES :: nat where "CS_GFB_NUM_STOCK_FILES = 2"
definition CS_GFB_NUM_USER_FILES :: nat where "CS_GFB_NUM_USER_FILES = 0"
definition CS_GFB_MOD_standard :: u8 where "CS_GFB_MOD_standard = 0x3C"
definition CS_GFB_FILE_BYTES :: nat where "CS_GFB_FILE_BYTES = CS_GFB_BLOCK_BYTES * CS_GFB_BLOCKS_PER_FILE"
definition CS_GFB_START_VADDR :: nat where "CS_GFB_START_VADDR = CS_OVERHEAD_START_VADDR + CS_OVERHEAD_TOTAL_BYTES"
definition CS_GFB_NUM_FILES :: nat where "CS_GFB_NUM_FILES = CS_GFB_NUM_STOCK_FILES + CS_GFB_NUM_USER_FILES"
definition CS_GFB_HEAP_BYTES :: nat where "CS_GFB_HEAP_BYTES = CS_GFB_FILE_BYTES * CS_GFB_NUM_STOCK_FILES"
definition CS_GFB_STOCK_BYTES :: nat where "CS_GFB_STOCK_BYTES = CS_GFB_FILE_BYTES * CS_GFB_NUM_STOCK_FILES"
definition CS_GFB_TOTAL_BYTES :: nat where
  "CS_GFB_TOTAL_BYTES = CS_GFB_FILE_BYTES * (CS_GFB_NUM_STOCK_FILES + CS_GFB_NUM_USER_FILES)"

definition CS_ISS_TOTAL_BYTES :: nat where "CS_ISS_TOTAL_BYTES = 0"
definition CS_ISS_NUM_STOCK_FILES :: nat where "CS_ISS_NUM_STOCK_FILES = 0"
definition CS_ISS_NUM_EXT_FILES :: nat where "CS_ISS_NUM_EXT_FILES = 0"
definition CS_ISS_START_VADDR :: nat where "CS_ISS_START_VADDR = CS_GFB_START_VADDR + CS_GFB_TOTAL_BYTES"
definition CS_ISS_NUM_FILES :: nat where "CS_ISS_NUM_FILES = CS_ISS_NUM_STOCK_FILES + CS_ISS_NUM_EXT_FILES"
definition CS_ISS_STOCK_BYTES :: nat where "CS_ISS_STOCK_BYTES = 0"

definition CS_ISF_NUM_STOCK_FILES :: nat where "CS_ISF_NUM_STOCK_FILES = CS_OTFS_FILES + CS_CSIP_FILES"
definition CS_ISF_NUM_EXT_FILES :: nat where "CS_ISF_NUM_EXT_FILES = CS_APPEXT_FILES"
definition CS_ISF_NUM_USER_FILES :: nat where "CS_ISF_NUM_USER_FILES = 0"
definition CS_ISF_START_VADDR :: nat where "CS_ISF_START_VADDR = CS_ISS_START_VADDR + CS_ISS_TOTAL_BYTES"
definition CS_ISF_NUM_FILES :: nat where
  "CS_ISF_NUM_FILES = CS_ISF_NUM_STOCK_FILES + CS_ISF_NUM_USER_FILES + CS_ISF_NUM_EXT_FILES"

text \<open>The size of a header with the features 1 or 0, as the guard of the configuration computes it.\<close>

definition VL_HEADER_SIZE :: "nat \<Rightarrow> nat \<Rightarrow> nat \<Rightarrow> nat" where
  "VL_HEADER_SIZE vlactions vlmodtime vlacctime = 10 + 2 * vlactions + 4 * vlmodtime + 4 * vlacctime"

definition OVERHEAD_MIN_BYTES :: "nat \<Rightarrow> nat \<Rightarrow> nat \<Rightarrow> nat" where
  "OVERHEAD_MIN_BYTES a m c = VL_HEADER_SIZE a m c * (2 + CS_GFB_NUM_FILES + CS_ISS_NUM_FILES + CS_ISF_NUM_FILES)"

lemmas csip_consts = CS_OTFS_FILES_def CS_CSIP_FILES_def CS_APPEXT_FILES_def CS_OVERHEAD_START_VADDR_def
  CS_OVERHEAD_TOTAL_BYTES_def CS_ISF_MIRROR_VADDR_def CS_GFB_BLOCK_BYTES_def CS_GFB_BLOCKS_PER_FILE_def
  CS_GFB_NUM_STOCK_FILES_def CS_GFB_NUM_USER_FILES_def CS_GFB_MOD_standard_def CS_GFB_FILE_BYTES_def
  CS_GFB_START_VADDR_def CS_GFB_NUM_FILES_def CS_GFB_HEAP_BYTES_def CS_GFB_STOCK_BYTES_def
  CS_GFB_TOTAL_BYTES_def CS_ISS_TOTAL_BYTES_def CS_ISS_NUM_STOCK_FILES_def CS_ISS_NUM_EXT_FILES_def
  CS_ISS_START_VADDR_def CS_ISS_NUM_FILES_def CS_ISS_STOCK_BYTES_def CS_ISF_NUM_STOCK_FILES_def
  CS_ISF_NUM_EXT_FILES_def CS_ISF_NUM_USER_FILES_def CS_ISF_START_VADDR_def CS_ISF_NUM_FILES_def


section \<open>Lengths and places\<close>

definition CS_MOD_file_standard :: u8 where "CS_MOD_file_standard = 0x00"

primrec CM_MOD :: "csip_file \<Rightarrow> u8" where
  "CM_MOD C_network_settings = 0x34"
| "CM_MOD C_device_features = 0x24"
| "CM_MOD C_channel_configuration = CS_MOD_file_standard"
| "CM_MOD C_real_time_scheduler = CS_MOD_file_standard"
| "CM_MOD C_hold_scan_sequence = CS_MOD_file_standard"
| "CM_MOD C_sleep_scan_sequence = CS_MOD_file_standard"
| "CM_MOD C_beacon_transmit_sequence = CS_MOD_file_standard"
| "CM_MOD C_isf_list = 0x24"
| "CM_MOD C_iss_list = CS_MOD_file_standard"
| "CM_MOD C_gfb_file_list = 0x24"
| "CM_MOD C_location_data_list = CS_MOD_file_standard"
| "CM_MOD C_ipv6_addresses = 0x24"
| "CM_MOD C_sensor_list = CS_MOD_file_standard"
| "CM_MOD C_sensor_alarms = CS_MOD_file_standard"
| "CM_MOD C_root_authentication_key = 0x0"
| "CM_MOD C_user_authentication_key = 0x30"
| "CM_MOD C_pwrdata_inv = 0x24"
| "CM_MOD C_pwrdata_mppt = 0x24"
| "CM_MOD C_csip_nameplate_inv = 0x34"
| "CM_MOD C_csip_nameplate_mppt = 0x34"
| "CM_MOD C_csip_cfg = 0x30"
| "CM_MOD C_csip_setarray = 0x30"
| "CM_MOD C_csip_issuecmd = 0x30"
| "CM_MOD C_csip_operations = 0x10"
| "CM_MOD C_csip_issuecontrol = 0x30"
| "CM_MOD C_application_extension = 0x24"

primrec CS_MAX :: "csip_file \<Rightarrow> nat" where
  "CS_MAX C_network_settings = 10"
| "CS_MAX C_device_features = 48"
| "CS_MAX C_channel_configuration = 0"
| "CS_MAX C_real_time_scheduler = 12"
| "CS_MAX C_hold_scan_sequence = 0"
| "CS_MAX C_sleep_scan_sequence = 0"
| "CS_MAX C_beacon_transmit_sequence = 0"
| "CS_MAX C_isf_list = 24"
| "CS_MAX C_iss_list = 0"
| "CS_MAX C_gfb_file_list = 8"
| "CS_MAX C_location_data_list = 0"
| "CS_MAX C_ipv6_addresses = 48"
| "CS_MAX C_sensor_list = 0"
| "CS_MAX C_sensor_alarms = 0"
| "CS_MAX C_root_authentication_key = 22"
| "CS_MAX C_user_authentication_key = 22"
| "CS_MAX C_pwrdata_inv = 50"
| "CS_MAX C_pwrdata_mppt = 40"
| "CS_MAX C_csip_nameplate_inv = 96"
| "CS_MAX C_csip_nameplate_mppt = 8"
| "CS_MAX C_csip_cfg = 176"
| "CS_MAX C_csip_setarray = 84"
| "CS_MAX C_csip_issuecmd = 24"
| "CS_MAX C_csip_operations = 16"
| "CS_MAX C_csip_issuecontrol = 4"
| "CS_MAX C_application_extension = 256"

primrec CS_LEN :: "csip_file \<Rightarrow> u8" where
  "CS_LEN C_network_settings = 10"
| "CS_LEN C_device_features = 48"
| "CS_LEN C_channel_configuration = 0"
| "CS_LEN C_real_time_scheduler = 12"
| "CS_LEN C_hold_scan_sequence = 0"
| "CS_LEN C_sleep_scan_sequence = 0"
| "CS_LEN C_beacon_transmit_sequence = 0"
| "CS_LEN C_isf_list = of_nat (CS_CSIP_FILES + CS_APPEXT_FILES)"
| "CS_LEN C_iss_list = 0"
| "CS_LEN C_gfb_file_list = of_nat CS_GFB_NUM_FILES"
| "CS_LEN C_location_data_list = 0"
| "CS_LEN C_ipv6_addresses = 0"
| "CS_LEN C_sensor_list = 0"
| "CS_LEN C_sensor_alarms = 0"
| "CS_LEN C_root_authentication_key = 22"
| "CS_LEN C_user_authentication_key = 22"
| "CS_LEN C_pwrdata_inv = 50"
| "CS_LEN C_pwrdata_mppt = 40"
| "CS_LEN C_csip_nameplate_inv = 96"
| "CS_LEN C_csip_nameplate_mppt = 8"
| "CS_LEN C_csip_cfg = 176"
| "CS_LEN C_csip_setarray = 84"
| "CS_LEN C_csip_issuecmd = 24"
| "CS_LEN C_csip_operations = 16"
| "CS_LEN C_csip_issuecontrol = 4"
| "CS_LEN C_application_extension = 0"

definition CM_ALLOC :: "csip_file \<Rightarrow> nat" where
  "CM_ALLOC f = push_bit 1 (drop_bit 1 (CS_MAX f + (VL_WORD - 1)))"

definition CM_STOCK_BYTES :: nat where "CM_STOCK_BYTES = sum_list (map CM_ALLOC csip_files)"

definition CM_ISF_TOTAL_BYTES :: nat where "CM_ISF_TOTAL_BYTES = CM_STOCK_BYTES"

definition CM_HEAP_BYTES :: nat where "CM_HEAP_BYTES = CM_STOCK_BYTES - 0"

definition CM_BASE :: "csip_file \<Rightarrow> nat" where
  "CM_BASE f = CS_ISF_START_VADDR + sum_list (map CM_ALLOC (takeWhile (\<lambda>g. g \<noteq> f) csip_files))"

text \<open>
  \<^verbatim>\<open>ISF_MIRALLOC\<close> is redefined to 0 without a mirror, so the chain of mirror addresses does not
  move; \<^verbatim>\<open>(enabled != 0) - 1\<close> is all ones for a file that is not mirrored.
\<close>

definition CS_MIRALLOC :: "csip_file \<Rightarrow> u16" where "CS_MIRALLOC f = 0"

definition CS_MIRROR :: "csip_file \<Rightarrow> u16" where
  "CS_MIRROR f = (of_bool (CS_ENMIRROR f) - 1)
     OR (CS_ISF_MIRROR_VADDR + sum_list (map CS_MIRALLOC (takeWhile (\<lambda>g. g \<noteq> f) csip_files)))"

section \<open>The default headers\<close>

definition CM_fsheader :: vlFSHEADER where
  "CM_fsheader = \<lparr>fs_ftab_alloc = of_nat CS_OVERHEAD_TOTAL_BYTES, fs_res_act0 = 0, fs_res_act2 = 0,
     fs_gfb = \<lparr>blk_alloc = of_nat CS_GFB_TOTAL_BYTES, blk_used = of_nat CS_GFB_STOCK_BYTES,
               blk_files = of_nat CS_GFB_NUM_STOCK_FILES\<rparr>,
     fs_iss = \<lparr>blk_alloc = of_nat CS_ISS_TOTAL_BYTES, blk_used = of_nat CS_ISS_STOCK_BYTES,
               blk_files = of_nat CS_ISS_NUM_STOCK_FILES\<rparr>,
     fs_isf = \<lparr>blk_alloc = of_nat CM_ISF_TOTAL_BYTES, blk_used = of_nat CM_STOCK_BYTES,
               blk_files = of_nat CS_ISF_NUM_STOCK_FILES\<rparr>,
     fs_res_time0 = 0, fs_res_time4 = 0\<rparr>"

definition CM_gfb_header :: "nat \<Rightarrow> vl_header_t" where
  "CM_gfb_header i = \<lparr>hd_length = 0, hd_alloc = of_nat CS_GFB_BLOCK_BYTES,
     hd_idmod = join16 (of_nat i) CS_GFB_MOD_standard,
     hd_base = of_nat (CS_GFB_START_VADDR + CS_GFB_BLOCK_BYTES * i), hd_mirror = 0xFFFF,
     hd_actioncode = 0, hd_modtime = 0\<rparr>"

definition CM_isf_header :: "csip_file \<Rightarrow> vl_header_t" where
  "CM_isf_header f = \<lparr>hd_length = join16 (CS_LEN f) 0, hd_alloc = of_nat (CM_ALLOC f),
     hd_idmod = join16 (CS_ID f) (CM_MOD f), hd_base = of_nat (CM_BASE f),
     hd_mirror = CS_MIRROR f, hd_actioncode = 0, hd_modtime = 0\<rparr>"

definition CM_overhead_files :: bytes where
  "CM_overhead_files = fsheader_bytes CM_fsheader
     @ concat (map (header_bytes \<circ> CM_gfb_header) [0, 1])
     @ concat (map (header_bytes \<circ> CM_isf_header) csip_files)"

section \<open>The stock data\<close>

text \<open>\<open>build_id\<close> is the nine bytes of the version string after its first six, as in \<open>isf_stock\<close>.\<close>

fun CM_otfs_stock :: "bytes \<Rightarrow> csip_file \<Rightarrow> bytes" where
  "CM_otfs_stock build_id C_network_settings =
     [ERS, ERS, 0x11, 0x11] @ SPLIT_SHORT 0 @ [0x00, 1] @ SPLIT_SHORT 2"
| "CM_otfs_stock build_id C_device_features =
     replicate 8 ERS @ SPLIT_SHORT 0 @ [255, 1] @ SPLIT_SHORT 0 @ SPLIT_SHORT 0
     @ SPLIT_SHORT (of_nat CM_ISF_TOTAL_BYTES) @ SPLIT_SHORT (of_nat (CM_ISF_TOTAL_BYTES - CM_HEAP_BYTES))
     @ SPLIT_SHORT 0 @ SPLIT_SHORT 0 @ SPLIT_SHORT (of_nat CS_GFB_TOTAL_BYTES)
     @ SPLIT_SHORT (of_nat (CS_GFB_TOTAL_BYTES - CS_GFB_HEAP_BYTES)) @ SPLIT_SHORT (of_nat CS_GFB_BLOCK_BYTES)
     @ [0, 0] @ [0x4F, 0x54, 0x76, 0 + 48, 0x20, 0x20] @ take 9 build_id @ [0]"
| "CM_otfs_stock build_id C_real_time_scheduler = SPLIT_LONG_LE 0 @ SPLIT_LONG_LE 0 @ SPLIT_LONG_LE 0"
| "CM_otfs_stock build_id C_isf_list =
     [0x10, 0x11, 0x12, 0x13, 0x14, 0x15, 0x16, 0xFF] @ replicate 16 ERS"
| "CM_otfs_stock build_id C_gfb_file_list = [0x00, 0x01] @ replicate 6 ERS"
| "CM_otfs_stock build_id C_ipv6_addresses = replicate 48 ERS"
| "CM_otfs_stock build_id C_root_authentication_key =
     [0x00, 0x38] @ SPLIT_LONG (48 * 3600)
     @ [0x00, 0x11, 0x22, 0x33, 0x44, 0x55, 0x66, 0x77, 0x88, 0x99, 0xAA, 0xBB, 0xCC, 0xDD, 0xEE, 0xFF]"
| "CM_otfs_stock build_id C_user_authentication_key =
     [0x00, 0x07] @ SPLIT_LONG (48 * 3600)
     @ [0x00, 0x01, 0x02, 0x03, 0x04, 0x05, 0x06, 0x07, 0x08, 0x09, 0x0A, 0x0B, 0x0C, 0x0D, 0x0E, 0x0F]"
| "CM_otfs_stock build_id _ = []"

text \<open>The inverter files hold numbered 16-bit or 32-bit values.\<close>

definition numbered_shorts :: "nat list \<Rightarrow> bytes" where
  "numbered_shorts ns = concat (map (\<lambda>n. SPLIT_SHORT_LE (of_nat n)) ns)"

definition numbered_longs :: "nat list \<Rightarrow> bytes" where
  "numbered_longs ns = concat (map (\<lambda>n. SPLIT_LONG_LE (of_nat n)) ns)"

text \<open>The set array: a curve number, pairs of points and the fields after them.\<close>

definition CS_setarray :: "nat list" where
  "CS_setarray = [0, 1, 1, 2, 2, 3, 3, 4, 4, 5, 5, 6, 6, 52, 56, 60, 64, 68, 72, 76, 80]"

fun CM_csip_stock :: "csip_file \<Rightarrow> bytes" where
  "CM_csip_stock C_pwrdata_inv = numbered_shorts [1..<26]"
| "CM_csip_stock C_pwrdata_mppt = numbered_shorts [1..<21]"
| "CM_csip_stock C_csip_nameplate_inv = numbered_longs [1..<25]"
| "CM_csip_stock C_csip_nameplate_mppt = numbered_longs [1, 2]"
| "CM_csip_stock C_csip_cfg = numbered_longs [1..<45]"
| "CM_csip_stock C_csip_setarray = numbered_longs CS_setarray"
| "CM_csip_stock C_csip_issuecmd = numbered_longs [1..<7]"
| "CM_csip_stock C_csip_operations = numbered_longs [1..<5]"
| "CM_csip_stock C_csip_issuecontrol = numbered_longs [1]"
| "CM_csip_stock C_application_extension = replicate 256 ERS"
| "CM_csip_stock _ = []"

definition CM_stock :: "bytes \<Rightarrow> csip_file \<Rightarrow> bytes" where
  "CM_stock build_id f = CM_otfs_stock build_id f @ CM_csip_stock f"

definition CM_stock_files :: "bytes \<Rightarrow> bytes" where
  "CM_stock_files build_id = concat (map (CM_stock build_id) csip_files)"

section \<open>The layout is consistent\<close>

lemma csip_files_UNIV: "f \<in> set csip_files"
  by (cases f) (simp_all add: csip_files_def)

lemma length_csip_files: "length csip_files = 26"
  by (simp add: csip_files_def)

lemma CM_ALLOC_eq: "CM_ALLOC f = CS_MAX f"
  by (cases f) (simp_all add: CM_ALLOC_def VL_WORD_def)

lemma CM_STOCK_BYTES_eq: "CM_STOCK_BYTES = 948"
  by (simp add: CM_STOCK_BYTES_def csip_files_def CM_ALLOC_eq)

lemma CS_MIRROR_eq: "CS_MIRROR f = NULL_vaddr"
  by (cases f) (simp_all add: CS_MIRROR_def CS_SET_MIRROR_def CS_NOMIRROR_def NULL_vaddr_def)

lemma length_numbered [simp]:
  "length (numbered_shorts ns) = 2 * length ns" "length (numbered_longs ns) = 4 * length ns"
  by (simp_all add: numbered_shorts_def numbered_longs_def length_concat o_def split_defs sum_list_triv)

lemma length_CM_stock: "length build_id = 9 \<Longrightarrow> length (CM_stock build_id f) = CM_ALLOC f"
  by (cases f) (simp_all add: CM_stock_def CM_ALLOC_eq split_defs CS_setarray_def)

interpretation csip_master: file_table csip_files CM_ALLOC CS_ISF_START_VADDR CM_BASE
  by unfold_locales (auto simp: csip_files_UNIV CM_ALLOC_def push_bit_eq_mult CM_BASE_def csip_consts)

lemma CM_overhead_headers:
  "fsheader_at CM_overhead_files 0 = Some CM_fsheader"
  "i < 2 \<Longrightarrow> header_at CM_overhead_files (32 + 16 * i) = Some (CM_gfb_header i)"
  "i < 26 \<Longrightarrow> header_at CM_overhead_files (64 + 16 * i) = Some (CM_isf_header (csip_files ! i))"
proof -
  let ?p = "fsheader_bytes CM_fsheader" and ?g = "concat (map (header_bytes \<circ> CM_gfb_header) [0, 1])"
  show "fsheader_at CM_overhead_files 0 = Some CM_fsheader"
    by (simp only: CM_overhead_files_def fsheader_at_bytes)
  show "header_at CM_overhead_files (32 + 16 * i) = Some (CM_gfb_header i)" if "i < 2"
  proof -
    from that have "i < length [0, 1 :: nat]" "[0, 1] ! i = i" by (auto simp: less_2_cases_iff)
    from header_at_concat [OF this(1), of ?p CM_gfb_header] this(2)
    show ?thesis unfolding CM_overhead_files_def by (simp only: length_fsheader_bytes)
  qed
  have l: "length (?p @ ?g) = 64" by simp
  show "header_at CM_overhead_files (64 + 16 * i) = Some (CM_isf_header (csip_files ! i))" if "i < 26"
    using header_at_concat [of i csip_files "?p @ ?g" CM_isf_header "[]"] that
    unfolding CM_overhead_files_def l length_csip_files append_Nil2 append_assoc by simp
qed

text \<open>
  C35. The filesystem of the inverter application is consistent: the headers of its 26 indexed
  files stand where the search computes them and fit the space the configuration checks for; the
  areas of two files are disjoint, start and end at a half-word, lie inside the block of indexed
  files and have room for the declared length, and for every build id of 9 bytes the stock array
  holds the data of each file at the distance of its base from the start of the block.
\<close>

theorem csip_layout:
  assumes "length build_id = 9"
  shows "(\<forall>i < 26. header_at CM_overhead_files (64 + 16 * i) = Some (CM_isf_header (csip_files ! i)))
   \<and> length CM_overhead_files = OVERHEAD_MIN_BYTES 1 1 0 \<and> OVERHEAD_MIN_BYTES 1 1 0 \<le> CS_OVERHEAD_TOTAL_BYTES
   \<and> (\<forall>f g. f = g \<or> CM_BASE f + CM_ALLOC f \<le> CM_BASE g \<or> CM_BASE g + CM_ALLOC g \<le> CM_BASE f)
   \<and> (\<forall>f. CS_ISF_START_VADDR \<le> CM_BASE f \<and> CM_BASE f + CM_ALLOC f \<le> CS_ISF_START_VADDR + CM_ISF_TOTAL_BYTES
        \<and> even (CM_BASE f) \<and> even (CM_ALLOC f) \<and> unat (CS_LEN f) \<le> CM_ALLOC f
        \<and> take (CM_ALLOC f) (drop (CM_BASE f - CS_ISF_START_VADDR) (CM_stock_files build_id))
          = CM_stock build_id f)"
proof (intro conjI allI impI)
  show "header_at CM_overhead_files (64 + 16 * i) = Some (CM_isf_header (csip_files ! i))" if "i < 26" for i
    using that by (rule CM_overhead_headers)
  show "length CM_overhead_files = OVERHEAD_MIN_BYTES 1 1 0"
    by (simp add: CM_overhead_files_def length_concat length_csip_files o_def sum_list_triv
        OVERHEAD_MIN_BYTES_def VL_HEADER_SIZE_def csip_consts)
  show "OVERHEAD_MIN_BYTES 1 1 0 \<le> CS_OVERHEAD_TOTAL_BYTES"
    by (simp add: OVERHEAD_MIN_BYTES_def VL_HEADER_SIZE_def csip_consts)
next
  fix f
  show "CM_BASE f + CM_ALLOC f \<le> CS_ISF_START_VADDR + CM_ISF_TOTAL_BYTES"
    using csip_master.area_inside [of f] by (simp add: CM_ISF_TOTAL_BYTES_def CM_STOCK_BYTES_def)
  show "unat (CS_LEN f) \<le> CM_ALLOC f" by (cases f) (simp_all add: CM_ALLOC_eq csip_consts)
  show "take (CM_ALLOC f) (drop (CM_BASE f - CS_ISF_START_VADDR) (CM_stock_files build_id))
      = CM_stock build_id f"
    unfolding CM_stock_files_def by (rule csip_master.stock_at_base) (rule length_CM_stock [OF assms])
qed (simp_all add: csip_master.areas_disjoint csip_master.area_after csip_master.base_even csip_master.alloc_even)

theorem csip_layout_witness:
  "header_at CM_overhead_files 464 = Some (CM_isf_header C_application_extension)
   \<and> even (CM_BASE C_application_extension)"
proof -
  have "length (replicate 9 0x41 :: bytes) = 9" by simp
  note l = csip_layout [OF this]
  have "header_at CM_overhead_files (64 + 16 * 25) = Some (CM_isf_header (csip_files ! 25))"
    by (rule l [THEN conjunct1, rule_format]) simp
  then show ?thesis using l by (simp add: csip_files_def)
qed

text \<open>
  The filesystem header counts the files without the application extension: a search over the
  counted headers ends before the last one.
\<close>

lemma CM_counts: "unat (blk_files (fs_isf CM_fsheader)) = 25 \<and> csip_files ! 25 = C_application_extension"
  by (simp add: CM_fsheader_def csip_consts csip_files_def)

end
