(* ===== verification/C2k_Config.thy ===== *)
theory C2k_Config
  imports Csip_Config
begin

text \<open>
  The filesystem of the C2000 build, \<^verbatim>\<open>include/app/csip_c2000/fs_config.h\<close> and \<^verbatim>\<open>fs_defaults.h\<close>: the
  files of the inverter application with allocations rounded to eight bytes, and arrays of
  16-bit words. The build has no \<^verbatim>\<open>MULTIFS\<close> and no modification times (a header is six words),
  keeps the filesystem in RAM (\<^verbatim>\<open>__VLSRAM__\<close>, so nothing is mirrored) and defines
  \<^verbatim>\<open>__NO_SECTIONS__\<close>; \<^verbatim>\<open>__VID__\<close> and \<^verbatim>\<open>__UID__\<close> are not defined.
\<close>

section \<open>Places\<close>

type_synonym words = "u16 list"

primrec C2_MOD :: "csip_file \<Rightarrow> u8" where
  "C2_MOD C_network_settings = 0x34"
| "C2_MOD C_device_features = 0x24"
| "C2_MOD C_channel_configuration = CS_MOD_file_standard"
| "C2_MOD C_real_time_scheduler = 0x24"
| "C2_MOD C_hold_scan_sequence = CS_MOD_file_standard"
| "C2_MOD C_sleep_scan_sequence = CS_MOD_file_standard"
| "C2_MOD C_beacon_transmit_sequence = CS_MOD_file_standard"
| "C2_MOD C_isf_list = 0x24"
| "C2_MOD C_iss_list = CS_MOD_file_standard"
| "C2_MOD C_gfb_file_list = 0x24"
| "C2_MOD C_location_data_list = CS_MOD_file_standard"
| "C2_MOD C_ipv6_addresses = 0x24"
| "C2_MOD C_sensor_list = CS_MOD_file_standard"
| "C2_MOD C_sensor_alarms = CS_MOD_file_standard"
| "C2_MOD C_root_authentication_key = 0x0"
| "C2_MOD C_user_authentication_key = 0x30"
| "C2_MOD C_pwrdata_inv = 0x24"
| "C2_MOD C_pwrdata_mppt = 0x24"
| "C2_MOD C_csip_nameplate_inv = 0x34"
| "C2_MOD C_csip_nameplate_mppt = 0x34"
| "C2_MOD C_csip_cfg = 0x30"
| "C2_MOD C_csip_setarray = 0x30"
| "C2_MOD C_csip_issuecmd = 0x30"
| "C2_MOD C_csip_operations = 0x10"
| "C2_MOD C_csip_issuecontrol = 0x30"
| "C2_MOD C_application_extension = 0x20"

definition C2_ALLOC :: "csip_file \<Rightarrow> nat" where
  "C2_ALLOC f = push_bit 3 (drop_bit 3 (CS_MAX f + (VL_WORD * 4 - 1)))"

definition C2_STOCK_BYTES :: nat where "C2_STOCK_BYTES = sum_list (map C2_ALLOC csip_files)"

definition C2_ISF_TOTAL_BYTES :: nat where "C2_ISF_TOTAL_BYTES = C2_STOCK_BYTES"

definition C2_VWORM_STOCK_BYTES :: nat where "C2_VWORM_STOCK_BYTES = C2_STOCK_BYTES - 0"

definition C2_HEAP_BYTES :: nat where "C2_HEAP_BYTES = C2_VWORM_STOCK_BYTES"

definition C2_BASE :: "csip_file \<Rightarrow> nat" where
  "C2_BASE f = CS_ISF_START_VADDR + sum_list (map C2_ALLOC (takeWhile (\<lambda>g. g \<noteq> f) csip_files))"

section \<open>Initialiser macros\<close>

definition C2_ERS16 :: u16 where "C2_ERS16 = 0xFFFF"

definition JOIN_2BYTES :: "u8 \<Rightarrow> u8 \<Rightarrow> u16" where
  "JOIN_2BYTES b0 b1 = push_bit 8 (ucast b1) OR ucast b0"

definition C2_SPLIT_LONG_LE :: "u32 \<Rightarrow> words" where
  "C2_SPLIT_LONG_LE v = [ucast (v AND 0xFFFF), ucast (drop_bit 16 v AND 0xFFFF)]"

definition C2_SPLIT_U64 :: "u64 \<Rightarrow> words" where
  "C2_SPLIT_U64 v = [ucast (drop_bit 48 v AND 0xFFFF), ucast (drop_bit 32 v AND 0xFFFF),
     ucast (drop_bit 16 v AND 0xFFFF), ucast (v AND 0xFFFF)]"

definition PLATFORM_ENDIAN16_C :: "u16 \<Rightarrow> u16" where
  "PLATFORM_ENDIAN16_C v = push_bit 8 v OR drop_bit 8 v"

section \<open>The default headers\<close>

definition C2_fsheader :: words where
  "C2_fsheader = map of_nat [CS_OVERHEAD_TOTAL_BYTES, 0, 0,
     CS_GFB_TOTAL_BYTES, CS_GFB_STOCK_BYTES, CS_GFB_NUM_STOCK_FILES,
     CS_ISS_TOTAL_BYTES, CS_ISS_STOCK_BYTES, CS_ISS_NUM_STOCK_FILES,
     C2_ISF_TOTAL_BYTES, C2_STOCK_BYTES, CS_ISF_NUM_STOCK_FILES]"

text \<open>Both generic files have a fixed base and allocation here.\<close>

definition C2_gfb_header :: "u8 \<Rightarrow> words" where
  "C2_gfb_header i = [JOIN_2BYTES 0x00 0x00, JOIN_2BYTES 0x00 0x01, JOIN_2BYTES i CS_GFB_MOD_standard,
     JOIN_2BYTES 0x00 0x14, JOIN_2BYTES 0xFF 0xFF, JOIN_2BYTES 0 0]"

definition C2_isf_header :: "csip_file \<Rightarrow> words" where
  "C2_isf_header f = [JOIN_2BYTES (CS_LEN f) 0x00, of_nat (C2_ALLOC f), JOIN_2BYTES (CS_ID f) (C2_MOD f),
     of_nat (C2_BASE f), CS_MIRROR f, JOIN_2BYTES 0 0]"

definition C2_overhead_files :: words where
  "C2_overhead_files = C2_fsheader @ concat (map C2_gfb_header [0, 1]) @ concat (map C2_isf_header csip_files)"

section \<open>The stock data\<close>

definition C2_gfb_stock_files :: words where "C2_gfb_stock_files = [C2_ERS16]"

text \<open>
  \<open>build_id\<close> is the nine bytes of the version string that the build settings give; the string is
  stored two characters to a word.
\<close>

fun word_pairs :: "bytes \<Rightarrow> words" where
  "word_pairs (a # b # bs) = JOIN_2BYTES a b # word_pairs bs"
| "word_pairs _ = []"

fun C2_otfs_stock :: "bytes \<Rightarrow> csip_file \<Rightarrow> words" where
  "C2_otfs_stock build_id C_network_settings =
     [0, JOIN_2BYTES 0x01 0x00, PLATFORM_ENDIAN16_C 0, JOIN_2BYTES 0x00 1, PLATFORM_ENDIAN16_C 0]
     @ replicate 3 C2_ERS16"
| "C2_otfs_stock build_id C_device_features =
     C2_SPLIT_U64 0x00000000DEADBEEF
     @ [PLATFORM_ENDIAN16_C 0, JOIN_2BYTES 255 1, PLATFORM_ENDIAN16_C 1, PLATFORM_ENDIAN16_C 0,
        PLATFORM_ENDIAN16_C (of_nat C2_ISF_TOTAL_BYTES), PLATFORM_ENDIAN16_C (of_nat (C2_ISF_TOTAL_BYTES - C2_HEAP_BYTES)),
        PLATFORM_ENDIAN16_C 0, PLATFORM_ENDIAN16_C 0, PLATFORM_ENDIAN16_C (of_nat CS_GFB_TOTAL_BYTES),
        PLATFORM_ENDIAN16_C (of_nat (CS_GFB_TOTAL_BYTES - CS_GFB_HEAP_BYTES)),
        PLATFORM_ENDIAN16_C (of_nat CS_GFB_BLOCK_BYTES), JOIN_2BYTES 0 0,
        JOIN_2BYTES 0x4F 0x54, JOIN_2BYTES 0x76 (0 + 48), JOIN_2BYTES 0x20 0x20]
     @ word_pairs (take 9 build_id @ [0])"
| "C2_otfs_stock build_id C_real_time_scheduler =
     C2_SPLIT_LONG_LE 1 @ C2_SPLIT_LONG_LE 2 @ C2_SPLIT_LONG_LE 3 @ replicate 2 C2_ERS16"
| "C2_otfs_stock build_id C_isf_list = JOIN_2BYTES 0xFF 0xFF # replicate 11 C2_ERS16"
| "C2_otfs_stock build_id C_gfb_file_list = JOIN_2BYTES 0x01 0xFF # replicate 3 C2_ERS16"
| "C2_otfs_stock build_id C_ipv6_addresses = replicate 24 C2_ERS16"
| "C2_otfs_stock build_id C_root_authentication_key =
     JOIN_2BYTES 0x00 0x38 # C2_SPLIT_LONG_LE 172800
     @ word_pairs [0x00, 0x11, 0x22, 0x33, 0x44, 0x55, 0x66, 0x77, 0x88, 0x99, 0xAA, 0xBB, 0xCC, 0xDD, 0xEE, 0xFF]
     @ [C2_ERS16]"
| "C2_otfs_stock build_id C_user_authentication_key =
     JOIN_2BYTES 0x00 0x07 # C2_SPLIT_LONG_LE 172800
     @ word_pairs [0x00, 0x01, 0x02, 0x03, 0x04, 0x05, 0x06, 0x07, 0x08, 0x09, 0x0A, 0x0B, 0x0C, 0x0D, 0x0E, 0x0F]
     @ [C2_ERS16]"
| "C2_otfs_stock build_id _ = []"

definition word_longs :: "nat list \<Rightarrow> words" where
  "word_longs ns = concat (map (\<lambda>n. C2_SPLIT_LONG_LE (of_nat n)) ns)"

fun C2_csip_stock :: "csip_file \<Rightarrow> words" where
  "C2_csip_stock C_pwrdata_inv = map of_nat [1..<26] @ replicate 3 C2_ERS16"
| "C2_csip_stock C_pwrdata_mppt = map of_nat [1..<21]"
| "C2_csip_stock C_csip_nameplate_inv = word_longs [1..<25]"
| "C2_csip_stock C_csip_nameplate_mppt = word_longs [1, 2]"
| "C2_csip_stock C_csip_cfg = word_longs [1..<45]"
| "C2_csip_stock C_csip_setarray = word_longs CS_setarray"
| "C2_csip_stock C_csip_issuecmd = word_longs [1..<7]"
| "C2_csip_stock C_csip_operations = word_longs [1..<5]"
| "C2_csip_stock C_csip_issuecontrol = word_longs [1] @ replicate 2 C2_ERS16"
| "C2_csip_stock C_application_extension = replicate 128 C2_ERS16"
| "C2_csip_stock _ = []"

definition C2_stock :: "bytes \<Rightarrow> csip_file \<Rightarrow> words" where
  "C2_stock build_id f = C2_otfs_stock build_id f @ C2_csip_stock f"

definition C2_isf_stock_files :: "bytes \<Rightarrow> words" where
  "C2_isf_stock_files build_id = concat (map (C2_stock build_id) csip_files)"

section \<open>Where the stock data lies\<close>

interpretation c2000: file_table csip_files C2_ALLOC CS_ISF_START_VADDR C2_BASE
  by unfold_locales (auto simp: csip_files_UNIV C2_ALLOC_def push_bit_eq_mult C2_BASE_def csip_consts)

lemma word_pairs_length [simp]: "length (word_pairs bs) = length bs div 2"
  by (induction bs rule: word_pairs.induct) auto

lemma word_longs_length [simp]: "length (word_longs ns) = 2 * length ns"
  by (simp add: word_longs_def length_concat o_def C2_SPLIT_LONG_LE_def sum_list_triv)

primrec C2_room :: "csip_file \<Rightarrow> nat" where
  "C2_room C_network_settings = 16" | "C2_room C_device_features = 48" | "C2_room C_channel_configuration = 0"
| "C2_room C_real_time_scheduler = 16" | "C2_room C_hold_scan_sequence = 0" | "C2_room C_sleep_scan_sequence = 0"
| "C2_room C_beacon_transmit_sequence = 0" | "C2_room C_isf_list = 24" | "C2_room C_iss_list = 0"
| "C2_room C_gfb_file_list = 8" | "C2_room C_location_data_list = 0" | "C2_room C_ipv6_addresses = 48"
| "C2_room C_sensor_list = 0" | "C2_room C_sensor_alarms = 0" | "C2_room C_root_authentication_key = 24"
| "C2_room C_user_authentication_key = 24" | "C2_room C_pwrdata_inv = 56" | "C2_room C_pwrdata_mppt = 40"
| "C2_room C_csip_nameplate_inv = 96" | "C2_room C_csip_nameplate_mppt = 8" | "C2_room C_csip_cfg = 176"
| "C2_room C_csip_setarray = 88" | "C2_room C_csip_issuecmd = 24" | "C2_room C_csip_operations = 16"
| "C2_room C_csip_issuecontrol = 8" | "C2_room C_application_extension = 256"

lemma C2_ALLOC_eq: "C2_ALLOC f = C2_room f"
  by (cases f) (simp_all add: C2_ALLOC_def VL_WORD_def drop_bit_eq_div push_bit_eq_mult)

lemma C2_STOCK_BYTES_eq: "C2_STOCK_BYTES = 976"
  by (simp add: C2_STOCK_BYTES_def csip_files_def C2_ALLOC_eq)

text \<open>The data of the set array is not padded to its allocation of 88 bytes.\<close>

lemma length_C2_stock:
  "length build_id = 9 \<Longrightarrow>
   length (C2_stock build_id f) = (if f = C_csip_setarray then 42 else C2_ALLOC f div 2)"
  by (cases f) (simp_all add: C2_stock_def C2_ALLOC_eq C2_SPLIT_LONG_LE_def C2_SPLIT_U64_def CS_setarray_def)

definition after_setarray :: "csip_file set" where
  "after_setarray = {C_csip_issuecmd, C_csip_operations, C_csip_issuecontrol, C_application_extension}"

lemma C2_stock_position:
  assumes "length build_id = 9"
  shows "sum_list (map (length \<circ> C2_stock build_id) (takeWhile (\<lambda>g. g \<noteq> f) csip_files))
    = (C2_BASE f - CS_ISF_START_VADDR) div 2 - (if f \<in> after_setarray then 2 else 0)"
  by (cases f) (simp_all add: o_def length_C2_stock [OF assms] C2_BASE_def csip_files_def C2_ALLOC_eq after_setarray_def)

lemma C2_stock_slice:
  assumes "length build_id = 9"
  shows "take (length (C2_stock build_id f))
      (drop ((C2_BASE f - CS_ISF_START_VADDR) div 2 - (if f \<in> after_setarray then 2 else 0)) (C2_isf_stock_files build_id))
      = C2_stock build_id f"
  unfolding C2_isf_stock_files_def
  by (rule concat_slice [OF csip_files_UNIV C2_stock_position [OF assms, symmetric]])

lemma c2k_issuecmd_words:
  assumes "length build_id = 9"
  shows "take 12 (drop 336 (C2_isf_stock_files build_id)) = word_longs [2, 3, 4, 5, 6, 1]"
proof -
  let ?w = "C2_isf_stock_files build_id"
  have d: "C2_stock build_id C_csip_issuecmd = word_longs [1, 2, 3, 4, 5, 6]"
    "C2_stock build_id C_csip_operations = word_longs [1, 2, 3, 4]"
    by (simp_all add: C2_stock_def upt_rec numeral_eq_Suc)
  have 1: "take 12 (drop 334 ?w) = word_longs [1, 2, 3, 4, 5, 6]" "take 8 (drop 346 ?w) = word_longs [1, 2, 3, 4]"
    using C2_stock_slice [OF assms, of C_csip_issuecmd] C2_stock_slice [OF assms, of C_csip_operations] d
    by (simp_all add: after_setarray_def C2_BASE_def csip_files_def C2_ALLOC_eq)
  have "take (10 + 2) (drop 336 ?w) = take 10 (drop 336 ?w) @ take 2 (drop 346 ?w)" unfolding take_add by simp
  also have "take 10 (drop 336 ?w) = drop 2 (take 12 (drop 334 ?w))" by (simp add: drop_take)
  also have "take 2 (drop 346 ?w) = take 2 (take 8 (drop 346 ?w))" by simp
  finally show ?thesis unfolding 1 by (simp add: word_longs_def C2_SPLIT_LONG_LE_def)
qed

text \<open>
  C36. In the stock array of the C2000 build the data of the files up to the set array stands at
  their base; the data of the four files after it stands two words before their base, because the
  set array is not padded. So the command file read at its base starts with its second value, and
  its last value is the first of the operations file.
\<close>

theorem c2k_stock_shifted:
  assumes "length build_id = 9"
  shows "(f \<notin> after_setarray \<longrightarrow>
      take (length (C2_stock build_id f)) (drop ((C2_BASE f - CS_ISF_START_VADDR) div 2) (C2_isf_stock_files build_id))
      = C2_stock build_id f)
    \<and> (f \<in> after_setarray \<longrightarrow>
      take (length (C2_stock build_id f)) (drop ((C2_BASE f - CS_ISF_START_VADDR) div 2 - 2) (C2_isf_stock_files build_id))
      = C2_stock build_id f)
    \<and> take 12 (drop ((C2_BASE C_csip_issuecmd - CS_ISF_START_VADDR) div 2) (C2_isf_stock_files build_id))
      = word_longs [2, 3, 4, 5, 6, 1]
    \<and> length (C2_isf_stock_files build_id) = C2_STOCK_BYTES div 2 - 2"
proof (intro conjI impI)
  from C2_stock_slice [OF assms, of f] show
    "f \<notin> after_setarray \<Longrightarrow> take (length (C2_stock build_id f))
       (drop ((C2_BASE f - CS_ISF_START_VADDR) div 2) (C2_isf_stock_files build_id)) = C2_stock build_id f"
    "f \<in> after_setarray \<Longrightarrow> take (length (C2_stock build_id f))
       (drop ((C2_BASE f - CS_ISF_START_VADDR) div 2 - 2) (C2_isf_stock_files build_id)) = C2_stock build_id f"
    by simp_all
  show "length (C2_isf_stock_files build_id) = C2_STOCK_BYTES div 2 - 2"
    by (simp add: C2_isf_stock_files_def length_concat o_def length_C2_stock [OF assms] C2_STOCK_BYTES_eq
        csip_files_def C2_ALLOC_eq)
  have "(C2_BASE C_csip_issuecmd - CS_ISF_START_VADDR) div 2 = 336"
    by (simp add: C2_BASE_def csip_files_def C2_ALLOC_eq)
  then show "take 12 (drop ((C2_BASE C_csip_issuecmd - CS_ISF_START_VADDR) div 2) (C2_isf_stock_files build_id))
      = word_longs [2, 3, 4, 5, 6, 1]" using c2k_issuecmd_words [OF assms] by simp
qed

theorem c2k_stock_shifted_witness:
  "take 42 (drop ((C2_BASE C_csip_setarray - CS_ISF_START_VADDR) div 2) (C2_isf_stock_files (replicate 9 0x41)))
   = word_longs CS_setarray"
  using c2k_stock_shifted [of "replicate 9 0x41" C_csip_setarray]
  by (simp add: after_setarray_def length_C2_stock) (simp add: C2_stock_def)

end
