(* ===== verification/C2k_Queue.thy ===== *)
theory C2k_Queue
  imports Ot_Queue
begin

text \<open>
  The byte queues on the C2000, \<^verbatim>\<open>platform/c2000/otlib_queue.c\<close>, whose memory has units of 16
  bits: a queue has a pointer to its first word and counts bytes with 16-bit cursors, and the
  compiler's \<^verbatim>\<open>__byte(p, i)\<close> is the byte \<open>i\<close> of the words at \<open>p\<close>, the low byte of a word first.
  An \<^verbatim>\<open>ot_u8\<close> is a word of 16 bits here; storing it through \<^verbatim>\<open>__byte\<close> keeps its low 8 bits.
\<close>

section \<open>Memory\<close>

type_synonym wmem = "nat \<Rightarrow> u16 list option"

definition c2_byte :: "ptr \<Rightarrow> u16 \<Rightarrow> wmem \<Rightarrow> u16 option" where
  "c2_byte p i h = do {
     ws \<leftarrow> h (fst p);
     let k = snd p + int (unat i div 2);
     if 0 \<le> k \<and> nat k < length ws
     then Some (ucast (if even (unat i) then lo8 (ws ! nat k) else hi8 (ws ! nat k))) else None
   }"

definition c2_set_byte :: "ptr \<Rightarrow> u16 \<Rightarrow> u16 \<Rightarrow> wmem \<Rightarrow> wmem option" where
  "c2_set_byte p i v h = do {
     ws \<leftarrow> h (fst p);
     let k = snd p + int (unat i div 2);
     if 0 \<le> k \<and> nat k < length ws
     then let w = ws ! nat k; w = (if even (unat i) then join16 (lo8 v) (hi8 w) else join16 (lo8 w) (lo8 v))
          in Some (h(fst p \<mapsto> ws[nat k := w]))
     else None
   }"

section \<open>Queue objects\<close>

record c2_queue =
  c2_front :: ptr
  c2_alloc :: u16
  c2_options :: u16
  c2_getcursor :: u16
  c2_putcursor :: u16
  c2_back :: u16

type_synonym c2mem = "c2_queue \<times> wmem"

definition c2_q_empty :: "c2_queue \<Rightarrow> c2_queue" where
  "c2_q_empty q = q\<lparr>c2_options := 0, c2_back := c2_alloc q, c2_putcursor := 0, c2_getcursor := 0\<rparr>"

definition c2_q_init :: "c2_queue \<Rightarrow> ptr \<Rightarrow> u16 \<Rightarrow> c2_queue" where
  "c2_q_init q buffer alloc = c2_q_empty (q\<lparr>c2_alloc := alloc, c2_front := buffer, c2_back := alloc\<rparr>)"

definition c2_q_rebase :: "c2_queue \<Rightarrow> ptr \<Rightarrow> c2_queue" where
  "c2_q_rebase q buffer = q\<lparr>c2_front := buffer, c2_getcursor := 0, c2_putcursor := 0, c2_back := 0\<rparr>"

definition c2_q_copy :: "c2_queue \<Rightarrow> c2_queue \<Rightarrow> c2_queue" where
  "c2_q_copy q1 q2 = q2"

definition c2_q_getcursor_val :: "int \<Rightarrow> c2mem \<Rightarrow> u16 option" where
  "c2_q_getcursor_val offset s = c2_byte (c2_front (fst s)) (c2_getcursor (fst s) + word_of_int offset) (snd s)"

definition c2_q_getcursor_insert :: "int \<Rightarrow> u16 \<Rightarrow> c2mem \<Rightarrow> c2mem option" where
  "c2_q_getcursor_insert offset val s = do {
     h \<leftarrow> c2_set_byte (c2_front (fst s)) (c2_getcursor (fst s) + word_of_int offset) val (snd s);
     Some (fst s, h)
   }"

text \<open>The code of \<^verbatim>\<open>q_putcursor_val\<close> reads at the get cursor.\<close>

definition c2_q_putcursor_val :: "int \<Rightarrow> c2mem \<Rightarrow> u16 option" where
  "c2_q_putcursor_val offset s = c2_byte (c2_front (fst s)) (c2_getcursor (fst s) + word_of_int offset) (snd s)"

definition c2_q_putcursor_insert :: "int \<Rightarrow> u16 \<Rightarrow> c2mem \<Rightarrow> c2mem option" where
  "c2_q_putcursor_insert offset val s = do {
     h \<leftarrow> c2_set_byte (c2_front (fst s)) (c2_putcursor (fst s) + word_of_int offset) val (snd s);
     Some (fst s, h)
   }"

definition c2_q_offset :: "c2_queue \<Rightarrow> int \<Rightarrow> u16" where
  "c2_q_offset q offset = word_of_int offset"

definition c2_q_length :: "c2_queue \<Rightarrow> int" where
  "c2_q_length q = sint (c2_putcursor q)"

definition c2_q_span :: "c2_queue \<Rightarrow> int" where
  "c2_q_span q = sint (c2_putcursor q - c2_getcursor q)"

definition c2_q_writespace :: "c2_queue \<Rightarrow> int" where
  "c2_q_writespace q = sint (c2_back q - c2_putcursor q)"

definition c2_q_readspace :: "c2_queue \<Rightarrow> int" where
  "c2_q_readspace q = sint (c2_back q - c2_getcursor q)"

text \<open>Blocking and locking do nothing.\<close>

definition c2_q_blocktime :: "c2_queue \<Rightarrow> u16" where
  "c2_q_blocktime q = 0"

definition c2_q_blockwrite :: "c2_queue \<Rightarrow> u16 \<Rightarrow> c2_queue" where
  "c2_q_blockwrite q blocktime = q"

definition c2_q_lock :: "c2_queue \<Rightarrow> c2_queue" where
  "c2_q_lock q = q"

definition c2_q_unlock :: "c2_queue \<Rightarrow> c2_queue" where
  "c2_q_unlock q = q"

definition c2_q_start :: "c2_queue \<Rightarrow> u16 \<Rightarrow> u16 \<Rightarrow> ptr option \<times> c2_queue" where
  "c2_q_start q offset options =
     (let q = c2_q_empty q in
      if c2_alloc q \<le> offset then (None, q)
      else
        let q = q\<lparr>c2_options := options, c2_putcursor := c2_putcursor q + offset, c2_getcursor := c2_getcursor q + offset\<rparr>
        in (Some (ptr_add (c2_front q) (uint (drop_bit 1 offset))), q))"

definition c2_q_markbyte :: "c2_queue \<Rightarrow> int \<Rightarrow> u16 \<times> c2_queue" where
  "c2_q_markbyte q shift = (c2_getcursor q, q\<lparr>c2_getcursor := c2_getcursor q + word_of_int shift\<rparr>)"

section \<open>Reading and writing\<close>

definition c2_q_writebyte :: "u16 \<Rightarrow> c2mem \<Rightarrow> c2mem option" where
  "c2_q_writebyte byte_in s = (case s of (q, h) \<Rightarrow> do {
     h \<leftarrow> c2_set_byte (c2_front q) (c2_putcursor q) byte_in h;
     Some (q\<lparr>c2_putcursor := c2_putcursor q + 1\<rparr>, h)
   })"

definition c2_q_writeshort :: "u16 \<Rightarrow> c2mem \<Rightarrow> c2mem option" where
  "c2_q_writeshort short_in s = do { s \<leftarrow> c2_q_writebyte (drop_bit 8 short_in) s; c2_q_writebyte (short_in AND 0xFF) s }"

definition c2_q_writeshort_be :: "u16 \<Rightarrow> c2mem \<Rightarrow> c2mem option" where
  "c2_q_writeshort_be short_in s = do { s \<leftarrow> c2_q_writebyte (short_in AND 0xFF) s; c2_q_writebyte (drop_bit 8 short_in) s }"

definition c2_q_writelong :: "u32 \<Rightarrow> c2mem \<Rightarrow> c2mem option" where
  "c2_q_writelong long_in s = do {
     s \<leftarrow> c2_q_writebyte (ucast (drop_bit 24 long_in)) s;
     s \<leftarrow> c2_q_writebyte (ucast (drop_bit 16 long_in AND 0xFF)) s;
     s \<leftarrow> c2_q_writebyte (ucast (drop_bit 8 long_in AND 0xFF)) s;
     c2_q_writebyte (ucast (drop_bit 0 long_in AND 0xFF)) s
   }"

definition c2_q_writelong_be :: "u32 \<Rightarrow> c2mem \<Rightarrow> c2mem option" where
  "c2_q_writelong_be long_in s = do {
     s \<leftarrow> c2_q_writebyte (ucast (drop_bit 0 long_in AND 0xFF)) s;
     s \<leftarrow> c2_q_writebyte (ucast (drop_bit 8 long_in AND 0xFF)) s;
     s \<leftarrow> c2_q_writebyte (ucast (drop_bit 16 long_in AND 0xFF)) s;
     c2_q_writebyte (ucast (drop_bit 24 long_in)) s
   }"

definition c2_q_readbyte :: "c2mem \<Rightarrow> (u16 \<times> c2mem) option" where
  "c2_q_readbyte s = (case s of (q, h) \<Rightarrow> do {
     retval \<leftarrow> c2_byte (c2_front q) (c2_getcursor q) h;
     Some (retval, q\<lparr>c2_getcursor := c2_getcursor q + 1\<rparr>, h)
   })"

definition c2_q_readshort :: "c2mem \<Rightarrow> (u16 \<times> c2mem) option" where
  "c2_q_readshort s = do {
     (a, s) \<leftarrow> c2_q_readbyte s; (b, s) \<leftarrow> c2_q_readbyte s;
     Some (push_bit 8 a OR b, s)
   }"

definition c2_q_readshort_be :: "c2mem \<Rightarrow> (u16 \<times> c2mem) option" where
  "c2_q_readshort_be s = do {
     (a, s) \<leftarrow> c2_q_readbyte s; (b, s) \<leftarrow> c2_q_readbyte s;
     Some (a OR push_bit 8 b, s)
   }"

definition c2_q_readlong :: "c2mem \<Rightarrow> (u32 \<times> c2mem) option" where
  "c2_q_readlong s = do {
     (a, s) \<leftarrow> c2_q_readbyte s; (b, s) \<leftarrow> c2_q_readbyte s;
     (c, s) \<leftarrow> c2_q_readbyte s; (d, s) \<leftarrow> c2_q_readbyte s;
     Some (push_bit 24 (ucast a) OR push_bit 16 (ucast b) OR push_bit 8 (ucast c) OR ucast d, s)
   }"

definition c2_q_readlong_be :: "c2mem \<Rightarrow> (u32 \<times> c2mem) option" where
  "c2_q_readlong_be s = do {
     (a, s) \<leftarrow> c2_q_readbyte s; (b, s) \<leftarrow> c2_q_readbyte s;
     (c, s) \<leftarrow> c2_q_readbyte s; (d, s) \<leftarrow> c2_q_readbyte s;
     Some (ucast a OR push_bit 8 (ucast b) OR push_bit 16 (ucast c) OR push_bit 24 (ucast d), s)
   }"

text \<open>The loop of \<^verbatim>\<open>q_rewind\<close>; \<open>span\<close> is positive when it starts.\<close>

fun c2_rewind_loop :: "nat \<Rightarrow> c2mem \<Rightarrow> c2mem option" where
  "c2_rewind_loop 0 s = Some s"
| "c2_rewind_loop (Suc span) s = do {
     (b, s) \<leftarrow> c2_q_readbyte s;
     s \<leftarrow> c2_q_writebyte b s;
     c2_rewind_loop span s
   }"

definition c2_q_rewind :: "c2mem \<Rightarrow> c2mem option" where
  "c2_q_rewind s = (case s of (q, h) \<Rightarrow>
     let span = c2_q_span q in
     if 0 < span then do {
       (q, h) \<leftarrow> c2_rewind_loop (nat span) (q\<lparr>c2_putcursor := 0\<rparr>, h);
       Some (q\<lparr>c2_getcursor := 0\<rparr>, h)
     } else Some (q, h))"

text \<open>The strings are packed, two bytes in a word; \<open>i\<close> counts up to \<open>n\<close> more bytes.\<close>

fun c2_writestring_loop :: "ptr \<Rightarrow> nat \<Rightarrow> nat \<Rightarrow> c2mem \<Rightarrow> c2mem option" where
  "c2_writestring_loop str i 0 s = Some s"
| "c2_writestring_loop str i (Suc n) s = do {
     b \<leftarrow> c2_byte str (of_nat i) (snd s);
     s \<leftarrow> c2_q_writebyte b s;
     c2_writestring_loop str (Suc i) n s
   }"

definition c2_q_writestring :: "ptr \<Rightarrow> int \<Rightarrow> c2mem \<Rightarrow> (int \<times> c2mem) option" where
  "c2_q_writestring str len s =
     (if len \<le> 0 then Some (0, s)
      else
        let i = c2_q_writespace (fst s);
            len = (if i < len then i else len)
        in do { s \<leftarrow> c2_writestring_loop str 0 (nat len) s; Some (len, s) })"

fun c2_readstring_loop :: "ptr \<Rightarrow> nat \<Rightarrow> nat \<Rightarrow> c2mem \<Rightarrow> c2mem option" where
  "c2_readstring_loop str i 0 s = Some s"
| "c2_readstring_loop str i (Suc n) s = do {
     (b, q, h) \<leftarrow> c2_q_readbyte s;
     h \<leftarrow> c2_set_byte str (of_nat i) b h;
     c2_readstring_loop str (Suc i) n (q, h)
   }"

definition c2_q_readstring :: "ptr \<Rightarrow> int \<Rightarrow> c2mem \<Rightarrow> (int \<times> c2mem) option" where
  "c2_q_readstring str len s =
     (if len \<le> 0 then Some (0, s)
      else
        let i = c2_q_readspace (fst s);
            len = (if i < len then i else len)
        in do { s \<leftarrow> c2_readstring_loop str 0 (nat len) s; Some (len, s) })"

text \<open>The two queues of \<^verbatim>\<open>q_movedata\<close> are different objects.\<close>

fun c2_move_loop :: "nat \<Rightarrow> c2_queue \<Rightarrow> c2_queue \<Rightarrow> wmem \<Rightarrow> (c2_queue \<times> c2_queue \<times> wmem) option" where
  "c2_move_loop 0 qdst qsrc h = Some (qdst, qsrc, h)"
| "c2_move_loop (Suc n) qdst qsrc h = do {
     (b, qsrc, h) \<leftarrow> c2_q_readbyte (qsrc, h);
     (qdst, h) \<leftarrow> c2_q_writebyte b (qdst, h);
     c2_move_loop n qdst qsrc h
   }"

definition c2_q_movedata :: "c2_queue \<Rightarrow> c2_queue \<Rightarrow> int \<Rightarrow> wmem \<Rightarrow> (int \<times> c2_queue \<times> c2_queue \<times> wmem) option" where
  "c2_q_movedata qdst qsrc len h =
     (if len \<le> 0 then Some (0, qdst, qsrc, h)
      else
        let writespace = c2_q_writespace qdst; readspace = c2_q_readspace qsrc;
            limit = (if writespace < readspace then writespace else readspace)
        in if limit < len then Some (to_ot_int (len - limit), qdst, qsrc, h)
           else do { (qdst, qsrc, h) \<leftarrow> c2_move_loop (nat len) qdst qsrc h; Some (len, qdst, qsrc, h) })"

section \<open>The queue in bytes\<close>

text \<open>A word memory and a word queue, seen as the bytes and pointers of the POSIX platform.\<close>

definition abs_h :: "wmem \<Rightarrow> mem" where
  "abs_h h = (\<lambda>b. map_option hw_bytes (h b))"

definition abs_p :: "c2_queue \<Rightarrow> u16 \<Rightarrow> ptr" where
  "abs_p q c = (fst (c2_front q), 2 * snd (c2_front q) + int (unat c))"

definition abs_q :: "c2_queue \<Rightarrow> ot_queue" where
  "abs_q q = \<lparr>q_alloc = c2_alloc q, q_options = c2_options q, q_getcursor = abs_p q (c2_getcursor q),
     q_putcursor = abs_p q (c2_putcursor q), q_front = abs_p q 0, q_back = abs_p q (c2_back q)\<rparr>"

definition abs_m :: "c2mem \<Rightarrow> qmem" where
  "abs_m s = (abs_q (fst s), abs_h (snd s))"

text \<open>The block of the queue has less than 65536 bytes, so that no cursor wraps around.\<close>

definition c2_fits :: "c2mem \<Rightarrow> bool" where
  "c2_fits s \<longleftrightarrow> 0 \<le> snd (c2_front (fst s)) \<and> (\<forall>ws. snd s (fst (c2_front (fst s))) = Some ws \<longrightarrow> length ws < 32768)"

lemma nth_hw_bytes: "i < 2 * length ws \<Longrightarrow> hw_bytes ws ! i = (if even i then lo8 (ws ! (i div 2)) else hi8 (ws ! (i div 2)))"
proof (induction ws arbitrary: i)
  case (Cons w ws)
  show ?case
  proof (cases i)
    case (Suc j)
    then show ?thesis using Cons.prems Cons.IH [of "j - 1"] by (cases j) auto
  qed simp
qed simp

lemma update_hw_bytes:
  "i < 2 * length ws \<Longrightarrow> (hw_bytes ws)[i := b] =
    hw_bytes (ws[i div 2 := if even i then join16 b (hi8 (ws ! (i div 2))) else join16 (lo8 (ws ! (i div 2))) b])"
proof (rule nth_equalityI)
  fix j assume i: "i < 2 * length ws" and "j < length ((hw_bytes ws)[i := b])"
  then have j: "j < 2 * length ws" by simp
  have "j = i \<or> j div 2 \<noteq> i div 2 \<or> (j div 2 = i div 2 \<and> even j \<noteq> even i)" by presburger
  then show "(hw_bytes ws)[i := b] ! j = hw_bytes (ws[i div 2 := if even i then join16 b (hi8 (ws ! (i div 2)))
      else join16 (lo8 (ws ! (i div 2))) b]) ! j"
    using i j by (auto simp: nth_hw_bytes nth_list_update)
qed simp

lemma ld8_nth:
  "ld8 p h = (case h (fst p) of None \<Rightarrow> None
     | Some m \<Rightarrow> if 0 \<le> snd p \<and> nat (snd p) < length m then Some (m ! nat (snd p)) else None)"
  by (auto simp: ld8_def mem_rd_def rd_bytes_def hd_drop_conv_nth split: option.split)

lemma st8_update:
  "st8 p b h = (case h (fst p) of None \<Rightarrow> None
     | Some m \<Rightarrow> if 0 \<le> snd p \<and> nat (snd p) < length m then Some (h(fst p \<mapsto> m[nat (snd p) := b])) else None)"
  by (auto simp: st8_def mem_wr_def wr_bytes_def upd_conv_take_nth_drop split: option.split)

text \<open>The byte number of a word address and a byte index.\<close>

lemma byte_index:
  fixes a :: int and i :: nat
  shows "0 \<le> a + int (i div 2) \<longleftrightarrow> 0 \<le> 2 * a + int i"
    and "0 \<le> 2 * a + int i \<Longrightarrow> nat (2 * a + int i) div 2 = nat (a + int (i div 2))"
    and "0 \<le> 2 * a + int i \<Longrightarrow> even (nat (2 * a + int i)) = even i"
    and "0 \<le> 2 * a + int i \<Longrightarrow> nat (2 * a + int i) < 2 * n \<longleftrightarrow> nat (a + int (i div 2)) < n"
proof -
  show "0 \<le> a + int (i div 2) \<longleftrightarrow> 0 \<le> 2 * a + int i" by linarith
  assume a: "0 \<le> 2 * a + int i"
  show "nat (2 * a + int i) div 2 = nat (a + int (i div 2))" using a by linarith
  show "even (nat (2 * a + int i)) = even i" using a by (simp add: even_nat_iff)
  show "nat (2 * a + int i) < 2 * n \<longleftrightarrow> nat (a + int (i div 2)) < n" using a by linarith
qed

lemma abs_h_app: "abs_h h b = map_option hw_bytes (h b)"
  by (simp add: abs_h_def)

lemma abs_h_upd: "abs_h (h(b \<mapsto> ws)) = (abs_h h)(b \<mapsto> hw_bytes ws)"
  by (simp add: abs_h_def fun_eq_iff)

lemma c2_byte_abs: "c2_byte p i h = map_option ucast (ld8 (fst p, 2 * snd p + int (unat i)) (abs_h h))"
proof (cases "h (fst p)")
  case (Some ws)
  then show ?thesis
    using byte_index(1-3) [of "snd p" "unat i"] byte_index(4) [of "snd p" "unat i" "length ws"] nth_hw_bytes [of "nat (2 * snd p + int (unat i))" ws]
    by (auto simp: c2_byte_def ld8_nth abs_h_def Let_def)
qed (simp add: c2_byte_def ld8_nth abs_h_def)

lemma c2_set_byte_abs:
  "map_option abs_h (c2_set_byte p i v h) = st8 (fst p, 2 * snd p + int (unat i)) (lo8 v) (abs_h h)"
proof (cases "h (fst p)")
  case (Some ws)
  then show ?thesis
    using byte_index(1-3) [of "snd p" "unat i"] byte_index(4) [of "snd p" "unat i" "length ws"] update_hw_bytes [of "nat (2 * snd p + int (unat i))" ws "lo8 v"]
    by (auto simp: c2_set_byte_def st8_update abs_h_app abs_h_upd Let_def)
qed (simp add: c2_set_byte_def st8_update abs_h_def)

lemma c2_set_byte_fits:
  "c2_set_byte p i v h = Some h' \<Longrightarrow> map_option length (h' b) = map_option length (h b)"
  by (auto simp: c2_set_byte_def bind_eq_Some_conv Let_def split: if_splits)

lemma abs_q_sel [simp]:
  "q_alloc (abs_q q) = c2_alloc q" "q_options (abs_q q) = c2_options q"
  "q_getcursor (abs_q q) = abs_p q (c2_getcursor q)" "q_putcursor (abs_q q) = abs_p q (c2_putcursor q)"
  "q_front (abs_q q) = abs_p q 0" "q_back (abs_q q) = abs_p q (c2_back q)"
  by (simp_all add: abs_q_def)

lemma abs_p_upd [simp]:
  "abs_p (q\<lparr>c2_getcursor := g\<rparr>) c = abs_p q c" "abs_p (q\<lparr>c2_putcursor := g\<rparr>) c = abs_p q c"
  "abs_p (q\<lparr>c2_back := g\<rparr>) c = abs_p q c"
  "abs_p (q\<lparr>c2_alloc := g\<rparr>) c = abs_p q c" "abs_p (q\<lparr>c2_options := g\<rparr>) c = abs_p q c"
  by (simp_all add: abs_p_def)

lemma c2_fits_upd [simp]:
  "c2_fits (q\<lparr>c2_getcursor := g\<rparr>, h) = c2_fits (q, h)" "c2_fits (q\<lparr>c2_putcursor := g\<rparr>, h) = c2_fits (q, h)"
  "c2_fits (q\<lparr>c2_back := g\<rparr>, h) = c2_fits (q, h)"
  by (simp_all add: c2_fits_def)

lemma c2_fits_set: "c2_set_byte p i v h = Some h' \<Longrightarrow> c2_fits (q, h') = c2_fits (q, h)"
  using c2_set_byte_fits [of p i v h h' "fst (c2_front q)"] unfolding c2_fits_def
  by (cases "h (fst (c2_front q))"; cases "h' (fst (c2_front q))") auto

text \<open>A byte inside the block is not the last one the cursor can count.\<close>

lemma cursor_step:
  assumes "c2_fits (q, h)" and "ld8 (abs_p q c) (abs_h h) \<noteq> None"
  shows "abs_p q (c + 1) = ptr_add (abs_p q c) 1"
proof -
  have f: "0 \<le> snd (c2_front q)" using assms(1) by (simp add: c2_fits_def)
  obtain ws where "h (fst (c2_front q)) = Some ws" "nat (2 * snd (c2_front q) + uint c) < 2 * length ws"
    using assms(2) by (auto simp: ld8_nth abs_h_app abs_p_def split: option.splits if_splits)
  moreover from this(1) have "length ws < 32768" using assms(1) by (simp add: c2_fits_def)
  moreover note f
  ultimately have "unat c < 65535" using uint_nat [of c] by linarith
  then have "unat (c + 1) = unat c + 1" by (simp add: unat_add_u16)
  then show ?thesis by (simp add: abs_p_def ptr_add_def)
qed

lemma lo8_ucast [simp]: "lo8 (ucast b) = b"
  by (rule bit_word_eqI) (auto simp: lo8_def bit_simps)

text \<open>Both byte operations are those of the POSIX queue.\<close>

lemma c2_readbyte_abs:
  assumes "c2_fits s"
  shows "map_option (\<lambda>(b, t). (lo8 b, abs_m t)) (c2_q_readbyte s) = q_readbyte (abs_m s)"
proof -
  obtain q h where s: "s = (q, h)" by (cases s)
  show ?thesis
  proof (cases "ld8 (abs_p q (c2_getcursor q)) (abs_h h)")
    case (Some b)
    then have "abs_q (q\<lparr>c2_getcursor := c2_getcursor q + 1\<rparr>)
        = (abs_q q)\<lparr>q_getcursor := ptr_add (q_getcursor (abs_q q)) 1\<rparr>"
      using cursor_step [of q h "c2_getcursor q"] assms by (simp add: s abs_q_def)
    then show ?thesis using Some
      by (simp add: c2_q_readbyte_def q_readbyte_def c2_byte_abs s abs_m_def abs_p_def)
  qed (simp add: c2_q_readbyte_def q_readbyte_def c2_byte_abs s abs_m_def abs_p_def)
qed

lemma c2_readbyte_byte:
  "c2_q_readbyte s = Some (b, t) \<Longrightarrow> b = ucast (lo8 b) \<and> (c2_fits s \<longrightarrow> c2_fits t)"
  by (cases s) (auto simp: c2_q_readbyte_def c2_byte_abs bind_eq_Some_conv)

lemma c2_writebyte_abs:
  assumes "c2_fits s"
  shows "map_option abs_m (c2_q_writebyte b s) = q_writebyte (lo8 b) (abs_m s)"
proof -
  obtain q h where s: "s = (q, h)" by (cases s)
  note st = c2_set_byte_abs [of "c2_front q" "c2_putcursor q" b h]
  show ?thesis
  proof (cases "c2_set_byte (c2_front q) (c2_putcursor q) b h")
    case (Some h')
    with st have w: "st8 (abs_p q (c2_putcursor q)) (lo8 b) (abs_h h) = Some (abs_h h')" by (simp add: abs_p_def)
    then have "ld8 (abs_p q (c2_putcursor q)) (abs_h h) \<noteq> None"
      by (auto simp: st8_update ld8_nth split: option.splits if_splits)
    then have "abs_q (q\<lparr>c2_putcursor := c2_putcursor q + 1\<rparr>)
        = (abs_q q)\<lparr>q_putcursor := ptr_add (q_putcursor (abs_q q)) 1\<rparr>"
      using cursor_step [of q h "c2_putcursor q"] assms by (simp add: s abs_q_def)
    then show ?thesis using Some w by (simp add: c2_q_writebyte_def q_writebyte_def s abs_m_def)
  next
    case None
    with st have "st8 (abs_p q (c2_putcursor q)) (lo8 b) (abs_h h) = None" by (simp add: abs_p_def)
    then show ?thesis using None by (simp add: c2_q_writebyte_def q_writebyte_def s abs_m_def)
  qed
qed

lemma c2_writebyte_fits: "c2_q_writebyte b s = Some t \<Longrightarrow> c2_fits s \<Longrightarrow> c2_fits t"
  by (cases s) (auto simp: c2_q_writebyte_def bind_eq_Some_conv c2_fits_set)

section \<open>The word queue refines the byte queue\<close>

primrec c2_put_item :: "q_item \<Rightarrow> c2mem \<Rightarrow> c2mem option" where
  "c2_put_item (Q_byte b) s = c2_q_writebyte (ucast b) s"
| "c2_put_item (Q_short w) s = c2_q_writeshort w s"
| "c2_put_item (Q_short_be w) s = c2_q_writeshort_be w s"
| "c2_put_item (Q_long v) s = c2_q_writelong v s"
| "c2_put_item (Q_long_be v) s = c2_q_writelong_be v s"

primrec c2_get_item :: "q_kind \<Rightarrow> c2mem \<Rightarrow> (q_item \<times> c2mem) option" where
  "c2_get_item K_byte s = do { (b, s) \<leftarrow> c2_q_readbyte s; Some (Q_byte (lo8 b), s) }"
| "c2_get_item K_short s = do { (w, s) \<leftarrow> c2_q_readshort s; Some (Q_short w, s) }"
| "c2_get_item K_short_be s = do { (w, s) \<leftarrow> c2_q_readshort_be s; Some (Q_short_be w, s) }"
| "c2_get_item K_long s = do { (v, s) \<leftarrow> c2_q_readlong s; Some (Q_long v, s) }"
| "c2_get_item K_long_be s = do { (v, s) \<leftarrow> c2_q_readlong_be s; Some (Q_long_be v, s) }"

lemma lanes_shift:
  "lo8 (drop_bit 8 w) = hi8 w" "lo8 (w AND 0xFF) = lo8 w"
  "lo8 (ucast (drop_bit 24 (v :: u32))) = hi8 (hi16 v)" "lo8 (ucast (drop_bit 16 v AND 0xFF)) = lo8 (hi16 v)"
  "lo8 (ucast (drop_bit 8 v AND 0xFF)) = hi8 (lo16 v)" "lo8 (ucast (v AND 0xFF)) = lo8 (lo16 v)"
  "lo8 (lo16 (drop_bit 16 v)) = lo8 (hi16 v)" "lo8 (lo16 (drop_bit 8 v)) = hi8 (lo16 v)"
proof -
  have m: "(0xFF :: u16) = mask 8" "(0xFF :: u32) = mask 8" by (simp_all add: mask_numeral)
  show "lo8 (drop_bit 8 w) = hi8 w" "lo8 (w AND 0xFF) = lo8 w"
    "lo8 (ucast (drop_bit 24 v)) = hi8 (hi16 v)" "lo8 (ucast (drop_bit 16 v AND 0xFF)) = lo8 (hi16 v)"
    "lo8 (ucast (drop_bit 8 v AND 0xFF)) = hi8 (lo16 v)" "lo8 (ucast (v AND 0xFF)) = lo8 (lo16 v)"
    "lo8 (lo16 (drop_bit 16 v)) = lo8 (hi16 v)" "lo8 (lo16 (drop_bit 8 v)) = hi8 (lo16 v)"
    unfolding m by (rule bit_word_eqI, auto simp: lo8_def hi8_def lo16_def hi16_def bit_simps)+
qed

lemma lanes_join:
  "push_bit 8 (ucast u) OR ucast l = join16 l u" "ucast l OR push_bit 8 (ucast u) = join16 l u"
  "push_bit 24 (ucast (ucast b3 :: u16)) OR push_bit 16 (ucast (ucast b2 :: u16)) OR push_bit 8 (ucast (ucast b1 :: u16))
     OR ucast (ucast b0 :: u16) = join32 (join16 b0 b1) (join16 b2 b3)"
  "ucast (ucast b0 :: u16) OR push_bit 8 (ucast (ucast b1 :: u16)) OR push_bit 16 (ucast (ucast b2 :: u16))
     OR push_bit 24 (ucast (ucast b3 :: u16)) = join32 (join16 b0 b1) (join16 b2 b3)"
  by (rule bit_word_eqI, auto simp: join16_def join32_def bit_simps dest: bit_imp_le_length)+

text \<open>Only the low byte of what is written counts.\<close>

abbreviation c2_wr :: "u8 \<Rightarrow> c2mem \<Rightarrow> c2mem option" where
  "c2_wr b \<equiv> c2_q_writebyte (ucast b)"

lemma c2_set_byte_lo: "c2_set_byte p i (ucast (lo8 w)) h = c2_set_byte p i w h"
  unfolding c2_set_byte_def lo8_ucast ..

lemma c2_writebyte_lo: "c2_q_writebyte w = c2_wr (lo8 w)"
  by (rule ext) (simp add: c2_q_writebyte_def c2_set_byte_lo)

lemma c2_put_item_bytes: "c2_put_item i s = write_all c2_wr (item_bytes i) s"
  by (cases i)
    (simp_all add: write_all_eta c2_q_writeshort_def c2_q_writeshort_be_def c2_q_writelong_def c2_q_writelong_be_def
      c2_writebyte_lo [of "drop_bit 8 _"] c2_writebyte_lo [of "_ AND _"] c2_writebyte_lo [of "ucast (_ AND _)"]
      c2_writebyte_lo [of "ucast (drop_bit _ _)"] lanes_shift)

lemma c2_write_all:
  "c2_fits s \<Longrightarrow> map_option abs_m (write_all c2_wr bs s) = write_all q_writebyte bs (abs_m s)"
proof (induction bs arbitrary: s)
  case (Cons b bs)
  show ?case
  proof (cases "c2_wr b s")
    case None
    then show ?thesis using c2_writebyte_abs [OF Cons.prems, of "ucast b"] by simp
  next
    case (Some t)
    then have "q_writebyte b (abs_m s) = Some (abs_m t)" using c2_writebyte_abs [OF Cons.prems, of "ucast b"] by simp
    then show ?thesis using Some Cons.IH [OF c2_writebyte_fits [OF Some Cons.prems]] by simp
  qed
qed simp

lemma c2_write_all_fits: "write_all c2_wr bs s = Some t \<Longrightarrow> c2_fits s \<Longrightarrow> c2_fits t"
  by (induction bs arbitrary: s) (auto simp: bind_eq_Some_conv dest: c2_writebyte_fits)

text \<open>Reading \<open>n\<close> bytes.\<close>

definition c2_rd :: "c2mem \<Rightarrow> (u8 \<times> c2mem) option" where
  "c2_rd s = map_option (\<lambda>(b, t). (lo8 b, t)) (c2_q_readbyte s)"

lemma c2_readbyte_rd: "c2_q_readbyte s = map_option (\<lambda>(b, t). (ucast b, t)) (c2_rd s)"
  using c2_readbyte_byte [of s] by (cases "c2_q_readbyte s") (auto simp: c2_rd_def)

lemma c2_rd_fits: "c2_rd s = Some (b, t) \<Longrightarrow> c2_fits s \<Longrightarrow> c2_fits t"
  using c2_readbyte_byte [of s] by (auto simp: c2_rd_def)

lemma c2_read_n_fits: "read_n c2_rd n s = Some (bs, t) \<Longrightarrow> c2_fits s \<Longrightarrow> c2_fits t"
  by (induction n arbitrary: s bs) (auto simp: bind_eq_Some_conv dest: c2_rd_fits)

lemma c2_read_n:
  "c2_fits s \<Longrightarrow> map_option (\<lambda>(bs, t). (bs, abs_m t)) (read_n c2_rd n s) = read_n q_readbyte n (abs_m s)"
proof (induction n arbitrary: s)
  case (Suc n)
  show ?case
  proof (cases "c2_rd s")
    case None
    then show ?thesis using c2_readbyte_abs [OF Suc.prems] by (simp add: c2_rd_def)
  next
    case (Some bt)
    then obtain b t where bt: "c2_rd s = Some (b, t)" by (cases bt) simp
    then have "q_readbyte (abs_m s) = Some (b, abs_m t)" using c2_readbyte_abs [OF Suc.prems] by (auto simp: c2_rd_def)
    then show ?thesis using bt Suc.IH [OF c2_rd_fits [OF bt Suc.prems], symmetric]
      by (cases "read_n c2_rd n t") auto
  qed
qed simp

text \<open>An item of a kind is put together from its bytes.\<close>

fun item_of :: "q_kind \<Rightarrow> bytes \<Rightarrow> q_item" where
  "item_of K_byte bs = Q_byte (bs ! 0)"
| "item_of K_short bs = Q_short (join16 (bs ! 1) (bs ! 0))"
| "item_of K_short_be bs = Q_short_be (join16 (bs ! 0) (bs ! 1))"
| "item_of K_long bs = Q_long (join32 (join16 (bs ! 3) (bs ! 2)) (join16 (bs ! 1) (bs ! 0)))"
| "item_of K_long_be bs = Q_long_be (join32 (join16 (bs ! 0) (bs ! 1)) (join16 (bs ! 2) (bs ! 3)))"

primrec kind_width :: "q_kind \<Rightarrow> nat" where
  "kind_width K_byte = Suc 0"
| "kind_width K_short = Suc (Suc 0)"
| "kind_width K_short_be = Suc (Suc 0)"
| "kind_width K_long = Suc (Suc (Suc (Suc 0)))"
| "kind_width K_long_be = Suc (Suc (Suc (Suc 0)))"

lemma bind_map: "map_option f x \<bind> g = x \<bind> (\<lambda>y. g (f y))"
  by (cases x) simp_all

lemma get_item_of: "get_item k s = map_option (\<lambda>(bs, t). (item_of k bs, t)) (read_n q_readbyte (kind_width k) s)"
  by (cases k) (simp_all add: q_readshort_def q_readshort_be_def q_readlong_def q_readlong_be_def
      split_def map_option_bind comp_def numeral_eq_Suc)

lemma c2_get_item_of: "c2_get_item k s = map_option (\<lambda>(bs, t). (item_of k bs, t)) (read_n c2_rd (kind_width k) s)"
  by (cases k) (simp_all add: c2_q_readshort_def c2_q_readshort_be_def c2_q_readlong_def c2_q_readlong_be_def
      c2_readbyte_rd split_def map_option_bind comp_def lanes_join bind_map nth_Cons_numeral)

text \<open>A program that writes items and reads items of given kinds, with the list of what it read.\<close>

datatype q_op = Put q_item | Get q_kind

fun run_ops :: "q_op list \<Rightarrow> qmem \<Rightarrow> (q_item list \<times> qmem) option" where
  "run_ops [] s = Some ([], s)"
| "run_ops (Put i # os) s = do { s \<leftarrow> put_item i s; run_ops os s }"
| "run_ops (Get k # os) s = do { (i, s) \<leftarrow> get_item k s; (is, s) \<leftarrow> run_ops os s; Some (i # is, s) }"

fun c2_run_ops :: "q_op list \<Rightarrow> c2mem \<Rightarrow> (q_item list \<times> c2mem) option" where
  "c2_run_ops [] s = Some ([], s)"
| "c2_run_ops (Put i # os) s = do { s \<leftarrow> c2_put_item i s; c2_run_ops os s }"
| "c2_run_ops (Get k # os) s = do { (i, s) \<leftarrow> c2_get_item k s; (is, s) \<leftarrow> c2_run_ops os s; Some (i # is, s) }"

lemma c2_put_item_abs:
  assumes "c2_fits s"
  shows "map_option abs_m (c2_put_item i s) = put_item i (abs_m s)"
    and "c2_put_item i s = Some t \<Longrightarrow> c2_fits t"
  unfolding c2_put_item_bytes put_item_bytes using c2_write_all [OF assms] c2_write_all_fits assms by blast+

lemma c2_get_item_abs:
  assumes "c2_fits s"
  shows "map_option (\<lambda>(i, t). (i, abs_m t)) (c2_get_item k s) = get_item k (abs_m s)"
    and "c2_get_item k s = Some (i, t) \<Longrightarrow> c2_fits t"
proof -
  show "map_option (\<lambda>(i, t). (i, abs_m t)) (c2_get_item k s) = get_item k (abs_m s)"
    unfolding c2_get_item_of get_item_of c2_read_n [OF assms, symmetric]
    by (simp add: map_option.compositionality comp_def split_def)
  show "c2_get_item k s = Some (i, t) \<Longrightarrow> c2_fits t"
    using c2_read_n_fits [OF _ assms] by (auto simp: c2_get_item_of)
qed

lemma c2_distances:
  "q_span (abs_q q) = Some (c2_q_span q)" "q_writespace (abs_q q) = Some (c2_q_writespace q)"
  "q_readspace (abs_q q) = Some (c2_q_readspace q)" "q_length (abs_q q) = Some (c2_q_length q)"
proof -
  have d: "to_ot_int (2 * a + int (unat x) - (2 * a + int (unat y))) = sint (x - y)" for a and x y :: u16
    by (simp add: to_ot_int_def)
  show "q_span (abs_q q) = Some (c2_q_span q)" "q_writespace (abs_q q) = Some (c2_q_writespace q)"
    "q_readspace (abs_q q) = Some (c2_q_readspace q)"
    unfolding q_span_def q_writespace_def q_readspace_def c2_q_span_def c2_q_writespace_def c2_q_readspace_def
    by (simp_all add: abs_p_def ptr_diff_def d [simplified])
  show "q_length (abs_q q) = Some (c2_q_length q)"
    using d [of 0 "c2_putcursor q" 0] by (simp add: q_length_def c2_q_length_def abs_p_def ptr_diff_def)
qed

text \<open>
  C25. The queue of the C2000 refines the POSIX queue: any program of writes and reads of bytes,
  half-words and words in either byte order, on a queue whose block has less than 65536 bytes,
  reads the same items and reaches the same queue, seen in bytes, and is undefined exactly when
  the POSIX program is; the lengths the two report agree, too.
\<close>

theorem c2k_queue_refines:
  assumes "c2_fits s"
  shows "map_option (\<lambda>(is, t). (is, abs_m t)) (c2_run_ops os s) = run_ops os (abs_m s)
    \<and> q_span (fst (abs_m s)) = Some (c2_q_span (fst s)) \<and> q_length (fst (abs_m s)) = Some (c2_q_length (fst s))
    \<and> q_writespace (fst (abs_m s)) = Some (c2_q_writespace (fst s))
    \<and> q_readspace (fst (abs_m s)) = Some (c2_q_readspace (fst s))"
proof (intro conjI)
  show "map_option (\<lambda>(is, t). (is, abs_m t)) (c2_run_ops os s) = run_ops os (abs_m s)"
    using assms
  proof (induction os s rule: c2_run_ops.induct)
    case (2 i os s)
    show ?case
    proof (cases "c2_put_item i s")
      case None
      then show ?thesis using c2_put_item_abs(1) [OF 2(2), of i] by simp
    next
      case (Some t)
      then have "put_item i (abs_m s) = Some (abs_m t)" using c2_put_item_abs(1) [OF 2(2), of i] by simp
      then show ?thesis using Some 2(1) [OF Some] c2_put_item_abs(2) [OF 2(2) Some] by simp
    qed
  next
    case (3 k os s)
    show ?case
    proof (cases "c2_get_item k s")
      case None
      then show ?thesis using c2_get_item_abs(1) [OF 3(2), of k] by simp
    next
      case (Some it)
      then obtain i t where it: "c2_get_item k s = Some (i, t)" by (cases it) simp
      then have "get_item k (abs_m s) = Some (i, abs_m t)" using c2_get_item_abs(1) [OF 3(2), of k] by simp
      then show ?thesis
        using it 3(1) [OF it refl c2_get_item_abs(2) [OF 3(2) it], symmetric] by (cases "c2_run_ops os t") auto
    qed
  qed simp
qed (simp_all add: abs_m_def c2_distances)

definition demo_c2 :: c2mem where
  "demo_c2 = (c2_q_init \<lparr>c2_front = (0, 0), c2_alloc = 0, c2_options = 0, c2_getcursor = 0, c2_putcursor = 0,
     c2_back = 0\<rparr> (3, 1) 8, [3 \<mapsto> replicate 6 0])"

theorem c2k_queue_refines_witness:
  "\<exists>t. c2_run_ops [Put (Q_byte 9), Put (Q_short 0x1234), Get K_byte, Put (Q_short_be 0xCAFE), Get K_short] demo_c2
      = Some ([Q_byte 9, Q_short 0x1234], t) \<and> q_content (abs_m t) = [0xFE, 0xCA]"
proof -
  let ?os = "[Put (Q_byte 9), Put (Q_short 0x1234), Get K_byte, Put (Q_short_be 0xCAFE), Get K_short]"
  have fits: "c2_fits demo_c2" by (simp add: c2_fits_def demo_c2_def c2_q_init_def c2_q_empty_def)
  have "map_option (\<lambda>(is, t). (is, q_content t)) (run_ops ?os (abs_m demo_c2))
      = Some ([Q_byte 9, Q_short 0x1234], [0xFE, 0xCA])"
    by code_simp
  then show ?thesis using c2k_queue_refines [OF fits, of ?os] by auto
qed

section \<open>The word queue is a FIFO\<close>

interpretation c2f: byte_fifo c2_wr c2_rd "\<lambda>s. q_content (abs_m s)" "\<lambda>s. c2_fits s \<and> q_ok (abs_m s)" "\<lambda>s. q_room (abs_m s)"
proof (unfold_locales, goal_cases)
  case (1 s b)
  then obtain t' where t': "q_writebyte b (abs_m s) = Some t'" "q_ok t'" "q_content t' = q_content (abs_m s) @ [b]"
    "q_room t' = q_room (abs_m s) - 1"
    using q_write_law by blast
  then obtain t where "c2_wr b s = Some t" "t' = abs_m t"
    using c2_writebyte_abs [of s "ucast b"] 1 by (cases "c2_wr b s") auto
  then show ?case using t' 1 c2_writebyte_fits by blast
next
  case (2 s b bs)
  then obtain t' where t': "q_readbyte (abs_m s) = Some (b, t')" "q_ok t'" "q_content t' = bs" "q_room t' = q_room (abs_m s)"
    using q_read_law by blast
  then obtain t where "c2_rd s = Some (b, t)" "t' = abs_m t"
    using c2_readbyte_abs [of s] 2 by (cases "c2_q_readbyte s") (auto simp: c2_rd_def)
  then show ?case using t' 2 c2_rd_fits by blast
qed

section \<open>Rewinding\<close>

fun byte_rewind :: "nat \<Rightarrow> qmem \<Rightarrow> qmem option" where
  "byte_rewind 0 s = Some s"
| "byte_rewind (Suc n) s = do { (b, s) \<leftarrow> q_readbyte s; s \<leftarrow> q_writebyte b s; byte_rewind n s }"

lemma c2_rewind_loop_abs:
  "c2_fits s \<Longrightarrow> map_option abs_m (c2_rewind_loop n s) = byte_rewind n (abs_m s)"
proof (induction n arbitrary: s)
  case (Suc n)
  show ?case
  proof (cases "c2_rd s")
    case None
    then show ?thesis using c2_readbyte_abs [OF Suc.prems] by (simp add: c2_readbyte_rd)
  next
    case (Some bt)
    then obtain b t where bt: "c2_rd s = Some (b, t)" by (cases bt) simp
    then have r: "q_readbyte (abs_m s) = Some (b, abs_m t)" "c2_q_readbyte s = Some (ucast b, t)"
      using c2_readbyte_abs [OF Suc.prems] by (simp_all add: c2_readbyte_rd)
    have t: "c2_fits t" by (rule c2_rd_fits [OF bt Suc.prems])
    show ?thesis
    proof (cases "c2_wr b t")
      case None
      then show ?thesis using r c2_writebyte_abs [OF t, of "ucast b"] by simp
    next
      case (Some u)
      then have "q_writebyte b (abs_m t) = Some (abs_m u)" using c2_writebyte_abs [OF t, of "ucast b"] by simp
      then show ?thesis using r Some Suc.IH [OF c2_writebyte_fits [OF Some t]] by simp
    qed
  qed
qed simp

text \<open>Moving bytes down, one after the other, is right even when the places overlap.\<close>

lemma byte_rewind_moves:
  "mem_rd (q_getcursor q) (length bs) h = Some bs \<Longrightarrow> fst (q_putcursor q) = fst (q_getcursor q) \<Longrightarrow>
   0 \<le> snd (q_putcursor q) \<Longrightarrow> snd (q_putcursor q) \<le> snd (q_getcursor q) \<Longrightarrow>
   \<exists>h'. byte_rewind (length bs) (q, h) = Some (q\<lparr>q_getcursor := ptr_add (q_getcursor q) (int (length bs)),
       q_putcursor := ptr_add (q_putcursor q) (int (length bs))\<rparr>, h')
     \<and> mem_rd (q_putcursor q) (length bs) h' = Some bs
     \<and> (\<forall>p n. accessible p n h' = accessible p n h)
     \<and> (\<forall>p n. snd p + int n \<le> snd (q_putcursor q) \<longrightarrow> mem_rd p n h' = mem_rd p n h)"
proof (induction bs arbitrary: q h)
  case Nil
  then have "mem_rd (q_putcursor q) 0 h = Some []"
    by (auto simp: mem_rd_def rd_bytes_def bind_eq_Some_conv split: if_splits)
  then show ?case by simp
next
  case (Cons b bs)
  have "mem_rd (q_getcursor q) (1 + length bs) h = Some (b # bs)" using Cons.prems(1) by simp
  then obtain x y where xy: "mem_rd (q_getcursor q) 1 h = Some x" "mem_rd (ptr_add (q_getcursor q) 1) (length bs) h = Some y"
    "b # bs = x @ y"
    unfolding mem_rd_split by (auto simp: bind_eq_Some_conv)
  with mem_rd_length [OF xy(1)] have x: "x = [b]" "y = bs" by (auto simp: length_Suc_conv)
  have "accessible (q_getcursor q) 1 h" using mem_rd_Some xy(1) by blast
  then have "accessible (q_putcursor q) (length [b]) h" using Cons.prems(2-4) by (auto simp: accessible_def)
  then obtain h1 where h1: "mem_wr (q_putcursor q) [b] h = Some h1" using mem_wr_Some by blast
  let ?q = "q\<lparr>q_getcursor := ptr_add (q_getcursor q) 1, q_putcursor := ptr_add (q_putcursor q) 1\<rparr>"
  have "mem_rd (q_getcursor ?q) (length bs) h1 = Some bs"
    using mem_rd_wr_apart [OF h1, of "ptr_add (q_getcursor q) 1" "length bs"] xy(2) x Cons.prems(2,4) by simp
  from Cons.IH [OF this] Cons.prems(2-4) obtain h' where
    h': "byte_rewind (length bs) (?q, h1) = Some (?q\<lparr>q_getcursor := ptr_add (q_getcursor ?q) (int (length bs)),
         q_putcursor := ptr_add (q_putcursor ?q) (int (length bs))\<rparr>, h')"
      "mem_rd (ptr_add (q_putcursor q) 1) (length bs) h' = Some bs"
      "\<forall>p n. accessible p n h' = accessible p n h1"
      "\<forall>p n. snd p + int n \<le> snd (q_putcursor q) + 1 \<longrightarrow> mem_rd p n h' = mem_rd p n h1"
    by auto
  have "mem_rd (q_putcursor q) 1 h' = Some [b]" 
    using h'(4) [rule_format, of "q_putcursor q" 1] mem_rd_wr [OF h1] by simp
  then have all: "mem_rd (q_putcursor q) (1 + length bs) h' = Some (b # bs)" unfolding mem_rd_split using h'(2) by simp
  have "mem_rd p n h' = mem_rd p n h" if "snd p + int n \<le> snd (q_putcursor q)" for p n
    using that h'(4) [rule_format, of p n] mem_rd_wr_apart [OF h1, of p n] by simp
  moreover have "byte_rewind (length (b # bs)) (q, h) = Some (q\<lparr>q_getcursor := ptr_add (q_getcursor q) (int (length (b # bs))),
       q_putcursor := ptr_add (q_putcursor q) (int (length (b # bs)))\<rparr>, h')"
    using xy(1) x h1 h'(1) by (simp add: q_readbyte_def q_writebyte_def ld8_def st8_def ac_simps)
  ultimately show ?case using all h'(3) accessible_wr [OF h1] by (intro exI [of _ h']) auto
qed

text \<open>
  Rewinding a queue on the C2000 keeps its unread content and moves it to the front, so the
  room grows by the number of bytes that had been read; unlike on POSIX this also holds when
  the old and the new place overlap. A queue without unread content is left as it is, even when
  its cursors have moved, so its room does not come back.
\<close>

theorem c2k_rewind:
  assumes "c2_fits (q, h)" and "q_ok (abs_m (q, h))" and "q_small (abs_q q)"
  shows "\<exists>q' h'. c2_q_rewind (q, h) = Some (q', h') \<and> q_ok (abs_m (q', h'))
    \<and> q_content (abs_m (q', h')) = q_content (abs_m (q, h))
    \<and> (if q_content (abs_m (q, h)) = [] then (q', h') = (q, h)
       else c2_getcursor q' = 0 \<and> q_room (abs_m (q', h')) = q_room (abs_m (q, h)) + unat (c2_getcursor q))"
proof -
  let ?q = "abs_q q" and ?h = "abs_h h"
  define bs where "bs = q_content (abs_m (q, h))"
  have ok: "q_ok (?q, ?h)" using assms(2) by (simp add: abs_m_def)
  have sp: "c2_q_span q = int (length bs)"
    using q_spaces(3) [OF ok assms(3)] c2_distances(1) [of q] q_content_rd(2) [OF ok] by (simp add: bs_def abs_m_def)
  show ?thesis
  proof (cases "bs = []")
    case True
    then show ?thesis using sp assms(2) by (simp add: c2_q_rewind_def bs_def)
  next
    case False
    let ?qs = "q\<lparr>c2_putcursor := 0\<rparr>"
    have q0: "abs_q ?qs = ?q\<lparr>q_putcursor := q_front ?q\<rparr>" by (simp add: abs_q_def)
    have cnt: "q_count ?q = length bs" using q_content_rd(2) [OF ok] by (simp add: bs_def abs_m_def)
    have bounds: "fst (q_front ?q) = fst (q_getcursor ?q)" "0 \<le> snd (q_front ?q)" "snd (q_front ?q) \<le> snd (q_getcursor ?q)"
      "fst (q_back ?q) = fst (q_front ?q)" "snd (q_getcursor ?q) + int (length bs) = snd (q_putcursor ?q)"
      "snd (q_putcursor ?q) \<le> snd (q_back ?q)"
      using ok cnt by (auto simp: q_ok_def q_count_def accessible_def)
    have "mem_rd (q_getcursor (abs_q ?qs)) (length bs) ?h = Some bs"
      using q_content_rd(1) [OF ok] cnt by (simp add: bs_def abs_m_def)
    from byte_rewind_moves [OF this] bounds obtain h2 where
      h2: "byte_rewind (length bs) (abs_q ?qs, ?h) = Some ((abs_q ?qs)\<lparr>q_getcursor := ptr_add (q_getcursor (abs_q ?qs)) (int (length bs)),
         q_putcursor := ptr_add (q_putcursor (abs_q ?qs)) (int (length bs))\<rparr>, h2)"
      "mem_rd (q_front ?q) (length bs) h2 = Some bs" "\<forall>p n. accessible p n h2 = accessible p n ?h"
      unfolding q0 by auto
    have "c2_fits (?qs, h)" using assms(1) by simp
    from c2_rewind_loop_abs [OF this, of "length bs"] h2(1) obtain q1 h1 where
      q1: "c2_rewind_loop (length bs) (?qs, h) = Some (q1, h1)" "abs_h h1 = h2"
        "abs_q q1 = (abs_q ?qs)\<lparr>q_getcursor := ptr_add (q_getcursor (abs_q ?qs)) (int (length bs)),
         q_putcursor := ptr_add (q_putcursor (abs_q ?qs)) (int (length bs))\<rparr>"
      by (auto simp: abs_m_def)
    let ?q' = "q1\<lparr>c2_getcursor := 0\<rparr>"
    have "abs_q ?q' = (abs_q q1)\<lparr>q_getcursor := q_front (abs_q q1)\<rparr>" by (simp add: abs_q_def)
    then have q': "abs_q ?q' = ?q\<lparr>q_getcursor := q_front ?q, q_putcursor := ptr_add (q_front ?q) (int (length bs))\<rparr>"
      unfolding q1(3) q0 by simp
    have "c2_q_rewind (q, h) = Some (?q', h1)" using sp False q1(1) by (simp add: c2_q_rewind_def)
    moreover have "q_ok (abs_m (?q', h1))"
      using ok bounds unfolding abs_m_def fst_conv snd_conv q' q1(2) by (auto simp: q_ok_def h2(3) [rule_format])
    moreover have "q_content (abs_m (?q', h1)) = bs"
      using h2(2) unfolding abs_m_def fst_conv snd_conv q' q1(2) by (simp add: q_content_def q_count_def)
    moreover have "q_room (abs_m (?q', h1)) = q_room (abs_m (q, h)) + unat (c2_getcursor q)"
    proof -
      define g where "g = unat (c2_getcursor q)"
      have "snd (q_getcursor ?q) - snd (q_front ?q) = int g" by (simp add: abs_p_def g_def)
      then show ?thesis using bounds unfolding abs_m_def fst_conv snd_conv q' g_def [symmetric] q_room_def
        by (simp del: abs_q_sel)
    qed
    ultimately show ?thesis using False by (intro exI [of _ ?q'] exI [of _ h1]) (simp add: bs_def)
  qed
qed

theorem c2k_rewind_witness:
  "\<exists>q' h'. c2_q_rewind ((fst demo_c2)\<lparr>c2_getcursor := 1, c2_putcursor := 4\<rparr>, [3 \<mapsto> [0, 0x2211, 0x4433, 0, 0, 0]]) = Some (q', h')
    \<and> q_content (abs_m (q', h')) = [0x22, 0x33, 0x44] \<and> c2_getcursor q' = 0"
proof -
  let ?q = "(fst demo_c2)\<lparr>c2_getcursor := 1, c2_putcursor := 4\<rparr>" and ?h = "[3 \<mapsto> [0, 0x2211, 0x4433, 0, 0, 0]] :: wmem"
  have a: "c2_fits (?q, ?h)" "q_ok (abs_m (?q, ?h))" "q_small (abs_q ?q)"
    by (simp_all add: c2_fits_def demo_c2_def c2_q_init_def c2_q_empty_def q_ok_def q_small_def abs_m_def abs_p_def
        accessible_def abs_h_app)
  have c: "q_content (abs_m (?q, ?h)) = [0x22, 0x33, 0x44]" by code_simp
  show ?thesis using c2k_rewind [OF a] unfolding c by auto
qed

end
