(* ===== verification/C2k_Vworm.thy ===== *)
theory C2k_Vworm
  imports C2k_Config C2k_Queue Veelite_Data
begin

text \<open>
  The memory driver of the C2000 build, \<^verbatim>\<open>platform/c2000/otsys_veelite_generic.c\<close> with the copies
  of \<^verbatim>\<open>otlib_memcpy.c\<close> beside it. Memory has units of 16 bits: an address of the filesystem counts
  bytes and is halved for every access. Without \<^verbatim>\<open>MULTIFS\<close> the filesystem is the static array
  \<^verbatim>\<open>fsram\<close> of 512 32-bit words, the component \<open>c2_fsram\<close> of the state as 16-bit words.
\<close>

section \<open>Copies\<close>

definition rd_words :: "words \<Rightarrow> nat \<Rightarrow> nat \<Rightarrow> words option" where
  "rd_words m a n = (if a + n \<le> length m then Some (take n (drop a m)) else None)"

definition wr_words :: "words \<Rightarrow> nat \<Rightarrow> words \<Rightarrow> words option" where
  "wr_words m a ws = (if a + length ws \<le> length m then Some (take a m @ ws @ drop (a + length ws) m) else None)"

definition wmem_rd :: "ptr \<Rightarrow> nat \<Rightarrow> wmem \<Rightarrow> words option" where
  "wmem_rd p n h = do { m \<leftarrow> h (fst p); if 0 \<le> snd p then rd_words m (nat (snd p)) n else None }"

definition wmem_wr :: "ptr \<Rightarrow> words \<Rightarrow> wmem \<Rightarrow> wmem option" where
  "wmem_wr p ws h = do {
     m \<leftarrow> h (fst p);
     if 0 \<le> snd p then do { m \<leftarrow> wr_words m (nat (snd p)) ws; Some (h(fst p \<mapsto> m)) } else None
   }"

text \<open>The lengths are \<^verbatim>\<open>ot_uint\<close> of 16 bits: of the length 0xFFFF nothing is copied.\<close>

definition c2_ot_memcpy_2 :: "ptr \<Rightarrow> ptr \<Rightarrow> u16 \<Rightarrow> wmem \<Rightarrow> wmem option" where
  "c2_ot_memcpy_2 dst src len h =
     (if len = 0 then Some h
      else if apart dst src (unat len) then do { ws \<leftarrow> wmem_rd src (unat len) h; wmem_wr dst ws h }
      else None)"

definition c2_ot_memcpy :: "ptr \<Rightarrow> ptr \<Rightarrow> u16 \<Rightarrow> wmem \<Rightarrow> wmem option" where
  "c2_ot_memcpy dst src len h = c2_ot_memcpy_2 dst src (drop_bit 1 (len + 1)) h"

definition c2_ot_memcpy_4 :: "ptr \<Rightarrow> ptr \<Rightarrow> u16 \<Rightarrow> wmem \<Rightarrow> wmem option" where
  "c2_ot_memcpy_4 dst src len h = c2_ot_memcpy_2 dst src (push_bit 1 len) h"

definition c2_ot_memset_2 :: "ptr \<Rightarrow> u16 \<Rightarrow> u16 \<Rightarrow> wmem \<Rightarrow> wmem option" where
  "c2_ot_memset_2 dst v len h = (if len = 0 then Some h else wmem_wr dst (replicate (unat len) v) h)"

definition c2_ot_memset :: "ptr \<Rightarrow> u16 \<Rightarrow> u16 \<Rightarrow> wmem \<Rightarrow> wmem option" where
  "c2_ot_memset dst v len h = c2_ot_memset_2 dst (push_bit 8 v OR v) (drop_bit 1 (len + 1)) h"

definition c2_ot_memset_4 :: "ptr \<Rightarrow> u32 \<Rightarrow> u16 \<Rightarrow> wmem \<Rightarrow> wmem option" where
  "c2_ot_memset_4 dst v len h = c2_ot_memset_2 dst (ucast v) (push_bit 1 len) h"

section \<open>Loading the default filesystem\<close>

text \<open>The constant arrays, as pointers into memory that can be read from there on.\<close>

record c2_rodata =
  c2_ro_overhead :: ptr
  c2_ro_gfb :: ptr
  c2_ro_isf :: ptr

text \<open>The limit is a number of 32-bit words, the size it is compared with a number of bytes.\<close>

definition c2_sub_copy_section :: "ptr \<Rightarrow> ptr \<Rightarrow> u16 \<Rightarrow> u16 \<Rightarrow> wmem \<Rightarrow> (u16 \<times> wmem) option" where
  "c2_sub_copy_section section defaults defaults_size input_size h =
     (let copylen = (defaults_size + 3) div 4;
          copylen = (if copylen < input_size then copylen else input_size)
      in do {
        h \<leftarrow> c2_ot_memcpy_4 section defaults copylen h;
        Some (copylen, h)
      })"

definition c2_vworm_fsalloc :: "vlFSHEADER option \<Rightarrow> u32" where
  "c2_vworm_fsalloc fs = (case fs of
       None \<Rightarrow> 0
     | Some fs \<Rightarrow> ucast (fs_ftab_alloc fs) + ucast (blk_alloc (fs_gfb fs))
         + ucast (blk_alloc (fs_iss fs)) + ucast (blk_alloc (fs_isf fs)))"

text \<open>A pointer to 32-bit words moves by two of the 16-bit units; the difference is doubled to bytes.\<close>

definition c2_vworm_fsdata_defload ::
  "c2_rodata \<Rightarrow> ptr option \<Rightarrow> vlFSHEADER option \<Rightarrow> wmem \<Rightarrow> (u16 \<times> wmem) option" where
  "c2_vworm_fsdata_defload ro fs_base fs h =
     (case (fs_base, fs) of
        (Some base, Some fs) \<Rightarrow> do {
          (_, h) \<leftarrow> c2_sub_copy_section base (c2_ro_overhead ro) (of_nat CS_OVERHEAD_TOTAL_BYTES) (fs_ftab_alloc fs) h;
          let section = ptr_add base (2 * (uint (fs_ftab_alloc fs) div 4));
          (section, h) \<leftarrow>
            (if blk_alloc (fs_gfb fs) \<noteq> 0 then do {
               (_, h) \<leftarrow> c2_sub_copy_section section (c2_ro_gfb ro) (of_nat CS_GFB_TOTAL_BYTES) (blk_alloc (fs_gfb fs)) h;
               Some (ptr_add section (2 * (uint (blk_alloc (fs_gfb fs)) div 4)), h)
             } else Some (section, h));
          (section, h) \<leftarrow>
            (if blk_alloc (fs_isf fs) \<noteq> 0 then do {
               (_, h) \<leftarrow> c2_sub_copy_section section (c2_ro_isf ro) (of_nat C2_STOCK_BYTES) (blk_alloc (fs_isf fs)) h;
               Some (ptr_add section (2 * (uint (blk_alloc (fs_isf fs)) div 4)), h)
             } else Some (section, h));
          Some (2 * to_ot_uint (snd section - snd base), h)
        }
      | _ \<Rightarrow> Some (0, h))"

text \<open>
  \<^verbatim>\<open>vworm_init\<close> without \<^verbatim>\<open>MULTIFS\<close> copies the three arrays to their places in \<^verbatim>\<open>fsram\<close>, with the
  sizes of the blocks; the arrays are given as the words that can be read from their start on.
\<close>

record c2_core = auth_state +
  c2_fsram :: words

record c2_arrays =
  arr_overhead :: words
  arr_gfb :: words
  arr_isf :: words

definition c2_load_array :: "nat \<Rightarrow> words \<Rightarrow> nat \<Rightarrow> words \<Rightarrow> words option" where
  "c2_load_array at src len m = do { ws \<leftarrow> rd_words src 0 (2 * len); wr_words m (2 * at) ws }"

definition c2_vworm_init :: "c2_arrays \<Rightarrow> 'a c2_core_scheme \<Rightarrow> (u8 \<times> 'a c2_core_scheme) option" where
  "c2_vworm_init ro s = do {
     m \<leftarrow> c2_load_array (CS_OVERHEAD_START_VADDR div 4) (arr_overhead ro) (CS_OVERHEAD_TOTAL_BYTES div 4) (c2_fsram s);
     m \<leftarrow> c2_load_array (CS_GFB_START_VADDR div 4) (arr_gfb ro) (CS_GFB_TOTAL_BYTES div 4) m;
     m \<leftarrow> c2_load_array (CS_ISF_START_VADDR div 4) (arr_isf ro) (C2_VWORM_STOCK_BYTES div 4) m;
     Some (0, s\<lparr>c2_fsram := m\<rparr>)
   }"

section \<open>Half-word access\<close>

definition c2_index :: "u16 \<Rightarrow> nat" where
  "c2_index addr = unat (drop_bit 1 (addr - VWORM_BASE_VADDR))"

definition c2_vworm_read :: "u16 \<Rightarrow> 'a c2_core_scheme \<Rightarrow> u16 option" where
  "c2_vworm_read addr s =
     (let addr = addr - VWORM_BASE_VADDR; addr = drop_bit 1 addr in
      if unat addr < length (c2_fsram s) then Some (c2_fsram s ! unat addr) else None)"

definition c2_vworm_write :: "u16 \<Rightarrow> u16 \<Rightarrow> 'a c2_core_scheme \<Rightarrow> (u8 \<times> 'a c2_core_scheme) option" where
  "c2_vworm_write addr data s =
     (let addr = addr - VWORM_BASE_VADDR; addr = drop_bit 1 addr in
      if unat addr < length (c2_fsram s) then Some (0, s\<lparr>c2_fsram := (c2_fsram s)[unat addr := data]\<rparr>) else None)"

definition c2_vworm_mark :: "u16 \<Rightarrow> u16 \<Rightarrow> 'a c2_core_scheme \<Rightarrow> (u8 \<times> 'a c2_core_scheme) option" where
  "c2_vworm_mark addr value s = c2_vworm_write addr value s"

text \<open>A physical address is an index into \<^verbatim>\<open>fsram\<close>.\<close>

definition c2_vworm_mark_physical :: "nat \<Rightarrow> u16 \<Rightarrow> 'a c2_core_scheme \<Rightarrow> (u8 \<times> 'a c2_core_scheme) option" where
  "c2_vworm_mark_physical addr value s =
     (if addr < length (c2_fsram s) then Some (0, s\<lparr>c2_fsram := (c2_fsram s)[addr := value]\<rparr>) else None)"

definition c2_vworm_get :: "u16 \<Rightarrow> nat" where
  "c2_vworm_get addr = (let addr = addr - VWORM_BASE_VADDR; addr = drop_bit 1 addr in unat addr)"

definition c2_vworm_wipeblock :: "u16 \<Rightarrow> u16 \<Rightarrow> u8" where "c2_vworm_wipeblock addr wipe_span = 0"

definition c2_vsram_read :: "u16 \<Rightarrow> 'a c2_core_scheme \<Rightarrow> u16 option" where
  "c2_vsram_read addr s = c2_vworm_read addr s"

definition c2_vsram_mark :: "u16 \<Rightarrow> u16 \<Rightarrow> 'a c2_core_scheme \<Rightarrow> (u8 \<times> 'a c2_core_scheme) option" where
  "c2_vsram_mark addr value s = c2_vworm_mark addr value s"

definition c2_vsram_mark_physical :: "nat \<Rightarrow> u16 \<Rightarrow> 'a c2_core_scheme \<Rightarrow> (u8 \<times> 'a c2_core_scheme) option" where
  "c2_vsram_mark_physical addr value s = c2_vworm_mark_physical addr value s"

definition c2_vsram_get :: "u16 \<Rightarrow> nat" where
  "c2_vsram_get addr = c2_vworm_get addr"

section \<open>The array is a store of half-words\<close>

lemma c2_index_half: "c2_index a = unat a div 2"
  by (simp add: c2_index_def VWORM_BASE_VADDR_def drop_bit_eq_div unat_div)

lemma c2_index_eq: "c2_index a = c2_index b \<longleftrightarrow> even_addr a = even_addr b"
  by (simp add: word_unat_eq_iff c2_index_half unat_even_addr minus_mod_eq_mult_div)

lemma c2_read_eq: "c2_vworm_read a s = (if c2_index a < length (c2_fsram s) then Some (c2_fsram s ! c2_index a) else None)"
  by (simp add: c2_vworm_read_def c2_index_def Let_def)

lemma c2_write_eq:
  "c2_vworm_write a v s = (if c2_index a < length (c2_fsram s)
     then Some (0, s\<lparr>c2_fsram := (c2_fsram s)[c2_index a := v]\<rparr>) else None)"
  by (simp add: c2_vworm_write_def c2_index_def Let_def)

definition c2_vworm_mapped :: "u16 \<Rightarrow> 'a c2_core_scheme \<Rightarrow> bool" where
  "c2_vworm_mapped a s \<longleftrightarrow> c2_index a < length (c2_fsram s)"

interpretation c2vw: halfword_store c2_vworm_read c2_vworm_write c2_vworm_mapped
proof unfold_locales
  fix a b v r and s s' :: "'a c2_core_scheme"
  show "c2_vworm_mapped b s = c2_vworm_mapped a s" if "even_addr b = even_addr a"
    using that unfolding c2_index_eq [symmetric] by (simp add: c2_vworm_mapped_def)
  show "(\<exists>v. c2_vworm_read a s = Some v) = c2_vworm_mapped a s" "(\<exists>r. c2_vworm_write a v s = Some r) = c2_vworm_mapped a s"
    by (simp_all add: c2_vworm_mapped_def c2_read_eq c2_write_eq)
  assume w: "c2_vworm_write a v s = Some (r, s')"
  then show "r = 0" by (simp add: c2_write_eq split: if_splits)
  show "c2_vworm_read b s' = Some v" if "even_addr b = even_addr a"
    using that w unfolding c2_index_eq [symmetric] by (auto simp: c2_read_eq c2_write_eq split: if_splits)
  show "c2_vworm_read b s' = c2_vworm_read b s" if "even_addr b \<noteq> even_addr a"
    using that w unfolding c2_index_eq [symmetric] by (auto simp: c2_read_eq c2_write_eq split: if_splits)
qed

section \<open>The image that the arrays load\<close>

lemma c2_rd_seq:
  "unat a + 2 * n \<le> 65536 \<Longrightarrow> c2_index a + n \<le> length (c2_fsram s) \<Longrightarrow>
   rd_seq c2_vworm_read a n s = Some (take n (drop (c2_index a) (c2_fsram s)))"
proof (induction n arbitrary: a)
  case 0
  then show ?case by simp
next
  case (Suc n)
  have lt: "c2_index a < length (c2_fsram s)" using Suc.prems(2) by simp
  show ?case
  proof (cases n)
    case 0
    then show ?thesis using lt by (simp add: c2_read_eq take_Suc_conv_app_nth take_Suc hd_drop_conv_nth)
  next
    case (Suc k)
    then have u: "unat (a + 2) = unat a + 2" using Suc.prems(1) by (intro unat_add2) simp
    then have i: "c2_index (a + 2) = Suc (c2_index a)" by (simp add: c2_index_half)
    have "rd_seq c2_vworm_read (a + 2) n s = Some (take n (drop (Suc (c2_index a)) (c2_fsram s)))"
      unfolding i [symmetric] by (rule Suc.IH) (use Suc.prems u i in simp_all)
    moreover have "c2_vworm_read a s = Some (c2_fsram s ! c2_index a)" using lt by (simp add: c2_read_eq)
    ultimately show ?thesis using lt by (simp add: Cons_nth_drop_Suc [symmetric])
  qed
qed

definition c2_arrays_ok :: "bytes \<Rightarrow> c2_arrays \<Rightarrow> bool" where
  "c2_arrays_ok build_id ro \<longleftrightarrow> length build_id = 9
     \<and> take 180 (arr_overhead ro) = C2_overhead_files \<and> 256 \<le> length (arr_overhead ro)
     \<and> 32 \<le> length (arr_gfb ro)
     \<and> take 486 (arr_isf ro) = C2_isf_stock_files build_id \<and> 488 \<le> length (arr_isf ro)"

lemma c2_vworm_init_eq:
  assumes "c2_arrays_ok build_id ro" and "length (c2_fsram s) = 1024"
  shows "c2_vworm_init ro s = Some (0, s\<lparr>c2_fsram := take 256 (arr_overhead ro) @ take 32 (arr_gfb ro)
    @ take 488 (arr_isf ro) @ drop 776 (c2_fsram s)\<rparr>)"
  using assms
  by (simp add: c2_arrays_ok_def c2_vworm_init_def c2_load_array_def rd_words_def wr_words_def csip_consts
      C2_VWORM_STOCK_BYTES_def C2_STOCK_BYTES_eq)

lemma length_C2_isf_header [simp]: "length (C2_isf_header f) = 6"
  by (simp add: C2_isf_header_def)

lemma concat_nth_slice:
  "i < length xs \<Longrightarrow> (\<And>x. length (b x) = n) \<Longrightarrow> take n (drop (i * n) (concat (map b xs))) = b (xs ! i)"
proof (induction xs arbitrary: i)
  case Nil
  then show ?case by simp
next
  case (Cons x xs)
  then show ?case by (cases i) auto
qed

lemma take_drop_take: "take n (drop k (take m xs)) = take n (drop k xs)" if "k + n \<le> m"
  using that by (simp add: drop_take min_def)

lemma C2_overhead_slice:
  assumes "i < 26"
  shows "take 6 (drop (24 + 6 * i) C2_overhead_files) = C2_isf_header (csip_files ! i)"
proof -
  define p where "p = C2_fsheader @ concat (map C2_gfb_header [0, 1])"
  have eq: "C2_overhead_files = p @ concat (map C2_isf_header csip_files)" by (simp add: C2_overhead_files_def p_def)
  have len: "length p = 24" by (simp add: p_def C2_fsheader_def C2_gfb_header_def)
  have "drop (length p + 6 * i) C2_overhead_files = drop (6 * i) (concat (map C2_isf_header csip_files))"
    unfolding eq by simp
  then show ?thesis
    using concat_nth_slice [of i csip_files C2_isf_header 6] assms by (simp add: length_csip_files len mult.commute)
qed

lemma c2_init_image:
  fixes s :: "'a c2_core_scheme"
  assumes "c2_arrays_ok build_id ro" and "length (c2_fsram s) = 1024"
  shows "\<exists>s'. c2_vworm_init ro s = Some (0, s')
    \<and> (\<forall>i < 26. rd_seq c2_vworm_read (of_nat (48 + 12 * i)) 6 s' = Some (C2_isf_header (csip_files ! i)))
    \<and> (\<forall>f. rd_seq c2_vworm_read (of_nat (C2_BASE f - (if f \<in> after_setarray then 4 else 0)))
        (length (C2_stock build_id f)) s' = Some (C2_stock build_id f))
    \<and> rd_seq c2_vworm_read (of_nat (C2_BASE C_csip_issuecmd)) 12 s' = Some (word_longs [2, 3, 4, 5, 6, 1])"
proof -
  note ro = assms(1) [unfolded c2_arrays_ok_def]
  define m where "m = take 256 (arr_overhead ro) @ take 32 (arr_gfb ro) @ take 488 (arr_isf ro) @ drop 776 (c2_fsram s)"
  define t where "t = s\<lparr>c2_fsram := m\<rparr>"
  have len: "length m = 1024" using ro assms(2) by (simp add: m_def)
  have rd: "rd_seq c2_vworm_read (of_nat a) n t = Some (take n (drop (a div 2) m))" if "a + 2 * n \<le> 2048" for a n
    using c2_rd_seq [of "of_nat a" n t] that len by (simp add: c2_index_half unat_of_nat_u16 t_def)
  have ov: "take n (drop k m) = take n (drop k C2_overhead_files)" if "k + n \<le> 180" for k n
  proof -
    have "take n (drop k m) = take n (drop k (take 180 m))" using that by (simp add: take_drop_take)
    also have "take 180 m = C2_overhead_files" using ro by (simp add: m_def)
    finally show ?thesis .
  qed
  have isf: "take n (drop (288 + k) m) = take n (drop k (C2_isf_stock_files build_id))" if "k + n \<le> 486" for k n
  proof -
    have "drop 288 m = take 488 (arr_isf ro) @ drop 776 (c2_fsram s)" using ro by (simp add: m_def)
    then have "take 486 (drop 288 m) = C2_isf_stock_files build_id" using ro by simp
    then show ?thesis using take_drop_take [OF that, of "drop 288 m"] by (simp add: add.commute)
  qed
  have hd: "rd_seq c2_vworm_read (of_nat (48 + 12 * i)) 6 t = Some (C2_isf_header (csip_files ! i))" if "i < 26" for i
  proof -
    have "(48 + 12 * i) div 2 = 24 + 6 * i" by simp
    then show ?thesis
      using rd [of "48 + 12 * i" 6] that ov [of "24 + 6 * i" 6] C2_overhead_slice [OF that] by simp
  qed
  let ?at = "\<lambda>f. C2_BASE f - (if f \<in> after_setarray then 4 else 0)"
  let ?k = "\<lambda>f. (C2_BASE f - CS_ISF_START_VADDR) div 2 - (if f \<in> after_setarray then 2 else 0)"
  have fits: "?at f div 2 = 288 + ?k f \<and> ?k f + length (C2_stock build_id f) \<le> 486" for f
    using ro by (cases f) (simp_all add: C2_BASE_def csip_files_def C2_ALLOC_eq csip_consts length_C2_stock after_setarray_def)
  have st: "rd_seq c2_vworm_read (of_nat (?at f)) (length (C2_stock build_id f)) t = Some (C2_stock build_id f)" for f
  proof -
    have "even (?at f)" by (simp add: c2000.base_even)
    then have "?at f + 2 * length (C2_stock build_id f) \<le> 2048" using fits [of f] by (auto elim!: evenE)
    then have "rd_seq c2_vworm_read (of_nat (?at f)) (length (C2_stock build_id f)) t
        = Some (take (length (C2_stock build_id f)) (drop (288 + ?k f) m))"
      using rd fits [of f] by simp
    also have "\<dots> = Some (C2_stock build_id f)"
      using isf [of "?k f" "length (C2_stock build_id f)"] fits [of f] C2_stock_slice [of build_id f] ro by simp
    finally show ?thesis .
  qed
  have b: "C2_BASE C_csip_issuecmd = 1248" by (simp add: C2_BASE_def csip_files_def C2_ALLOC_eq csip_consts)
  have "take 12 (drop 624 m) = word_longs [2, 3, 4, 5, 6, 1]"
    using isf [of 336 12] c2k_issuecmd_words [of build_id] ro by simp
  then have "rd_seq c2_vworm_read (of_nat (C2_BASE C_csip_issuecmd)) 12 t = Some (word_longs [2, 3, 4, 5, 6, 1])"
    using rd [of 1248 12] unfolding b by simp
  moreover have "c2_vworm_init ro s = Some (0, t)" unfolding t_def m_def by (rule c2_vworm_init_eq [OF assms])
  ultimately show ?thesis using hd st by blast
qed

lemma c2_init_stock:
  assumes "c2_arrays_ok build_id ro" and "length (c2_fsram s) = 1024" and "c2_vworm_init ro s = Some (0, s')"
    and "f \<notin> after_setarray"
  shows "rd_seq c2_vworm_read (of_nat (C2_BASE f)) (length (C2_stock build_id f)) s' = Some (C2_stock build_id f)"
proof -
  have "rd_seq c2_vworm_read (of_nat (C2_BASE f - (if f \<in> after_setarray then 4 else 0)))
      (length (C2_stock build_id f)) s' = Some (C2_stock build_id f)"
    using c2_init_image [OF assms(1,2)] assms(3) by auto
  then show ?thesis using assms(4) by simp
qed

text \<open>
  C28. The static filesystem of the C2000 build: \<^verbatim>\<open>vworm_init\<close> lays out the header of each of the 26
  files at the address computed from its index, and the stock data of each: of the files up to
  the set array at its base, of the four after it four bytes before. So the command file, one of
  those, reads at its base from its second value on.
\<close>

theorem c2k_init_loads:
  fixes s :: "'a c2_core_scheme"
  assumes "c2_arrays_ok build_id ro" and "length (c2_fsram s) = 1024"
  shows "\<exists>s'. c2_vworm_init ro s = Some (0, s')
    \<and> (\<forall>i < 26. rd_seq c2_vworm_read (of_nat (48 + 12 * i)) 6 s' = Some (C2_isf_header (csip_files ! i)))
    \<and> (\<forall>f. rd_seq c2_vworm_read (of_nat (C2_BASE f - (if f \<in> after_setarray then 4 else 0)))
        (length (C2_stock build_id f)) s' = Some (C2_stock build_id f))
    \<and> rd_seq c2_vworm_read (of_nat (C2_BASE C_csip_issuecmd)) 12 s' = Some (word_longs [2, 3, 4, 5, 6, 1])"
  by (rule c2_init_image [OF assms])

definition demo_c2_arrays :: c2_arrays where
  "demo_c2_arrays = \<lparr>arr_overhead = C2_overhead_files @ replicate 76 0, arr_gfb = C2_gfb_stock_files @ replicate 31 0,
     arr_isf = C2_isf_stock_files (replicate 9 0x41) @ [0, 0]\<rparr>"

lemma length_C2_overhead_files: "length C2_overhead_files = 180"
  by (simp add: C2_overhead_files_def C2_fsheader_def C2_gfb_header_def length_concat length_csip_files o_def sum_list_triv)

lemma length_C2_isf_stock_files: "length build_id = 9 \<Longrightarrow> length (C2_isf_stock_files build_id) = 486"
  by (simp add: C2_isf_stock_files_def length_concat o_def length_C2_stock csip_files_def C2_ALLOC_eq)

lemma demo_c2_arrays_ok: "c2_arrays_ok (replicate 9 0x41) demo_c2_arrays"
  by (simp add: c2_arrays_ok_def demo_c2_arrays_def length_C2_overhead_files length_C2_isf_stock_files C2_gfb_stock_files_def)

definition demo_c2_core :: c2_core where
  "demo_c2_core = auth_state.extend demo_auth \<lparr>c2_fsram = replicate 1024 0\<rparr>"

lemma demo_c2_core_fsram: "length (c2_fsram demo_c2_core) = 1024"
  by (simp add: demo_c2_core_def auth_state.extend_def)

theorem c2k_init_loads_witness:
  "\<exists>s'. c2_vworm_init demo_c2_arrays demo_c2_core = Some (0, s')
     \<and> rd_seq c2_vworm_read 348 6 s' = Some (C2_isf_header C_application_extension)"
proof -
  obtain s' where s': "c2_vworm_init demo_c2_arrays demo_c2_core = Some (0, s')"
    "\<forall>i < 26. rd_seq c2_vworm_read (of_nat (48 + 12 * i)) 6 s' = Some (C2_isf_header (csip_files ! i))"
    using c2k_init_loads [OF demo_c2_arrays_ok demo_c2_core_fsram] by blast
  from s'(2) [rule_format, of 25] have "rd_seq c2_vworm_read 348 6 s' = Some (C2_isf_header C_application_extension)"
    by (simp add: csip_files_def)
  with s'(1) show ?thesis by blast
qed

end
