(* ===== verification/C2k_Files.thy ===== *)
theory C2k_Files
  imports C2k_Vworm
begin

text \<open>
  The file layer \<^verbatim>\<open>otlib/veelite.c\<close> in the C2000 build: the parts under \<^verbatim>\<open>__C2000__\<close>, the searches
  for a filesystem whose layout is fixed at compile time (no \<^verbatim>\<open>MULTIFS\<close>, no \<^verbatim>\<open>VLNEW\<close>), and files
  without a modification time. An \<^verbatim>\<open>ot_u8\<close> has 16 bits, so the identity of a file is a half-word, and
  data is moved by half-words (\<^verbatim>\<open>vl_u8\<close> is \<^verbatim>\<open>ot_u16\<close>). Users are NULL and the three built-in
  identities, for which \<^verbatim>\<open>auth_check\<close> is the same code as on POSIX.
\<close>

section \<open>State\<close>

record c2_state = c2_core +
  c2_vlfile :: "vlFILE list"
  c2_vlaction :: "nat option list"
  c2_vlaction_users :: "u16 list"

type_synonym 'a c2_action_fn = "nat \<Rightarrow> nat \<Rightarrow> 'a c2_state_scheme \<Rightarrow> (u8 \<times> 'a c2_state_scheme) option"

datatype c2_user = C2_NULL | C2_auth_root | C2_auth_user | C2_auth_guest

primrec c2_id_ref :: "c2_user \<Rightarrow> id_ref" where
  "c2_id_ref C2_NULL = Id_NULL"
| "c2_id_ref C2_auth_root = Auth_root"
| "c2_id_ref C2_auth_user = Auth_user"
| "c2_id_ref C2_auth_guest = Auth_guest"

text \<open>\<^verbatim>\<open>sizeof\<close> counts half-words here: a filesystem header has 12 of them, a file header 6.\<close>

definition C2_OCTETS_IN_U16 :: nat where "C2_OCTETS_IN_U16 = 2 div 1"
definition C2_OCTETS_IN_vlFSHEADER :: nat where "C2_OCTETS_IN_vlFSHEADER = 12 * C2_OCTETS_IN_U16"
definition C2_OCTETS_IN_vl_header_t :: nat where "C2_OCTETS_IN_vl_header_t = 6 * C2_OCTETS_IN_U16"
definition C2_GFB_Header_START :: nat where "C2_GFB_Header_START = CS_OVERHEAD_START_VADDR + C2_OCTETS_IN_vlFSHEADER"
definition C2_ISF_Header_START :: nat where
  "C2_ISF_Header_START = C2_GFB_Header_START + CS_GFB_NUM_FILES * C2_OCTETS_IN_vl_header_t"

lemmas c2_octets = C2_OCTETS_IN_U16_def C2_OCTETS_IN_vlFSHEADER_def C2_OCTETS_IN_vl_header_t_def
  C2_GFB_Header_START_def C2_ISF_Header_START_def CS_OVERHEAD_START_VADDR_def CS_GFB_NUM_FILES_def
  CS_GFB_NUM_STOCK_FILES_def CS_GFB_NUM_USER_FILES_def

section \<open>Searches\<close>

text \<open>\<^verbatim>\<open>BYTE0\<close> is the high byte of a half-word, which in a header is the access mode.\<close>

definition BYTE0 :: "u16 \<Rightarrow> u16" where "BYTE0 x = drop_bit 8 x"

fun c2_header_loop :: "nat \<Rightarrow> u16 \<Rightarrow> u16 \<Rightarrow> 'a c2_core_scheme \<Rightarrow> u16 option" where
  "c2_header_loop 0 header search_id s = Some NULL_vaddr"
| "c2_header_loop (Suc n) header search_id s = do {
     base \<leftarrow> c2_vworm_read (header + 6) s;
     idmod \<leftarrow> c2_vworm_read (header + 4) s;
     if base \<noteq> 0 \<and> base \<noteq> 0xFFFF \<and> BYTE0 idmod = search_id then Some header
     else c2_header_loop n (header + of_nat C2_OCTETS_IN_vl_header_t) search_id s
   }"

definition c2_sub_header_search :: "u16 \<Rightarrow> u16 \<Rightarrow> int \<Rightarrow> 'a c2_core_scheme \<Rightarrow> u16 option" where
  "c2_sub_header_search header search_id num_headers s = c2_header_loop (nat num_headers) header search_id s"

definition c2_sub_gfb_search :: "u16 \<Rightarrow> 'a c2_core_scheme \<Rightarrow> u16 option" where
  "c2_sub_gfb_search data_id s =
     c2_sub_header_search (of_nat C2_GFB_Header_START) data_id (int CS_GFB_NUM_USER_FILES) s"

definition c2_sub_isf_search :: "u16 \<Rightarrow> u16" where
  "c2_sub_isf_search data_id =
     (let data_id = (if 255 - int CS_ISF_NUM_EXT_FILES < uint data_id
                     then word_of_int (int CS_ISF_NUM_STOCK_FILES + (255 - uint data_id)) else data_id)
      in of_nat C2_OCTETS_IN_vl_header_t * data_id + of_nat C2_ISF_Header_START)"

definition c2_sub_copy_header :: "u16 \<Rightarrow> 'a c2_core_scheme \<Rightarrow> words option" where
  "c2_sub_copy_header header s = rd_seq c2_vworm_read header (C2_OCTETS_IN_vl_header_t div 2) s"

definition c2_sub_write_header :: "u16 \<Rightarrow> words \<Rightarrow> u16 \<Rightarrow> 'a c2_core_scheme \<Rightarrow> 'a c2_core_scheme option" where
  "c2_sub_write_header header data len s =
     (let n = (unat len + 1) div 2 in
      if n \<le> length data then map_option snd (wr_seq c2_vworm_write header (take n data) s) else None)"

definition c2_vl_getheader_vaddr ::
  "u16 \<Rightarrow> u8 \<Rightarrow> u16 \<Rightarrow> u8 \<Rightarrow> c2_user \<Rightarrow> 'a c2_core_scheme \<Rightarrow> (u8 \<times> u16 \<times> 'a c2_core_scheme) option" where
  "c2_vl_getheader_vaddr header0 block_id data_id md user_id s =
     (if block_id \<noteq> VL_GFB_BLOCKID \<and> block_id \<noteq> VL_ISF_BLOCKID then Some (255, header0, s)
      else do {
        header \<leftarrow> (if block_id = VL_GFB_BLOCKID then c2_sub_gfb_search data_id s else Some (c2_sub_isf_search data_id));
        if header = NULL_vaddr then Some (1, header, s)
        else if user_id \<noteq> C2_NULL then do {
          filemod \<leftarrow> c2_vworm_read (header + 4) s;
          (ok, s) \<leftarrow> auth_check (ucast (BYTE0 filemod)) md (c2_id_ref user_id) s;
          if ok = 0 then Some (4, header, s) else Some (0, header, s)
        } else Some (0, header, s)
      })"

definition c2_vl_getheader ::
  "u8 \<Rightarrow> u16 \<Rightarrow> u8 \<Rightarrow> c2_user \<Rightarrow> 'a c2_core_scheme \<Rightarrow> (u8 \<times> words option \<times> 'a c2_core_scheme) option" where
  "c2_vl_getheader block_id data_id md user_id s = do {
     (output, header, s) \<leftarrow> c2_vl_getheader_vaddr NULL_vaddr block_id data_id md user_id s;
     if output = 0 then do { h \<leftarrow> c2_sub_copy_header header s; Some (output, Some h, s) }
     else Some (output, None, s)
   }"

section \<open>Files\<close>

definition c2_get_file :: "nat \<Rightarrow> 'a c2_state_scheme \<Rightarrow> vlFILE option" where
  "c2_get_file fd s = (if fd < length (c2_vlfile s) then Some (c2_vlfile s ! fd) else None)"

definition c2_put_file :: "nat \<Rightarrow> vlFILE \<Rightarrow> 'a c2_state_scheme \<Rightarrow> 'a c2_state_scheme" where
  "c2_put_file fd f s = s\<lparr>c2_vlfile := (c2_vlfile s)[fd := f]\<rparr>"

definition c2_file_rd :: "mem_fn option \<Rightarrow> u16 \<Rightarrow> 'a c2_core_scheme \<Rightarrow> u16 option" where
  "c2_file_rd fn a s = (case fn of None \<Rightarrow> None | Some Vworm_fn \<Rightarrow> c2_vworm_read a s | Some Vsram_fn \<Rightarrow> c2_vsram_read a s)"

definition c2_file_wr :: "mem_fn option \<Rightarrow> u16 \<Rightarrow> u16 \<Rightarrow> 'a c2_core_scheme \<Rightarrow> (u8 \<times> 'a c2_core_scheme) option" where
  "c2_file_wr fn a d s = (case fn of None \<Rightarrow> None | Some Vworm_fn \<Rightarrow> c2_vworm_write a d s | Some Vsram_fn \<Rightarrow> c2_vsram_mark a d s)"

definition c2_vl_init :: "'a c2_state_scheme \<Rightarrow> u8 \<times> 'a c2_state_scheme" where
  "c2_vl_init s = (0, s\<lparr>c2_vlaction := replicate VLACTIONS None, c2_vlaction_users := replicate VLACTIONS 0,
     c2_vlfile := replicate VLFPS (zero_file\<lparr>f_header := NULL_vaddr\<rparr>)\<rparr>)"

definition c2_sub_new_fp :: "'a c2_state_scheme \<Rightarrow> nat option" where
  "c2_sub_new_fp s = find (\<lambda>fd. f_read (c2_vlfile s ! fd) = None) [0..<length (c2_vlfile s)]"

definition c2_vl_open_file :: "u16 \<Rightarrow> 'a c2_state_scheme \<Rightarrow> (nat option \<times> 'a c2_state_scheme) option" where
  "c2_vl_open_file header s =
     (case c2_sub_new_fp s of
        None \<Rightarrow> Some (None, s)
      | Some fd \<Rightarrow> do {
          alloc \<leftarrow> c2_vworm_read (header + 2) s;
          idmod \<leftarrow> c2_vworm_read (header + 4) s;
          start \<leftarrow> c2_vworm_read (header + 8) s;
          if start \<noteq> NULL_vaddr then do {
            len \<leftarrow> c2_vsram_read start s;
            Some (Some fd, c2_put_file fd \<lparr>f_header = header, f_start = start + 2, f_alloc = alloc,
              f_idmod = idmod, f_length = len, f_flags = VL_FLAG_OPENED,
              f_read = Some Vsram_fn, f_write = Some Vsram_fn\<rparr> s)
          } else do {
            len \<leftarrow> c2_vworm_read (header + 0) s;
            start \<leftarrow> c2_vworm_read (header + 6) s;
            Some (Some fd, c2_put_file fd \<lparr>f_header = header, f_start = start, f_alloc = alloc,
              f_idmod = idmod, f_length = len, f_flags = VL_FLAG_OPENED,
              f_read = Some Vworm_fn, f_write = Some Vworm_fn\<rparr> s)
          }
        })"

definition c2_vl_open :: "u8 \<Rightarrow> u16 \<Rightarrow> u8 \<Rightarrow> c2_user \<Rightarrow> 'a c2_state_scheme \<Rightarrow> (nat option \<times> 'a c2_state_scheme) option"
  where
  "c2_vl_open block_id data_id md user_id s = do {
     (rc, header, s) \<leftarrow> c2_vl_getheader_vaddr NULL_vaddr block_id data_id md user_id s;
     if rc = 0 then c2_vl_open_file header s else Some (None, s)
   }"

definition c2_vl_chmod :: "u8 \<Rightarrow> u16 \<Rightarrow> u16 \<Rightarrow> c2_user \<Rightarrow> 'a c2_state_scheme \<Rightarrow> (u8 \<times> 'a c2_state_scheme) option" where
  "c2_vl_chmod block_id data_id md user_id s = do {
     (output, header, s) \<leftarrow> c2_vl_getheader_vaddr NULL_vaddr block_id data_id VL_ACCESS_RW user_id s;
     if output = 0 then do {
       s \<leftarrow> c2_sub_write_header (header + 4) [push_bit 8 md OR data_id] 2 s;
       Some (output, s)
     } else Some (output, s)
   }"

text \<open>Here \<^verbatim>\<open>__byte(p, 0)\<close> is the low byte of the code: the condition, and above it the index of the action.\<close>

definition c2_vl_add_action ::
  "u8 \<Rightarrow> u16 \<Rightarrow> u16 \<Rightarrow> nat option \<Rightarrow> 'a c2_state_scheme \<Rightarrow> (int \<times> 'a c2_state_scheme) option" where
  "c2_vl_add_action block_id data_id condition action s = do {
     (rc, header, s) \<leftarrow> c2_vl_getheader_vaddr NULL_vaddr block_id data_id VL_ACCESS_SU C2_NULL s;
     if rc = 0 then
       let select = action_slot (c2_vlaction s) 0 (- 1) action in
       if 0 \<le> select then do {
         let k = nat select;
         let s = s\<lparr>c2_vlaction := (c2_vlaction s)[k := action],
                  c2_vlaction_users := (c2_vlaction_users s)[k := c2_vlaction_users s ! k + 1]\<rparr>;
         (_, s) \<leftarrow> c2_vworm_write (header + 10) (join16 (lo8 condition) (of_int select)) s;
         Some (select, s)
       } else Some (select, s)
     else Some (- 1, s)
   }"

definition c2_vl_remove_action :: "u8 \<Rightarrow> u16 \<Rightarrow> 'a c2_state_scheme \<Rightarrow> 'a c2_state_scheme option" where
  "c2_vl_remove_action block_id data_id s = do {
     (rc, header, s) \<leftarrow> c2_vl_getheader_vaddr NULL_vaddr block_id data_id VL_ACCESS_SU C2_NULL s;
     if rc = 0 then do {
       w \<leftarrow> c2_vworm_read (header + 10) s;
       let select = unat (drop_bit 8 w);
       (_, s) \<leftarrow> c2_vworm_write (header + 10) 0 s;
       if select < VLACTIONS \<and> c2_vlaction_users s ! select \<noteq> 0 then
         let u = c2_vlaction_users s ! select - 1;
             s = s\<lparr>c2_vlaction_users := (c2_vlaction_users s)[select := u]\<rparr>
         in Some (if u = 0 then s\<lparr>c2_vlaction := (c2_vlaction s)[select := None]\<rparr> else s)
       else Some s
     } else Some s
   }"

definition c2_sub_action :: "'a c2_action_fn \<Rightarrow> nat \<Rightarrow> 'a c2_state_scheme \<Rightarrow> (u8 \<times> 'a c2_state_scheme) option" where
  "c2_sub_action act fd s = do {
     f \<leftarrow> c2_get_file fd s;
     w \<leftarrow> c2_vworm_read (f_header f + 10) s;
     let select = unat (drop_bit 8 w);
     if select < VLACTIONS then do { a \<leftarrow> c2_vlaction s ! select; act a fd s }
     else Some (0, s)
   }"

definition c2_vl_close :: "'a c2_action_fn \<Rightarrow> nat option \<Rightarrow> 'a c2_state_scheme \<Rightarrow> (u8 \<times> 'a c2_state_scheme) option" where
  "c2_vl_close act fp s = (case fp of
       None \<Rightarrow> Some (255, s)
     | Some fd \<Rightarrow> do {
         f \<leftarrow> c2_get_file fd s;
         len \<leftarrow> c2_vworm_read (f_header f + 0) s;
         s \<leftarrow> (if len \<noteq> f_length f then c2_sub_write_header (f_header f + 0) [f_length f] 2 s else Some s);
         action \<leftarrow> c2_vworm_read (f_header f + 10) s;
         (retval, s) \<leftarrow> (if action AND (f_flags f AND 0x00FF) \<noteq> 0 then c2_sub_action act fd s else Some (0, s));
         f \<leftarrow> c2_get_file fd s;
         Some (retval, c2_put_file fd (f\<lparr>f_start := 0, f_length := 0, f_flags := 0, f_read := None, f_write := None\<rparr>) s)
       })"

section \<open>Data\<close>

definition c2_vl_read :: "nat \<Rightarrow> u16 \<Rightarrow> 'a c2_state_scheme \<Rightarrow> u16 option" where
  "c2_vl_read fd offset s = do { f \<leftarrow> c2_get_file fd s; c2_file_rd (f_read f) (offset + f_start f) s }"

definition c2_vl_write :: "nat \<Rightarrow> u16 \<Rightarrow> u16 \<Rightarrow> 'a c2_state_scheme \<Rightarrow> (u8 \<times> 'a c2_state_scheme) option" where
  "c2_vl_write fd offset data s = do {
     f \<leftarrow> c2_get_file fd s;
     if f_alloc f \<le> offset then Some (255, s)
     else do {
       let f = (if f_length f \<le> offset
                then f\<lparr>f_length := offset + 2, f_flags := f_flags f OR VL_FLAG_RESIZED\<rparr> else f);
       let f = f\<lparr>f_flags := f_flags f OR VL_FLAG_MODDED\<rparr>;
       c2_file_wr (f_write f) (offset + f_start f) data (c2_put_file fd f s)
     }
   }"

text \<open>The loops step by two; a cursor at the end of the address space wraps around.\<close>

partial_function (option) c2_load_loop :: "(u16 \<Rightarrow> u16 option) \<Rightarrow> u16 \<Rightarrow> u16 \<Rightarrow> words option" where
  "c2_load_loop rd cursor limit =
     (if cursor < limit then do {
        w \<leftarrow> rd cursor;
        ws \<leftarrow> c2_load_loop rd (cursor + 2) limit;
        Some (w # ws)
      } else Some [])"

definition c2_vl_load :: "nat \<Rightarrow> u16 \<Rightarrow> 'a c2_state_scheme \<Rightarrow> (u16 \<times> words) option" where
  "c2_vl_load fd len s = do {
     f \<leftarrow> c2_get_file fd s;
     let len = (if f_length f < len then f_length f else len);
     let cursor = f_start f;
     let len = cursor + len;
     ws \<leftarrow> c2_load_loop (\<lambda>a. c2_file_rd (f_read f) a s) cursor len;
     Some (len - f_start f, ws)
   }"

fun c2_store_loop ::
  "(u16 \<Rightarrow> u16 \<Rightarrow> 's \<Rightarrow> (u8 \<times> 's) option) \<Rightarrow> u16 \<Rightarrow> u16 \<Rightarrow> words \<Rightarrow> u8 \<Rightarrow> 's \<Rightarrow> (u8 \<times> 's) option" where
  "c2_store_loop wr cursor limit (w # data) test s =
     (if cursor < limit then do {
        (r, s) \<leftarrow> wr cursor w s;
        c2_store_loop wr (cursor + 2) limit data (test OR r) s
      } else Some (test, s))"
| "c2_store_loop wr cursor limit [] test s = (if cursor < limit then None else Some (test, s))"

definition c2_vl_store :: "nat \<Rightarrow> u16 \<Rightarrow> words \<Rightarrow> 'a c2_state_scheme \<Rightarrow> (u8 \<times> 'a c2_state_scheme) option" where
  "c2_vl_store fd len data s = do {
     f \<leftarrow> c2_get_file fd s;
     let len = (if f_alloc f < len then f_alloc f else len);
     let f = f\<lparr>f_flags := f_flags f OR
                (if len \<noteq> f_length f then VL_FLAG_RESIZED OR VL_FLAG_MODDED else VL_FLAG_MODDED),
              f_length := len\<rparr>;
     let cursor = f_start f;
     c2_store_loop (c2_file_wr (f_write f)) cursor (cursor + len) data 0 (c2_put_file fd f s)
   }"

definition c2_vl_append :: "nat \<Rightarrow> u16 \<Rightarrow> words \<Rightarrow> 'a c2_state_scheme \<Rightarrow> (u8 \<times> 'a c2_state_scheme) option" where
  "c2_vl_append fd len data s = do {
     f \<leftarrow> c2_get_file fd s;
     let len = f_length f + len;
     if len \<le> f_alloc f then do {
       let cursor = f_start f + f_length f;
       let f = f\<lparr>f_length := len, f_flags := f_flags f OR (VL_FLAG_RESIZED OR VL_FLAG_MODDED)\<rparr>;
       c2_store_loop (c2_file_wr (f_write f)) cursor (len + cursor) data 0 (c2_put_file fd f s)
     } else Some (255, s)
   }"

definition c2_vl_touch ::
  "'a c2_action_fn \<Rightarrow> u8 \<Rightarrow> u16 \<Rightarrow> u16 \<Rightarrow> c2_user \<Rightarrow> 'a c2_state_scheme \<Rightarrow> (u8 \<times> 'a c2_state_scheme) option" where
  "c2_vl_touch act block_id data_id flags user_id s = do {
     (fp, s) \<leftarrow> c2_vl_open block_id data_id VL_ACCESS_RW user_id s;
     case fp of
       None \<Rightarrow> Some (255, s)
     | Some fd \<Rightarrow> do {
         f \<leftarrow> c2_get_file fd s;
         let s = c2_put_file fd (f\<lparr>f_flags := f_flags f AND (VL_FLAG_OPENED OR VL_FLAG_MODDED)\<rparr>) s;
         c2_vl_close act (Some fd) s
       }
   }"

definition c2_vl_execute ::
  "'a c2_action_fn \<Rightarrow> nat \<Rightarrow> u16 \<Rightarrow> words \<Rightarrow> 'a c2_state_scheme \<Rightarrow> (u8 \<times> 'a c2_state_scheme) option" where
  "c2_vl_execute act fd input_size input_stream s = do {
     (retval, s) \<leftarrow> c2_vl_store fd input_size input_stream s;
     if retval \<noteq> 0 then c2_sub_action act fd s else Some (retval, s)
   }"

definition c2_vl_checklength :: "nat \<Rightarrow> 'a c2_state_scheme \<Rightarrow> u16 option" where
  "c2_vl_checklength fd s = map_option f_length (c2_get_file fd s)"

definition c2_vl_checkalloc :: "nat \<Rightarrow> 'a c2_state_scheme \<Rightarrow> u16 option" where
  "c2_vl_checkalloc fd s = map_option f_alloc (c2_get_file fd s)"

text \<open>Without modification times the code keeps only the initial value, and what it is given.\<close>

definition c2_vl_getmodtime :: "nat option \<Rightarrow> 'a c2_state_scheme \<Rightarrow> u32" where
  "c2_vl_getmodtime fp s = 0"

definition c2_vl_setmodtime :: "nat option \<Rightarrow> u32 \<Rightarrow> 'a c2_state_scheme \<Rightarrow> u16 \<times> 'a c2_state_scheme" where
  "c2_vl_setmodtime fp newtime s = (ucast newtime, s)"

section \<open>What is stored is loaded\<close>

context halfword_store
begin

lemma c2_store_loop_wr_seq:
  "k \<le> length data \<Longrightarrow> unat cursor + 2 * k < 65536 \<Longrightarrow> k = (n + 1) div 2 \<Longrightarrow> unat limit = unat cursor + n \<Longrightarrow>
   c2_store_loop wr cursor limit data t s =
     do { (r, s') \<leftarrow> wr_seq wr cursor (take k data) s; Some (t OR r, s') }"
proof (induction k arbitrary: cursor data n t s)
  case 0
  then have "\<not> cursor < limit" by (simp add: word_less_nat_alt)
  then show ?case by (cases data) auto
next
  case (Suc k)
  obtain w ws where d: "data = w # ws" using Suc.prems(1) by (cases data) auto
  have lt: "cursor < limit" using Suc.prems(3,4) by (simp add: word_less_nat_alt)
  have u: "unat (cursor + 2) = unat cursor + 2" using Suc.prems(2) by (intro unat_add2) simp
  have "c2_store_loop wr (cursor + 2) limit ws t' s' =
      do { (r, s'') \<leftarrow> wr_seq wr (cursor + 2) (take k ws) s'; Some (t' OR r, s'') }" for t' s'
  proof (cases "n = 1")
    case True
    then have "k = 0" "\<not> cursor + 2 < limit" using Suc.prems(3,4) u by (auto simp: word_less_nat_alt)
    then show ?thesis by (cases ws) auto
  next
    case False
    then have n: "2 \<le> n" "k = (n - 2 + 1) div 2" using Suc.prems(3) by auto
    have "k \<le> length ws" "unat (cursor + 2) + 2 * k < 65536" "unat limit = unat (cursor + 2) + (n - 2)"
      using Suc.prems(1,2,4) d u n(1) by simp_all
    then show ?thesis using n(2) by (intro Suc.IH)
  qed
  then show ?case
    using lt d by (cases "wr cursor w s") (auto simp: case_prod_unfold or.assoc)
qed

lemma c2_load_loop_rd_seq:
  "unat cursor + 2 * k < 65536 \<Longrightarrow> k = (n + 1) div 2 \<Longrightarrow> unat limit = unat cursor + n \<Longrightarrow>
   c2_load_loop (\<lambda>a. rd a s) cursor limit = rd_seq rd cursor k s"
proof (induction k arbitrary: cursor n)
  case 0
  then have "\<not> cursor < limit" by (simp add: word_less_nat_alt)
  then show ?case by (simp add: c2_load_loop.simps)
next
  case (Suc k)
  have lt: "cursor < limit" using Suc.prems(2,3) by (simp add: word_less_nat_alt)
  have u: "unat (cursor + 2) = unat cursor + 2" using Suc.prems(1) by (intro unat_add2) simp
  have "c2_load_loop (\<lambda>a. rd a s) (cursor + 2) limit = rd_seq rd (cursor + 2) k s"
  proof (cases "n = 1")
    case True
    then have "k = 0" "\<not> cursor + 2 < limit" using Suc.prems(2,3) u by (auto simp: word_less_nat_alt)
    then show ?thesis by (simp add: c2_load_loop.simps)
  next
    case False
    then have n: "2 \<le> n" "k = (n - 2 + 1) div 2" using Suc.prems(2) by auto
    have "unat (cursor + 2) + 2 * k < 65536" "unat limit = unat (cursor + 2) + (n - 2)"
      using Suc.prems(1,3) u n(1) by simp_all
    then show ?thesis using n(2) by (intro Suc.IH)
  qed
  then show ?case using lt by (simp add: c2_load_loop.simps [of _ cursor])
qed

end

lemma c2_file_fns [simp]: "c2_file_rd (Some Vworm_fn) = c2_vworm_read" "c2_file_wr (Some Vworm_fn) = c2_vworm_write"
  by (simp_all add: c2_file_rd_def c2_file_wr_def fun_eq_iff)

lemma c2_wr_seq_frame:
  "wr_seq c2_vworm_write a ds s = Some (r, s') \<Longrightarrow> \<exists>m. s' = s\<lparr>c2_fsram := m\<rparr> \<and> length m = length (c2_fsram s)"
proof (induction ds arbitrary: a s r s')
  case Nil
  then show ?case by (intro exI [of _ "c2_fsram s"]) simp
next
  case (Cons d ds)
  from Cons.prems obtain r1 s1 r2 where 1: "c2_vworm_write a d s = Some (r1, s1)"
    and 2: "wr_seq c2_vworm_write (a + 2) ds s1 = Some (r2, s')"
    by (auto simp: bind_eq_Some_conv)
  obtain m where m: "s' = s1\<lparr>c2_fsram := m\<rparr>" "length m = length (c2_fsram s1)" using Cons.IH [OF 2] by blast
  from 1 have "s1 = s\<lparr>c2_fsram := (c2_fsram s)[c2_index a := d]\<rparr>" by (simp add: c2_write_eq split: if_splits)
  then show ?case using m by (intro exI [of _ m]) simp
qed

definition c2_file_ok :: "nat \<Rightarrow> vlFILE \<Rightarrow> bool" where
  "c2_file_ok n f \<longleftrightarrow> f_read f = Some Vworm_fn \<and> f_write f = Some Vworm_fn
     \<and> unat (f_start f) + 2 * ((unat (f_alloc f) + 1) div 2) \<le> 2 * n \<and> n < 32768"

lemma unat_min_le: "unat (min a (b :: u16)) \<le> unat a" "unat (min a b) \<le> unat b"
  by (simp_all add: word_le_nat_alt [symmetric])

text \<open>Writing a sequence is defined inside the array, and loading gives its words.\<close>

lemma c2_wr_seq_defined:
  assumes b: "unat a + 2 * length ws \<le> 2 * length (c2_fsram t)" "unat a + 2 * length ws < 65536"
  shows "\<exists>s'. wr_seq c2_vworm_write a ws t = Some (0, s')"
proof (rule c2vw.wr_seq_defined)
  fix i assume i: "i < length ws"
  have u: "unat (of_nat (2 * i) :: u16) = 2 * i" using b(2) i by (intro unat_of_nat_u16) linarith
  then have "unat (a + of_nat (2 * i)) = unat a + 2 * i"
    using unat_add_u16 [of a "of_nat (2 * i)"] b(2) i by linarith
  then show "c2_vworm_mapped (a + 2 * of_nat i) t" using b(1) i by (simp add: c2_vworm_mapped_def c2_index_half)
qed

lemma c2_load_after:
  assumes w: "wr_seq c2_vworm_write a (take h data) t = Some (0, s')" and hd: "h \<le> length data"
    and j: "(n + 1) div 2 \<le> h" and b: "unat a + 2 * h < 65536" and n: "n = unat m" and lim: "unat (a + m) = unat a + n"
  shows "c2_load_loop (\<lambda>a. c2_vworm_read a s') a (a + m) = Some (take ((n + 1) div 2) data)"
proof -
  have "rd_seq c2_vworm_read a h s' = Some (take h data)"
    using c2vw.rd_seq_wr_seq [OF w] b hd by simp
  then have "rd_seq c2_vworm_read a ((n + 1) div 2) s' = Some (take ((n + 1) div 2) data)" using hd j by (rule rd_seq_take)
  then show ?thesis using c2vw.c2_load_loop_rd_seq [OF _ refl, of a n "a + m" s'] lim b j by simp
qed

text \<open>
  C27. On the C2000, too, what is stored in an open file is loaded again: the data is cut to the
  allocation, a load gives the smaller of the two counts and the half-words that hold that many
  bytes, and no half-word outside the ones stored changes.
\<close>

theorem c2k_store_load:
  fixes s :: "'a c2_state_scheme"
  assumes "c2_get_file fd s = Some f" and "c2_file_ok (length (c2_fsram s)) f"
    and "(unat (min len (f_alloc f)) + 1) div 2 \<le> length data"
  shows "\<exists>s'. c2_vl_store fd len data s = Some (0, s')
    \<and> (\<forall>k. c2_vl_load fd k s' = Some (min k (min len (f_alloc f)),
          take ((unat (min k (min len (f_alloc f))) + 1) div 2) data))
    \<and> (\<forall>b. even_addr b \<notin> span16 (f_start f) ((unat (min len (f_alloc f)) + 1) div 2)
          \<longrightarrow> c2_vworm_read b s' = c2_vworm_read b s)"
proof -
  define n where "n = min len (f_alloc f)"
  define h where "h = (unat n + 1) div 2"
  define g where "g = f\<lparr>f_flags := f_flags f OR (if n \<noteq> f_length f then VL_FLAG_RESIZED OR VL_FLAG_MODDED
    else VL_FLAG_MODDED), f_length := n\<rparr>"
  define t where "t = c2_put_file fd g s"
  have fd: "fd < length (c2_vlfile s)" using assms(1) by (simp add: c2_get_file_def split: if_splits)
  note ok = assms(2) [unfolded c2_file_ok_def]
  have "unat n \<le> unat (f_alloc f)" unfolding n_def by (rule unat_min_le)
  then have h: "h \<le> (unat (f_alloc f) + 1) div 2" by (simp add: h_def div_le_mono)
  have bound: "unat (f_start f) + 2 * h \<le> 2 * length (c2_fsram s)" "unat (f_start f) + 2 * h < 65536"
    using ok h by linarith+
  have "unat n \<le> 2 * h" by (simp add: h_def)
  then have lim: "unat (f_start f + m) = unat (f_start f) + unat m" if "m \<le> n" for m
    using that bound(2) by (intro unat_add_u16) (simp add: word_le_nat_alt)
  have hd: "h \<le> length data" using assms(3) by (simp add: h_def n_def)
  then have len_h: "length (take h data) = h" by simp
  have fs: "c2_fsram t = c2_fsram s" by (simp add: t_def c2_put_file_def)
  obtain s' where w: "wr_seq c2_vworm_write (f_start f) (take h data) t = Some (0, s')"
    using c2_wr_seq_defined [of "f_start f" "take h data" t] bound fs len_h by auto
  have f': "c2_get_file fd s' = Some g"
    using c2_wr_seq_frame [OF w] fd by (auto simp: t_def c2_put_file_def c2_get_file_def)
  have if_min: "(if f_alloc f < len then f_alloc f else len) = n" by (auto simp: n_def min_def)
  have st: "c2_vl_store fd len data s = Some (0, s')"
    using c2vw.c2_store_loop_wr_seq [OF hd bound(2) h_def lim [OF order_refl], of 0 t] w ok
    by (simp add: c2_vl_store_def assms(1) Let_def if_min g_def [symmetric] t_def [symmetric])
  have ld: "c2_vl_load fd k s' = Some (min k n, take ((unat (min k n) + 1) div 2) data)" for k
  proof -
    let ?m = "min k n" and ?j = "(unat (min k n) + 1) div 2"
    have j: "?j \<le> h" unfolding h_def by (rule div_le_mono) (simp add: unat_min_le)
    have "c2_load_loop (\<lambda>a. c2_vworm_read a s') (f_start f) (f_start f + ?m) = Some (take ?j data)"
      by (rule c2_load_after [OF w hd j bound(2) refl]) (simp add: lim)
    moreover have "(if f_length g < k then f_length g else k) = ?m" "f_start g = f_start f" "f_read g = Some Vworm_fn"
      using ok by (auto simp: g_def min_def)
    ultimately show ?thesis by (simp add: c2_vl_load_def f' Let_def)
  qed
  have "c2_vworm_read b s' = c2_vworm_read b s" if "even_addr b \<notin> span16 (f_start f) h" for b
    using c2vw.wr_seq_other [OF w, of b] that fs unfolding len_h by (simp add: c2_read_eq)
  then show ?thesis using st ld unfolding n_def [symmetric] h_def [symmetric] by blast
qed

section \<open>Files that are found, and files that are not\<close>

text \<open>The search of a generic file looks at no header, since it counts the user files.\<close>

lemma c2_gfb_not_found: "c2_sub_gfb_search data_id s = Some NULL_vaddr"
  by (simp add: c2_sub_gfb_search_def c2_sub_header_search_def CS_GFB_NUM_USER_FILES_def)

text \<open>
  The search of an indexed file looks at no header either: it computes an address for every
  identity, whether there is such a file or not.
\<close>

lemma c2_isf_search_eq:
  "uint data_id < 255 \<Longrightarrow> c2_sub_isf_search data_id = 48 + 12 * data_id"
  "c2_sub_isf_search 255 = 348"
  by (simp_all add: c2_sub_isf_search_def CS_ISF_NUM_EXT_FILES_def CS_APPEXT_FILES_def CS_ISF_NUM_STOCK_FILES_def
      CS_OTFS_FILES_def CS_CSIP_FILES_def c2_octets)

text \<open>
  In the static C2000 filesystem neither search looks at a header: opening a generic file fails
  for every identity and user although two are configured, and the files of the table with an
  index below 25 open at their own header for the superuser.
\<close>

theorem c2k_searches:
  fixes s :: "'a c2_state_scheme"
  shows "c2_vl_open VL_GFB_BLOCKID data_id md user s = Some (None, s)
    \<and> (uint data_id < 25 \<longrightarrow> c2_vl_open VL_ISF_BLOCKID data_id md C2_NULL s = c2_vl_open_file (48 + 12 * data_id) s)
    \<and> c2_vl_open VL_ISF_BLOCKID 255 md C2_NULL s = c2_vl_open_file (48 + 12 * 25) s"
proof (intro conjI impI)
  show "c2_vl_open VL_GFB_BLOCKID data_id md user s = Some (None, s)"
    by (simp add: c2_vl_open_def c2_vl_getheader_vaddr_def c2_gfb_not_found)
  show "c2_vl_open VL_ISF_BLOCKID data_id md C2_NULL s = c2_vl_open_file (48 + 12 * data_id) s" if "uint data_id < 25"
  proof -
    have "c2_sub_isf_search data_id = 48 + 12 * data_id" using that by (intro c2_isf_search_eq) simp
    moreover have "48 + 12 * data_id \<noteq> NULL_vaddr"
    proof
      assume "48 + 12 * data_id = NULL_vaddr"
      then have "12 * data_id = NULL_vaddr - 48" by (simp add: algebra_simps)
      then have "uint (12 * data_id) = 65487" by (simp add: NULL_vaddr_def)
      moreover have "uint (12 * data_id) = 12 * uint data_id" using that by (simp add: uint_word_ariths)
      ultimately show False using that by simp
    qed
    ultimately show ?thesis by (simp add: c2_vl_open_def c2_vl_getheader_vaddr_def VL_ISF_BLOCKID_def VL_GFB_BLOCKID_def)
  qed
  show "c2_vl_open VL_ISF_BLOCKID 255 md C2_NULL s = c2_vl_open_file (48 + 12 * 25) s"
    by (simp add: c2_vl_open_def c2_vl_getheader_vaddr_def VL_ISF_BLOCKID_def VL_GFB_BLOCKID_def c2_isf_search_eq NULL_vaddr_def)
qed

section \<open>An identity that names no file\<close>

lemma c2_read_ipv6:
  assumes "c2_arrays_ok build_id ro" and "length (c2_fsram s) = 1024" and "c2_vworm_init ro s = Some (0, s')"
    and "688 \<le> unat a" and "unat a < 736"
  shows "c2_vworm_read a s' = Some 0xFFFF"
proof -
  have b: "C2_BASE C_ipv6_addresses = 688" by (simp add: C2_BASE_def csip_files_def C2_ALLOC_eq csip_consts)
  have st: "C2_stock build_id C_ipv6_addresses = replicate 24 0xFFFF" by (simp add: C2_stock_def C2_ERS16_def)
  have s': "s' = s\<lparr>c2_fsram := take 256 (arr_overhead ro) @ take 32 (arr_gfb ro)
    @ take 488 (arr_isf ro) @ drop 776 (c2_fsram s)\<rparr>" (is "_ = s\<lparr>c2_fsram := ?m\<rparr>")
    using c2_vworm_init_eq [OF assms(1,2)] assms(3) by simp
  have len: "length (c2_fsram s') = 1024" using assms(1,2) unfolding s' by (simp add: c2_arrays_ok_def)
  have "rd_seq c2_vworm_read (of_nat (C2_BASE C_ipv6_addresses)) (length (C2_stock build_id C_ipv6_addresses)) s'
      = Some (C2_stock build_id C_ipv6_addresses)"
    using c2_init_stock [OF assms(1,2,3), of C_ipv6_addresses] by (simp add: after_setarray_def)
  then have "rd_seq c2_vworm_read 688 24 s' = Some (replicate 24 0xFFFF)" by (simp add: b st)
  moreover have "rd_seq c2_vworm_read 688 24 s' = Some (take 24 (drop 344 (c2_fsram s')))"
    using c2_rd_seq [of 688 24 s'] len by (simp add: c2_index_half)
  ultimately have t: "take 24 (drop 344 (c2_fsram s')) = replicate 24 0xFFFF" by simp
  define i where "i = unat a div 2 - 344"
  have i: "i < 24" "unat a div 2 = 344 + i" using assms(4,5) by (auto simp: i_def)
  have "c2_fsram s' ! (344 + i) = take 24 (drop 344 (c2_fsram s')) ! i" using i(1) len by simp
  also have "\<dots> = 0xFFFF" using i(1) by (simp add: t)
  finally show ?thesis using i len by (simp add: c2_read_eq c2_index_half)
qed

text \<open>
  C26. In the default filesystem of the C2000 build a guest can open the file 54, which does not
  exist: its header is read from the erased addresses of another file, so its mode grants
  everything, its allocation is 0xFFFF and its base 0xFFFF. Through it the guest reads and writes
  every half-word of the filesystem, the keys included.
\<close>

theorem c2k_guest_reaches_all:
  fixes s :: "'a c2_state_scheme"
  assumes "c2_arrays_ok build_id ro" and "length (c2_fsram s) = 1024" and "c2_vworm_init ro s = Some (0, s1)"
    and "c2_sub_new_fp s1 = Some fd"
  shows "\<exists>s2. c2_vl_open VL_ISF_BLOCKID 54 VL_ACCESS_RW C2_auth_guest s1 = Some (Some fd, s2)
    \<and> (\<forall>a. unat a < 2048 \<longrightarrow> c2_vl_read fd (a + 1) s2 = c2_vworm_read a s1
        \<and> (\<exists>s3. c2_vl_write fd (a + 1) v s2 = Some (0, s3) \<and> c2_vworm_read a s3 = Some v))"
proof -
  have r: "c2_vworm_read 696 s1 = Some 0xFFFF" "c2_vworm_read 698 s1 = Some 0xFFFF" "c2_vworm_read 700 s1 = Some 0xFFFF"
    "c2_vworm_read 702 s1 = Some 0xFFFF" "c2_vworm_read 704 s1 = Some 0xFFFF"
    by (rule c2_read_ipv6 [OF assms(1-3)]; simp)+
  define f where "f = \<lparr>f_header = 696, f_start = - 1, f_alloc = 0xFFFF, f_idmod = 0xFFFF, f_length = 0xFFFF,
    f_flags = VL_FLAG_OPENED, f_read = Some Vworm_fn, f_write = Some Vworm_fn\<rparr>"
  define s2 where "s2 = c2_put_file fd f s1"
  have m1: "(- 1 :: u16) = 0xFFFF" by code_simp
  have fd: "fd < length (c2_vlfile s1)"
    using assms(4) by (auto simp: c2_sub_new_fp_def find_Some_iff)
  have "auth_check 0xFF VL_ACCESS_RW Auth_guest s1 = Some (6, s1)"
    by (simp add: auth_check_def VL_ACCESS_RW_def VL_ACCESS_R_def VL_ACCESS_W_def Let_def)
  then have "c2_vl_open VL_ISF_BLOCKID 54 VL_ACCESS_RW C2_auth_guest s1 = Some (Some fd, s2)"
    by (simp add: c2_vl_open_def c2_vl_getheader_vaddr_def VL_ISF_BLOCKID_def VL_GFB_BLOCKID_def c2_isf_search_eq
        NULL_vaddr_def r BYTE0_def c2_vl_open_file_def assms(4) s2_def f_def m1)
  moreover have "c2_vl_read fd (a + 1) s2 = c2_vworm_read a s1" for a
    using fd by (simp add: c2_vl_read_def c2_get_file_def s2_def c2_put_file_def f_def c2_read_eq)
  moreover have "\<exists>s3. c2_vl_write fd (a + 1) v s2 = Some (0, s3) \<and> c2_vworm_read a s3 = Some v" if "unat a < 2048" for a
  proof -
    have len: "length (c2_fsram s1) = 1024"
      using c2_vworm_init_eq [OF assms(1,2)] assms(1-3) by (auto simp: c2_arrays_ok_def)
    have "unat (a + 1) = unat a + 1" using that by (simp add: unat_word_ariths)
    then have "\<not> 0xFFFF \<le> a + 1" using that by (simp add: word_le_nat_alt)
    moreover have "unat a div 2 < 1024" using that by simp
    ultimately show ?thesis
      using fd len
      by (simp add: c2_vl_write_def c2_get_file_def s2_def c2_put_file_def f_def c2_write_eq c2_read_eq c2_index_half)
  qed
  ultimately show ?thesis by blast
qed

section \<open>Examples\<close>

definition demo_c2_state :: "words \<Rightarrow> vlFILE list \<Rightarrow> c2_state" where
  "demo_c2_state m fs = c2_core.extend (auth_state.extend demo_auth \<lparr>c2_fsram = m\<rparr>)
     \<lparr>c2_vlfile = fs, c2_vlaction = replicate 16 None, c2_vlaction_users = replicate 16 0\<rparr>"

lemma demo_c2_state_simps:
  "c2_fsram (demo_c2_state m fs) = m" "c2_vlfile (demo_c2_state m fs) = fs"
  by (simp_all add: demo_c2_state_def c2_core.extend_def auth_state.extend_def)

theorem c2k_guest_reaches_all_witness:
  "\<exists>s1 s2 s3. c2_vworm_init demo_c2_arrays (demo_c2_state (replicate 1024 0) (replicate 3 zero_file)) = Some (0, s1)
     \<and> c2_vl_open VL_ISF_BLOCKID 54 VL_ACCESS_RW C2_auth_guest s1 = Some (Some 0, s2)
     \<and> c2_vl_read 0 737 s2 = c2_vworm_read 736 s1
     \<and> c2_vl_write 0 737 0x1234 s2 = Some (0, s3) \<and> c2_vworm_read 736 s3 = Some 0x1234"
proof -
  let ?s = "demo_c2_state (replicate 1024 0) (replicate 3 zero_file)"
  have l: "length (c2_fsram ?s) = 1024" by (simp add: demo_c2_state_simps)
  obtain s1 where s1: "c2_vworm_init demo_c2_arrays ?s = Some (0, s1)" "c2_vlfile s1 = replicate 3 zero_file"
    using c2_vworm_init_eq [OF demo_c2_arrays_ok l] by (simp add: demo_c2_state_simps)
  have "c2_sub_new_fp s1 = Some 0" by (simp add: c2_sub_new_fp_def s1(2) zero_file_def upt_rec)
  from c2k_guest_reaches_all [OF demo_c2_arrays_ok l s1(1) this, of "0x1234"] obtain s2 where
    s2: "c2_vl_open VL_ISF_BLOCKID 54 VL_ACCESS_RW C2_auth_guest s1 = Some (Some 0, s2)"
    "\<forall>a. unat a < 2048 \<longrightarrow> c2_vl_read 0 (a + 1) s2 = c2_vworm_read a s1
       \<and> (\<exists>s3. c2_vl_write 0 (a + 1) 0x1234 s2 = Some (0, s3) \<and> c2_vworm_read a s3 = Some 0x1234)"
    by blast
  from s2(2) [rule_format, of 736] show ?thesis using s1(1) s2(1) by auto
qed

theorem c2k_store_load_witness:
  "\<exists>s'. c2_vl_store 0 5 [0x201, 0x403, 5] (demo_c2_state (replicate 8 0)
       [zero_file\<lparr>f_start := 4, f_alloc := 6, f_read := Some Vworm_fn, f_write := Some Vworm_fn\<rparr>]) = Some (0, s')
     \<and> c2_vl_load 0 9 s' = Some (5, [0x201, 0x403, 5])"
proof -
  let ?f = "zero_file\<lparr>f_start := 4, f_alloc := 6, f_read := Some Vworm_fn, f_write := Some Vworm_fn\<rparr>"
  let ?s = "demo_c2_state (replicate 8 0) [?f]"
  have f: "c2_get_file 0 ?s = Some ?f" "c2_file_ok (length (c2_fsram ?s)) ?f"
    by (simp_all add: c2_get_file_def demo_c2_state_simps c2_file_ok_def)
  have d: "(unat (min 5 (f_alloc ?f)) + 1) div 2 \<le> length [0x201, 0x403, 5 :: u16]" by (simp add: min_def)
  obtain s' where s': "c2_vl_store 0 5 [0x201, 0x403, 5] ?s = Some (0, s')"
    "\<forall>k. c2_vl_load 0 k s' = Some (min k (min 5 (f_alloc ?f)),
        take ((unat (min k (min 5 (f_alloc ?f))) + 1) div 2) [0x201, 0x403, 5])"
    using c2k_store_load [OF f d] by blast
  have "c2_vl_load 0 9 s' = Some (5, [0x201, 0x403, 5])"
    using s'(2) [rule_format, of 9] by (simp add: min_def)
  with s'(1) show ?thesis by blast
qed

theorem c2k_searches_witness:
  "c2_vl_open VL_ISF_BLOCKID 14 VL_ACCESS_SU C2_NULL (demo_c2_state [] []) = Some (None, demo_c2_state [] [])"
  using c2k_searches [of 14 VL_ACCESS_SU C2_NULL "demo_c2_state [] []"]
  by (simp add: c2_vl_open_file_def c2_sub_new_fp_def demo_c2_state_simps)

end
