(* ===== verification/Veelite_Actions.thy ===== *)
theory Veelite_Actions
  imports Fs_Store
begin

text \<open>
  The actions of \<^verbatim>\<open>otlib/veelite.c\<close>: functions that closing a file calls. A file keeps in its header
  a condition and the index of its action, a table of 16 entries the functions and how many files
  use each. Adding an action and removing it leaves the table and the block as they were.
\<close>

text \<open>Every entry that holds a function has users, fewer than the byte counts.\<close>

definition action_wf :: "'a vl_state_scheme \<Rightarrow> bool" where
  "action_wf s \<longleftrightarrow> length (vlaction s) = VLACTIONS \<and> length (vlaction_users s) = VLACTIONS
     \<and> (\<forall>k < VLACTIONS. (vlaction_users s ! k = 0 \<longleftrightarrow> vlaction s ! k = None) \<and> unat (vlaction_users s ! k) < 255)"

lemma action_slot_taken:
  "0 \<le> sel \<Longrightarrow> action_slot as i sel (Some a) = sel
    \<or> (\<exists>n < length as. action_slot as i sel (Some a) = i + int n \<and> as ! n = Some a)"
proof (induction as arbitrary: i)
  case Nil
  then show ?case by simp
next
  case (Cons b as)
  show ?case
  proof (cases "b = Some a")
    case False
    then have "action_slot (b # as) i sel (Some a) = action_slot as (i + 1) sel (Some a)"
      using Cons.prems by simp
    then show ?thesis using Cons.IH [of "i + 1"] Cons.prems by (auto intro: exI [of _ "Suc _"])
  qed auto
qed

lemma action_slot_finds:
  "None \<in> set as \<or> Some a \<in> set as \<Longrightarrow> 0 \<le> i \<Longrightarrow>
   \<exists>n < length as. action_slot as i (- 1) (Some a) = i + int n \<and> (as ! n = None \<or> as ! n = Some a)"
proof (induction as arbitrary: i)
  case Nil
  then show ?case by simp
next
  case (Cons b as)
  consider "b = None" | "b = Some a" | "b \<noteq> None" "b \<noteq> Some a" by blast
  then show ?case
  proof cases
    case 1
    then show ?thesis
      using action_slot_taken [of i as "i + 1" a] Cons.prems(2)
      by (auto intro: exI [of _ 0] exI [of _ "Suc _"])
  next
    case 3
    then obtain n where "n < length as" "action_slot as (i + 1) (- 1) (Some a) = i + 1 + int n"
      "as ! n = None \<or> as ! n = Some a"
      using Cons.IH [of "i + 1"] Cons.prems by auto
    then show ?thesis using 3 by (intro exI [of _ "Suc n"]) auto
  qed auto
qed

lemma vl_add_action_spec:
  fixes s :: "'a vl_state_scheme"
  assumes hd: "sub_isf_search data_id s = Some header" "header \<noteq> NULL_vaddr" "vworm_mapped (header + 10) s"
    and wf: "action_wf s" and free: "None \<in> set (vlaction s) \<or> Some a \<in> set (vlaction s)"
  shows "\<exists>k s'. vl_add_action VL_ISF_BLOCKID data_id cond (Some a) s = Some (int k, s') \<and> k < VLACTIONS
    \<and> (vlaction s ! k = None \<or> vlaction s ! k = Some a)
    \<and> vworm_read (header + 10) s' = Some (join16 cond (of_nat k))
    \<and> (\<forall>b. even_addr b \<noteq> even_addr (header + 10) \<longrightarrow> vworm_read b s' = vworm_read b s)
    \<and> vlaction s' = (vlaction s)[k := Some a]
    \<and> vlaction_users s' = (vlaction_users s)[k := vlaction_users s ! k + 1]
    \<and> vlfile s' = vlfile s \<and> fs_size s' = fs_size s"
proof -
  obtain k where k: "k < VLACTIONS" "action_slot (vlaction s) 0 (- 1) (Some a) = int k"
    "vlaction s ! k = None \<or> vlaction s ! k = Some a"
    using action_slot_finds [OF free, of 0] wf by (auto simp: action_wf_def)
  define t where "t = s\<lparr>vlaction := (vlaction s)[k := Some a],
    vlaction_users := (vlaction_users s)[k := vlaction_users s ! k + 1]\<rparr>"
  have rt: "vworm_read b t = vworm_read b s" "vworm_mapped b t = vworm_mapped b s" for b
    by (simp_all add: t_def vworm_read_def vworm_mapped_def fsblock_def)
  then obtain r s' where w: "vworm_write (header + 10) (join16 cond (of_nat k)) t = Some (r, s')"
    using hd(3) vw.wr_iff_mapped [of "header + 10" "join16 cond (of_nat k)" t] by auto
  have g: "vl_getheader_vaddr NULL_vaddr VL_ISF_BLOCKID data_id VL_ACCESS_SU Id_NULL s = Some (0, header, s)"
    using hd(1,2) by (simp add: vl_getheader_vaddr_def vl_consts)
  have "vl_add_action VL_ISF_BLOCKID data_id cond (Some a) s = Some (int k, s')"
    using w k(2) by (simp add: vl_add_action_def g t_def)
  moreover note vw.rd_wr_same [OF w] vw.rd_wr_other [OF w] vl_frame [OF vworm_write_block_frame [OF w]]
    fs_size_frame [OF vworm_write_block_frame [OF w]]
  ultimately show ?thesis using k(1,3) rt by (intro exI [of _ k] exI [of _ s']) (simp add: t_def fs_size_def fsblock_def)
qed


text \<open>Removing reads the index from the high byte.\<close>

lemma high_byte: "drop_bit 8 (join16 a b) = ucast b"
  by (rule bit_word_eqI) (auto simp: join16_def bit_simps dest: bit_imp_le_length)

lemma action_index: "k < VLACTIONS \<Longrightarrow> unat (drop_bit 8 (join16 a (of_nat k))) = k"
  by (simp only: high_byte unat_u8_u16) (simp add: VLACTIONS_def unat_of_nat take_bit_nat_eq_self)

lemma vl_remove_action_spec:
  fixes s :: "'a vl_state_scheme"
  assumes hd: "sub_isf_search data_id s = Some header" "header \<noteq> NULL_vaddr"
    and w: "vworm_read (header + 10) s = Some (join16 cond (of_nat k))"
    and k: "k < VLACTIONS" "vlaction_users s ! k \<noteq> 0"
  shows "\<exists>s'. vl_remove_action VL_ISF_BLOCKID data_id s = Some s'
    \<and> vworm_read (header + 10) s' = Some 0
    \<and> (\<forall>b. even_addr b \<noteq> even_addr (header + 10) \<longrightarrow> vworm_read b s' = vworm_read b s)
    \<and> vlaction_users s' = (vlaction_users s)[k := vlaction_users s ! k - 1]
    \<and> vlaction s' = (if vlaction_users s ! k = 1 then (vlaction s)[k := None] else vlaction s)"
proof -
  obtain r t where t: "vworm_write (header + 10) 0 s = Some (r, t)"
    using vw.rd_mappedI [OF w] vw.wr_iff_mapped [of "header + 10" 0 s] by auto
  have g: "vl_getheader_vaddr NULL_vaddr VL_ISF_BLOCKID data_id VL_ACCESS_SU Id_NULL s = Some (0, header, s)"
    using hd by (simp add: vl_getheader_vaddr_def vl_consts)
  note fr = vl_frame(2,3) [OF vworm_write_block_frame [OF t]]
  have rd: "vworm_read b (t\<lparr>vlaction_users := us\<rparr>) = vworm_read b t"
    "vworm_read b (t\<lparr>vlaction_users := us, vlaction := as\<rparr>) = vworm_read b t" for b us as
    by (simp_all add: vworm_read_def fsblock_def)
  show ?thesis
    using w k vw.rd_wr_same [OF t] vw.rd_wr_other [OF t]
    by (auto simp: vl_remove_action_def g t action_index [OF k(1)] fr rd Let_def)
qed

lemma users_next: "unat u < 255 \<Longrightarrow> u + 1 \<noteq> (0 :: u8)"
proof
  assume "unat u < 255" "u + 1 = 0"
  then have "u = 255" by (simp add: eq_neg_iff_add_eq_0 [symmetric])
  then show False using \<open>unat u < 255\<close> by simp
qed

text \<open>The search of a file does not look at action codes.\<close>

lemma search_after_action:
  assumes l: "fs_layout s" and i: "i < 23" and sz: "fs_size s1 = fs_size s"
    and same: "\<And>b. even_addr b \<noteq> even_addr (isf_hdr i + 10) \<Longrightarrow> vworm_read b s1 = vworm_read b s"
  shows "sub_isf_search (of_nat i) s1 = Some (isf_hdr i)"
proof -
  have ev: "even_addr (isf_hdr i + 10) = isf_hdr i + 10" "unat (isf_hdr i + 10) = 64 + 16 * i + 10"
    using isf_hdr_words(1) [OF i i, of 10] unat_isf_hdr [of i 10] i by simp_all
  have low: "vworm_read b s1 = vworm_read b s" if "unat (even_addr b) \<noteq> 64 + 16 * i + 10" for b
    using that ev by (intro same) metis
  have "isf_hdr i + 4 \<noteq> isf_hdr i + 10" by simp
  then have "even_addr (isf_hdr i + 4) \<noteq> even_addr (isf_hdr i + 10)"
    using isf_hdr_words(1) [OF i i, of 4] ev(1) by simp
  then have idm: "vworm_read (isf_hdr i + 4) s1 = Some (join16 (of_nat i) (ISF_MOD (isf_files ! i)))"
    using l i by (simp add: same fs_layout_def ISF_ID_index)
  obtain m where "fsblock s1 = Some m"
    using sz l by (auto simp: fs_layout_def fs_size_def split: option.splits)
  then show ?thesis
    by (rule isf_search_words [OF _ _ _ _ i idm]) (use l in \<open>simp_all add: low fs_layout_def\<close>)
qed

text \<open>Closing a file whose code names an entry of the table.\<close>

lemma close_runs_action:
  fixes s :: "'a vl_state_scheme"
  assumes g: "get_file fd s = Some f" and h: "hdr_ok s (f_header f)"
    and w: "vworm_read (f_header f + 10) s = Some (join16 cond (of_nat k))" and k: "k < VLACTIONS" "vlaction s ! k = Some a"
  shows "\<exists>t. (\<forall>act. vl_close act (Some fd) s = do {
        (r, u) \<leftarrow> (if cond AND ucast (f_flags f) \<noteq> 0 then act a fd t else Some (0, t));
        f' \<leftarrow> get_file fd u;
        Some (r, put_file fd (closed f') u)
      })
    \<and> vworm_read (f_header f) t = Some (f_length f) \<and> vlfile t = vlfile s
    \<and> (\<forall>b. even_addr b \<notin> {f_header f, f_header f + 12, f_header f + 14} \<longrightarrow> vworm_read b t = vworm_read b s)"
proof -
  obtain t where t: "\<forall>act. vl_close act (Some fd) s = do {
        (r, u) \<leftarrow> (if lo8 (join16 cond (of_nat k)) AND ucast (f_flags f) \<noteq> 0 then sub_action act fd t else Some (0, t));
        f' \<leftarrow> get_file fd u;
        Some (r, put_file fd (closed f') u)
      }" "vworm_read (f_header f) t = Some (f_length f)"
    "\<forall>b. even_addr b \<notin> {f_header f, f_header f + 12, f_header f + 14} \<longrightarrow> vworm_read b t = vworm_read b s"
    "vworm_read (f_header f + 10) t = Some (join16 cond (of_nat k))" "vlfile t = vlfile s" "vlaction t = vlaction s"
    using vl_close_runs [OF g h w] by blast
  have "get_file fd t = Some f" using t(5) get_fileD [OF g] by (simp add: get_file_def)
  then have "sub_action act fd t = act a fd t" for act
    using t(4,6) k by (simp add: sub_action_def action_index)
  then show ?thesis using t by (intro exI [of _ t]) (simp cong: if_cong)
qed

text \<open>
  C10. An action added to a file of the initialised filesystem with a condition is called by
  \<^verbatim>\<open>vl_close\<close> of every open file with that header exactly when the condition and the flags of the
  file have a bit in common, on the state \<open>t\<close> in which the length has been written, and the answer
  of the action is the answer of the call; otherwise the call answers 0. Removing the action again
  restores the table and the whole block.
\<close>

theorem vl_action_roundtrip:
  fixes s :: "'a vl_state_scheme"
  assumes d: "default_ready build_id s" and i: "i < 23" and wf: "action_wf s"
    and free: "None \<in> set (vlaction s) \<or> Some a \<in> set (vlaction s)"
  shows "\<exists>k s1. vl_add_action VL_ISF_BLOCKID (of_nat i) cond (Some a) s = Some (int k, s1) \<and> vlfile s1 = vlfile s
    \<and> (\<forall>fd f. get_file fd s1 = Some f \<and> f_header f = of_nat (64 + 16 * i) \<longrightarrow>
        (\<exists>t. (\<forall>act. vl_close act (Some fd) s1 = do {
              (r, u) \<leftarrow> (if cond AND ucast (f_flags f) \<noteq> 0 then act a fd t else Some (0, t));
              f' \<leftarrow> get_file fd u;
              Some (r, put_file fd (closed f') u)
            })
          \<and> vworm_read (f_header f) t = Some (f_length f) \<and> vlfile t = vlfile s1
          \<and> (\<forall>b. even_addr b \<notin> {f_header f, f_header f + 12, f_header f + 14} \<longrightarrow> vworm_read b t = vworm_read b s1)))
    \<and> (\<exists>s2. vl_remove_action VL_ISF_BLOCKID (of_nat i) s1 = Some s2
        \<and> vlaction s2 = vlaction s \<and> vlaction_users s2 = vlaction_users s \<and> (\<forall>b. vworm_read b s2 = vworm_read b s))"
proof -
  have l: "fs_layout s" by (rule default_layout [OF d])
  note se = isf_search_layout [OF l i]
  have nn: "isf_hdr i \<noteq> NULL_vaddr" using unat_isf_hdr [of i 0] i by (auto simp: NULL_vaddr_def)
  have z: "vworm_read (isf_hdr i + 10) s = Some 0" using l i by (simp add: fs_layout_def)
  obtain k s1 where k: "k < VLACTIONS" "vlaction s ! k = None \<or> vlaction s ! k = Some a"
    and add: "vl_add_action VL_ISF_BLOCKID (of_nat i) cond (Some a) s = Some (int k, s1)"
    and w1: "vworm_read (isf_hdr i + 10) s1 = Some (join16 cond (of_nat k))"
    and o1: "\<And>b. even_addr b \<noteq> even_addr (isf_hdr i + 10) \<Longrightarrow> vworm_read b s1 = vworm_read b s"
    and tb: "vlaction s1 = (vlaction s)[k := Some a]" "vlaction_users s1 = (vlaction_users s)[k := vlaction_users s ! k + 1]"
    and sz: "fs_size s1 = fs_size s" and vf: "vlfile s1 = vlfile s"
    using vl_add_action_spec [OF se nn vw.rd_mappedI [OF z] wf free, of cond] by blast
  have se1: "sub_isf_search (of_nat i) s1 = Some (isf_hdr i)" by (rule search_after_action [OF l i sz o1])
  let ?u = "vlaction_users s ! k"
  have u: "?u = 0 \<longleftrightarrow> vlaction s ! k = None" "unat ?u < 255" "k < length (vlaction s)" "k < length (vlaction_users s)"
    using wf k(1) by (auto simp: action_wf_def)
  have "?u + 1 \<noteq> 0" by (rule users_next [OF u(2)])
  then obtain s2 where s2: "vl_remove_action VL_ISF_BLOCKID (of_nat i) s1 = Some s2"
    "vworm_read (isf_hdr i + 10) s2 = Some 0"
    "\<And>b. even_addr b \<noteq> even_addr (isf_hdr i + 10) \<Longrightarrow> vworm_read b s2 = vworm_read b s1"
    "vlaction_users s2 = (vlaction_users s1)[k := vlaction_users s1 ! k - 1]"
    "vlaction s2 = (if vlaction_users s1 ! k = 1 then (vlaction s1)[k := None] else vlaction s1)"
    using vl_remove_action_spec [OF se1 nn w1 k(1)] u(4) by (auto simp: tb)
  have "vworm_read b s2 = vworm_read b s" for b
  proof (cases "even_addr b = even_addr (isf_hdr i + 10)")
    case True
    then have "vworm_read b t = vworm_read (isf_hdr i + 10) t" for t :: "'a vl_state_scheme"
      by (simp only: vworm_read_eq)
    then show ?thesis using s2(2) z by metis
  qed (simp add: s2(3) o1)
  moreover have "vlaction_users s2 = vlaction_users s" by (simp add: s2(4) tb u(4))
  moreover have "vlaction s2 = vlaction s"
    using k(2) u by (auto simp: s2(5) tb list_update_same_conv)
  moreover have "\<exists>t. (\<forall>act. vl_close act (Some fd) s1 = do {
        (r, u) \<leftarrow> (if cond AND ucast (f_flags f) \<noteq> 0 then act a fd t else Some (0, t));
        f' \<leftarrow> get_file fd u;
        Some (r, put_file fd (closed f') u)
      })
    \<and> vworm_read (f_header f) t = Some (f_length f) \<and> vlfile t = vlfile s1
    \<and> (\<forall>b. even_addr b \<notin> {f_header f, f_header f + 12, f_header f + 14} \<longrightarrow> vworm_read b t = vworm_read b s1)"
    if "get_file fd s1 = Some f" "f_header f = isf_hdr i" for fd f
  proof (rule close_runs_action [OF that(1) _ _ k(1)])
    show "hdr_ok s1 (f_header f)" unfolding that(2) by (rule isf_hdr_ok) (use sz l i in \<open>simp_all add: fs_layout_def\<close>)
    show "vworm_read (f_header f + 10) s1 = Some (join16 cond (of_nat k))" unfolding that(2) by (rule w1)
    show "vlaction s1 ! k = Some a" by (simp add: tb u(3))
  qed
  ultimately show ?thesis using add vf s2(1) by blast
qed

definition demo_action_fs :: vl_state where
  "demo_action_fs = demo_fs\<lparr>vlaction := Some 7 # replicate 15 None, vlaction_users := 1 # replicate 15 0,
     vlfile := (vlfile demo_fs)[0 := (isf_opened 14)\<lparr>f_flags := VL_FLAG_OPENED OR VL_FLAG_MODDED\<rparr>]\<rparr>"

text \<open>The action number 9, added for modifications to file 14, which is open and modified, answers the close.\<close>

theorem vl_action_roundtrip_witness:
  "\<exists>k s1 s2 s3. vl_add_action VL_ISF_BLOCKID 14 (ucast VL_FLAG_MODDED) (Some 9) demo_action_fs = Some (int k, s1)
    \<and> vl_close (\<lambda>a fd s. Some (of_nat a, s)) (Some 0) s1 = Some (9, s3)
    \<and> vl_remove_action VL_ISF_BLOCKID 14 s1 = Some s2 \<and> vlaction s2 = Some 7 # replicate 15 None"
proof -
  let ?f = "(isf_opened 14)\<lparr>f_flags := VL_FLAG_OPENED OR VL_FLAG_MODDED\<rparr>"
  have d: "default_ready (replicate 9 0x41) demo_action_fs"
    using demo_fs_ready by (simp add: demo_action_fs_def default_ready_def fsblock_def)
  have i: "14 < (23 :: nat)" by simp
  have wf: "action_wf demo_action_fs"
    by (simp add: action_wf_def demo_action_fs_def VLACTIONS_def nth_Cons')
  have "0 < length (vlfile demo_fs)" using sub_new_fp_Some(1) [OF demo_fs_free] .
  then have g: "get_file 0 s = Some ?f" if "vlfile s = vlfile demo_action_fs" for s :: vl_state
    using that by (simp add: get_file_def demo_action_fs_def)
  have "None \<in> set (vlaction demo_action_fs) \<or> Some 9 \<in> set (vlaction demo_action_fs)"
    by (simp add: demo_action_fs_def)
  note r = vl_action_roundtrip [OF d i wf this, of "ucast VL_FLAG_MODDED"]
  from r obtain k s1 s2 where
    add: "vl_add_action VL_ISF_BLOCKID (of_nat 14) (ucast VL_FLAG_MODDED) (Some 9) demo_action_fs = Some (int k, s1)"
    and vf: "vlfile s1 = vlfile demo_action_fs"
    and cl: "\<forall>fd f. get_file fd s1 = Some f \<and> f_header f = of_nat (64 + 16 * 14) \<longrightarrow>
        (\<exists>t. (\<forall>act. vl_close act (Some fd) s1 = do {
              (r, u) \<leftarrow> (if ucast VL_FLAG_MODDED AND ucast (f_flags f) \<noteq> (0 :: u8) then act 9 fd t else Some (0, t));
              f' \<leftarrow> get_file fd u;
              Some (r, put_file fd (closed f') u)
            })
          \<and> vworm_read (f_header f) t = Some (f_length f) \<and> vlfile t = vlfile s1
          \<and> (\<forall>b. even_addr b \<notin> {f_header f, f_header f + 12, f_header f + 14} \<longrightarrow> vworm_read b t = vworm_read b s1))"
    and rm: "vl_remove_action VL_ISF_BLOCKID (of_nat 14) s1 = Some s2" "vlaction s2 = vlaction demo_action_fs"
    by (elim exE conjE) (rule that)
  have fl: "ucast VL_FLAG_MODDED AND ucast (f_flags ?f) \<noteq> (0 :: u8)" by (simp add: VL_FLAG_MODDED_def VL_FLAG_OPENED_def)
  have h: "f_header ?f = of_nat (64 + 16 * 14)" by (simp add: isf_opened_def opened_def Let_def)
  obtain t where "\<forall>act. vl_close act (Some 0) s1 = do {
        (r, u) \<leftarrow> (if ucast VL_FLAG_MODDED AND ucast (f_flags ?f) \<noteq> (0 :: u8) then act 9 0 t else Some (0, t));
        f' \<leftarrow> get_file 0 u;
        Some (r, put_file 0 (closed f') u)
      }" and tf: "vlfile t = vlfile s1"
    using cl [rule_format, OF conjI [OF g [OF vf] h]] by (elim exE conjE) (rule that)
  then have t: "vl_close (\<lambda>a fd s. Some (of_nat a, s)) (Some 0) s1 = do {
        f' \<leftarrow> get_file 0 t; Some (9, put_file 0 (closed f') t) }"
    unfolding if_P [OF fl] by simp
  have "vl_close (\<lambda>a fd s. Some (of_nat a, s)) (Some 0) s1 = Some (9, put_file 0 (closed ?f) t)"
    using t g [of t] tf vf by simp
  then show ?thesis using add rm by (auto simp: demo_action_fs_def)
qed

text \<open>
  \<^verbatim>\<open>vl_init\<close> clears the table but not the codes in the headers: closing a file whose code is set
  then calls a NULL pointer.
\<close>

lemma vl_init_forgets_actions:
  assumes "vworm_read (f_header f + 10) s = Some (join16 cond (of_nat k))" and "k < VLACTIONS"
  shows "sub_action act fd (put_file fd f (snd (vl_init s))) = None"
proof -
  have "fd < VLFPS \<or> get_file fd (put_file fd f (snd (vl_init s))) = None"
    by (auto simp: vl_init_def get_file_def)
  moreover have "vworm_read a (put_file fd f (snd (vl_init s))) = vworm_read a s" for a
    by (simp add: vl_init_def put_file_def vworm_read_def fsblock_def)
  ultimately show ?thesis
    using assms by (auto simp: sub_action_def get_put_file action_index vl_init_def VLACTIONS_def nth_Cons' split: bind_splits)
qed

end
