(* ===== verification/C2k_Actions.thy ===== *)
theory C2k_Actions
  imports C2k_Files Veelite_Actions
begin

text \<open>
  Actions on the C2000: the same contract as on POSIX, for every identity the search gives an
  address for, whether there is a file or not.
\<close>

definition c2_action_wf :: "'a c2_state_scheme \<Rightarrow> bool" where
  "c2_action_wf s \<longleftrightarrow> length (c2_vlaction s) = VLACTIONS \<and> length (c2_vlaction_users s) = VLACTIONS
     \<and> (\<forall>k < VLACTIONS. (c2_vlaction_users s ! k = 0 \<longleftrightarrow> c2_vlaction s ! k = None)
          \<and> unat (c2_vlaction_users s ! k) < 65535)"

lemma c2_getheader_root:
  assumes "c2_sub_isf_search data_id \<noteq> NULL_vaddr"
  shows "c2_vl_getheader_vaddr NULL_vaddr VL_ISF_BLOCKID data_id VL_ACCESS_SU C2_NULL s
    = Some (0, c2_sub_isf_search data_id, s)"
  using assms by (simp add: c2_vl_getheader_vaddr_def vl_consts)

lemma c2_action_roundtrip:
  fixes s :: "'a c2_state_scheme" and data_id :: u16
  defines "n \<equiv> c2_index (c2_sub_isf_search data_id + 10)"
  assumes hd: "c2_sub_isf_search data_id \<noteq> NULL_vaddr" "n < length (c2_fsram s)" "c2_fsram s ! n = 0"
    and wf: "c2_action_wf s" and free: "None \<in> set (c2_vlaction s) \<or> Some a \<in> set (c2_vlaction s)"
  shows "\<exists>k s1. c2_vl_add_action VL_ISF_BLOCKID data_id cond (Some a) s = Some (int k, s1)
    \<and> (\<forall>act fd f. c2_get_file fd s1 = Some f \<and> f_header f = c2_sub_isf_search data_id
         \<longrightarrow> c2_sub_action act fd s1 = act a fd s1)
    \<and> (\<exists>s2. c2_vl_remove_action VL_ISF_BLOCKID data_id s1 = Some s2 \<and> c2_vlaction s2 = c2_vlaction s
        \<and> c2_vlaction_users s2 = c2_vlaction_users s \<and> c2_fsram s2 = c2_fsram s)"
proof -
  obtain k where k: "k < VLACTIONS" "action_slot (c2_vlaction s) 0 (- 1) (Some a) = int k"
    "c2_vlaction s ! k = None \<or> c2_vlaction s ! k = Some a"
    using action_slot_finds [OF free, of 0] wf by (auto simp: c2_action_wf_def)
  let ?u = "c2_vlaction_users s ! k" and ?w = "join16 (lo8 cond) (of_nat k)"
  define s1 where "s1 = s\<lparr>c2_vlaction := (c2_vlaction s)[k := Some a],
    c2_vlaction_users := (c2_vlaction_users s)[k := ?u + 1], c2_fsram := (c2_fsram s)[n := ?w]\<rparr>"
  have u: "?u = 0 \<longleftrightarrow> c2_vlaction s ! k = None" "unat ?u < 65535" "k < length (c2_vlaction s)"
    "k < length (c2_vlaction_users s)"
    using wf k(1) by (auto simp: c2_action_wf_def)
  have nz: "?u + 1 \<noteq> 0"
  proof
    assume "?u + 1 = 0"
    then have "?u = 65535" by (simp add: eq_neg_iff_add_eq_0 [symmetric])
    then show False using u(2) by simp
  qed
  have "c2_vl_add_action VL_ISF_BLOCKID data_id cond (Some a) s = Some (int k, s1)"
    using hd(2) k(2) unfolding n_def s1_def by (simp add: c2_vl_add_action_def c2_getheader_root [OF hd(1)] c2_write_eq)
  moreover have rd: "c2_vworm_read (c2_sub_isf_search data_id + 10) s1 = Some ?w"
    using hd(2) unfolding n_def s1_def by (simp add: c2_read_eq)
  moreover have "c2_sub_action act fd s1 = act a fd s1"
    if "c2_get_file fd s1 = Some f" "f_header f = c2_sub_isf_search data_id" for act fd f
    using that rd k(1) u(3) by (simp add: c2_sub_action_def action_index) (simp add: s1_def)
  moreover have "\<exists>s2. c2_vl_remove_action VL_ISF_BLOCKID data_id s1 = Some s2 \<and> c2_vlaction s2 = c2_vlaction s
      \<and> c2_vlaction_users s2 = c2_vlaction_users s \<and> c2_fsram s2 = c2_fsram s"
    using hd(2,3) k(1,3) u nz rd
    by (auto simp: c2_vl_remove_action_def c2_getheader_root [OF hd(1)] action_index c2_write_eq Let_def
        s1_def list_update_same_conv n_def [symmetric])
  ultimately show ?thesis by blast
qed

end
