(* ===== verification/Veelite_New.thy ===== *)
theory Veelite_New
  imports Veelite_Files Cmem
begin

text \<open>
  The code of \<^verbatim>\<open>otlib/veelite.c\<close> under \<^verbatim>\<open>OT_FEATURE(VLNEW)\<close>, in the variant for MULTIFS: creating
  and deleting files. A file is created in a window of the header array, the headers from
  number \<^verbatim>\<open>used\<close> to number \<^verbatim>\<open>files\<close> of its block, with a free place of the heap of its block.

  The local variable \<^verbatim>\<open>new_header\<close> of \<^verbatim>\<open>sub_gfb_new\<close> and \<^verbatim>\<open>sub_isf_new\<close> leaves the fields
  \<^verbatim>\<open>actioncode\<close> and \<^verbatim>\<open>modtime\<close> unset and writes them to the header: they are the argument \<open>junk\<close>
  of the operations. \<^verbatim>\<open>sub_isf_new\<close> lacks a semicolon after the computation of \<^verbatim>\<open>num_files\<close>; it is
  modelled with the semicolon.
\<close>

section \<open>State\<close>

text \<open>The static copy \<^verbatim>\<open>vlfs\<close> of the filesystem header, which nothing loads or saves.\<close>

record new_state = vl_state +
  vlfs :: vlFSHEADER

type_synonym header_junk = "u16 \<times> u32"

definition vl_header_words :: "vl_header_t \<Rightarrow> u16 list" where
  "vl_header_words h = [hd_length h, hd_alloc h, hd_idmod h, hd_base h, hd_mirror h, hd_actioncode h,
     lo16 (hd_modtime h), hi16 (hd_modtime h)]"

section \<open>Free places\<close>

fun sub_find_empty_header :: "u16 \<Rightarrow> nat \<Rightarrow> 'a core_state_scheme \<Rightarrow> u16 option" where
  "sub_find_empty_header header 0 s = Some NULL_vaddr"
| "sub_find_empty_header header (Suc n) s = do {
     header_base \<leftarrow> vworm_read (header + 6) s;
     if header_base = NULL_vaddr then Some header
     else sub_find_empty_header (header + 16) n s
   }"

text \<open>The inner loop: the distance from \<open>heap_base\<close> to the nearest file behind it, if it is less than \<open>closest_gap\<close>.\<close>

fun gap_loop :: "nat \<Rightarrow> u16 \<Rightarrow> u16 \<Rightarrow> int \<Rightarrow> 'a core_state_scheme \<Rightarrow> int option" where
  "gap_loop 0 loop2 heap_base closest_gap s = Some closest_gap"
| "gap_loop (Suc n) loop2 heap_base closest_gap s = do {
     loop2_base \<leftarrow> vworm_read (loop2 + 6) s;
     let gap = to_ot_int (uint loop2_base - uint heap_base);
     gap_loop n (loop2 + 16) heap_base
       (if loop2_base \<noteq> NULL_vaddr \<and> heap_base < loop2_base \<and> gap < closest_gap then gap else closest_gap) s
   }"

text \<open>
  The outer loop, over the headers from \<open>loop1\<close> on; \<open>header\<close> and \<open>num\<close> are those of the whole
  window. \<open>heap_base\<close> and \<open>closest_gap\<close> keep their values from one pass to the next.
\<close>

fun heap_loop ::
  "nat \<Rightarrow> u16 \<Rightarrow> u16 \<Rightarrow> nat \<Rightarrow> u16 \<Rightarrow> u16 \<Rightarrow> int \<Rightarrow> int \<Rightarrow> u16 \<Rightarrow> 'a core_state_scheme \<Rightarrow> u16 option" where
  "heap_loop 0 loop1 header num new_alloc heap_base closest_gap bestfit_alloc bestfit_base s = Some bestfit_base"
| "heap_loop (Suc n) loop1 header num new_alloc heap_base closest_gap bestfit_alloc bestfit_base s = do {
     loop1_alloc \<leftarrow> vworm_read (loop1 + 2) s;
     loop1_base \<leftarrow> vworm_read (loop1 + 6) s;
     let heap_base = (if loop1_base \<noteq> NULL_vaddr then loop1_base + loop1_alloc else heap_base);
     closest_gap \<leftarrow> (if loop1_base \<noteq> NULL_vaddr then gap_loop num header heap_base closest_gap s
                     else Some closest_gap);
     if uint new_alloc \<le> closest_gap \<and> closest_gap < bestfit_alloc
     then heap_loop n (loop1 + 16) header num new_alloc heap_base closest_gap closest_gap heap_base s
     else heap_loop n (loop1 + 16) header num new_alloc heap_base closest_gap bestfit_alloc bestfit_base s
   }"

definition sub_find_empty_heap ::
  "u16 \<Rightarrow> u16 \<Rightarrow> u16 \<Rightarrow> u16 \<Rightarrow> int \<Rightarrow> 'a core_state_scheme \<Rightarrow> u16 option" where
  "sub_find_empty_heap heap_base heap_end header new_alloc num_headers s =
     heap_loop (nat num_headers) header header (nat num_headers) new_alloc heap_base
       (to_ot_int (uint heap_end - uint heap_base)) 32767 NULL_vaddr s"

section \<open>New files\<close>

definition sub_new_file ::
  "vl_header_t \<Rightarrow> u16 \<Rightarrow> u16 \<Rightarrow> u16 \<Rightarrow> int \<Rightarrow> 'a vl_state_scheme \<Rightarrow> (nat option \<times> 'a vl_state_scheme) option" where
  "sub_new_file new_header heap_base heap_end header_base header_window s = do {
     header_addr \<leftarrow> sub_find_empty_header header_base (nat header_window) s;
     if header_addr = NULL_vaddr then Some (None, s)
     else do {
       base \<leftarrow> sub_find_empty_heap heap_base heap_end header_base (hd_alloc new_header) header_window s;
       if base = NULL_vaddr then Some (None, s)
       else do {
         s \<leftarrow> sub_write_header header_addr (vl_header_words (new_header\<lparr>hd_base := base\<rparr>)) 16 s;
         vl_open_file header_addr s
       }
     }
   }"

text \<open>The fields of the header in memory that the operations read through a pointer to it.\<close>

definition sub_gfb_new ::
  "header_junk \<Rightarrow> u8 \<Rightarrow> u8 \<Rightarrow> u8 \<Rightarrow> 'a vl_state_scheme \<Rightarrow> (nat option \<times> 'a vl_state_scheme) option" where
  "sub_gfb_new junk ident md null_arg s = do {
     m \<leftarrow> fsblock s;
     fshdr \<leftarrow> fsheader_at m OVERHEAD_START_VADDR;
     let num_files = to_ot_int (uint (blk_files (fs_gfb fshdr)) - uint (blk_used (fs_gfb fshdr)));
     if 0 < num_files
     then sub_new_file \<lparr>hd_length = 0, hd_alloc = of_nat GFB_FILE_BYTES, hd_idmod = join16 ident md,
              hd_base = NULL_vaddr, hd_mirror = NULL_vaddr, hd_actioncode = fst junk, hd_modtime = snd junk\<rparr>
            (fs_ftab_alloc fshdr)
            (fs_ftab_alloc fshdr + blk_alloc (fs_gfb fshdr))
            (GFB_Header_START + blk_used (fs_gfb fshdr) * 16)
            num_files s
     else Some (None, s)
   }"

definition sub_isf_new ::
  "header_junk \<Rightarrow> u8 \<Rightarrow> u8 \<Rightarrow> u8 \<Rightarrow> 'a vl_state_scheme \<Rightarrow> (nat option \<times> 'a vl_state_scheme) option" where
  "sub_isf_new junk ident md max_length s = do {
     m \<leftarrow> fsblock s;
     fshdr \<leftarrow> fsheader_at m OVERHEAD_START_VADDR;
     let num_files = to_ot_int (uint (blk_files (fs_isf fshdr)) - uint (blk_used (fs_isf fshdr)));
     let heap_base = fs_ftab_alloc fshdr + blk_alloc (fs_gfb fshdr) + blk_alloc (fs_iss fshdr);
     if 0 < num_files
     then sub_new_file \<lparr>hd_length = 0, hd_alloc = (ucast max_length + 1) AND NOT 1, hd_idmod = join16 ident md,
              hd_base = NULL_vaddr, hd_mirror = NULL_vaddr, hd_actioncode = fst junk, hd_modtime = snd junk\<rparr>
            heap_base
            (heap_base + blk_alloc (fs_isf fshdr))
            (GFB_Header_START + (blk_files (fs_gfb fshdr) + blk_files (fs_iss fshdr) + blk_used (fs_isf fshdr)) * 16)
            num_files s
     else Some (None, s)
   }"

section \<open>Deleted files\<close>

definition sub_delete_file :: "u16 \<Rightarrow> 'a core_state_scheme \<Rightarrow> 'a core_state_scheme option" where
  "sub_delete_file del_header s = do {
     header_alloc \<leftarrow> vworm_read (del_header + 2) s;
     header_base \<leftarrow> vworm_read (del_header + 6) s;
     let _ = vworm_wipeblock header_base header_alloc;
     (_, s) \<leftarrow> vworm_mark (del_header + 2) 0 s;
     (_, s) \<leftarrow> vworm_mark (del_header + 6) NULL_vaddr s;
     Some s
   }"

definition sub_gfb_delete_check :: "u8 \<Rightarrow> 'a core_state_scheme \<Rightarrow> bool option" where
  "sub_gfb_delete_check ident s = do {
     m \<leftarrow> fsblock s;
     fshdr \<leftarrow> fsheader_at m OVERHEAD_START_VADDR;
     Some (blk_used (fs_gfb fshdr) < ucast ident)
   }"

text \<open>The loop of \<^verbatim>\<open>sub_isf_delete_check\<close>, with \<open>n = i + 1\<close> headers left; the array is read through a pointer.\<close>

fun delete_check_loop :: "bytes \<Rightarrow> nat \<Rightarrow> u8 \<Rightarrow> nat \<Rightarrow> bool option" where
  "delete_check_loop m isfhdr ident 0 = Some False"
| "delete_check_loop m isfhdr ident (Suc i) = do {
     idmod \<leftarrow> rd16 m (isfhdr + 16 * i + 4);
     if lo8 idmod = ident then Some True else delete_check_loop m isfhdr ident i
   }"

definition sub_isf_delete_check :: "u8 \<Rightarrow> 'a core_state_scheme \<Rightarrow> bool option" where
  "sub_isf_delete_check ident s = do {
     m \<leftarrow> fsblock s;
     fshdr \<leftarrow> fsheader_at m OVERHEAD_START_VADDR;
     let isfhdr = OVERHEAD_START_VADDR + 32 + (unat (blk_files (fs_gfb fshdr)) + unat (blk_files (fs_iss fshdr))) * 16;
     delete_check_loop m isfhdr ident (nat (to_ot_int (uint (blk_used (fs_isf fshdr)) - 1) + 1))
   }"

section \<open>The operations\<close>

text \<open>
  \<^verbatim>\<open>block[block_id].files += k\<close> on the static copy; only blocks 0 and 2 are reached.
\<close>

definition count_files :: "u8 \<Rightarrow> u16 \<Rightarrow> vlFSHEADER \<Rightarrow> vlFSHEADER" where
  "count_files block_id k h =
     (if block_id = 0 then h\<lparr>fs_gfb := (fs_gfb h)\<lparr>blk_files := blk_files (fs_gfb h) + k\<rparr>\<rparr>
      else h\<lparr>fs_isf := (fs_isf h)\<lparr>blk_files := blk_files (fs_isf h) + k\<rparr>\<rparr>)"

text \<open>
  \<^verbatim>\<open>vl_new\<close>: returns the error code and the content of \<^verbatim>\<open>*fp_new\<close>, which is \<open>fp0\<close> before the
  call. The type \<^verbatim>\<open>sub_new\<close> of the creating function takes the maximal length as a byte.
\<close>

definition n_vl_new ::
  "header_junk \<Rightarrow> nat option \<Rightarrow> u8 \<Rightarrow> u8 \<Rightarrow> u8 \<Rightarrow> u16 \<Rightarrow> id_ref \<Rightarrow> 'a new_state_scheme \<Rightarrow>
   (u8 \<times> nat option \<times> 'a new_state_scheme) option" where
  "n_vl_new junk fp0 block_id data_id md max_length user_id s = do {
     (ok, s) \<leftarrow> (if user_id \<noteq> Id_NULL then auth_check VL_ACCESS_USER VL_ACCESS_W user_id s else Some (1, s));
     if ok = 0 then Some (4, fp0, s)
     else let block_id = block_id - 1 in
       if block_id \<noteq> 0 \<and> block_id \<noteq> 2 then Some (0xFF, fp0, s)
       else do {
         header \<leftarrow> (if block_id = 0 then sub_gfb_search data_id s else sub_isf_search data_id s);
         if header \<noteq> NULL_vaddr then Some (2, fp0, s)
         else do {
           (fp, s) \<leftarrow> (if block_id = 0 then sub_gfb_new junk data_id md (ucast max_length) s
                       else sub_isf_new junk data_id md (ucast max_length) s);
           if fp = None then Some (6, fp, s)
           else Some (0, fp, s\<lparr>vlfs := count_files block_id 1 (vlfs s)\<rparr>)
         }
       }
   }"

definition n_vl_delete :: "u8 \<Rightarrow> u8 \<Rightarrow> id_ref \<Rightarrow> 'a new_state_scheme \<Rightarrow> (u8 \<times> 'a new_state_scheme) option" where
  "n_vl_delete block_id data_id user_id s =
     (let block_id = block_id - 1 in
      if block_id \<noteq> 0 \<and> block_id \<noteq> 2 then Some (255, s)
      else do {
        check \<leftarrow> (if block_id = 0 then sub_gfb_delete_check data_id s else sub_isf_delete_check data_id s);
        header \<leftarrow> (if check then (if block_id = 0 then sub_gfb_search data_id s else sub_isf_search data_id s)
                   else Some NULL_vaddr);
        if header = NULL_vaddr then Some (1, s)
        else do {
          (ok, s) \<leftarrow> (if user_id \<noteq> Id_NULL then do {
                        filemod \<leftarrow> vworm_read (header + 4) s;
                        auth_check (hi8 filemod) VL_ACCESS_RW user_id s
                      } else Some (1, s));
          if ok = 0 then Some (4, s)
          else do {
            s \<leftarrow> sub_delete_file header s;
            Some (0, s\<lparr>vlfs := count_files block_id (- 1) (vlfs s)\<rparr>)
          }
        }
      })"

section \<open>A header array in the block\<close>

definition array_ok :: "'a core_state_scheme \<Rightarrow> u16 \<Rightarrow> nat \<Rightarrow> bool" where
  "array_ok s h n \<longleftrightarrow> even (unat h) \<and> unat h + 16 * n \<le> fs_size s \<and> fs_size s < 65536"

lemma nth_header_add: "nth_header (nth_header h k) i = nth_header h (k + i)"
  by (simp add: nth_header_def distrib_left)

lemma unat_nth_header:
  assumes "array_ok s h n" and "i \<le> n"
  shows "unat (nth_header h i) = unat h + 16 * i"
proof -
  have "nth_header h i = h + of_nat (16 * i)" by (simp add: nth_header_def)
  also have "unat \<dots> = unat h + 16 * i" by (rule unat_off) (use assms in \<open>simp add: array_ok_def\<close>)
  finally show ?thesis .
qed

lemma array_hdr_ok: "array_ok s h n \<Longrightarrow> i < n \<Longrightarrow> hdr_ok s (nth_header h i)"
  using unat_nth_header [of s h n i] by (simp add: hdr_ok_def array_ok_def)

lemma array_window: "array_ok s h n \<Longrightarrow> k + m \<le> n \<Longrightarrow> array_ok s (nth_header h k) m"
  using unat_nth_header [of s h n k] by (simp add: array_ok_def)

lemma array_ok_frame: "block_frame s s' \<Longrightarrow> array_ok s' h n = array_ok s h n"
  by (simp add: array_ok_def fs_size_frame)

lemma hdr_not_null: "hdr_ok s h \<Longrightarrow> h \<noteq> NULL_vaddr"
  by (auto simp: hdr_ok_def NULL_vaddr_def)

text \<open>An address that belongs to no half-word of the header at \<open>h\<close>.\<close>

definition off_header :: "u16 \<Rightarrow> u16 \<Rightarrow> bool" where
  "off_header h b \<longleftrightarrow> unat (even_addr b) < unat h \<or> unat h + 16 \<le> unat (even_addr b)"

lemma off_header_span:
  assumes "hdr_ok s h" and "off_header h b"
  shows "even_addr b \<notin> span16 h 8"
proof
  assume "even_addr b \<in> span16 h 8"
  then obtain i where i: "i < 8" "even_addr b = even_addr (h + 2 * of_nat i)" by (auto simp: span16_iff)
  have "unat (h + of_nat (2 * i)) = unat h + 2 * i"
    by (rule unat_off) (use assms(1) i(1) in \<open>simp add: hdr_ok_def\<close>)
  then have "unat (even_addr (h + 2 * of_nat i)) = unat h + 2 * i"
    using assms(1) by (simp add: hdr_ok_def)
  then show False using assms(2) i by (auto simp: off_header_def)
qed

lemma off_header_other:
  assumes a: "array_ok s h n" and "i < n" "j < n" "i \<noteq> j" and k: "even (unat k)" "unat k < 16"
  shows "off_header (nth_header h i) (nth_header h j + k)"
proof -
  have u: "unat (nth_header h j + k) = unat h + 16 * j + unat k"
    using unat_hdr_off [OF array_hdr_ok [OF a \<open>j < n\<close>] k(2)] unat_nth_header [OF a, of j] assms(3) by simp
  then have "even_addr (nth_header h j + k) = nth_header h j + k"
    using a k by (simp add: array_ok_def)
  then have "unat (even_addr (nth_header h j + k)) = unat h + 16 * j + unat k" using u by simp
  moreover have "i < j \<or> j < i" using assms(4) by linarith
  ultimately show ?thesis
    using k unat_nth_header [OF a, of i] assms(2) unfolding off_header_def by auto
qed

lemma rd_seq_nth:
  "rd_seq rd a n s = Some ds \<Longrightarrow> i < n \<Longrightarrow> rd (a + 2 * of_nat i) s = Some (ds ! i)"
proof (induction n arbitrary: a ds i)
  case 0
  then show ?case by simp
next
  case (Suc n)
  from Suc.prems obtain d es where 1: "rd a s = Some d" "rd_seq rd (a + 2) n s = Some es" "ds = d # es"
    by (auto simp: bind_eq_Some_conv)
  show ?case
  proof (cases i)
    case 0
    then show ?thesis using 1 by simp
  next
    case (Suc k)
    then show ?thesis using Suc.IH [OF 1(2), of k] Suc.prems(2) 1(3) by (simp add: distrib_left add.assoc)
  qed
qed

text \<open>Writing a whole header.\<close>

lemma write_header_8:
  fixes s :: "'a vl_state_scheme"
  assumes h: "hdr_ok s h" and d: "length ds = 8"
  shows "\<exists>s'. sub_write_header h ds 16 s = Some s' \<and> block_frame s s'
    \<and> (\<forall>i < 8. vworm_read (h + 2 * of_nat i) s' = Some (ds ! i))
    \<and> (\<forall>b. off_header h b \<longrightarrow> vworm_read b s' = vworm_read b s)"
proof -
  have "vworm_mapped (h + 2 * of_nat i) s" if "i < length ds" for i
    by (rule mapped_in_area [of h 8]) (use h that d in \<open>auto simp: hdr_ok_def\<close>)
  then obtain s' where s': "wr_seq vworm_write h ds s = Some (0, s')"
    using vw.wr_seq_defined [of ds h s] by blast
  have "sub_write_header h ds 16 s = Some s'" using s' d by (simp add: sub_write_header_def)
  moreover have "\<forall>i < 8. vworm_read (h + 2 * of_nat i) s' = Some (ds ! i)"
    using rd_seq_nth [OF vw.rd_seq_wr_seq [OF s']] d by simp
  moreover have "\<forall>b. off_header h b \<longrightarrow> vworm_read b s' = vworm_read b s"
    using vw.wr_seq_other [OF s'] off_header_span [OF h] d by simp
  ultimately show ?thesis using wr_seq_block_frame [OF s'] by blast
qed

section \<open>What creating a file does\<close>

lemma find_empty_header_cases:
  "sub_find_empty_header h n s = Some r \<Longrightarrow> r \<noteq> NULL_vaddr \<Longrightarrow>
   \<exists>i < n. r = nth_header h i \<and> vworm_read (r + 6) s = Some NULL_vaddr"
proof (induction n arbitrary: h)
  case 0
  then show ?case by simp
next
  case (Suc n)
  from Suc.prems obtain b where b: "vworm_read (h + 6) s = Some b"
    "(if b = NULL_vaddr then Some h else sub_find_empty_header (h + 16) n s) = Some r"
    by (auto simp: bind_eq_Some_conv)
  show ?case
  proof (cases "b = NULL_vaddr")
    case True
    then show ?thesis using b by (intro exI [of _ 0]) (simp add: nth_header_def)
  next
    case False
    then obtain i where "i < n" "r = nth_header (h + 16) i" "vworm_read (r + 6) s = Some NULL_vaddr"
      using Suc.IH [of "h + 16"] b(2) Suc.prems(2) by auto
    then show ?thesis by (intro exI [of _ "Suc i"]) (simp add: nth_header_Suc)
  qed
qed

text \<open>
  The search finds a header written into a free place of the array, when it found nothing before.
\<close>

lemma search_after_new:
  fixes s :: "'a vl_state_scheme" and s1 :: "'b vl_state_scheme"
  assumes before: "sub_header_search H ident num s = Some NULL_vaddr"
    and a: "array_ok s H (nat (sint num))" and i: "i < nat (sint num)"
    and m: "fsblock s = Some m0" "fsblock s1 = Some m1" "fs_size s1 = fs_size s"
    and new: "vworm_read (nth_header H i + 4) s1 = Some w" "lo8 w = ident"
      "vworm_read (nth_header H i + 6) s1 = Some b" "b \<noteq> 0" "b \<noteq> 0xFFFF"
    and other: "\<And>x. off_header (nth_header H i) x \<Longrightarrow> vworm_read x s1 = vworm_read x s"
  shows "sub_header_search H ident num s1 = Some (nth_header H i)"
proof -
  let ?n = "nat (sint num)"
  have a1: "array_ok s1 H ?n" using a by (simp add: array_ok_def m(3))
  have idw: "H + ucast ident * 16 = nth_header H (unat ident)"
    by (simp add: nth_header_def mult.commute unsigned_of_nat)
  have lt: "uint ident < sint num \<longleftrightarrow> unat ident < ?n" by (simp add: zless_nat_eq_int_zless)
  have quick: "rd16 m (unat H + 16 * unat ident + 4) = vworm_read (nth_header H (unat ident) + 4) t"
    if "unat ident < ?n" "fsblock t = Some m" for m and t :: "'c vl_state_scheme"
    by (rule rd16_quick [OF that(2)]) (use a that(1) in \<open>auto simp: array_ok_def\<close>)
  have same: "vworm_read (nth_header H j + k) s1 = vworm_read (nth_header H j + k) s"
    if "j < ?n" "j \<noteq> i" "even (unat k)" "unat k < 16" for j k
    using other off_header_other [OF a i that(1) _ that(3,4)] that(2) by simp
  have nn: "nth_header H j \<noteq> NULL_vaddr" if "j < ?n" for j
    using hdr_not_null [OF array_hdr_ok [OF a that]] .
  have loop0: "header_loop ?n H ident s = Some NULL_vaddr"
    using before nn [of "unat ident"]
    by (auto simp: sub_header_search_def bind_eq_Some_conv idw lt split: if_splits)
  have nomatch: "\<not> hdr_match s (nth_header H j) ident" if "j < ?n" for j
    using header_loop_cases [OF loop0] nn [symmetric] that by auto
  have noquick: "vworm_read (nth_header H (unat ident) + 4) s \<noteq> Some v"
    if "unat ident < ?n" "lo8 v = ident" for v
    using before nn [OF that(1)] that quick [OF that(1) m(1)] m(1)
    by (auto simp: sub_header_search_def bind_eq_Some_conv idw lt split: if_splits)
  have mp: "vworm_mapped (nth_header H j + 4) s1 \<and> vworm_mapped (nth_header H j + 6) s1" if "j < ?n" for j
    using hdr_mapped [OF array_hdr_ok [OF a1 that], of 4] hdr_mapped [OF array_hdr_ok [OF a1 that], of 6] by simp
  then obtain r where r: "header_loop ?n H ident s1 = Some r"
    using header_loop_defined [of ?n H s1 ident] by blast
  have match1: "hdr_match s1 (nth_header H j) ident \<longleftrightarrow> j = i" if "j < ?n" for j
    using nomatch [OF that] same [OF that, of 4] same [OF that, of 6] new
    by (cases "j = i") (auto simp: hdr_match_def)
  have loop: "r = nth_header H i" using header_loop_cases [OF r] match1 i by auto
  have hit: "(\<exists>v. vworm_read (nth_header H (unat ident) + 4) s1 = Some v \<and> lo8 v = ident) \<longleftrightarrow> unat ident = i"
    if "unat ident < ?n"
    using noquick [OF that] same [OF that, of 4] new(1,2) by (cases "unat ident = i") auto
  show ?thesis
  proof (cases "unat ident < ?n")
    case True
    then obtain v where "vworm_read (nth_header H (unat ident) + 4) s1 = Some v"
      using mp [OF True] vw.rd_iff_mapped by blast
    then show ?thesis
      using hit [OF True] r loop True quick [OF True m(2)] m(2)
      by (auto simp: sub_header_search_def idw lt)
  next
    case False
    then show ?thesis using r loop by (simp add: sub_header_search_def lt)
  qed
qed

text \<open>The header of a new file, written at \<open>h\<close>; nothing else of the block changes.\<close>

definition file_written ::
  "u16 \<Rightarrow> u8 \<Rightarrow> u8 \<Rightarrow> u16 \<Rightarrow> u16 \<Rightarrow> 'a vl_state_scheme \<Rightarrow> 'a vl_state_scheme \<Rightarrow> bool" where
  "file_written h ident md alloc base s s1 \<longleftrightarrow> block_frame s s1 \<and> vworm_read h s1 = Some 0
     \<and> vworm_read (h + 2) s1 = Some alloc \<and> vworm_read (h + 4) s1 = Some (join16 ident md)
     \<and> vworm_read (h + 6) s1 = Some base \<and> vworm_read (h + 8) s1 = Some NULL_vaddr
     \<and> (\<forall>b. off_header h b \<longrightarrow> vworm_read b s1 = vworm_read b s)"

lemma sub_new_file_result:
  assumes h: "sub_find_empty_header wbase (nat n) s = Some h" "h \<noteq> NULL_vaddr" "hdr_ok s h"
    and b: "sub_find_empty_heap hb he wbase alloc n s = Some base" "base \<noteq> NULL_vaddr"
    and nh: "nh = \<lparr>hd_length = 0, hd_alloc = alloc, hd_idmod = join16 ident md, hd_base = b0,
       hd_mirror = NULL_vaddr, hd_actioncode = ac, hd_modtime = mt\<rparr>"
  shows "\<exists>s1. file_written h ident md alloc base s s1 \<and> sub_new_file nh hb he wbase n s = vl_open_file h s1"
proof -
  let ?ws = "vl_header_words (nh\<lparr>hd_base := base\<rparr>)"
  obtain s1 where s1: "sub_write_header h ?ws 16 s = Some s1" "block_frame s s1"
    "\<forall>i < 8. vworm_read (h + 2 * of_nat i) s1 = Some (?ws ! i)"
    "\<forall>b. off_header h b \<longrightarrow> vworm_read b s1 = vworm_read b s"
    using write_header_8 [OF h(3), of ?ws] by (auto simp: vl_header_words_def)
  have rd: "vworm_read (h + 2 * of_nat i) s1 = Some (?ws ! i)" if "i < 8" for i
    using s1(3) that by blast
  have "file_written h ident md alloc base s s1"
    using rd [of 0] rd [of 1] rd [of 2] rd [of 3] rd [of 4] s1(2,4)
    by (simp add: file_written_def vl_header_words_def nh)
  moreover have "sub_new_file nh hb he wbase n s = vl_open_file h s1"
    using h(1,2) b s1(1) by (simp add: sub_new_file_def nh)
  ultimately show ?thesis by blast
qed

lemma file_written_opens:
  assumes "file_written h ident md alloc base s s1" and "sub_new_fp s = Some fd"
  shows "vl_open_file h s1 = Some (Some fd, put_file fd (opened h 0 alloc (join16 ident md) base) s1)"
proof (rule vl_open_file_spec)
  show "sub_new_fp s1 = Some fd"
    using assms vl_frame(1) [of s s1] by (simp add: file_written_def sub_new_fp_def)
qed (use assms in \<open>simp_all add: file_written_def\<close>)

lemma file_written_no_slot:
  assumes "file_written h ident md alloc base s s1" and "sub_new_fp s = None"
  shows "vl_open_file h s1 = Some (None, s1)"
  using assms vl_frame(1) [of s s1] by (simp add: file_written_def sub_new_fp_def vl_open_file_def)

section \<open>Generic files\<close>

text \<open>
  A filesystem whose header counts the generic files the way the code uses it: \<^verbatim>\<open>used\<close> stock
  files, and room for \<^verbatim>\<open>files\<close> headers in all, which lie in the block.
\<close>

definition gfb_counts :: "vlFSHEADER \<Rightarrow> 'a core_state_scheme \<Rightarrow> bool" where
  "gfb_counts H s \<longleftrightarrow> (\<exists>m. fsblock s = Some m \<and> fsheader_at m 0 = Some H)
     \<and> blk_used (fs_gfb H) \<le> blk_files (fs_gfb H)
     \<and> array_ok s GFB_Header_START (unat (blk_files (fs_gfb H)))"

text \<open>The header and the place of the heap that a new generic file gets.\<close>

definition gfb_window :: "vlFSHEADER \<Rightarrow> int" where
  "gfb_window H = uint (blk_files (fs_gfb H)) - uint (blk_used (fs_gfb H))"

definition gfb_place :: "vlFSHEADER \<Rightarrow> u16 \<Rightarrow> u16 \<Rightarrow> 'a core_state_scheme \<Rightarrow> bool" where
  "gfb_place H h base s \<longleftrightarrow> (let w = nth_header GFB_Header_START (unat (blk_used (fs_gfb H))) in
     sub_find_empty_header w (nat (gfb_window H)) s = Some h \<and> h \<noteq> NULL_vaddr
     \<and> sub_find_empty_heap (fs_ftab_alloc H) (fs_ftab_alloc H + blk_alloc (fs_gfb H)) w
         (of_nat GFB_FILE_BYTES) (gfb_window H) s = Some base \<and> base \<noteq> NULL_vaddr)"

lemma gfb_counts_small:
  assumes "gfb_counts H s"
  shows "unat (blk_files (fs_gfb H)) < 4096" "nat (sint (blk_files (fs_gfb H))) = unat (blk_files (fs_gfb H))"
    "unat (blk_used (fs_gfb H)) + nat (gfb_window H) = unat (blk_files (fs_gfb H))"
    "to_ot_int (gfb_window H) = gfb_window H" "0 \<le> gfb_window H"
proof -
  let ?f = "blk_files (fs_gfb H)" and ?u = "blk_used (fs_gfb H)"
  have "unat GFB_Header_START = 32" by (simp add: GFB_Header_START_def OVERHEAD_START_VADDR_def)
  then show f: "unat ?f < 4096" using assms by (simp add: gfb_counts_def array_ok_def)
  have fu: "uint ?f = int (unat ?f)" "uint ?u = int (unat ?u)" by (rule uint_nat)+
  have f2: "uint ?f < 4096" using f fu(1) by linarith
  moreover have "- 32768 \<le> uint ?f" using uint_ge_0 [of ?f] by linarith
  ultimately have "sint ?f = uint ?f" using to_ot_int_small [of "uint ?f"] by (simp add: to_ot_int_def)
  then show "nat (sint ?f) = unat ?f" by simp
  have u: "uint ?u \<le> uint ?f" using assms by (simp add: gfb_counts_def word_le_def)
  then show "0 \<le> gfb_window H" by (simp add: gfb_window_def)
  have "gfb_window H = int (unat ?f - unat ?u)" using u fu unfolding gfb_window_def by linarith
  then show "unat ?u + nat (gfb_window H) = unat ?f" using u fu by linarith
  have "gfb_window H < 4096" using f2 uint_ge_0 [of ?u] unfolding gfb_window_def by linarith
  then show "to_ot_int (gfb_window H) = gfb_window H"
    using \<open>0 \<le> gfb_window H\<close> by (intro to_ot_int_small) simp_all
qed

definition new_gfb_header :: "header_junk \<Rightarrow> u8 \<Rightarrow> u8 \<Rightarrow> vl_header_t" where
  "new_gfb_header junk ident md = \<lparr>hd_length = 0, hd_alloc = of_nat GFB_FILE_BYTES, hd_idmod = join16 ident md,
     hd_base = NULL_vaddr, hd_mirror = NULL_vaddr, hd_actioncode = fst junk, hd_modtime = snd junk\<rparr>"

lemma sub_gfb_new_eq:
  assumes "gfb_counts H s"
  shows "sub_gfb_new junk ident md x s = (if 0 < gfb_window H
    then sub_new_file (new_gfb_header junk ident md) (fs_ftab_alloc H) (fs_ftab_alloc H + blk_alloc (fs_gfb H))
      (nth_header GFB_Header_START (unat (blk_used (fs_gfb H)))) (gfb_window H) s
    else Some (None, s))"
proof -
  obtain m where m: "fsblock s = Some m" "fsheader_at m 0 = Some H"
    using assms by (auto simp: gfb_counts_def)
  have w: "GFB_Header_START + blk_used (fs_gfb H) * 16 = nth_header GFB_Header_START (unat (blk_used (fs_gfb H)))"
    by (simp add: nth_header_def mult.commute)
  show ?thesis
    using m gfb_counts_small(4) [OF assms]
    by (simp add: sub_gfb_new_def new_gfb_header_def w [symmetric] OVERHEAD_START_VADDR_def Let_def gfb_window_def)
qed

lemma gfb_place_header:
  assumes "gfb_counts H s" and "gfb_place H h base s"
  obtains i where "i < unat (blk_files (fs_gfb H))" "h = nth_header GFB_Header_START i" "hdr_ok s h"
    "0 < gfb_window H"
proof -
  let ?u = "unat (blk_used (fs_gfb H))" and ?w = "gfb_window H"
  obtain j where j: "j < nat ?w" "h = nth_header (nth_header GFB_Header_START ?u) j"
    using assms(2) find_empty_header_cases [of _ "nat ?w" s h] by (auto simp: gfb_place_def Let_def)
  have i: "?u + j < unat (blk_files (fs_gfb H))" using gfb_counts_small(3) [OF assms(1)] j(1) by linarith
  have "array_ok s GFB_Header_START (unat (blk_files (fs_gfb H)))" using assms(1) by (simp add: gfb_counts_def)
  from array_hdr_ok [OF this i] that [of "?u + j"] i j show ?thesis by (simp add: nth_header_add)
qed

lemma sub_gfb_new_result:
  assumes "gfb_counts H s" and "gfb_place H h base s"
  shows "\<exists>s1. file_written h ident md (of_nat GFB_FILE_BYTES) base s s1
    \<and> sub_gfb_new junk ident md x s = vl_open_file h s1"
proof -
  obtain i where i: "hdr_ok s h" "0 < gfb_window H" using gfb_place_header [OF assms] by metis
  show ?thesis
    using sub_new_file_result [OF _ _ i(1) _ _ new_gfb_header_def] assms(2) i(2)
    unfolding sub_gfb_new_eq [OF assms(1)] gfb_place_def Let_def by (auto simp: new_gfb_header_def)
qed

lemma sub_gfb_new_inv:
  assumes "gfb_counts H s" and "sub_gfb_new junk ident md x s = Some (Some fd, s')"
  obtains h base where "gfb_place H h base s"
  using assms(2) that unfolding sub_gfb_new_eq [OF assms(1)]
  by (auto simp: sub_new_file_def gfb_place_def new_gfb_header_def bind_eq_Some_conv Let_def split: if_splits)

lemma header_loop_fsblock:
  "fsblock s' = fsblock s \<Longrightarrow> header_loop n h ident s' = header_loop n h ident s"
  by (induction n arbitrary: h) (simp_all add: vworm_read_eq cong: if_cong)

lemma sub_gfb_search_fsblock:
  assumes "fsblock s' = fsblock s"
  shows "sub_gfb_search ident s' = sub_gfb_search ident s"
  by (simp add: sub_gfb_search_def sub_header_search_def header_loop_fsblock [OF assms] assms cong: if_cong)

lemma gfb_search_header:
  assumes "fsblock s = Some m" and "vworm_read 10 s = Some (blk_files (fs_gfb H))"
  shows "sub_gfb_search ident s = sub_header_search GFB_Header_START ident (blk_files (fs_gfb H)) s"
  using vworm_read_lit [OF assms(1), of 10] assms
  by (auto simp: sub_gfb_search_def OVERHEAD_START_VADDR_def dest: sym)

lemma gfb_search_written:
  assumes c: "gfb_counts H s" and i: "i < unat (blk_files (fs_gfb H))"
    and w: "file_written (nth_header GFB_Header_START i) ident md alloc base s s1"
    and b: "base \<noteq> 0" "base \<noteq> NULL_vaddr" and before: "sub_gfb_search ident s = Some NULL_vaddr"
  shows "sub_gfb_search ident s1 = Some (nth_header GFB_Header_START i)"
proof -
  note sm = gfb_counts_small [OF c]
  have a: "array_ok s GFB_Header_START (unat (blk_files (fs_gfb H)))" using c by (simp add: gfb_counts_def)
  obtain m where m: "fsblock s = Some m" "fsheader_at m 0 = Some H" using c by (auto simp: gfb_counts_def)
  have "rd16 m 10 = Some (blk_files (fs_gfb H))"
    using m(2) by (auto simp: fsheader_at_def blk_at_def bind_eq_Some_conv)
  then have r0: "vworm_read 10 s = Some (blk_files (fs_gfb H))" using vworm_read_lit [OF m(1), of 10] by simp
  have sz: "fs_size s1 = fs_size s" using w by (simp add: file_written_def fs_size_frame)
  have "0 < fs_size s" using a i unfolding array_ok_def by linarith
  then obtain m1 where m1: "fsblock s1 = Some m1" using sz by (auto simp: fs_size_def split: option.splits)
  have u32: "unat (nth_header GFB_Header_START i) = 32 + 16 * i"
    using unat_nth_header [OF a, of i] i by (simp add: GFB_Header_START_def OVERHEAD_START_VADDR_def)
  have "vworm_read 10 s1 = vworm_read 10 s"
    using w by (simp add: file_written_def off_header_def u32)
  then have r1: "vworm_read 10 s1 = Some (blk_files (fs_gfb H))" using r0 by simp
  show ?thesis
    unfolding gfb_search_header [OF m1 r1]
  proof (rule search_after_new [OF _ _ _ m(1) m1 sz])
    show "sub_header_search GFB_Header_START ident (blk_files (fs_gfb H)) s = Some NULL_vaddr"
      using before unfolding gfb_search_header [OF m(1) r0] .
  qed (use w a i b in \<open>auto simp: sm(2) file_written_def NULL_vaddr_def\<close>)
qed

text \<open>All of this depends on the selected block only, which the check of the user leaves as it is.\<close>

lemma find_empty_header_fsblock:
  "fsblock s' = fsblock s \<Longrightarrow> sub_find_empty_header h n s' = sub_find_empty_header h n s"
  by (induction n arbitrary: h) (simp_all add: vworm_read_eq cong: if_cong)

lemma gap_loop_fsblock: "fsblock s' = fsblock s \<Longrightarrow> gap_loop n h hb g s' = gap_loop n h hb g s"
  by (induction n arbitrary: h g) (simp_all add: vworm_read_eq Let_def)

lemma heap_loop_fsblock:
  assumes "fsblock s' = fsblock s"
  shows "heap_loop n l h k a hb g ba bb s' = heap_loop n l h k a hb g ba bb s"
proof (induction n arbitrary: l hb g ba bb)
  case 0
  show ?case by simp
next
  case (Suc n)
  show ?case using assms by (simp add: vworm_read_eq gap_loop_fsblock [OF assms] Suc.IH Let_def cong: if_cong)
qed

lemma gfb_place_fsblock:
  assumes "fsblock s' = fsblock s"
  shows "gfb_place H h base s' = gfb_place H h base s"
  by (simp add: gfb_place_def sub_find_empty_heap_def find_empty_header_fsblock [OF assms]
      heap_loop_fsblock [OF assms])

lemma gfb_counts_fsblock:
  assumes "fsblock s' = fsblock s"
  shows "gfb_counts H s' = gfb_counts H s"
  by (simp add: gfb_counts_def array_ok_def fs_size_def assms)

lemma auth_check_frame:
  fixes s :: "'a new_state_scheme"
  assumes "auth_check req rw u s = Some (m, s')"
  shows "fsblock s' = fsblock s" "vlfile s' = vlfile s" "vlfs s' = vlfs s"
proof -
  have "search_frame s s'"
    using assms by (cases rule: auth_check_cases) (auto dest: auth_search_user_correct(1))
  then show "fsblock s' = fsblock s" "vlfile s' = vlfile s" "vlfs s' = vlfs s"
    by (auto simp: search_frame_def fsblock_def)
qed

definition may_create :: "id_ref \<Rightarrow> 'a auth_state_scheme \<Rightarrow> bool" where
  "may_create user s \<longleftrightarrow> user = Id_NULL \<or> access_granted s VL_ACCESS_USER VL_ACCESS_W user"

lemma n_vl_new_authorised:
  assumes "n_vl_new junk fp0 VL_GFB_BLOCKID ident md len user s = Some (rc, fp, s')" and "rc \<noteq> 4"
  obtains s0 where "n_vl_new junk fp0 VL_GFB_BLOCKID ident md len Id_NULL s0 = Some (rc, fp, s')"
    "fsblock s0 = fsblock s" "vlfile s0 = vlfile s" "vlfs s0 = vlfs s" "may_create user s"
proof (cases "user = Id_NULL")
  case True
  then show ?thesis using that [of s] assms by (simp add: may_create_def)
next
  case False
  from assms False obtain ok s0 where a: "auth_check VL_ACCESS_USER VL_ACCESS_W user s = Some (ok, s0)" "ok \<noteq> 0"
    by (auto simp: n_vl_new_def bind_eq_Some_conv split: if_splits)
  have "n_vl_new junk fp0 VL_GFB_BLOCKID ident md len Id_NULL s0 = Some (rc, fp, s')"
    using assms(1) False a by (simp add: n_vl_new_def)
  then show ?thesis
    using that auth_check_frame [OF a(1)] auth_check_access [OF a(1,2)] by (simp add: may_create_def)
qed

lemma vl_new_creates:
  fixes s :: "'a new_state_scheme"
  assumes new: "n_vl_new junk fp0 VL_GFB_BLOCKID ident md len user s = Some (0, fp, s')"
    and c: "gfb_counts H s"
  shows "\<exists>fd h base s0 s1. fp = Some fd \<and> gfb_place H h base s
    \<and> get_file fd s' = Some (opened h 0 (of_nat GFB_FILE_BYTES) (join16 ident md) base)
    \<and> (base \<noteq> 0 \<longrightarrow> sub_gfb_search ident s' = Some h)
    \<and> vlfs s' = count_files 0 1 (vlfs s) \<and> may_create user s
    \<and> fsblock s0 = fsblock s \<and> fsblock s' = fsblock s1
    \<and> file_written h ident md (of_nat GFB_FILE_BYTES) base s0 (s1 :: 'a new_state_scheme)"
proof -
  obtain s0 where s0: "n_vl_new junk fp0 VL_GFB_BLOCKID ident md len Id_NULL s0 = Some (0, fp, s')"
    "fsblock s0 = fsblock s" "vlfile s0 = vlfile s" "vlfs s0 = vlfs s" "may_create user s"
    using n_vl_new_authorised [OF new] by auto
  have c0: "gfb_counts H s0" using c by (simp add: gfb_counts_fsblock [OF s0(2)])
  from s0(1) obtain fd s2 where 1: "sub_gfb_search ident s0 = Some NULL_vaddr"
    "sub_gfb_new junk ident md (ucast len) s0 = Some (Some fd, s2)" "fp = Some fd"
    "s' = s2\<lparr>vlfs := count_files 0 1 (vlfs s2)\<rparr>"
    by (auto simp: n_vl_new_def VL_GFB_BLOCKID_def Let_def bind_eq_Some_conv split: if_splits)
  obtain h base where p: "gfb_place H h base s0" using sub_gfb_new_inv [OF c0 1(2)] by blast
  obtain i where i: "i < unat (blk_files (fs_gfb H))" "h = nth_header GFB_Header_START i"
    using gfb_place_header [OF c0 p] by metis
  obtain s1 where s1: "file_written h ident md (of_nat GFB_FILE_BYTES) base s0 s1"
    "vl_open_file h s1 = Some (Some fd, s2)"
    using sub_gfb_new_result [OF c0 p] 1(2) by metis
  have fp: "sub_new_fp s0 = Some fd"
  proof (cases "sub_new_fp s0")
    case None
    then show ?thesis using file_written_no_slot [OF s1(1)] s1(2) by simp
  next
    case (Some k)
    then show ?thesis using file_written_opens [OF s1(1) Some] s1(2) by simp
  qed
  have s2: "s2 = put_file fd (opened h 0 (of_nat GFB_FILE_BYTES) (join16 ident md) base) s1"
    using file_written_opens [OF s1(1) fp] s1(2) by simp
  have bf: "block_frame s0 s1" using s1(1) by (simp add: file_written_def)
  have "fd < length (vlfile s1)" using sub_new_fp_Some(1) [OF fp] vl_frame(1) [OF bf] by simp
  then have "get_file fd s' = Some (opened h 0 (of_nat GFB_FILE_BYTES) (join16 ident md) base)"
    unfolding 1(4) s2 by (simp add: get_file_def put_file_def)
  moreover have blk: "fsblock s' = fsblock s1" by (simp add: 1(4) s2 fsblock_def put_file_def)
  moreover have "sub_gfb_search ident s' = Some h" if "base \<noteq> 0"
  proof -
    have "sub_gfb_search ident s1 = Some h"
      using gfb_search_written [OF c0 i(1) _ that _ 1(1)] s1(1) p i(2) by (simp add: gfb_place_def Let_def)
    then show ?thesis by (simp add: sub_gfb_search_fsblock [OF blk])
  qed
  moreover have "vlfs s' = count_files 0 1 (vlfs s)"
    using bf s0(4) by (auto simp: 1(4) s2 block_frame_def put_file_def)
  ultimately show ?thesis
    using 1(3) p s0(2,5) s1(1) by (auto simp: gfb_place_fsblock [OF s0(2)])
qed

text \<open>
  C11. A generic file that \<^verbatim>\<open>vl_new\<close> creates gets the first free header of the window and the
  place that the search of the heap returns; it is open with length 0, its full allocation and
  the id and mode asked for, and from then on a search for its id finds its header. A user must
  have write access as a user.
\<close>

theorem vl_new_found:
  assumes new: "n_vl_new junk fp0 VL_GFB_BLOCKID ident md len user s = Some (0, fp, s')"
    and c: "gfb_counts H s"
  shows "\<exists>fd h base. fp = Some fd \<and> gfb_place H h base s
    \<and> get_file fd s' = Some (opened h 0 (of_nat GFB_FILE_BYTES) (join16 ident md) base)
    \<and> (base \<noteq> 0 \<longrightarrow> sub_gfb_search ident s' = Some h)
    \<and> vlfs s' = count_files 0 1 (vlfs s) \<and> may_create user s"
  using vl_new_creates [OF new c] by blast

text \<open>
  When no slot is free, \<^verbatim>\<open>vl_new\<close> reports 6, that it could not create the file, and leaves the
  count of files as it is; but the file has been created, and a search finds its header.
\<close>

theorem vl_new_no_slot:
  assumes c: "gfb_counts H s" and p: "gfb_place H h base s" and b: "base \<noteq> 0"
    and fp: "sub_new_fp s = None" and before: "sub_gfb_search ident s = Some NULL_vaddr"
  shows "\<exists>s'. n_vl_new junk fp0 VL_GFB_BLOCKID ident md len Id_NULL s = Some (6, None, s')
    \<and> vlfs s' = vlfs s \<and> vlfile s' = vlfile s \<and> sub_gfb_search ident s' = Some h
    \<and> vworm_read (h + 6) s' = Some base \<and> vworm_read (h + 6) s = Some NULL_vaddr"
proof -
  obtain i where i: "i < unat (blk_files (fs_gfb H))" "h = nth_header GFB_Header_START i"
    using gfb_place_header [OF c p] by metis
  obtain s1 where s1: "file_written h ident md (of_nat GFB_FILE_BYTES) base s s1"
    "sub_gfb_new junk ident md (ucast len) s = vl_open_file h s1"
    using sub_gfb_new_result [OF c p] by metis
  have bf: "block_frame s s1" using s1(1) by (simp add: file_written_def)
  have "n_vl_new junk fp0 VL_GFB_BLOCKID ident md len Id_NULL s = Some (6, None, s1)"
    using before s1(2) file_written_no_slot [OF s1(1) fp]
    by (simp add: n_vl_new_def VL_GFB_BLOCKID_def Let_def)
  moreover have "sub_gfb_search ident s1 = Some h"
    using gfb_search_written [OF c i(1) _ b _ before] s1(1) p i(2) by (simp add: gfb_place_def Let_def)
  moreover have "vworm_read (h + 6) s = Some NULL_vaddr"
    using p find_empty_header_cases [of _ _ s h] by (auto simp: gfb_place_def Let_def)
  moreover have "vlfs s1 = vlfs s" "vlfile s1 = vlfile s" using bf by (auto simp: block_frame_def)
  moreover have "vworm_read (h + 6) s1 = Some base" using s1(1) by (simp add: file_written_def)
  ultimately show ?thesis by blast
qed

section \<open>Where the heap search puts a file\<close>

text \<open>No file of the window begins behind \<open>hb\<close>.\<close>

lemma gap_loop_none:
  "(\<And>j. j < n \<Longrightarrow> \<exists>b. vworm_read (nth_header h j + 6) s = Some b \<and> (b = NULL_vaddr \<or> b \<le> hb)) \<Longrightarrow>
   gap_loop n h hb g s = Some g"
proof (induction n arbitrary: h)
  case 0
  then show ?case by simp
next
  case (Suc n)
  obtain b where b: "vworm_read (h + 6) s = Some b" "b = NULL_vaddr \<or> b \<le> hb"
    using Suc.prems [of 0] by (auto simp: nth_header_def)
  have "gap_loop n (h + 16) hb g s = Some g"
    by (rule Suc.IH) (use Suc.prems in \<open>simp add: nth_header_Suc\<close>)
  then show ?case using b by (auto simp: not_less Let_def)
qed

text \<open>
  Once a place with the gap \<open>g\<close> is chosen, it stays as long as the closest gap is \<open>g\<close>.
\<close>

lemma heap_loop_stays:
  "(\<And>j. j < n \<Longrightarrow> \<exists>a b. vworm_read (nth_header l j + 2) s = Some a \<and> vworm_read (nth_header l j + 6) s = Some b
      \<and> (b \<noteq> NULL_vaddr \<longrightarrow> gap_loop k h (b + a) g s = Some g)) \<Longrightarrow>
   heap_loop n l h k alloc hb g g best s = Some best"
proof (induction n arbitrary: l hb)
  case 0
  then show ?case by simp
next
  case (Suc n)
  obtain a b where ab: "vworm_read (l + 2) s = Some a" "vworm_read (l + 6) s = Some b"
    "b \<noteq> NULL_vaddr \<longrightarrow> gap_loop k h (b + a) g s = Some g"
    using Suc.prems [of 0] by (auto simp: nth_header_def)
  have "heap_loop n (l + 16) h k alloc hb' g g best s = Some best" for hb'
    by (rule Suc.IH) (use Suc.prems in \<open>simp add: nth_header_Suc\<close>)
  then show ?case using ab by (auto simp: Let_def)
qed

text \<open>
  A window in which the first \<open>k\<close> headers are files with the given allocations and bases, and
  the others are empty.
\<close>

definition window_holds :: "u16 \<Rightarrow> nat \<Rightarrow> (u16 \<times> u16) list \<Rightarrow> 'a core_state_scheme \<Rightarrow> bool" where
  "window_holds h n fs s \<longleftrightarrow> length fs \<le> n
     \<and> (\<forall>j < n. \<exists>a b. vworm_read (nth_header h j + 2) s = Some a \<and> vworm_read (nth_header h j + 6) s = Some b
          \<and> (if j < length fs then (a, b) = fs ! j \<and> b \<noteq> NULL_vaddr else b = NULL_vaddr))"

text \<open>No file begins behind the end of another one.\<close>

definition packed :: "(u16 \<times> u16) list \<Rightarrow> bool" where
  "packed fs \<longleftrightarrow> (\<forall>(a, b) \<in> set fs. \<forall>(c, d) \<in> set fs. d \<le> b + a)"

lemma window_entry:
  assumes "window_holds h n fs s" and "j < n"
  obtains a b where "vworm_read (nth_header h j + 2) s = Some a" "vworm_read (nth_header h j + 6) s = Some b"
    "if j < length fs then (a, b) = fs ! j \<and> b \<noteq> NULL_vaddr else b = NULL_vaddr"
  using assms unfolding window_holds_def by blast

lemma packed_no_gap:
  assumes w: "window_holds h n fs s" and pk: "packed fs" and ab: "(a, b) \<in> set fs"
  shows "gap_loop n h (b + a) g s = Some g"
proof (rule gap_loop_none)
  fix i assume "i < n"
  then obtain c d where cd: "vworm_read (nth_header h i + 6) s = Some d"
    "if i < length fs then (c, d) = fs ! i \<and> d \<noteq> NULL_vaddr else d = NULL_vaddr"
    using window_entry [OF w] by metis
  have "d \<le> b + a" if "i < length fs"
  proof -
    have "(c, d) \<in> set fs" using cd(2) that by (auto simp: in_set_conv_nth)
    then show ?thesis using pk ab by (auto simp: packed_def)
  qed
  then show "\<exists>b'. vworm_read (nth_header h i + 6) s = Some b' \<and> (b' = NULL_vaddr \<or> b' \<le> b + a)"
    using cd by (auto split: if_splits)
qed

text \<open>
  In a packed window the heap search ends at the start of the heap when there is no file, and
  behind the first file of the window when there is one.
\<close>

lemma heap_places:
  assumes w: "window_holds h n fs s" and pk: "packed fs" and n: "0 < n"
    and g: "to_ot_int (uint he - uint hb) = g" "uint alloc \<le> g" "g < 32767"
  shows "sub_find_empty_heap hb he h alloc (int n) s
    = Some (case fs of [] \<Rightarrow> hb | (a, b) # _ \<Rightarrow> b + a)"
proof -
  obtain k where k: "n = Suc k" using n by (cases n) auto
  obtain a0 b0 where e0: "vworm_read (h + 2) s = Some a0" "vworm_read (h + 6) s = Some b0"
    "if 0 < length fs then (a0, b0) = fs ! 0 \<and> b0 \<noteq> NULL_vaddr else b0 = NULL_vaddr"
    using window_entry [OF w n] by (auto simp: nth_header_def)
  have rest: "heap_loop k (h + 16) h n alloc hb' g g best s = Some best" for hb' best
  proof (rule heap_loop_stays)
    fix j assume "j < k"
    then have "Suc j < n" by (simp add: k)
    from window_entry [OF w this] obtain a b where ab: "vworm_read (nth_header h (Suc j) + 2) s = Some a"
      "vworm_read (nth_header h (Suc j) + 6) s = Some b"
      "if Suc j < length fs then (a, b) = fs ! Suc j \<and> b \<noteq> NULL_vaddr else b = NULL_vaddr" by blast
    have "(a, b) \<in> set fs" if "b \<noteq> NULL_vaddr" using ab(3) that by (auto split: if_splits)
    then show "\<exists>a b. vworm_read (nth_header (h + 16) j + 2) s = Some a
        \<and> vworm_read (nth_header (h + 16) j + 6) s = Some b
        \<and> (b \<noteq> NULL_vaddr \<longrightarrow> gap_loop n h (b + a) g s = Some g)"
      using ab packed_no_gap [OF w pk] unfolding nth_header_Suc by auto
  qed
  have start: "sub_find_empty_heap hb he h alloc (int n) s
      = heap_loop (Suc k) h h n alloc hb g 32767 NULL_vaddr s"
    unfolding sub_find_empty_heap_def nat_int g(1) by (simp only: k [symmetric])
  show ?thesis
  proof (cases fs)
    case Nil
    then show ?thesis using e0 g rest by (simp add: start Let_def)
  next
    case (Cons f ft)
    then have f: "f = (a0, b0)" "b0 \<noteq> NULL_vaddr" using e0(3) by auto
    have "gap_loop n h (b0 + a0) g s = Some g" by (rule packed_no_gap [OF w pk]) (simp add: Cons f)
    then have "heap_loop (Suc k) h h n alloc hb g 32767 NULL_vaddr s = Some (b0 + a0)"
      using e0(1,2) g(2,3) rest [of "b0 + a0"] f(2) by (simp add: Let_def)
    then show ?thesis by (simp add: start Cons f(1))
  qed
qed

lemma find_empty_header_window:
  "window_holds h n fs s \<Longrightarrow> length fs < n \<Longrightarrow> sub_find_empty_header h n s = Some (nth_header h (length fs))"
proof (induction n arbitrary: h fs)
  case 0
  then show ?case by simp
next
  case (Suc n)
  have "nth_header h 0 = h" by (simp add: nth_header_def)
  then obtain a b where ab: "vworm_read (h + 6) s = Some b"
    "if 0 < length fs then (a, b) = fs ! 0 \<and> b \<noteq> NULL_vaddr else b = NULL_vaddr"
    using window_entry [OF Suc.prems(1) zero_less_Suc] by metis
  show ?case
  proof (cases fs)
    case Nil
    then show ?thesis using ab by (simp add: nth_header_def)
  next
    case (Cons f ft)
    have "window_holds (h + 16) n ft s"
      unfolding window_holds_def
    proof (intro conjI allI impI)
      fix j assume "j < n"
      then have "Suc j < Suc n" by simp
      with Suc.prems(1) have "\<exists>a b. vworm_read (nth_header h (Suc j) + 2) s = Some a
          \<and> vworm_read (nth_header h (Suc j) + 6) s = Some b
          \<and> (if Suc j < length (f # ft) then (a, b) = (f # ft) ! Suc j \<and> b \<noteq> NULL_vaddr else b = NULL_vaddr)"
        unfolding window_holds_def Cons by blast
      then show "\<exists>a b. vworm_read (nth_header (h + 16) j + 2) s = Some a
          \<and> vworm_read (nth_header (h + 16) j + 6) s = Some b
          \<and> (if j < length ft then (a, b) = ft ! j \<and> b \<noteq> NULL_vaddr else b = NULL_vaddr)"
        unfolding nth_header_Suc length_Cons Suc_less_eq nth_Cons_Suc .
    qed (use Suc.prems Cons in simp)
    then show ?thesis using Suc.IH [of "h + 16" ft] Suc.prems(2) ab Cons by (simp add: nth_header_Suc)
  qed
qed

text \<open>The window of the generic files, and where the next file goes when the files in it are packed.\<close>

definition gfb_files :: "vlFSHEADER \<Rightarrow> (u16 \<times> u16) list \<Rightarrow> 'a core_state_scheme \<Rightarrow> bool" where
  "gfb_files H fs s \<longleftrightarrow> window_holds (nth_header GFB_Header_START (unat (blk_used (fs_gfb H)))) (nat (gfb_window H)) fs s"

definition next_start :: "vlFSHEADER \<Rightarrow> (u16 \<times> u16) list \<Rightarrow> u16" where
  "next_start H fs = (case fs of [] \<Rightarrow> fs_ftab_alloc H | (a, b) # _ \<Rightarrow> b + a)"

definition gfb_heap_ok :: "vlFSHEADER \<Rightarrow> bool" where
  "gfb_heap_ok H \<longleftrightarrow> GFB_FILE_BYTES \<le> unat (blk_alloc (fs_gfb H)) \<and> unat (blk_alloc (fs_gfb H)) < 32767
     \<and> unat (fs_ftab_alloc H) + unat (blk_alloc (fs_gfb H)) < 65536"

lemma gfb_files_place:
  assumes c: "gfb_counts H s" and f: "gfb_files H fs s" and pk: "packed fs" and hp: "gfb_heap_ok H"
    and p: "gfb_place H h base s"
  shows "base = next_start H fs" "length fs < nat (gfb_window H)"
    "h = nth_header (nth_header GFB_Header_START (unat (blk_used (fs_gfb H)))) (length fs)"
proof -
  let ?w = "nth_header GFB_Header_START (unat (blk_used (fs_gfb H)))" and ?n = "nat (gfb_window H)"
  let ?a = "blk_alloc (fs_gfb H)" and ?t = "fs_ftab_alloc H"
  have win: "window_holds ?w ?n fs s" using f by (simp add: gfb_files_def)
  have pos: "0 < gfb_window H" using gfb_place_header [OF c p] by metis
  then have n: "0 < ?n" "int ?n = gfb_window H" by simp_all
  have alloc: "unat (of_nat GFB_FILE_BYTES :: u16) = GFB_FILE_BYTES"
    using hp by (intro unat_of_nat_u16) (simp add: gfb_heap_ok_def)
  have au: "uint ?a = int (unat ?a)" "uint ?t = int (unat ?t)" "uint (?t + ?a) = int (unat (?t + ?a))"
    "uint (of_nat GFB_FILE_BYTES :: u16) = int (unat (of_nat GFB_FILE_BYTES :: u16))"
    by (rule uint_nat)+
  have "unat (?t + ?a) = unat ?t + unat ?a" using hp by (intro unat_add_u16) (simp add: gfb_heap_ok_def)
  then have diff: "uint (?t + ?a) - uint ?t = uint ?a" using au by simp
  have a2: "uint ?a < 32767" using hp au(1) unfolding gfb_heap_ok_def by linarith
  moreover have "- 32768 \<le> uint ?a" using uint_ge_0 [of ?a] by linarith
  ultimately have g: "to_ot_int (uint (?t + ?a) - uint ?t) = uint ?a"
    unfolding diff by (intro to_ot_int_small) linarith+
  have a1: "uint (of_nat GFB_FILE_BYTES :: u16) \<le> uint ?a"
    using hp au(1,4) unfolding gfb_heap_ok_def alloc by linarith
  show "base = next_start H fs"
    using p heap_places [OF win pk n(1) g a1 a2] unfolding n(2) gfb_place_def Let_def next_start_def by simp
  show l: "length fs < ?n"
  proof (rule ccontr)
    assume "\<not> length fs < ?n"
    then have full: "length fs = ?n" using win by (simp add: window_holds_def)
    obtain j where j: "j < ?n" "vworm_read (nth_header ?w j + 6) s = Some NULL_vaddr"
      using p find_empty_header_cases [of ?w ?n s h] by (auto simp: gfb_place_def Let_def)
    show False using window_entry [OF win j(1)] j full by auto
  qed
  show "h = nth_header ?w (length fs)"
    using p find_empty_header_window [OF win l] by (simp add: gfb_place_def Let_def)
qed

text \<open>The header of a new file changes neither the filesystem header nor another entry of the window.\<close>

lemma vworm_read_fsblock: "fsblock s' = fsblock s \<Longrightarrow> vworm_read a s' = vworm_read a s"
  by (simp add: vworm_read_eq)

lemma gfb_counts_written:
  assumes c: "gfb_counts H s" and i: "i < unat (blk_files (fs_gfb H))"
    and w: "file_written (nth_header GFB_Header_START i) ident md alloc base s s1"
  shows "gfb_counts H s1"
proof -
  have a: "array_ok s GFB_Header_START (unat (blk_files (fs_gfb H)))" using c by (simp add: gfb_counts_def)
  have sz: "fs_size s1 = fs_size s" using w by (simp add: file_written_def fs_size_frame)
  obtain m where m: "fsblock s = Some m" "fsheader_at m 0 = Some H" using c by (auto simp: gfb_counts_def)
  have "0 < fs_size s" using a i unfolding array_ok_def by linarith
  then obtain m1 where m1: "fsblock s1 = Some m1" using sz by (auto simp: fs_size_def split: option.splits)
  have u32: "unat (nth_header GFB_Header_START i) = 32 + 16 * i"
    using unat_nth_header [OF a, of i] i by (simp add: GFB_Header_START_def OVERHEAD_START_VADDR_def)
  have rd: "rd16 m1 k = rd16 m k" if "even k" "k < 32" for k
  proof -
    have "unat (of_nat k :: u16) = k" using that(2) by (intro unat_of_nat_u16) simp
    then have "off_header (nth_header GFB_Header_START i) (of_nat k)"
      using that by (simp add: off_header_def u32)
    then have "vworm_read (of_nat k) s1 = vworm_read (of_nat k) s" using w by (simp add: file_written_def)
    then show ?thesis using vworm_read_lit [OF m(1) that(1)] vworm_read_lit [OF m1 that(1)] that(2) by simp
  qed
  have "fsheader_at m1 0 = fsheader_at m 0" by (simp add: fsheader_at_def blk_at_def rd32_def rd)
  then show ?thesis using c m m1 a by (auto simp: gfb_counts_def array_ok_def sz)
qed

lemma window_written:
  assumes w: "file_written (nth_header h (length fs)) ident md alloc base s s1" and b: "base \<noteq> NULL_vaddr"
    and win: "window_holds h n fs s" and l: "length fs < n" and a: "array_ok s h n"
  shows "window_holds h n (fs @ [(alloc, base)]) s1"
  unfolding window_holds_def
proof (intro conjI allI impI)
  fix j assume j: "j < n"
  show "\<exists>a b. vworm_read (nth_header h j + 2) s1 = Some a \<and> vworm_read (nth_header h j + 6) s1 = Some b
      \<and> (if j < length (fs @ [(alloc, base)]) then (a, b) = (fs @ [(alloc, base)]) ! j \<and> b \<noteq> NULL_vaddr
         else b = NULL_vaddr)"
  proof (cases "j = length fs")
    case True
    then show ?thesis using w b by (simp add: file_written_def)
  next
    case False
    have "vworm_read (nth_header h j + k) s1 = vworm_read (nth_header h j + k) s" if "even (unat k)" "unat k < 16" for k
      using w off_header_other [OF a l j _ that] False by (simp add: file_written_def)
    then have same: "vworm_read (nth_header h j + 2) s1 = vworm_read (nth_header h j + 2) s"
      "vworm_read (nth_header h j + 6) s1 = vworm_read (nth_header h j + 6) s" by simp_all
    obtain c d where "vworm_read (nth_header h j + 2) s = Some c" "vworm_read (nth_header h j + 6) s = Some d"
      "if j < length fs then (c, d) = fs ! j \<and> d \<noteq> NULL_vaddr else d = NULL_vaddr"
      using window_entry [OF win j] by blast
    with same False show ?thesis by (intro exI [of _ c] exI [of _ d]) (auto simp: nth_append)
  qed
qed (use l in simp)

lemma gfb_files_fsblock:
  assumes "fsblock s' = fsblock s"
  shows "gfb_files H fs s' = gfb_files H fs s"
  by (simp add: gfb_files_def window_holds_def vworm_read_fsblock [OF assms])

text \<open>One creation in a packed window.\<close>

lemma vl_new_packed:
  fixes s :: "'a new_state_scheme"
  assumes new: "n_vl_new junk fp0 VL_GFB_BLOCKID ident md len user s = Some (0, fp, s')"
    and c: "gfb_counts H s" and f: "gfb_files H fs s" and pk: "packed fs" and hp: "gfb_heap_ok H"
  shows "\<exists>fd g. fp = Some fd \<and> get_file fd s' = Some g \<and> f_start g = next_start H fs
    \<and> f_alloc g = of_nat GFB_FILE_BYTES
    \<and> gfb_counts H s' \<and> gfb_files H (fs @ [(of_nat GFB_FILE_BYTES, next_start H fs)]) s'"
proof -
  obtain fd h base s0 and s1 :: "'a new_state_scheme" where r: "fp = Some fd" "gfb_place H h base s"
    "get_file fd s' = Some (opened h 0 (of_nat GFB_FILE_BYTES) (join16 ident md) base)"
    "fsblock s0 = fsblock s" "fsblock s' = fsblock s1"
    "file_written h ident md (of_nat GFB_FILE_BYTES) base s0 s1"
    using vl_new_creates [OF new c] by blast
  note pl = gfb_files_place [OF c f pk hp r(2)]
  have c0: "gfb_counts H s0" and f0: "gfb_files H fs s0"
    using c f gfb_counts_fsblock [OF r(4)] gfb_files_fsblock [OF r(4)] by simp_all
  let ?u = "unat (blk_used (fs_gfb H))"
  have i: "?u + length fs < unat (blk_files (fs_gfb H))" using pl(2) gfb_counts_small(3) [OF c] by linarith
  have "gfb_counts H s1"
    by (rule gfb_counts_written [OF c0 i]) (use r(6) pl(3) in \<open>simp add: nth_header_add\<close>)
  moreover have "array_ok s0 (nth_header GFB_Header_START ?u) (nat (gfb_window H))"
    using array_window [of s0 GFB_Header_START "unat (blk_files (fs_gfb H))" ?u "nat (gfb_window H)"] c0
      gfb_counts_small(3) [OF c] by (simp add: gfb_counts_def)
  then have "gfb_files H (fs @ [(of_nat GFB_FILE_BYTES, base)]) s1"
    using window_written [of _ fs ident md _ base s0 s1 "nat (gfb_window H)"] r(2,6) pl(2,3) f0
    by (simp add: gfb_files_def gfb_place_def Let_def)
  ultimately show ?thesis
    using r(1,3) pl(1) gfb_counts_fsblock [OF r(5)] gfb_files_fsblock [OF r(5)] by (simp add: opened_def)
qed

text \<open>
  C12. Three generic files created one after another, in a window without files: the first gets
  the start of the heap and the second the place behind it, but the third gets the place of
  the second and shares its data. (The search sees only gaps greater than zero, so it takes the
  end of the first file for free.)
\<close>

theorem vl_new_third_overlays:
  assumes n1: "n_vl_new j1 p1 VL_GFB_BLOCKID i1 m1 l1 u1 s = Some (0, Some fd1, s1)"
    and n2: "n_vl_new j2 p2 VL_GFB_BLOCKID i2 m2 l2 u2 s1 = Some (0, Some fd2, s2)"
    and n3: "n_vl_new j3 p3 VL_GFB_BLOCKID i3 m3 l3 u3 s2 = Some (0, Some fd3, s3)"
    and c: "gfb_counts H s" and f: "gfb_files H [] s" and hp: "gfb_heap_ok H"
    and room: "2 * GFB_FILE_BYTES \<le> unat (blk_alloc (fs_gfb H))"
  shows "\<exists>g1 g2 g3. get_file fd1 s1 = Some g1 \<and> get_file fd2 s2 = Some g2 \<and> get_file fd3 s3 = Some g3
    \<and> f_start g1 = fs_ftab_alloc H \<and> f_start g2 = f_start g1 + f_alloc g1
    \<and> f_start g3 = f_start g2 \<and> 0 < f_alloc g2"
proof -
  let ?t = "fs_ftab_alloc H" and ?a = "of_nat GFB_FILE_BYTES :: u16"
  have A: "?a = 128" by (simp add: fs_config_defs)
  have "unat ?t + 256 < 65536" using hp room by (simp add: gfb_heap_ok_def fs_config_defs)
  then have u: "unat (?t + 128) = unat ?t + 128" "unat (?t + 256) = unat ?t + 256"
    using unat_add_u16 [of ?t 128] unat_add_u16 [of ?t 256] by simp_all
  have 1: "next_start H [] = ?t" "next_start H [(?a, ?t)] = ?t + 128"
    "next_start H [(?a, ?t), (?a, ?t + 128)] = ?t + 128"
    by (simp_all add: next_start_def A)
  have pk: "packed []" "packed [(?a, ?t)]" "packed [(?a, ?t), (?a, ?t + 128)]"
    using u by (simp_all add: packed_def A word_le_nat_alt add.assoc)
  obtain g1 where g1: "get_file fd1 s1 = Some g1" "f_start g1 = ?t" "f_alloc g1 = ?a"
    "gfb_counts H s1" "gfb_files H [(?a, ?t)] s1"
    using vl_new_packed [OF n1 c f pk(1) hp] by (auto simp: 1)
  obtain g2 where g2: "get_file fd2 s2 = Some g2" "f_start g2 = ?t + 128" "f_alloc g2 = ?a"
    "gfb_counts H s2" "gfb_files H [(?a, ?t), (?a, ?t + 128)] s2"
    using vl_new_packed [OF n2 g1(4,5) pk(2) hp] by (auto simp: 1)
  obtain g3 where "get_file fd3 s3 = Some g3" "f_start g3 = ?t + 128"
    using vl_new_packed [OF n3 g2(4,5) pk(3) hp] by (auto simp: 1)
  then show ?thesis using g1 g2 A by simp
qed

section \<open>Deleting a generic file\<close>

lemma sub_delete_file_spec:
  assumes h: "hdr_ok s h"
  shows "\<exists>s'. sub_delete_file h s = Some s' \<and> block_frame s s'
    \<and> vworm_read (h + 2) s' = Some 0 \<and> vworm_read (h + 6) s' = Some NULL_vaddr
    \<and> (\<forall>b. even_addr b \<notin> {h + 2, h + 6} \<longrightarrow> vworm_read b s' = vworm_read b s)"
proof -
  have e: "even_addr (h + 2) = h + 2" "even_addr (h + 6) = h + 6"
    using h unat_hdr_off [OF h, of 2] unat_hdr_off [OF h, of 6] by (simp_all add: hdr_ok_def)
  have m: "vworm_mapped (h + 2) s" "vworm_mapped (h + 6) s"
    using hdr_mapped [OF h, of 2] hdr_mapped [OF h, of 6] by simp_all
  then obtain a b where ab: "vworm_read (h + 2) s = Some a" "vworm_read (h + 6) s = Some b"
    using vw.rd_iff_mapped [of "h + 2" s] vw.rd_iff_mapped [of "h + 6" s] by auto
  obtain r1 s1 where 1: "vworm_write (h + 2) 0 s = Some (r1, s1)" using m(1) vw.wr_iff_mapped [of "h + 2" 0 s] by auto
  have "vworm_mapped (h + 6) s1" using m(2) vw.mapped_wr [OF 1] by simp
  then obtain r2 s2 where 2: "vworm_write (h + 6) NULL_vaddr s1 = Some (r2, s2)"
    using vw.wr_iff_mapped [of "h + 6" NULL_vaddr s1] by auto
  have "sub_delete_file h s = Some s2" using ab 1 2 by (simp add: sub_delete_file_def vworm_mark_def)
  moreover have "vworm_read (h + 2) s2 = Some 0" using vw.rd_wr_other [OF 2] vw.rd_wr_same [OF 1 refl] e by simp
  moreover have "vworm_read (h + 6) s2 = Some NULL_vaddr" by (rule vw.rd_wr_same [OF 2 refl])
  moreover have "\<forall>b. even_addr b \<notin> {h + 2, h + 6} \<longrightarrow> vworm_read b s2 = vworm_read b s"
    using vw.rd_wr_other [OF 1] vw.rd_wr_other [OF 2] e by simp
  ultimately show ?thesis
    using block_frame_trans [OF vworm_write_block_frame [OF 1] vworm_write_block_frame [OF 2]] by blast
qed

lemma gfb_counts_read: "gfb_counts H s \<Longrightarrow> vworm_read 10 s = Some (blk_files (fs_gfb H))"
proof -
  assume "gfb_counts H s"
  then obtain m where m: "fsblock s = Some m" "fsheader_at m 0 = Some H" by (auto simp: gfb_counts_def)
  have "rd16 m 10 = Some (blk_files (fs_gfb H))"
    using m(2) by (auto simp: fsheader_at_def blk_at_def bind_eq_Some_conv)
  then show ?thesis using vworm_read_lit [OF m(1), of 10] by simp
qed

lemma gfb_search_result:
  assumes c: "gfb_counts H s" and a: "array_ok t GFB_Header_START (unat (blk_files (fs_gfb H)))"
    and r: "vworm_read 10 t = Some (blk_files (fs_gfb H))" and m: "fsblock t = Some m"
  shows "sub_gfb_search ident t = Some (search_result t GFB_Header_START ident (unat (blk_files (fs_gfb H))))"
  using a header_search_spec [of GFB_Header_START "blk_files (fs_gfb H)" t ident]
  by (simp add: gfb_search_header [OF m r] gfb_counts_small(2) [OF c] array_ok_def)

lemma search_result_found:
  assumes "search_result s h ident n \<noteq> NULL_vaddr"
  obtains i where "i < n" "search_result s h ident n = nth_header h i" "id_at s (nth_header h i) ident"
    "i \<noteq> unat ident \<longrightarrow> \<not> (unat ident < n \<and> id_at s (nth_header h (unat ident)) ident)"
proof (cases "unat ident < n \<and> id_at s (nth_header h (unat ident)) ident")
  case True
  then show ?thesis using that [of "unat ident"] by (simp add: search_result_def)
next
  case False
  then obtain i where i: "find (\<lambda>j. hdr_match s (nth_header h j) ident) [0..<n] = Some i"
    using assms by (auto simp: search_result_def split: option.splits)
  then have "i < n" "hdr_match s (nth_header h i) ident" by (auto simp: find_Some_iff)
  moreover have "search_result s h ident n = nth_header h i" unfolding search_result_def if_not_P [OF False] i by simp
  moreover have "id_at s (nth_header h i) ident" using calculation(2) by (auto simp: hdr_match_def id_at_def)
  ultimately show ?thesis using that [of i] False by blast
qed

text \<open>A header that is marked as deleted is left out by the search unless it stands at the position of the id.\<close>

lemma search_result_deleted:
  assumes a: "array_ok s h n" and i: "i < n" and at: "id_at s (nth_header h i) ident"
    and quick: "i \<noteq> unat ident \<longrightarrow> \<not> (unat ident < n \<and> id_at s (nth_header h (unat ident)) ident)"
    and dead: "vworm_read (nth_header h i + 6) s = Some NULL_vaddr"
  shows "search_result s h ident n = nth_header h i \<longleftrightarrow> i = unat ident"
proof (cases "i = unat ident")
  case True
  then show ?thesis using i at by (simp add: search_result_def)
next
  case False
  have "nth_header h j \<noteq> nth_header h i" if "find (\<lambda>j. hdr_match s (nth_header h j) ident) [0..<n] = Some j" for j
  proof
    assume e: "nth_header h j = nth_header h i"
    from that have "hdr_match s (nth_header h j) ident" by (auto simp: find_Some_iff)
    then show False using dead by (simp add: e hdr_match_def NULL_vaddr_def)
  qed
  moreover have "nth_header h i \<noteq> NULL_vaddr" by (rule hdr_not_null [OF array_hdr_ok [OF a i]])
  ultimately show ?thesis using False quick by (auto simp: search_result_def split: option.splits)
qed

text \<open>
  C13. Deleting a generic file marks the header that the search finds (allocation 0, no base) and
  changes nothing else of the block; a user must have read and write access to the file. The id
  stays in the header. If the header does not stand at the position of its id, the file is no
  longer found there. If it does, a search finds it as before, so the file can be opened although
  deleted, and \<^verbatim>\<open>vl_new\<close> refuses the id as taken, to the superuser and to every user that may
  create files.
\<close>

theorem vl_delete_found:
  fixes s :: "'a new_state_scheme"
  assumes del: "n_vl_delete VL_GFB_BLOCKID ident user s = Some (0, s')" and c: "gfb_counts H s"
  shows "\<exists>i w. i < unat (blk_files (fs_gfb H)) \<and> (let h = nth_header GFB_Header_START i in
    sub_gfb_search ident s = Some h \<and> vworm_read (h + 4) s = Some w \<and> lo8 w = ident
    \<and> blk_used (fs_gfb H) < ucast ident \<and> (user = Id_NULL \<or> access_granted s (hi8 w) VL_ACCESS_RW user)
    \<and> vworm_read (h + 2) s' = Some 0 \<and> vworm_read (h + 6) s' = Some NULL_vaddr
    \<and> (\<forall>b. even_addr b \<notin> {h + 2, h + 6} \<longrightarrow> vworm_read b s' = vworm_read b s)
    \<and> (sub_gfb_search ident s' = Some h \<longleftrightarrow> i = unat ident)
    \<and> (i = unat ident \<longrightarrow> (\<forall>u ok t.
        (if u \<noteq> Id_NULL then auth_check VL_ACCESS_USER VL_ACCESS_W u s' else Some (1, s')) = Some (ok, t) \<longrightarrow>
        n_vl_new junk fp0 VL_GFB_BLOCKID ident md len u s' = Some (if ok = 0 then 4 else 2, fp0, t))))"
proof -
  let ?n = "unat (blk_files (fs_gfb H))"
  have a: "array_ok s GFB_Header_START ?n" using c by (simp add: gfb_counts_def)
  obtain m where m: "fsblock s = Some m" "fsheader_at m 0 = Some H" using c by (auto simp: gfb_counts_def)
  note srch = gfb_search_result [OF c a gfb_counts_read [OF c] m(1), of ident]
  from del m have chk: "blk_used (fs_gfb H) < ucast ident"
    by (auto simp: n_vl_delete_def VL_GFB_BLOCKID_def sub_gfb_delete_check_def OVERHEAD_START_VADDR_def split: if_splits)
  have nn: "search_result s GFB_Header_START ident ?n \<noteq> NULL_vaddr"
    using del m chk srch
    by (auto simp: n_vl_delete_def VL_GFB_BLOCKID_def sub_gfb_delete_check_def OVERHEAD_START_VADDR_def split: if_splits)
  obtain i where i: "i < ?n" and res: "search_result s GFB_Header_START ident ?n = nth_header GFB_Header_START i"
    and at: "id_at s (nth_header GFB_Header_START i) ident"
    and quick: "i \<noteq> unat ident \<longrightarrow> \<not> (unat ident < ?n \<and> id_at s (nth_header GFB_Header_START (unat ident)) ident)"
    by (rule search_result_found [OF nn]) blast
  let ?h = "nth_header GFB_Header_START i"
  from at obtain w where w: "vworm_read (?h + 4) s = Some w" "lo8 w = ident" by (auto simp: id_at_def)
  have hk: "hdr_ok s ?h" by (rule array_hdr_ok [OF a i])
  obtain ok s0 where s0: "(if user \<noteq> Id_NULL then auth_check (hi8 w) VL_ACCESS_RW user s else Some (1, s)) = Some (ok, s0)"
    "ok \<noteq> 0" "map_option (\<lambda>s. s\<lparr>vlfs := count_files 0 (- 1) (vlfs s)\<rparr>) (sub_delete_file ?h s0) = Some s'"
    using del m chk srch hdr_not_null [OF hk] w(1)
    by (auto simp: n_vl_delete_def VL_GFB_BLOCKID_def sub_gfb_delete_check_def OVERHEAD_START_VADDR_def res
        bind_eq_Some_conv split: if_splits)
  have fb: "fsblock s0 = fsblock s" using s0(1) auth_check_frame(1) by (auto split: if_splits)
  have sz0: "hdr_ok s0 ?h" using hk by (simp add: hdr_ok_def fs_size_def fb)
  obtain s1 where s1: "sub_delete_file ?h s0 = Some s1" "block_frame s0 s1" "vworm_read (?h + 2) s1 = Some 0"
    "vworm_read (?h + 6) s1 = Some NULL_vaddr"
    "\<forall>b. even_addr b \<notin> {?h + 2, ?h + 6} \<longrightarrow> vworm_read b s1 = vworm_read b s0"
    using sub_delete_file_spec [OF sz0] by blast
  have fb': "fsblock s' = fsblock s1" using s0(3) s1(1) by (auto simp: fsblock_def)
  note rd = vworm_read_fsblock [OF fb'] vworm_read_fsblock [OF fb]
  have same: "vworm_read b s' = vworm_read b s" if "even_addr b \<notin> {?h + 2, ?h + 6}" for b
    using s1(5) that by (simp add: rd)
  have u: "unat (nth_header GFB_Header_START j + k) = 32 + 16 * j + unat k" if "unat k < 16" "j < ?n" for j k
    using unat_hdr_off [OF array_hdr_ok [OF a that(2)] that(1)] unat_nth_header [OF a, of j] that(2)
    by (simp add: GFB_Header_START_def OVERHEAD_START_VADDR_def)
  have uh: "unat (?h + 2) = 34 + 16 * i" "unat (?h + 6) = 38 + 16 * i" using u [of 2 i] u [of 6 i] i by simp_all
  have off: "b \<notin> {?h + 2, ?h + 6}" if "unat b \<noteq> 34 + 16 * i" "unat b \<noteq> 38 + 16 * i" for b
    using that uh by auto
  have "(10 :: u16) \<notin> {?h + 2, ?h + 6}" by (rule off) simp_all
  then have r10: "vworm_read 10 s' = Some (blk_files (fs_gfb H))"
    using same [of 10] gfb_counts_read [OF c] by simp
  have ids: "id_at s' (nth_header GFB_Header_START j) x = id_at s (nth_header GFB_Header_START j) x" if "j < ?n" for j x
  proof -
    let ?b = "nth_header GFB_Header_START j + 4"
    have ub: "unat ?b = 36 + 16 * j" using u [of 4 j] that by simp
    then have "even_addr ?b = ?b" by simp
    moreover have "?b \<notin> {?h + 2, ?h + 6}" by (rule off; unfold ub; presburger)
    ultimately show ?thesis using same [of ?b] by (simp add: id_at_def)
  qed
  have a': "array_ok s' GFB_Header_START ?n"
    using a fs_size_frame [OF s1(2)] by (simp add: array_ok_def fs_size_def fb fb')
  have "0 < fs_size s'" using a' i unfolding array_ok_def by linarith
  then obtain m' where m': "fsblock s' = Some m'" by (auto simp: fs_size_def split: option.splits)
  have dead: "vworm_read (?h + 6) s' = Some NULL_vaddr" using s1(4) by (simp add: rd)
  have "search_result s' GFB_Header_START ident ?n = ?h \<longleftrightarrow> i = unat ident"
    by (rule search_result_deleted [OF a' i _ _ dead]) (use at quick ids i in blast)+
  then have found: "sub_gfb_search ident s' = Some ?h \<longleftrightarrow> i = unat ident"
    by (simp add: gfb_search_result [OF c a' r10 m'])
  have new: "n_vl_new junk fp0 VL_GFB_BLOCKID ident md len u s' = Some (if ok = 0 then 4 else 2, fp0, t)"
    if "i = unat ident" "(if u \<noteq> Id_NULL then auth_check VL_ACCESS_USER VL_ACCESS_W u s' else Some (1, s')) = Some (ok, t)" for u ok t
  proof -
    have "fsblock t = fsblock s'" using that(2) auth_check_frame(1) by (auto split: if_splits)
    from sub_gfb_search_fsblock [OF this, of ident] have "sub_gfb_search ident t = Some ?h" using found that(1) by simp
    then show ?thesis using that(2) hdr_not_null [OF hk] by (simp add: n_vl_new_def VL_GFB_BLOCKID_def)
  qed
  have acc: "user = Id_NULL \<or> access_granted s (hi8 w) VL_ACCESS_RW user"
    using s0(1,2) auth_check_access [of "hi8 w" VL_ACCESS_RW user s] by (auto split: if_splits)
  have m2: "vworm_read (?h + 2) s' = Some 0" using s1(3) by (simp add: rd)
  have srch0: "sub_gfb_search ident s = Some ?h" using srch by (simp add: res)
  show ?thesis unfolding Let_def
    by (intro exI [of _ i] exI [of _ w] conjI allI impI;
        (rule i srch0 w chk acc m2 dead same found new; assumption))
qed

section \<open>Indexed files\<close>

lemma delete_check_loop_iff:
  "(\<And>j. j < n \<Longrightarrow> rd16 m (a + 16 * j + 4) = Some (w j)) \<Longrightarrow>
   delete_check_loop m a ident n = Some (\<exists>j < n. lo8 (w j) = ident)"
  by (induction n) (auto simp: less_Suc_eq)

text \<open>
  The check before an indexed file is deleted looks through the headers below \<^verbatim>\<open>used\<close>, those of the
  stock files: it lets stock files be deleted, and refuses the files that \<^verbatim>\<open>vl_new\<close> creates, whose
  headers follow.
\<close>

lemma isf_delete_check_stock:
  assumes "fsblock s = Some m" and "fsheader_at m 0 = Some H" and "fs_size s < 65536"
    and "start = 32 + 16 * (unat (blk_files (fs_gfb H)) + unat (blk_files (fs_iss H)))"
    and n: "start + 16 * unat (blk_used (fs_isf H)) \<le> fs_size s"
  shows "sub_isf_delete_check ident s = Some (\<exists>j < unat (blk_used (fs_isf H)).
    \<exists>w. vworm_read (nth_header (of_nat start) j + 4) s = Some w \<and> lo8 w = ident)"
proof -
  let ?n = "unat (blk_used (fs_isf H))"
  define w where "w j = join16 (m ! (start + 16 * j + 4)) (m ! Suc (start + 16 * j + 4))" for j
  have len: "length m = fs_size s" by (simp add: fs_size_def assms(1))
  have st: "unat (of_nat start :: u16) = start" by (rule unat_of_nat_u16) (use assms(3) n in linarith)
  have rd: "rd16 m (start + 16 * j + 4) = Some (w j)" if "j < ?n" for j
    using that n by (simp add: rd16_eq_Some len w_def)
  have vr: "vworm_read (nth_header (of_nat start) j + 4) s = Some (w j)" if "j < ?n" for j
    using rd16_quick [OF assms(1), of "of_nat start" j] rd [OF that] that n assms(3,4) unfolding st by simp
  have un: "uint (blk_used (fs_isf H)) = int ?n" by (rule uint_nat)
  have "?n < 4096" using n assms(3) by linarith
  then have "to_ot_int (int ?n - 1) = int ?n - 1" by (intro to_ot_int_small) linarith+
  then have "nat (to_ot_int (uint (blk_used (fs_isf H)) - 1) + 1) = ?n" unfolding un by linarith
  moreover have "OVERHEAD_START_VADDR + 32 + (unat (blk_files (fs_gfb H)) + unat (blk_files (fs_iss H))) * 16 = start"
    by (simp add: assms(4) OVERHEAD_START_VADDR_def)
  ultimately have "sub_isf_delete_check ident s = delete_check_loop m start ident ?n"
    using assms(1,2) by (simp add: sub_isf_delete_check_def OVERHEAD_START_VADDR_def Let_def)
  also have "\<dots> = Some (\<exists>j < ?n. lo8 (w j) = ident)" by (rule delete_check_loop_iff) (rule rd)
  finally show ?thesis using vr by auto
qed

section \<open>The default filesystem\<close>

lemma gfb_search_missing:
  assumes d: "default_ready build_id s" and "2 \<le> unat ident"
  shows "sub_gfb_search ident s = Some NULL_vaddr"
proof -
  from d obtain img where img: "fsblock s = Some img" "length img = 1280"
    "fsheader_at img 0 = Some default_fsheader" "\<forall>i < 2. header_at img (32 + 16 * i) = Some (gfb_header i)"
    by (auto simp: default_ready_def)
  have h: "header_at img 32 = Some (gfb_header 0)" "header_at img 48 = Some (gfb_header 1)"
    using img(4) by (auto dest: spec [of _ 0] spec [of _ 1])
  have rd: "vworm_read 36 s = Some (join16 0 GFB_MOD_standard)" "vworm_read 52 s = Some (join16 1 GFB_MOD_standard)"
    "vworm_read 38 s = Some (of_nat GFB_START_VADDR)" "vworm_read 54 s = Some (of_nat (GFB_START_VADDR + GFB_BLOCK_BYTES))"
    using vworm_read_lit [OF img(1), of 36] vworm_read_lit [OF img(1), of 52]
      vworm_read_lit [OF img(1), of 38] vworm_read_lit [OF img(1), of 54]
      header_at_reads(3,4) [OF h(1)] header_at_reads(3,4) [OF h(2)]
    by (simp_all add: gfb_header_def)
  have "uint ident = int (unat ident)" by (rule uint_nat)
  then have ne: "ident \<noteq> 0" "ident \<noteq> 1" "\<not> uint ident < 2"
    using assms(2) by (auto simp only: unat_0 unat_1)
  have "header_loop 2 32 ident s = Some NULL_vaddr"
    using rd ne by (simp add: numeral_2_eq_2)
  then show ?thesis
    using default_block_fields(1) [OF img(3)] img(1) ne(3)
    by (simp add: sub_gfb_search_def sub_header_search_def GFB_Header_START_def OVERHEAD_START_VADDR_def)
qed

text \<open>
  C40. In the default filesystem the field \<^verbatim>\<open>used\<close> of the header is a number of bytes where this code
  takes it as a number of files: no file can be created (\<^verbatim>\<open>vl_new\<close> answers 6 for every free id of
  either class), no generic file can be deleted, and the check before an indexed file is deleted
  reads behind the end of the filesystem.
\<close>

theorem vl_new_default:
  assumes d: "default_ready build_id s"
  shows "(2 \<le> unat ident \<longrightarrow> n_vl_new junk fp0 VL_GFB_BLOCKID ident md len Id_NULL s = Some (6, None, s))
    \<and> (23 \<le> unat ident \<longrightarrow> n_vl_new junk fp0 VL_ISF_BLOCKID ident md len Id_NULL s = Some (6, None, s))
    \<and> n_vl_delete VL_GFB_BLOCKID ident user s = Some (1, s)
    \<and> n_vl_delete VL_ISF_BLOCKID ident user s = None"
proof -
  from d obtain img where img: "fsblock s = Some img" "length img = 1280" "fsheader_at img 0 = Some default_fsheader"
    by (auto simp: default_ready_def)
  have b: "VL_GFB_BLOCKID - 1 = (0 :: u8)" "VL_ISF_BLOCKID - 1 = (2 :: u8)"
    by (simp_all add: VL_GFB_BLOCKID_def VL_ISF_BLOCKID_def)
  have u: "blk_used (fs_gfb default_fsheader) = 256" "blk_used (fs_isf default_fsheader) = 370"
    by (simp_all add: default_fsheader_def fs_config_defs ISF_STOCK_BYTES_eq)
  have "sub_gfb_new junk ident md x s = Some (None, s)" for x
    using img by (simp add: sub_gfb_new_def OVERHEAD_START_VADDR_def u default_sizes)
  then have g: "2 \<le> unat ident \<Longrightarrow> n_vl_new junk fp0 VL_GFB_BLOCKID ident md len Id_NULL s = Some (6, None, s)"
    using gfb_search_missing [OF d] by (simp add: n_vl_new_def b)
  have "sub_isf_new junk ident md x s = Some (None, s)" for x
    using img by (simp add: sub_isf_new_def OVERHEAD_START_VADDR_def u default_sizes)
  then have i: "23 \<le> unat ident \<Longrightarrow> n_vl_new junk fp0 VL_ISF_BLOCKID ident md len Id_NULL s = Some (6, None, s)"
    using isf_search_missing [OF d] by (simp add: n_vl_new_def b)
  have "\<not> (256 :: u16) < ucast ident"
    using unsigned_less [of ident, where ?'a = nat] by (simp add: word_less_nat_alt unsigned_ucast_eq)
  then have gd: "n_vl_delete VL_GFB_BLOCKID ident user s = Some (1, s)"
    using img by (simp add: n_vl_delete_def b sub_gfb_delete_check_def OVERHEAD_START_VADDR_def u)
  have "delete_check_loop img 64 ident (Suc 369) = None"
    unfolding delete_check_loop.simps(2) using img(2) by (simp add: rd16_def)
  then have "sub_isf_delete_check ident s = None"
    using img by (simp add: sub_isf_delete_check_def OVERHEAD_START_VADDR_def u default_sizes Let_def)
  then have "n_vl_delete VL_ISF_BLOCKID ident user s = None" by (simp add: n_vl_delete_def b)
  then show ?thesis using g i gd by blast
qed

section \<open>Examples\<close>

text \<open>A filesystem that counts generic files as this code takes it: room for four, none of them stock.\<close>

definition demo_new_hdr :: vlFSHEADER where
  "demo_new_hdr = \<lparr>fs_ftab_alloc = 96, fs_res_act0 = 0, fs_res_act2 = 0,
     fs_gfb = \<lparr>blk_alloc = 512, blk_used = 0, blk_files = 4\<rparr>,
     fs_iss = \<lparr>blk_alloc = 0, blk_used = 0, blk_files = 0\<rparr>,
     fs_isf = \<lparr>blk_alloc = 0, blk_used = 0, blk_files = 0\<rparr>, fs_res_time0 = 0, fs_res_time4 = 0\<rparr>"

definition demo_new :: "vlFILE list \<Rightarrow> new_state" where
  "demo_new fs = vl_state.extend
     (demo_vl\<lparr>heap := [5 \<mapsto> fsheader_bytes demo_new_hdr @ replicate 64 0xFF @ replicate 512 0], vlfile := fs\<rparr>)
     \<lparr>vlfs = demo_new_hdr\<rparr>"

abbreviation demo_make :: "u8 \<Rightarrow> 'a new_state_scheme \<Rightarrow> (u8 \<times> nat option \<times> 'a new_state_scheme) option" where
  "demo_make ident \<equiv> n_vl_new (0, 0) None VL_GFB_BLOCKID ident 0x3F 0 Id_NULL"

lemma demo_new_block:
  "fsblock (demo_new fs) = Some (fsheader_bytes demo_new_hdr @ replicate 64 0xFF @ replicate 512 0)"
  by (simp add: demo_new_def demo_vl_def vl_state.extend_def core_state.extend_def fsblock_def)

lemma demo_new_counts: "gfb_counts demo_new_hdr (demo_new fs)"
  unfolding gfb_counts_def array_ok_def fs_size_def demo_new_block
  by (simp add: fsheader_at_bytes demo_new_hdr_def GFB_Header_START_def OVERHEAD_START_VADDR_def)

lemma demo_new_heap: "gfb_heap_ok demo_new_hdr" "2 * GFB_FILE_BYTES \<le> unat (blk_alloc (fs_gfb demo_new_hdr))"
  by (simp_all add: gfb_heap_ok_def demo_new_hdr_def fs_config_defs)

lemma demo_new_reads:
  "map (\<lambda>a. vworm_read a (demo_new (replicate 3 zero_file))) [34, 38, 50, 54, 66, 70, 82, 86] = replicate 8 (Some 0xFFFF)"
  by code_simp

lemma demo_new_empty: "gfb_files demo_new_hdr [] (demo_new (replicate 3 zero_file))"
proof -
  have "vworm_read (nth_header 32 j + 2) (demo_new (replicate 3 zero_file)) = Some 0xFFFF
      \<and> vworm_read (nth_header 32 j + 6) (demo_new (replicate 3 zero_file)) = Some 0xFFFF" if "j < 4" for j
  proof -
    have "j = 0 \<or> j = 1 \<or> j = 2 \<or> j = 3" using that by linarith
    then show ?thesis
      using demo_new_reads by (auto simp: nth_header_def eval_nat_numeral)
  qed
  then show ?thesis
    by (simp add: gfb_files_def window_holds_def gfb_window_def demo_new_hdr_def GFB_Header_START_def
        OVERHEAD_START_VADDR_def NULL_vaddr_def nth_header_def [of _ 0])
qed

lemma demo_three:
  "do { (r1, f1, s) \<leftarrow> demo_make 0 (demo_new (replicate 3 zero_file)); (r2, f2, s) \<leftarrow> demo_make 1 s;
        (r3, f3, s) \<leftarrow> demo_make 2 s; Some (r1, f1, r2, f2, r3, f3) }
   = Some (0, Some 0, 0, Some 1, 0, Some 2)"
  by code_simp

lemma demo_three_calls:
  obtains s1 s2 s3 where "demo_make 0 (demo_new (replicate 3 zero_file)) = Some (0, Some 0, s1)"
    "demo_make 1 s1 = Some (0, Some 1, s2)" "demo_make 2 s2 = Some (0, Some 2, s3)"
  using demo_three by (auto simp: bind_eq_Some_conv)

theorem vl_new_third_overlays_witness:
  "\<exists>s1 s2 s3. demo_make 0 (demo_new (replicate 3 zero_file)) = Some (0, Some 0, s1)
    \<and> demo_make 1 s1 = Some (0, Some 1, s2) \<and> demo_make 2 s2 = Some (0, Some 2, s3)
    \<and> map_option f_start (get_file 2 s3) = map_option f_start (get_file 1 s2)"
proof -
  obtain s1 s2 s3 where s: "demo_make 0 (demo_new (replicate 3 zero_file)) = Some (0, Some 0, s1)"
    "demo_make 1 s1 = Some (0, Some 1, s2)" "demo_make 2 s2 = Some (0, Some 2, s3)"
    by (rule demo_three_calls)
  show ?thesis
    using s vl_new_third_overlays [OF s demo_new_counts demo_new_empty demo_new_heap] by fastforce
qed

theorem vl_new_found_witness:
  "\<exists>s'. demo_make 7 (demo_new (replicate 3 zero_file)) = Some (0, Some 0, s')
    \<and> sub_gfb_search 7 s' = Some 32 \<and> vlfs s' = count_files 0 1 demo_new_hdr"
proof -
  have "do { (r, fp, s) \<leftarrow> demo_make 7 (demo_new (replicate 3 zero_file)); Some (r, fp) } = Some (0, Some 0)"
    by code_simp
  then obtain s' where s': "demo_make 7 (demo_new (replicate 3 zero_file)) = Some (0, Some 0, s')"
    by (auto simp: bind_eq_Some_conv)
  have "sub_find_empty_header 32 4 (demo_new (replicate 3 zero_file)) = Some 32" by code_simp
  moreover have "sub_find_empty_heap 96 608 32 128 4 (demo_new (replicate 3 zero_file)) = Some 96" by code_simp
  ultimately have p: "h = 32 \<and> base = 96" if "gfb_place demo_new_hdr h base (demo_new (replicate 3 zero_file))" for h base
    using that by (simp add: gfb_place_def gfb_window_def demo_new_hdr_def GFB_Header_START_def
        OVERHEAD_START_VADDR_def nth_header_def fs_config_defs)
  have "vlfs (demo_new (replicate 3 zero_file)) = demo_new_hdr" by (simp add: demo_new_def vl_state.extend_def)
  then show ?thesis using vl_new_found [OF s' demo_new_counts] s' p by fastforce
qed

theorem vl_new_no_slot_witness:
  "\<exists>s'. demo_make 7 (demo_new (replicate 3 demo_file)) = Some (6, None, s') \<and> sub_gfb_search 7 s' = Some 32"
proof -
  have "sub_find_empty_header 32 4 (demo_new (replicate 3 demo_file)) = Some 32" by code_simp
  moreover have "sub_find_empty_heap 96 608 32 128 4 (demo_new (replicate 3 demo_file)) = Some 96" by code_simp
  ultimately have p: "gfb_place demo_new_hdr 32 96 (demo_new (replicate 3 demo_file))"
    by (simp add: gfb_place_def gfb_window_def demo_new_hdr_def GFB_Header_START_def NULL_vaddr_def
        OVERHEAD_START_VADDR_def nth_header_def fs_config_defs)
  have "sub_new_fp (demo_new (replicate 3 demo_file)) = None" by code_simp
  moreover have "sub_gfb_search 7 (demo_new (replicate 3 demo_file)) = Some NULL_vaddr" by code_simp
  ultimately show ?thesis using vl_new_no_slot [OF demo_new_counts p, of 7] by fastforce
qed

theorem vl_delete_found_witness:
  "\<exists>s2 s'. do { (_, _, s) \<leftarrow> demo_make 0 (demo_new (replicate 3 zero_file)); demo_make 1 s } = Some (0, Some 1, s2)
    \<and> n_vl_delete VL_GFB_BLOCKID 1 Id_NULL s2 = Some (0, s') \<and> sub_gfb_search 1 s' = Some 48
    \<and> vworm_read 54 s' = Some NULL_vaddr \<and> n_vl_new (0, 0) None VL_GFB_BLOCKID 1 0x3F 16 Id_NULL s' = Some (2, None, s')"
proof -
  have "do { (r, fp, s1) \<leftarrow> demo_make 0 (demo_new (replicate 3 zero_file)); (r2, fp2, s2) \<leftarrow> demo_make 1 s1;
      (d, s') \<leftarrow> n_vl_delete VL_GFB_BLOCKID 1 Id_NULL s2; h \<leftarrow> sub_gfb_search 1 s2;
      Some (r, fp, r2, fp2, d, h) } = Some (0, Some 0, 0, Some 1, 0, 48)" by code_simp
  then obtain s1 s2 s' where s: "demo_make 0 (demo_new (replicate 3 zero_file)) = Some (0, Some 0, s1)"
    "demo_make 1 s1 = Some (0, Some 1, s2)" "n_vl_delete VL_GFB_BLOCKID 1 Id_NULL s2 = Some (0, s')"
    "sub_gfb_search 1 s2 = Some 48"
    by (auto simp: bind_eq_Some_conv)
  have "gfb_counts demo_new_hdr s1" "gfb_files demo_new_hdr [(of_nat GFB_FILE_BYTES, 96)] s1"
    using vl_new_packed [OF s(1) demo_new_counts demo_new_empty _ demo_new_heap(1)]
    by (auto simp: packed_def next_start_def demo_new_hdr_def)
  then have c: "gfb_counts demo_new_hdr s2"
    using vl_new_packed [OF s(2), of demo_new_hdr "[(of_nat GFB_FILE_BYTES, 96)]"] demo_new_heap(1)
    by (auto simp: packed_def fs_config_defs)
  then have a: "array_ok s2 GFB_Header_START (unat (blk_files (fs_gfb demo_new_hdr)))" by (simp add: gfb_counts_def)
  from vl_delete_found [OF s(3) c, of "(0, 0)" None "0x3F" 16] obtain i where i: "i < unat (blk_files (fs_gfb demo_new_hdr))"
    and h: "nth_header GFB_Header_START i = 48" and dead: "vworm_read 54 s' = Some NULL_vaddr"
    and f: "sub_gfb_search 1 s' = Some 48 \<longleftrightarrow> i = 1"
    and n: "i = 1 \<longrightarrow> n_vl_new (0, 0) None VL_GFB_BLOCKID 1 0x3F 16 Id_NULL s' = Some (2, None, s')"
    using s(4) by (auto simp: Let_def)
  have "32 + 16 * i = unat (48 :: u16)"
    using unat_nth_header [OF a, of i] i unfolding h by (simp add: GFB_Header_START_def OVERHEAD_START_VADDR_def)
  then have "i = 1" by simp
  then show ?thesis using s f n dead by auto
qed

definition demo_new_fs :: new_state where
  "demo_new_fs = vl_state.extend demo_fs \<lparr>vlfs = default_fsheader\<rparr>"

theorem vl_new_default_witness:
  "n_vl_new (0, 0) None VL_ISF_BLOCKID 0x30 0x3F 16 Id_NULL demo_new_fs = Some (6, None, demo_new_fs)
   \<and> n_vl_delete VL_ISF_BLOCKID 0x0E Id_NULL demo_new_fs = None"
proof -
  have "default_ready (replicate 9 0x41) demo_new_fs"
    using demo_fs_ready by (simp add: default_ready_def demo_new_fs_def fsblock_def vl_state.extend_def)
  from vl_new_default [OF this, of "0x30"] vl_new_default [OF this, of "0x0E"] show ?thesis by simp
qed

end
