(* ===== verification/Spec2Isabelle.thy ===== *)
theory Spec2Isabelle
  imports Otfs Alp_Writing Ot_Utils Ot_Crypto Ot_Platform C2k_Actions Veelite_New
begin

text \<open>
  A verification development for libotfs, the filesystem library of OpenTag: the Veelite
  filesystem over a block of memory, the table of keys that guards it, the group of filesystems
  the library hands out, and the application layer protocol that serves files to a remote user.

  \<^bold>\<open>The program.\<close> A filesystem is one block of memory: a header that counts the files of three
  classes, an array of 16-byte file headers, and the data. \<^verbatim>\<open>platform/*/otsys_veelite_generic.c\<close>
  reads and writes the block by half-words at virtual addresses; \<^verbatim>\<open>otlib/veelite.c\<close> builds files
  on it (open, load, store, append, close, actions) and asks \<^verbatim>\<open>otlib/auth.c\<close> whether the user of
  a call may have the access. \<^verbatim>\<open>otlib/veelite_multifs.c\<close> keeps several blocks in a Judy array and
  selects one; \<^verbatim>\<open>main/otfs.c\<close> is the interface of the library over it. \<^verbatim>\<open>otlib/queue.c\<close> are the
  byte queues through which \<^verbatim>\<open>otlib/alp_main.c\<close> and its protocols (files, sensors, logger) read
  records and write answers, and which \<^verbatim>\<open>otlib/crypto.c\<close> encrypts with a key of the table.

  \<^bold>\<open>Conventions.\<close> A value \<open>None\<close> is behaviour C leaves undefined (an access outside an object, a
  NULL function called, a signed overflow) or a call that does not return; the error codes of the
  source are values. \<^verbatim>\<open>ot_u8\<close>, \<^verbatim>\<open>ot_u16\<close>, \<^verbatim>\<open>ot_u32\<close> are words of that width, \<^verbatim>\<open>ot_int\<close> an integer
  that every conversion brings into 16 signed bits (\<^const>\<open>to_ot_int\<close>). The static variables of
  the files are fields of one record that each component extends: \<^typ>\<open>time_state\<close> (\<^verbatim>\<open>time_sys\<close>,
  \<^verbatim>\<open>time_start\<close>, and the clock of the operating system), \<open>auth_state\<close> (\<^verbatim>\<open>dlls_nonce\<close>, \<^verbatim>\<open>dlls_size\<close>,
  \<^verbatim>\<open>dlls_info\<close>, \<^verbatim>\<open>dlls_ctx\<close>), \<open>core_state\<close> (\<^verbatim>\<open>fsram\<close>: which block of memory is selected, and the
  blocks), \<open>vl_state\<close> (\<^verbatim>\<open>vlfile\<close>, \<^verbatim>\<open>vlaction\<close>, \<^verbatim>\<open>vlaction_users\<close>), \<open>mf_state\<close> (\<^verbatim>\<open>fstab\<close>),
  \<open>new_state\<close> (\<^verbatim>\<open>vlfs\<close>); for the C2000 \<open>c2_core\<close> (\<^verbatim>\<open>fsram\<close>, an array of words) and \<open>c2_state\<close>. A
  \<^verbatim>\<open>vlFILE*\<close> is the index of its slot, a pointer to bytes a block and an offset.

  \<^bold>\<open>The theories.\<close>
  \<^item> \<^theory_text>\<open>Prelude\<close>: byte lanes of words, virtual addresses, bounds-checked buffers; the locale
    \<open>halfword_store\<close>, the contract between the memory driver and the file layer.
  \<^item> \<^theory_text>\<open>Cmem\<close>: blocks of memory that several components point into, and the copies of
    \<^verbatim>\<open>platform/posix_c/otlib_memcpy.c\<close>.
  \<^item> \<^theory_text>\<open>Ot_Time\<close>: \<^verbatim>\<open>otsys/time.c\<close> with its POSIX driver; the pair of words is a 64-bit clock.
  \<^item> \<^theory_text>\<open>Ot_Auth\<close>, \<^theory_text>\<open>Auth_Init\<close>: \<^verbatim>\<open>otlib/auth.c\<close> and \<^verbatim>\<open>platform/posix_c/otlib_rand.c\<close>: identities, the
    search for a live key, \<^verbatim>\<open>auth_check\<close>, creating, finding and deleting keys, nonces; \<^verbatim>\<open>auth_init\<close>,
    which reads keys from files. Lemmas: the invariant of the table over every sequence of
    operations, soundness of the check, what a search finds.
  \<^item> \<^theory_text>\<open>Ot_Crypto\<close>: \<^verbatim>\<open>otlib/crypto.c\<close>, the driver \<^verbatim>\<open>platform/posix_c/otlib_eax.c\<close> and the functions of
    \<^verbatim>\<open>otlib/auth.c\<close> that encrypt data and queues. The library OTEAX is a parameter.
  \<^item> \<^theory_text>\<open>Ot_Queue\<close>: \<^verbatim>\<open>otlib/queue.c\<close>; the locale \<open>byte_fifo\<close> derives the round trip of all item
    widths from the laws of one byte. \<^theory_text>\<open>C2k_Queue\<close>: \<^verbatim>\<open>platform/c2000/otlib_queue.c\<close>, where memory has
    units of 16 bits; it refines the queue of bytes and is a second instance of the locale.
  \<^item> \<^theory_text>\<open>Ot_Utils\<close>: \<^verbatim>\<open>otlib/utils.c\<close>, texts of numbers and data, timeout codes.
  \<^item> \<^theory_text>\<open>Fs_Config\<close>: \<^verbatim>\<open>include/app/null/fs_config.h\<close> and \<^verbatim>\<open>fs_defaults.h\<close>, the layout and the stock
    data of the default filesystem; the layout is consistent where it is and the two files it
    miscounts are named.
  \<^item> \<^theory_text>\<open>Vworm\<close>: \<^verbatim>\<open>platform/posix_c/otsys_veelite_generic.c\<close>, the instance of \<open>halfword_store\<close>; the
    image that loading the defaults leaves; selecting one block does not touch another.
  \<^item> \<^theory_text>\<open>Veelite\<close>: the definitions of \<^verbatim>\<open>otlib/veelite.c\<close>. \<^theory_text>\<open>Veelite_Data\<close>: store and load, confinement.
    \<^theory_text>\<open>Veelite_Files\<close>: header searches, which find the header that the specification \<open>search_result\<close>
    names, opening with authorisation, closing, the default files.
    \<^theory_text>\<open>Fs_Store\<close>: the files as a map from ids to contents; the locale \<open>file_store\<close> carries the laws of
    one access over to every sequence of accesses. \<^theory_text>\<open>Veelite_Actions\<close>: the table of actions, and
    when \<^verbatim>\<open>vl_close\<close> runs one. \<^theory_text>\<open>Veelite_New\<close>: creating and deleting files in the variant with several
    filesystems, and which deleted files are still found; the fields of the header that the code
    leaves uninitialised are an argument, \<open>junk\<close>.
  \<^item> \<^theory_text>\<open>Csip_Config\<close>, \<^theory_text>\<open>C2k_Config\<close>: the tables of \<^verbatim>\<open>app/csip_master\<close> and \<^verbatim>\<open>app/csip_c2000\<close>. Like
    the table of \<^theory_text>\<open>Fs_Config\<close> they are instances of the locale \<open>file_table\<close>, which derives the layout
    of a table of files from its bases and allocations.
    \<^theory_text>\<open>C2k_Vworm\<close>: \<^verbatim>\<open>platform/c2000/otsys_veelite_generic.c\<close>, a second instance of \<open>halfword_store\<close>.
    \<^theory_text>\<open>C2k_Files\<close>, \<^theory_text>\<open>C2k_Actions\<close>: \<^verbatim>\<open>otlib/veelite.c\<close> as compiled for the C2000.
  \<^item> \<^theory_text>\<open>Ot_Platform\<close>: \<^verbatim>\<open>otlib/buffers.c\<close>, delays, the packing of bytes on the C2000.
  \<^item> \<^theory_text>\<open>Multifs\<close>: \<^verbatim>\<open>otlib/veelite_multifs.c\<close>; the table refines a map from identities to
    filesystems under the documented laws of Judy arrays. \<^theory_text>\<open>Otfs\<close>: \<^verbatim>\<open>main/otfs.c\<close>; creating,
    selecting, iterating and closing a group, and the isolation of its members.
  \<^item> \<^theory_text>\<open>Alp\<close>, \<^theory_text>\<open>Alp_Main\<close>, \<^theory_text>\<open>Alp_Filedata\<close>, \<^theory_text>\<open>Alp_Apps\<close>: the definitions of \<^verbatim>\<open>include/otlib/alp.h\<close>,
    \<^verbatim>\<open>otlib/alp_main.c\<close>, \<^verbatim>\<open>alp_filedata.c\<close>, \<^verbatim>\<open>alp_sensor.c\<close>, \<^verbatim>\<open>alp_logger.c\<close>, \<^verbatim>\<open>alp_tmpl.c\<close>.
    \<^theory_text>\<open>Alp_Fileops\<close>: the commands over a list of file ids, by one locale \<open>id_loop\<close>. \<^theory_text>\<open>Alp_Reading\<close> and
    \<^theory_text>\<open>Alp_Messages\<close>: whole messages and their answers. \<^theory_text>\<open>Alp_Errors\<close>: where the protocol fails.
    \<^theory_text>\<open>Alp_Writing\<close>: write commands on files with any contents, as \<^theory_text>\<open>Fs_Store\<close> describes them.

  \<^bold>\<open>Loops and fuel.\<close> Loops with a counter are recursive functions with a termination proof. A
  loop that may not end (waiting for a lock, closing a group, a read whose answer does not
  advance) is a \<^theory_text>\<open>partial_function\<close>: not returning is \<open>None\<close>, and the theorems about it say that
  it returns. No definition uses fuel.

  \<^bold>\<open>Parameters.\<close> Code that is not in the repository is an argument: the Judy array, with its
  documented laws as \<open>judy_laws\<close> and association lists as an instance; OTEAX, with \<open>eax_laws\<close> and
  a keyed XOR with a checksum as an instance; the key expansion of AES; \<^verbatim>\<open>rand()\<close>; the clock of
  the operating system; the actions that users install on files.

  \<^bold>\<open>Not modelled.\<close>
  \<^item> Code that no build can compile: the first variant of the creation code under \<^verbatim>\<open>VLNEW\<close>, which uses
    constants that no configuration defines, the mirror of files in a second memory, whose body is
    an \<^verbatim>\<open>#error\<close>, and the security protocol, as \<^verbatim>\<open>alp_security.c\<close> refers to functions that do not
    exist. NDEF is a header without code.
  \<^item> The C2000 files that repeat a POSIX one with other widths (random numbers, the encryption
    driver) and its timer, which returns zero.
  \<^item> Input and output: \<^verbatim>\<open>q_print\<close>, the empty logger of \<^verbatim>\<open>otlib/logger.c\<close>, the test programs.
  \<^item> The handle argument of \<^verbatim>\<open>otfs_*\<close> is used as in the source, which keeps its state in static
    variables; concurrent calls are not modelled, as the code has no locks for them.
\<close>

end
